(* ===== verification/Prelude.thy ===== *)
theory Prelude
  imports Main "HOL-Library.AList" "HOL-Library.Char_ord" "HOL-Library.List_Lexorder"
    "HOL-Library.Code_Target_Nat"
begin

text \<open>
  Shared vocabulary of the development.

  \<^item> Rust strings. A \<open>&str\<close> or \<open>String\<close> is the list of its UTF-8 bytes (the library
    type \<open>string\<close>), so \<open>length\<close> is Rust's \<open>len()\<close>, the order is Rust's byte order, and
    \<open>utf8_chars\<close> gives what \<open>chars()\<close> walks over. The functions of Rust's \<open>str\<close> that the
    components use are defined here once.
  \<^item> Unsigned arithmetic that saturates (\<open>u64\<close>, \<open>u32\<close>, \<open>usize\<close>).
  \<^item> Hash maps and B-tree maps, as association lists with distinct keys.
  \<^item> Transition systems: reachability and the invariant rule, as a locale.
  \<^item> Refinement: when a detailed object answers like an abstract one, as a locale.
\<close>

section \<open>Collections of facts\<close>

named_theorems str_simps \<open>facts about the string functions\<close>
named_theorems alist_simps \<open>facts about association lists used as hash maps\<close>

section \<open>Unsigned integers that saturate\<close>

definition u64_max :: nat where
  "u64_max = 18446744073709551615"

definition u32_max :: nat where
  "u32_max = 4294967295"

definition sat_add64 :: "nat \<Rightarrow> nat \<Rightarrow> nat" where
  "sat_add64 a b = min (a + b) u64_max"

definition sat_add32 :: "nat \<Rightarrow> nat \<Rightarrow> nat" where
  "sat_add32 a b = min (a + b) u32_max"

lemma sat_add64_le_max [simp]: "sat_add64 a b \<le> u64_max"
  by (simp add: sat_add64_def)

lemma sat_add64_mono: "a \<le> u64_max \<Longrightarrow> a \<le> sat_add64 a b"
  by (simp add: sat_add64_def)

lemma sat_add64_exact: "a + b \<le> u64_max \<Longrightarrow> sat_add64 a b = a + b"
  by (simp add: sat_add64_def)

lemma sat_add64_commute: "sat_add64 a b = sat_add64 b a"
  by (simp add: sat_add64_def add.commute)

lemma sat_add32_exact: "a + b \<le> u32_max \<Longrightarrow> sat_add32 a b = a + b"
  by (simp add: sat_add32_def)

section \<open>Bytes and characters\<close>

abbreviation byte_of :: "char \<Rightarrow> nat" where
  "byte_of c \<equiv> of_char c"

text \<open>A continuation byte of UTF-8; every other byte starts a character.\<close>

definition is_cont :: "char \<Rightarrow> bool" where
  "is_cont c \<longleftrightarrow> 128 \<le> byte_of c \<and> byte_of c < 192"

function utf8_chars :: "string \<Rightarrow> string list" where
  "utf8_chars [] = []"
| "utf8_chars (c # cs) = (c # takeWhile is_cont cs) # utf8_chars (dropWhile is_cont cs)"
  by pat_completeness auto
termination
  by (relation "measure length") (auto simp: less_Suc_eq_le length_dropWhile_le)

lemma concat_utf8_chars [simp]: "concat (utf8_chars s) = s"
  by (induction s rule: utf8_chars.induct) auto

lemma utf8_chars_nonempty: "c \<in> set (utf8_chars s) \<Longrightarrow> c \<noteq> []"
  by (induction s rule: utf8_chars.induct) auto

lemma length_utf8_chars_le: "length (utf8_chars s) \<le> length s"
proof (induction s rule: utf8_chars.induct)
  case (2 c cs)
  have "length (dropWhile is_cont cs) \<le> length cs"
    by (rule length_dropWhile_le)
  with 2 show ?case by simp
qed simp

definition char_count :: "string \<Rightarrow> nat" where
  "char_count s = length (utf8_chars s)"

definition is_ascii_upper :: "char \<Rightarrow> bool" where
  "is_ascii_upper c \<longleftrightarrow> 65 \<le> byte_of c \<and> byte_of c \<le> 90"

definition is_ascii_lower :: "char \<Rightarrow> bool" where
  "is_ascii_lower c \<longleftrightarrow> 97 \<le> byte_of c \<and> byte_of c \<le> 122"

definition is_ascii_digit :: "char \<Rightarrow> bool" where
  "is_ascii_digit c \<longleftrightarrow> 48 \<le> byte_of c \<and> byte_of c \<le> 57"

definition is_ascii_alnum :: "char \<Rightarrow> bool" where
  "is_ascii_alnum c \<longleftrightarrow> is_ascii_upper c \<or> is_ascii_lower c \<or> is_ascii_digit c"

definition to_lower_byte :: "char \<Rightarrow> char" where
  "to_lower_byte c = (if is_ascii_upper c then char_of (byte_of c + 32) else c)"

definition to_ascii_lowercase :: "string \<Rightarrow> string" where
  "to_ascii_lowercase s = map to_lower_byte s"

definition eq_ignore_ascii_case :: "string \<Rightarrow> string \<Rightarrow> bool" where
  "eq_ignore_ascii_case a b \<longleftrightarrow> to_ascii_lowercase a = to_ascii_lowercase b"

lemma eq_ignore_ascii_case_refl [simp]: "eq_ignore_ascii_case a a"
  by (simp add: eq_ignore_ascii_case_def)

lemma eq_ignore_ascii_case_sym: "eq_ignore_ascii_case a b \<Longrightarrow> eq_ignore_ascii_case b a"
  by (simp add: eq_ignore_ascii_case_def)

lemma eq_ignore_ascii_case_trans:
  "eq_ignore_ascii_case a b \<Longrightarrow> eq_ignore_ascii_case b c \<Longrightarrow> eq_ignore_ascii_case a c"
  by (simp add: eq_ignore_ascii_case_def)

lemma length_to_ascii_lowercase [simp]: "length (to_ascii_lowercase s) = length s"
  by (simp add: to_ascii_lowercase_def)

text \<open>The characters with the Unicode property \<open>White_Space\<close>, in UTF-8.\<close>

definition white_space :: "string list" where
  "white_space =
     map (\<lambda>n. [char_of n]) [9, 10, 11, 12, 13, 32 :: nat] @
     map (map char_of)
       ([[194, 133], [194, 160], [225, 154, 128]] @
        map (\<lambda>n. [226, 128, n]) [128 ..< 139] @
        [[226, 128, 168], [226, 128, 169], [226, 128, 175], [226, 129, 159], [227, 128, 128 :: nat]])"

definition is_whitespace :: "string \<Rightarrow> bool" where
  "is_whitespace ch \<longleftrightarrow> ch \<in> set white_space"

text \<open>\<open>char::is_control\<close>: the category Cc.\<close>

definition is_control :: "string \<Rightarrow> bool" where
  "is_control ch =
     (case ch of
        [c] \<Rightarrow> byte_of c < 32 \<or> byte_of c = 127
      | [a, b] \<Rightarrow> byte_of a = 194 \<and> 128 \<le> byte_of b \<and> byte_of b < 160
      | _ \<Rightarrow> False)"

definition trim_chars :: "string list \<Rightarrow> string list" where
  "trim_chars cs = rev (dropWhile is_whitespace (rev (dropWhile is_whitespace cs)))"

text \<open>Rust's \<open>str::trim\<close>.\<close>

definition trim :: "string \<Rightarrow> string" where
  "trim s = concat (trim_chars (utf8_chars s))"

lemma trim_Nil [simp]: "trim [] = []"
  by (simp add: trim_def trim_chars_def)

section \<open>Prefixes, suffixes, searching\<close>

fun strip_prefix :: "string \<Rightarrow> string \<Rightarrow> string option" where
  "strip_prefix [] s = Some s"
| "strip_prefix (p # ps) [] = None"
| "strip_prefix (p # ps) (c # cs) = (if p = c then strip_prefix ps cs else None)"

definition starts_with :: "string \<Rightarrow> string \<Rightarrow> bool" where
  "starts_with p s \<longleftrightarrow> strip_prefix p s \<noteq> None"

definition strip_suffix :: "string \<Rightarrow> string \<Rightarrow> string option" where
  "strip_suffix p s = map_option rev (strip_prefix (rev p) (rev s))"

definition ends_with :: "string \<Rightarrow> string \<Rightarrow> bool" where
  "ends_with p s \<longleftrightarrow> strip_suffix p s \<noteq> None"

lemma strip_prefix_Some [str_simps]: "strip_prefix p s = Some r \<longleftrightarrow> s = p @ r"
  by (induction p s rule: strip_prefix.induct) auto

lemma strip_suffix_Some [str_simps]: "strip_suffix p s = Some r \<longleftrightarrow> s = r @ p"
proof -
  have "strip_suffix p s = Some r \<longleftrightarrow> strip_prefix (rev p) (rev s) = Some (rev r)"
    by (auto simp: strip_suffix_def)
  also have "\<dots> \<longleftrightarrow> rev s = rev p @ rev r"
    by (simp add: strip_prefix_Some)
  also have "\<dots> \<longleftrightarrow> s = r @ p"
    by (metis rev_append rev_is_rev_conv)
  finally show ?thesis .
qed

lemma starts_with_iff [str_simps]: "starts_with p s \<longleftrightarrow> (\<exists>r. s = p @ r)"
  by (auto simp: starts_with_def strip_prefix_Some)

lemma ends_with_iff [str_simps]: "ends_with p s \<longleftrightarrow> (\<exists>r. s = r @ p)"
  by (auto simp: ends_with_def strip_suffix_Some)

text \<open>\<open>find_str\<close> is \<open>str::find\<close> with a string pattern: the byte offset of the first match.\<close>

fun find_str :: "string \<Rightarrow> string \<Rightarrow> nat option" where
  "find_str p [] = (if p = [] then Some 0 else None)"
| "find_str p (c # cs) =
     (if starts_with p (c # cs) then Some 0 else map_option Suc (find_str p cs))"

lemma find_str_Some:
  "find_str p s = Some i \<Longrightarrow> i \<le> length s \<and> (\<exists>r. drop i s = p @ r)"
proof (induction s arbitrary: i)
  case Nil
  then show ?case by (auto split: if_splits)
next
  case (Cons c cs)
  show ?case
  proof (cases "starts_with p (c # cs)")
    case True
    with Cons.prems show ?thesis by (auto simp: str_simps)
  next
    case False
    with Cons.prems obtain j where "find_str p cs = Some j" and "i = Suc j"
      by auto
    with Cons.IH [of j] show ?thesis by auto
  qed
qed

text \<open>\<open>split_on\<close> is \<open>str::split\<close> with a predicate on bytes (used with ASCII separators only).\<close>

fun split_on :: "(char \<Rightarrow> bool) \<Rightarrow> string \<Rightarrow> string list" where
  "split_on P [] = [[]]"
| "split_on P (c # cs) =
     (if P c then [] # split_on P cs
      else case split_on P cs of [] \<Rightarrow> [[c]] | w # ws \<Rightarrow> (c # w) # ws)"

lemma split_on_nonempty [simp]: "split_on P s \<noteq> []"
  by (induction s) (auto split: list.splits)

fun join :: "string \<Rightarrow> string list \<Rightarrow> string" where
  "join sep [] = []"
| "join sep [x] = x"
| "join sep (x # y # xs) = x @ sep @ join sep (y # xs)"

section \<open>Decimal numerals\<close>

text \<open>\<open>show_nat\<close> is Rust's \<open>{}\<close> for an unsigned integer; \<open>show_padded\<close> is \<open>{:0w}\<close>.\<close>

fun digits_of :: "nat \<Rightarrow> string" where
  "digits_of n = (if n < 10 then [char_of (48 + n)] else digits_of (n div 10) @ [char_of (48 + n mod 10)])"

declare digits_of.simps [simp del]

definition show_nat :: "nat \<Rightarrow> string" where
  "show_nat n = digits_of n"

definition show_padded :: "nat \<Rightarrow> nat \<Rightarrow> string" where
  "show_padded w n = replicate (w - length (show_nat n)) (CHR ''0'') @ show_nat n"

definition value_of :: "string \<Rightarrow> nat" where
  "value_of s = foldl (\<lambda>a c. 10 * a + (byte_of c - 48)) 0 s"

lemma value_of_digits: "value_of (digits_of n) = n"
proof (induction n rule: digits_of.induct)
  case (1 n)
  show ?case
  proof (cases "n < 10")
    case True
    then show ?thesis by (subst digits_of.simps) (simp add: value_of_def)
  next
    case False
    with 1 have "value_of (digits_of (n div 10)) = n div 10" by simp
    with False show ?thesis by (subst digits_of.simps) (simp add: value_of_def)
  qed
qed

lemma show_nat_inj [str_simps]: "show_nat a = show_nat b \<longleftrightarrow> a = b"
  unfolding show_nat_def by (metis value_of_digits)

lemma digits_of_digit: "c \<in> set (digits_of n) \<Longrightarrow> is_ascii_digit c"
proof (induction n rule: digits_of.induct)
  case (1 n)
  then show ?case
    by (cases "n < 10") (auto simp: digits_of.simps [of n] is_ascii_digit_def)
qed

lemma show_nat_nonempty [simp]: "show_nat n \<noteq> []"
  by (simp add: show_nat_def digits_of.simps [of n])

text \<open>\<open>str::parse\<close> to an unsigned integer of a given maximum: an optional \<open>+\<close>, then decimal
  digits; an empty string, another character or an overflow is an error.\<close>

definition parse_unsigned :: "nat \<Rightarrow> string \<Rightarrow> nat option" where
  "parse_unsigned mx s =
     (let d = (case strip_prefix ''+'' s of Some r \<Rightarrow> r | None \<Rightarrow> s)
      in if d = [] \<or> \<not> list_all is_ascii_digit d \<or> mx < value_of d then None else Some (value_of d))"

lemma parse_show_nat:
  assumes "n \<le> mx"
  shows "parse_unsigned mx (show_nat n) = Some n"
proof -
  have no_plus: "strip_prefix ''+'' (show_nat n) = None"
  proof (cases "strip_prefix ''+'' (show_nat n)")
    case (Some r)
    then have "CHR ''+'' \<in> set (digits_of n)"
      by (simp add: str_simps show_nat_def)
    from digits_of_digit [OF this] show ?thesis by (simp add: is_ascii_digit_def)
  qed
  have "list_all is_ascii_digit (show_nat n)"
    by (auto simp: list_all_iff show_nat_def digits_of_digit)
  moreover have "value_of (show_nat n) = n"
    unfolding show_nat_def by (rule value_of_digits)
  ultimately show ?thesis
    using no_plus assms by (simp add: parse_unsigned_def)
qed

text \<open>A search for the first number whose name is not taken ends, because the names are
  distinct and finitely many are taken.\<close>

lemma fresh_measure:
  assumes "finite S" and "inj f" and "f n \<in> S"
  shows "card {k :: nat. Suc n \<le> k \<and> f k \<in> S} < card {k. n \<le> k \<and> f k \<in> S}"
proof (rule psubset_card_mono)
  show "finite {k. n \<le> k \<and> f k \<in> S}"
    using finite_vimageI [OF assms(1,2)] by (rule rev_finite_subset) auto
  show "{k. Suc n \<le> k \<and> f k \<in> S} \<subset> {k. n \<le> k \<and> f k \<in> S}"
  proof
    show "{k. Suc n \<le> k \<and> f k \<in> S} \<noteq> {k. n \<le> k \<and> f k \<in> S}"
      using assms(3) by (metis (mono_tags, lifting) mem_Collect_eq not_less_eq_eq order_refl)
  qed auto
qed

section \<open>Association lists as maps\<close>

abbreviation keys_of :: "('k \<times> 'v) list \<Rightarrow> 'k list" where
  "keys_of m \<equiv> map fst m"

abbreviation distinct_keys :: "('k \<times> 'v) list \<Rightarrow> bool" where
  "distinct_keys m \<equiv> distinct (map fst m)"

definition get_or :: "'v \<Rightarrow> ('k \<times> 'v) list \<Rightarrow> 'k \<Rightarrow> 'v" where
  "get_or d m k = (case map_of m k of None \<Rightarrow> d | Some v \<Rightarrow> v)"

text \<open>\<open>HashMap::retain\<close> keeps the entries that satisfy a predicate.\<close>

definition retain :: "('k \<Rightarrow> 'v \<Rightarrow> bool) \<Rightarrow> ('k \<times> 'v) list \<Rightarrow> ('k \<times> 'v) list" where
  "retain P m = filter (\<lambda>(k, v). P k v) m"

lemma distinct_keys_retain [alist_simps, simp]: "distinct_keys m \<Longrightarrow> distinct_keys (retain P m)"
  unfolding retain_def by (induction m) auto

lemma length_retain_le: "length (retain P m) \<le> length m"
  by (simp add: retain_def)

lemma map_of_retain [alist_simps]:
  "distinct_keys m \<Longrightarrow>
     map_of (retain P m) k = (case map_of m k of None \<Rightarrow> None | Some v \<Rightarrow> if P k v then Some v else None)"
  unfolding retain_def
  by (induction m) (auto simp: map_of_eq_None_iff rev_image_eqI split: option.splits)

lemma distinct_keys_update [alist_simps, simp]: "distinct_keys m \<Longrightarrow> distinct_keys (AList.update k v m)"
  by (rule distinct_update)

lemma distinct_keys_delete [alist_simps, simp]: "distinct_keys m \<Longrightarrow> distinct_keys (AList.delete k m)"
  by (rule distinct_delete)

lemma map_of_update [alist_simps]: "map_of (AList.update k v m) = (map_of m)(k \<mapsto> v)"
  by (rule update_conv')

lemma map_of_delete [alist_simps]: "map_of (AList.delete k m) = (map_of m)(k := None)"
  by (rule delete_conv')

lemma length_update_le: "length (AList.update k v m) \<le> Suc (length m)"
  by (induction m) auto

lemma length_delete_less: "map_of m k \<noteq> None \<Longrightarrow> length (AList.delete k m) < length m"
  by (induction m) (auto simp: AList.delete_eq le_imp_less_Suc split: if_splits)

lemma length_delete_le: "length (AList.delete k m) \<le> length m"
  by (simp add: AList.delete_eq)

text \<open>Overwriting the value of a present key keeps the keys, and every projection it agrees on.\<close>

lemma keys_update_present: "map_of m k \<noteq> None \<Longrightarrow> map fst (AList.update k v m) = map fst m"
  by (induction m) auto

lemma proj_update_present:
  "map_of m k = Some w \<Longrightarrow> g v = g w \<Longrightarrow>
     map (\<lambda>(_, x). g x) (AList.update k v m) = map (\<lambda>(_, x). g x) m"
  by (induction m) auto

lemma set_update_subset: "set (AList.update k v m) \<subseteq> insert (k, v) (set m)"
  by (induction m) auto

lemma set_delete_subset: "set (AList.delete k m) \<subseteq> set m"
  by (auto simp: AList.delete_eq)

section \<open>Transition systems\<close>

text \<open>
  A component whose operations are steps: the states reachable from an initial state, and the
  invariant rule. Each component that keeps state interprets the locale on its own step
  relation and gets its invariant in every reachable state.
\<close>

inductive reachable :: "('s \<Rightarrow> bool) \<Rightarrow> ('s \<Rightarrow> 's \<Rightarrow> bool) \<Rightarrow> 's \<Rightarrow> bool"
  for init :: "'s \<Rightarrow> bool" and step :: "'s \<Rightarrow> 's \<Rightarrow> bool" where
  reach_init: "init s \<Longrightarrow> reachable init step s"
| reach_step: "reachable init step s \<Longrightarrow> step s t \<Longrightarrow> reachable init step t"

locale invariant_system =
  fixes init :: "'s \<Rightarrow> bool" and step :: "'s \<Rightarrow> 's \<Rightarrow> bool" and inv :: "'s \<Rightarrow> bool"
  assumes inv_init: "init s \<Longrightarrow> inv s"
    and inv_step: "inv s \<Longrightarrow> step s t \<Longrightarrow> inv t"
begin

lemma reachable_inv: "reachable init step s \<Longrightarrow> inv s"
  by (induction rule: reachable.induct) (auto intro: inv_init inv_step)

lemma run_inv: "step\<^sup>*\<^sup>* s t \<Longrightarrow> inv s \<Longrightarrow> inv t"
  by (induction rule: rtranclp_induct) (auto intro: inv_step)

end

section \<open>Refinement\<close>

text \<open>
  An object is a function from an input and a state to an answer and a state. A detailed object
  refines an abstract one when related states answer alike and stay related, for every input the
  abstract one admits; then the two give the same answers on every admissible sequence of inputs.
\<close>

fun answers :: "('i \<Rightarrow> 's \<Rightarrow> 'o \<times> 's) \<Rightarrow> 'i list \<Rightarrow> 's \<Rightarrow> 'o list" where
  "answers f [] s = []"
| "answers f (i # is) s = fst (f i s) # answers f is (snd (f i s))"

fun admissible :: "('i \<Rightarrow> 's \<Rightarrow> bool) \<Rightarrow> ('i \<Rightarrow> 's \<Rightarrow> 'o \<times> 's) \<Rightarrow> 'i list \<Rightarrow> 's \<Rightarrow> bool" where
  "admissible pre f [] s = True"
| "admissible pre f (i # is) s = (pre i s \<and> admissible pre f is (snd (f i s)))"

locale refinement =
  fixes rel :: "'c \<Rightarrow> 'a \<Rightarrow> bool" and conc :: "'i \<Rightarrow> 'c \<Rightarrow> 'o \<times> 'c" and abst :: "'i \<Rightarrow> 'a \<Rightarrow> 'o \<times> 'a"
    and pre :: "'i \<Rightarrow> 'a \<Rightarrow> bool"
  assumes same_answer: "rel c a \<Longrightarrow> pre i a \<Longrightarrow> fst (conc i c) = fst (abst i a)"
    and stay_related: "rel c a \<Longrightarrow> pre i a \<Longrightarrow> rel (snd (conc i c)) (snd (abst i a))"
begin

lemma answers_agree: "rel c a \<Longrightarrow> admissible pre abst is a \<Longrightarrow> answers conc is c = answers abst is a"
  by (induction "is" arbitrary: c a) (auto simp: same_answer intro: stay_related)

end

end
