(* ===== verification/SessionStore.thy ===== *)
theory SessionStore
  imports Prelude
begin

text \<open>
  The bounded, expiring map of \<open>session_store.rs\<close>, which holds shaped results, pseudonym maps
  and pending approvals.

  A store is a record with the fields of the struct. The hash map of entries is an association
  list with distinct keys; its order stands for the hash map's iteration order, which no
  theorem depends on. An \<open>Instant\<close> is a number of milliseconds, the clock is read once per
  operation and passed as \<open>now\<close>, and \<open>elapsed()\<close> is subtraction that stops at 0, as Rust's does.
  An operation that the Rust code runs on \<open>&mut self\<close> returns the new store and its result.
\<close>

section \<open>State\<close>

record 'v session_entry =
  entry_value :: 'v
  last_seen :: nat
  seq :: nat

record 'v session_store =
  entries :: "(string \<times> 'v session_entry) list"
  ttl :: nat
  cap :: nat
  next_seq :: nat

definition new_store :: "nat \<Rightarrow> nat \<Rightarrow> 'v session_store" where
  "new_store t c = \<lparr>entries = [], ttl = t, cap = max c 1, next_seq = 0\<rparr>"

lemma new_store_simps [simp]:
  "entries (new_store t c) = []" "ttl (new_store t c) = t" "cap (new_store t c) = max c 1"
  "next_seq (new_store t c) = 0"
  by (simp_all add: new_store_def)

definition store_len :: "'v session_store \<Rightarrow> nat" where
  "store_len s = length (entries s)"

definition store_is_empty :: "'v session_store \<Rightarrow> bool" where
  "store_is_empty s \<longleftrightarrow> entries s = []"

section \<open>Operations\<close>

definition elapsed :: "nat \<Rightarrow> 'v session_entry \<Rightarrow> nat" where
  "elapsed now e = now - last_seen e"

definition is_expired :: "nat \<Rightarrow> string \<Rightarrow> 'v session_store \<Rightarrow> bool" where
  "is_expired now k s =
     (case map_of (entries s) k of None \<Rightarrow> False | Some e \<Rightarrow> ttl s \<le> elapsed now e)"

definition reap_expired :: "nat \<Rightarrow> 'v session_store \<Rightarrow> 'v session_store \<times> nat" where
  "reap_expired now s =
     (let s' = s\<lparr>entries := retain (\<lambda>_ e. elapsed now e < ttl s) (entries s)\<rparr>
      in (s', store_len s - store_len s'))"

text \<open>\<open>min_by_key\<close> over the entries: the first entry with the least sequence number.\<close>

fun oldest_entry :: "(string \<times> 'v session_entry) list \<Rightarrow> (string \<times> 'v session_entry) option" where
  "oldest_entry [] = None"
| "oldest_entry (x # xs) =
     (case oldest_entry xs of
        None \<Rightarrow> Some x
      | Some y \<Rightarrow> if seq (snd x) \<le> seq (snd y) then Some x else Some y)"

definition remove_oldest :: "'v session_store \<Rightarrow> 'v session_store \<times> bool" where
  "remove_oldest s =
     (case oldest_entry (entries s) of
        Some (k, _) \<Rightarrow> (s\<lparr>entries := AList.delete k (entries s)\<rparr>, True)
      | None \<Rightarrow> (s, False))"

lemma oldest_entry_in: "oldest_entry xs = Some x \<Longrightarrow> x \<in> set xs"
  by (induction xs arbitrary: x) (auto split: option.splits if_splits)

lemma oldest_entry_None: "oldest_entry xs = None \<longleftrightarrow> xs = []"
  by (cases xs) (auto split: option.splits)

lemma remove_oldest_shrinks:
  assumes "entries s \<noteq> []"
  shows "store_len (fst (remove_oldest s)) < store_len s"
proof -
  from assms obtain k e where o: "oldest_entry (entries s) = Some (k, e)"
    by (metis oldest_entry_None option.exhaust surj_pair)
  then have "map_of (entries s) k \<noteq> None"
    using oldest_entry_in [OF o] by (auto simp: map_of_eq_None_iff rev_image_eqI)
  with o show ?thesis
    by (simp add: store_len_def remove_oldest_def length_delete_less)
qed

text \<open>The loop at the end of \<open>insert\<close>.\<close>

function evict_over_cap :: "'v session_store \<Rightarrow> 'v session_store" where
  "evict_over_cap s = (if cap s < store_len s then evict_over_cap (fst (remove_oldest s)) else s)"
  by pat_completeness auto
termination
proof (relation "measure store_len")
  fix s :: "'v session_store"
  assume "cap s < store_len s"
  then have "entries s \<noteq> []" by (auto simp: store_len_def)
  then show "(fst (remove_oldest s), s) \<in> measure store_len"
    by (simp add: remove_oldest_shrinks)
qed simp

declare evict_over_cap.simps [simp del]

definition insert_entry :: "nat \<Rightarrow> string \<Rightarrow> 'v \<Rightarrow> 'v session_store \<Rightarrow> 'v session_store" where
  "insert_entry now k v s =
     (let s1 = fst (reap_expired now s);
          q = next_seq s1;
          s2 = s1\<lparr>next_seq := q + 1,
                  entries := AList.update k \<lparr>entry_value = v, last_seen = now, seq = q\<rparr> (entries s1)\<rparr>
      in evict_over_cap s2)"

text \<open>\<open>f\<close> is the closure on the entry: it returns the value it leaves and its result.\<close>

definition with_entry ::
  "nat \<Rightarrow> string \<Rightarrow> ('v \<Rightarrow> 'v \<times> 'r) \<Rightarrow> 'v session_store \<Rightarrow> 'v session_store \<times> 'r option" where
  "with_entry now k f s =
     (if is_expired now k s then (s\<lparr>entries := AList.delete k (entries s)\<rparr>, None)
      else case map_of (entries s) k of
             None \<Rightarrow> (s, None)
           | Some e \<Rightarrow>
               let (v', r) = f (entry_value e)
               in (s\<lparr>entries := AList.update k (e\<lparr>entry_value := v', last_seen := now\<rparr>) (entries s)\<rparr>,
                   Some r))"

text \<open>The result is \<open>None\<close> where the Rust code panics on its \<open>expect\<close>.\<close>

definition get_or_insert_with ::
  "nat \<Rightarrow> string \<Rightarrow> 'v \<Rightarrow> ('v \<Rightarrow> 'v \<times> 'r) \<Rightarrow> 'v session_store \<Rightarrow> ('v session_store \<times> 'r) option" where
  "get_or_insert_with now k mk f s =
     (let s1 = (if is_expired now k s then s\<lparr>entries := AList.delete k (entries s)\<rparr> else s);
          s2 = (if map_of (entries s1) k = None then insert_entry now k mk s1 else s1)
      in case map_of (entries s2) k of
           None \<Rightarrow> None
         | Some e \<Rightarrow>
             let (v', r) = f (entry_value e)
             in Some (s2\<lparr>entries := AList.update k (e\<lparr>entry_value := v', last_seen := now\<rparr>) (entries s2)\<rparr>, r))"

definition get_entry :: "nat \<Rightarrow> string \<Rightarrow> 'v session_store \<Rightarrow> 'v option" where
  "get_entry now k s =
     (if is_expired now k s then None else map_option entry_value (map_of (entries s) k))"

definition peek_entry :: "nat \<Rightarrow> string \<Rightarrow> ('v \<Rightarrow> 'r) \<Rightarrow> 'v session_store \<Rightarrow> 'r option" where
  "peek_entry now k f s =
     (if is_expired now k s then None else map_option (\<lambda>e. f (entry_value e)) (map_of (entries s) k))"

definition remove_entry :: "string \<Rightarrow> 'v session_store \<Rightarrow> 'v session_store \<times> 'v option" where
  "remove_entry k s =
     (s\<lparr>entries := AList.delete k (entries s)\<rparr>, map_option entry_value (map_of (entries s) k))"

definition clear_store :: "'v session_store \<Rightarrow> 'v session_store" where
  "clear_store s = s\<lparr>entries := []\<rparr>"

definition remove_where :: "(string \<Rightarrow> 'v \<Rightarrow> bool) \<Rightarrow> 'v session_store \<Rightarrow> 'v session_store \<times> nat" where
  "remove_where P s =
     (let s' = s\<lparr>entries := retain (\<lambda>k e. \<not> P k (entry_value e)) (entries s)\<rparr>
      in (s', store_len s - store_len s'))"

definition store_weight :: "('v \<Rightarrow> nat) \<Rightarrow> 'v session_store \<Rightarrow> nat" where
  "store_weight w s = sum_list (map (\<lambda>(_, e). w (entry_value e)) (entries s))"

section \<open>The invariant\<close>

text \<open>
  Keys are distinct, sequence numbers are distinct and below the next one, and the number of
  entries is within the cap, which is at least one.
\<close>

definition entries_ok :: "nat \<Rightarrow> (string \<times> 'v session_entry) list \<Rightarrow> bool" where
  "entries_ok n es \<longleftrightarrow>
     distinct_keys es \<and> distinct (map (\<lambda>(_, e). seq e) es) \<and> (\<forall>(_, e) \<in> set es. seq e < n)"

definition store_inv :: "'v session_store \<Rightarrow> bool" where
  "store_inv s \<longleftrightarrow> entries_ok (next_seq s) (entries s) \<and> store_len s \<le> cap s \<and> 1 \<le> cap s"

lemma entries_ok_filter: "entries_ok n es \<Longrightarrow> entries_ok n (filter P es)"
  unfolding entries_ok_def
  by (auto simp: distinct_map intro: inj_on_subset)

lemma entries_ok_retain: "entries_ok n es \<Longrightarrow> entries_ok n (retain P es)"
  unfolding retain_def by (rule entries_ok_filter)

lemma entries_ok_delete: "entries_ok n es \<Longrightarrow> entries_ok n (AList.delete k es)"
  by (simp add: AList.delete_eq entries_ok_filter)

lemma entries_ok_alt:
  "entries_ok n es \<longleftrightarrow>
     distinct_keys es \<and> distinct (map (\<lambda>(_, e). seq e) es) \<and>
     (\<forall>q \<in> set (map (\<lambda>(_, e). seq e) es). q < n)"
  by (auto simp: entries_ok_def)

lemma entries_ok_touch:
  "entries_ok n es \<Longrightarrow> map_of es k = Some e \<Longrightarrow> seq e' = seq e \<Longrightarrow> entries_ok n (AList.update k e' es)"
  unfolding entries_ok_alt
  by (elim conjE, simp only: proj_update_present keys_update_present option.distinct simp_thms)

lemma entries_ok_put:
  assumes "entries_ok n es"
  shows "entries_ok (n + 1) (AList.update k \<lparr>entry_value = v, last_seen = t, seq = n\<rparr> es)"
  using assms
proof (induction es)
  case Nil
  then show ?case by (simp add: entries_ok_def)
next
  case (Cons x es)
  obtain k1 e1 where x: "x = (k1, e1)" by (cases x)
  have ok: "entries_ok n es" using Cons.prems x by (auto simp: entries_ok_def)
  note ih = Cons.IH [OF ok]
  have sub: "set (AList.update k \<lparr>entry_value = v, last_seen = t, seq = n\<rparr> es)
      \<subseteq> insert (k, \<lparr>entry_value = v, last_seen = t, seq = n\<rparr>) (set es)"
    by (rule set_update_subset)
  show ?case
  proof (cases "k = k1")
    case True
    with Cons.prems x show ?thesis by (auto simp: entries_ok_def)
  next
    case False
    then show ?thesis
      using ih x Cons.prems sub
      by (fastforce simp: entries_ok_def)
  qed
qed

lemma reap_expired_simps [simp]:
  "ttl (fst (reap_expired now s)) = ttl s" "cap (fst (reap_expired now s)) = cap s"
  "next_seq (fst (reap_expired now s)) = next_seq s"
  "entries (fst (reap_expired now s)) = retain (\<lambda>_ e. elapsed now e < ttl s) (entries s)"
  by (simp_all add: reap_expired_def Let_def)

lemma remove_oldest_simps [simp]:
  "ttl (fst (remove_oldest s)) = ttl s" "cap (fst (remove_oldest s)) = cap s"
  "next_seq (fst (remove_oldest s)) = next_seq s"
  by (auto simp: remove_oldest_def split: option.splits)

lemma remove_oldest_ok:
  "entries_ok n (entries s) \<Longrightarrow> entries_ok n (entries (fst (remove_oldest s)))"
  by (auto simp: remove_oldest_def entries_ok_delete split: option.splits)

lemma evict_over_cap_simps [simp]:
  "ttl (evict_over_cap s) = ttl s" "cap (evict_over_cap s) = cap s"
  "next_seq (evict_over_cap s) = next_seq s"
  by (induction s rule: evict_over_cap.induct; subst evict_over_cap.simps; simp)+

lemma evict_over_cap_ok: "entries_ok n (entries s) \<Longrightarrow> entries_ok n (entries (evict_over_cap s))"
proof (induction s rule: evict_over_cap.induct)
  case (1 s)
  then show ?case by (subst evict_over_cap.simps) (simp add: remove_oldest_ok)
qed

lemma evict_over_cap_len: "store_len (evict_over_cap s) \<le> cap s"
proof (induction s rule: evict_over_cap.induct)
  case (1 s)
  then show ?case by (subst evict_over_cap.simps) simp
qed

section \<open>What eviction keeps\<close>

lemma oldest_entry_min:
  "oldest_entry xs = Some x \<Longrightarrow> y \<in> set xs \<Longrightarrow> seq (snd x) \<le> seq (snd y)"
proof (induction xs arbitrary: x)
  case (Cons a xs)
  then show ?case
    by (cases "oldest_entry xs") (auto simp: oldest_entry_None split: if_splits dest: Cons.IH)
qed simp

lemma remove_oldest_sub:
  "map_of (entries (fst (remove_oldest s))) k = Some e \<Longrightarrow> map_of (entries s) k = Some e"
  by (auto simp: remove_oldest_def alist_simps split: option.splits if_splits)

lemma remove_oldest_keeps:
  assumes "distinct_keys (entries s)" and "map_of (entries s) a = Some ea"
    and "map_of (entries s) b = Some eb" and "seq ea < seq eb"
  shows "map_of (entries (fst (remove_oldest s))) b = Some eb"
proof (cases "oldest_entry (entries s)")
  case None
  with assms show ?thesis by (simp add: remove_oldest_def)
next
  case (Some x)
  have "(a, ea) \<in> set (entries s)" using assms(2) by (rule map_of_SomeD)
  then have min: "seq (snd x) \<le> seq ea" using oldest_entry_min [OF Some] by force
  have "map_of (entries s) (fst x) = Some (snd x)"
    using assms(1) oldest_entry_in [OF Some] by (simp add: map_of_is_SomeI)
  with min assms(3,4) have "fst x \<noteq> b"
    by (metis linorder_not_less option.inject order.strict_trans1)
  with assms Some show ?thesis by (cases x) (simp add: remove_oldest_def alist_simps)
qed

lemma evict_over_cap_sub:
  "map_of (entries (evict_over_cap s)) k = Some e \<Longrightarrow> map_of (entries s) k = Some e"
proof (induction s rule: evict_over_cap.induct)
  case (1 s)
  then show ?case
    by (subst (asm) (2) evict_over_cap.simps) (auto split: if_splits dest: remove_oldest_sub)
qed

text \<open>Eviction is in insertion order: where an entry survives, every later one does.\<close>

lemma evict_over_cap_order:
  assumes "distinct_keys (entries s)" and "map_of (entries (evict_over_cap s)) a = Some ea"
    and "map_of (entries s) b = Some eb" and "seq ea < seq eb"
  shows "map_of (entries (evict_over_cap s)) b = Some eb"
  using assms
proof (induction s rule: evict_over_cap.induct)
  case (1 s)
  show ?case
  proof (cases "cap s < store_len s")
    case True
    let ?t = "fst (remove_oldest s)"
    have ev: "evict_over_cap s = evict_over_cap ?t"
      using True by (subst evict_over_cap.simps) simp
    have "map_of (entries s) a = Some ea"
      using 1(3) by (rule evict_over_cap_sub)
    then have "map_of (entries ?t) b = Some eb"
      using 1(2) 1(4) 1(5) by (blast intro: remove_oldest_keeps)
    moreover have "distinct_keys (entries ?t)"
      using 1(2) by (auto simp: remove_oldest_def split: option.splits)
    ultimately show ?thesis using 1 True ev by simp
  next
    case False
    then show ?thesis using 1(4) by (subst evict_over_cap.simps) simp
  qed
qed

lemma two_entries:
  assumes "distinct_keys es" and "1 < length es" and "map_of es k = Some e"
  obtains a ea where "a \<noteq> k" and "map_of es a = Some ea"
proof -
  have "1 < card (set (keys_of es))"
    using assms(1,2) distinct_card [of "keys_of es"] by simp
  then have "\<not> set (keys_of es) \<subseteq> {k}"
    using card_mono [of "{k}" "set (keys_of es)"] by auto
  then obtain a where "a \<in> set (keys_of es)" "a \<noteq> k" by blast
  then show ?thesis using that by (metis list.set_map map_of_eq_None_iff not_Some_eq)
qed

text \<open>The entry with the greatest sequence number is never evicted.\<close>

lemma evict_keeps_newest:
  assumes "distinct_keys (entries s)" and "1 \<le> cap s" and "map_of (entries s) k = Some e"
    and "\<And>a ea. map_of (entries s) a = Some ea \<Longrightarrow> a \<noteq> k \<Longrightarrow> seq ea < seq e"
  shows "map_of (entries (evict_over_cap s)) k = Some e"
  using assms
proof (induction s rule: evict_over_cap.induct)
  case (1 s)
  show ?case
  proof (cases "cap s < store_len s")
    case True
    let ?t = "fst (remove_oldest s)"
    have ev: "evict_over_cap s = evict_over_cap ?t"
      using True by (subst evict_over_cap.simps) simp
    obtain a ea where "a \<noteq> k" and a: "map_of (entries s) a = Some ea"
      using two_entries [OF 1(2) _ 1(4)] True 1(3) by (auto simp: store_len_def)
    then have k: "map_of (entries ?t) k = Some e"
      using 1(2) 1(4) 1(5) by (blast intro: remove_oldest_keeps)
    have d: "distinct_keys (entries ?t)"
      using 1(2) by (auto simp: remove_oldest_def split: option.splits)
    have "map_of (entries (evict_over_cap ?t)) k = Some e"
      by (rule 1(1) [OF True d _ k]) (use 1 in \<open>auto dest: remove_oldest_sub\<close>)
    with ev show ?thesis by simp
  next
    case False
    then show ?thesis using 1(4) by (subst evict_over_cap.simps) simp
  qed
qed

section \<open>Every operation keeps the invariant\<close>

lemma store_inv_new [simp]: "store_inv (new_store t c)"
  by (simp add: new_store_def store_inv_def entries_ok_def store_len_def)

lemma store_inv_retain:
  "store_inv s \<Longrightarrow> store_inv (s\<lparr>entries := retain P (entries s)\<rparr>)"
  by (auto simp: store_inv_def entries_ok_retain store_len_def length_retain_le
      intro: order.trans [OF length_retain_le])

lemma store_inv_delete:
  "store_inv s \<Longrightarrow> store_inv (s\<lparr>entries := AList.delete k (entries s)\<rparr>)"
  by (auto simp: store_inv_def entries_ok_delete store_len_def
      intro: order.trans [OF length_delete_le])

lemma store_inv_touch:
  assumes "store_inv s" and "map_of (entries s) k = Some e" and "seq e' = seq e"
  shows "store_inv (s\<lparr>entries := AList.update k e' (entries s)\<rparr>)"
proof -
  have "length (AList.update k e' (entries s)) = length (entries s)"
    using assms(2) by (metis keys_update_present length_map option.distinct(1))
  with assms show ?thesis by (simp add: store_inv_def store_len_def entries_ok_touch)
qed

lemma store_inv_reap: "store_inv s \<Longrightarrow> store_inv (fst (reap_expired now s))"
  by (simp add: reap_expired_def Let_def store_inv_retain)

lemma store_inv_insert: "store_inv s \<Longrightarrow> store_inv (insert_entry now k v s)"
  by (auto simp: insert_entry_def Let_def store_inv_def
      intro!: evict_over_cap_ok entries_ok_put [simplified] entries_ok_retain
      order.trans [OF evict_over_cap_len])

lemma store_inv_remove_oldest:
  assumes "store_inv s"
  shows "store_inv (fst (remove_oldest s))"
  by (cases "oldest_entry (entries s)") (auto simp: remove_oldest_def assms store_inv_delete)

lemma store_inv_with: "store_inv s \<Longrightarrow> store_inv (fst (with_entry now k f s))"
  by (auto simp: with_entry_def store_inv_delete store_inv_touch split: option.splits prod.splits)

lemma store_inv_get_or_insert:
  assumes "store_inv s" and "get_or_insert_with now k mk f s = Some (s', r)"
  shows "store_inv s'"
proof -
  define s1 where "s1 = (if is_expired now k s then s\<lparr>entries := AList.delete k (entries s)\<rparr> else s)"
  define s2 where "s2 = (if map_of (entries s1) k = None then insert_entry now k mk s1 else s1)"
  have "store_inv s2"
    unfolding s2_def s1_def by (simp add: assms store_inv_delete store_inv_insert)
  then show ?thesis
    using assms(2) unfolding get_or_insert_with_def Let_def s1_def [symmetric] s2_def [symmetric]
    by (auto simp: store_inv_touch split: option.splits prod.splits)
qed

lemmas store_inv_ops =
  store_inv_insert store_inv_with store_inv_get_or_insert store_inv_delete store_inv_retain
  store_inv_remove_oldest store_inv_reap

section \<open>Weights\<close>

lemma store_weight_filter:
  "store_weight w (s\<lparr>entries := filter P (entries s)\<rparr>) \<le> store_weight w s"
  by (simp add: store_weight_def sum_list_filter_le_nat)

lemma store_weight_remove_oldest: "store_weight w (fst (remove_oldest s)) \<le> store_weight w s"
  by (auto simp: remove_oldest_def AList.delete_eq store_weight_filter split: option.splits)

lemma store_weight_reap: "store_weight w (fst (reap_expired now s)) \<le> store_weight w s"
  by (simp add: reap_expired_def Let_def retain_def store_weight_filter)

lemma store_weight_remove: "store_weight w (fst (remove_entry k s)) \<le> store_weight w s"
  by (simp add: remove_entry_def AList.delete_eq store_weight_filter)

lemma store_weight_evict: "store_weight w (evict_over_cap s) \<le> store_weight w s"
proof (induction s rule: evict_over_cap.induct)
  case (1 s)
  then show ?case
    by (subst evict_over_cap.simps) (auto intro: order.trans store_weight_remove_oldest)
qed

lemma sum_update_le:
  "sum_list (map (\<lambda>(_, e). f e) (AList.update k v es)) \<le> sum_list (map (\<lambda>(_, e). f e) es) + (f v :: nat)"
  by (induction es) auto

lemma store_weight_insert: "store_weight w (insert_entry now k v s) \<le> store_weight w s + w v"
proof -
  let ?e = "\<lparr>entry_value = v, last_seen = now, seq = next_seq s\<rparr>"
  let ?r = "fst (reap_expired now s)"
  have "store_weight w (insert_entry now k v s) \<le>
      store_weight w (?r\<lparr>next_seq := next_seq s + 1, entries := AList.update k ?e (entries ?r)\<rparr>)"
    unfolding insert_entry_def Let_def by (rule order.trans [OF store_weight_evict]) simp
  also have "\<dots> \<le> store_weight w ?r + w v"
    using sum_update_le [of "\<lambda>e. w (entry_value e)" k ?e "entries ?r"] by (simp add: store_weight_def)
  also have "\<dots> \<le> store_weight w s + w v" by (simp add: store_weight_reap)
  finally show ?thesis .
qed

section \<open>The store as a transition system\<close>

text \<open>The closure's own result does not reach the store, so the steps take it to be \<open>()\<close>.\<close>

inductive store_step :: "'v session_store \<Rightarrow> 'v session_store \<Rightarrow> bool" where
  step_insert: "store_step s (insert_entry now k v s)"
| step_with: "store_step s (fst (with_entry now k (\<lambda>v. (g v, ())) s))"
| step_get_or_insert:
    "get_or_insert_with now k mk (\<lambda>v. (g v, ())) s = Some (s', ()) \<Longrightarrow> store_step s s'"
| step_remove: "store_step s (fst (remove_entry k s))"
| step_clear: "store_step s (clear_store s)"
| step_remove_where: "store_step s (fst (remove_where P s))"
| step_remove_oldest: "store_step s (fst (remove_oldest s))"
| step_reap: "store_step s (fst (reap_expired now s))"

definition store_init :: "'v session_store \<Rightarrow> bool" where
  "store_init s \<longleftrightarrow> s = new_store (ttl s) (cap s)"

lemma store_init_new [simp]: "store_init (new_store t c)"
  by (simp add: store_init_def new_store_def)

lemma store_inv_step:
  assumes "store_step s t" and "store_inv s"
  shows "store_inv t"
  using assms
proof cases
  case step_clear
  with assms(2) show ?thesis
    by (simp add: clear_store_def store_inv_def store_len_def entries_ok_def)
qed (auto simp: assms(2) remove_entry_def remove_where_def Let_def
    intro: store_inv_ops store_inv_get_or_insert [OF assms(2)])

interpretation store_sys: invariant_system store_init store_step store_inv
proof
  show "store_inv s" if "store_init s" for s :: "'a session_store"
    using that store_inv_new [of "ttl s" "cap s"] by (metis store_init_def)
  show "store_inv t" if "store_inv s" and "store_step s t" for s t :: "'a session_store"
    using that store_inv_step by blast
qed

section \<open>What lookups return\<close>

lemma get_entry_Some:
  "get_entry now k s = Some v \<longleftrightarrow>
     (\<exists>e. map_of (entries s) k = Some e \<and> entry_value e = v \<and> elapsed now e < ttl s)"
  by (auto simp: get_entry_def is_expired_def not_le split: option.splits)

lemma insert_entry_key:
  assumes "store_inv s"
  shows "map_of (entries (insert_entry now k v s)) k =
    Some \<lparr>entry_value = v, last_seen = now, seq = next_seq s\<rparr>"
proof -
  let ?e = "\<lparr>entry_value = v, last_seen = now, seq = next_seq s\<rparr>"
  let ?r = "retain (\<lambda>_ e. elapsed now e < ttl s) (entries s)"
  let ?s = "(fst (reap_expired now s))\<lparr>next_seq := next_seq s + 1, entries := AList.update k ?e ?r\<rparr>"
  have d: "distinct_keys (entries s)" and c: "1 \<le> cap s"
    and q: "\<And>a ea. map_of (entries s) a = Some ea \<Longrightarrow> seq ea < next_seq s"
    using assms by (auto simp: store_inv_def entries_ok_def dest!: map_of_SomeD)
  have older: "seq ea < seq ?e" if "map_of (entries ?s) a = Some ea" and "a \<noteq> k" for a ea
    using that d q by (auto simp: alist_simps split: option.splits if_splits)
  have "map_of (entries (evict_over_cap ?s)) k = Some ?e"
    by (rule evict_keeps_newest) (use d c older in \<open>simp_all add: alist_simps\<close>)
  then show ?thesis by (simp add: insert_entry_def Let_def)
qed

lemma insert_entry_simps [simp]:
  "ttl (insert_entry now k v s) = ttl s" "cap (insert_entry now k v s) = cap s"
  "next_seq (insert_entry now k v s) = next_seq s + 1"
  by (simp_all add: insert_entry_def Let_def)

lemma insert_entry_other:
  assumes "distinct_keys (entries s)" and "a \<noteq> k"
    and "map_of (entries (insert_entry now k v s)) a = Some e"
  shows "map_of (entries s) a = Some e"
  using assms(3) unfolding insert_entry_def Let_def
  by (auto dest!: evict_over_cap_sub simp: alist_simps assms(1,2) split: option.splits if_splits)

lemma reap_expired_get:
  assumes "distinct_keys (entries s)" and "now \<le> now'"
  shows "get_entry now' k (fst (reap_expired now s)) = get_entry now' k s"
  using assms
  by (auto simp: get_entry_def is_expired_def alist_simps elapsed_def split: option.splits)

text \<open>
  The interface the result cache and the session maps rely on: what a lookup returns after each
  operation, for a clock that does not run backwards.
\<close>

locale ttl_store =
  fixes look :: "nat \<Rightarrow> string \<Rightarrow> 's \<Rightarrow> 'v option"
    and put :: "nat \<Rightarrow> string \<Rightarrow> 'v \<Rightarrow> 's \<Rightarrow> 's"
    and del :: "string \<Rightarrow> 's \<Rightarrow> 's"
    and reap :: "nat \<Rightarrow> 's \<Rightarrow> 's"
    and drop_one :: "'s \<Rightarrow> 's"
    and life :: "'s \<Rightarrow> nat"
    and wf :: "'s \<Rightarrow> bool"
  assumes look_put: "wf s \<Longrightarrow> now' - now < life s \<Longrightarrow> look now' k (put now k v s) = Some v"
    and look_put_other: "wf s \<Longrightarrow> k' \<noteq> k \<Longrightarrow> look now' k' (put now k v s) = Some w \<Longrightarrow> look now' k' s = Some w"
    and look_put_Some: "wf s \<Longrightarrow> look now' k (put now k v s) = Some w \<Longrightarrow> w = v"
    and look_del: "look now' k' (del k s) = (if k' = k then None else look now' k' s)"
    and look_reap: "wf s \<Longrightarrow> now \<le> now' \<Longrightarrow> look now' k (reap now s) = look now' k s"
    and look_drop: "wf s \<Longrightarrow> look now' k (drop_one s) = Some w \<Longrightarrow> look now' k s = Some w"
    and wf_ops: "wf s \<Longrightarrow> wf (put now k v s) \<and> wf (del k s) \<and> wf (reap now s) \<and> wf (drop_one s)"
begin

text \<open>What every visible value satisfies, from a time on; the clients' contract on contents.\<close>

definition contents :: "nat \<Rightarrow> (string \<Rightarrow> 'v \<Rightarrow> bool) \<Rightarrow> 's \<Rightarrow> bool" where
  "contents t P s \<longleftrightarrow> (\<forall>now k v. t \<le> now \<longrightarrow> look now k s = Some v \<longrightarrow> P k v)"

lemma contents_put: "wf s \<Longrightarrow> contents t P s \<Longrightarrow> P k v \<Longrightarrow> contents t P (put now k v s)"
  unfolding contents_def by (metis look_put_Some look_put_other)

lemma contents_reap: "wf s \<Longrightarrow> contents t P s \<Longrightarrow> now \<le> t \<Longrightarrow> contents t P (reap now s)"
  unfolding contents_def by (metis look_reap order.trans)

lemma contents_drop: "wf s \<Longrightarrow> contents t P s \<Longrightarrow> contents t P (drop_one s)"
  unfolding contents_def by (metis look_drop)

lemma contents_del: "contents t P s \<Longrightarrow> contents t P (del k s)"
  unfolding contents_def by (simp add: look_del)

text \<open>A refill cannot resurrect what was deleted: only a put makes a key visible.\<close>

lemma absent_until_put:
  "wf s \<Longrightarrow> look now' k s = None \<Longrightarrow> k' \<noteq> k \<Longrightarrow> look now' k (put now k' v s) = None"
  using look_put_other by (metis not_None_eq)

end

interpretation sess: ttl_store get_entry insert_entry "\<lambda>k s. fst (remove_entry k s)"
  "\<lambda>now s. fst (reap_expired now s)" "\<lambda>s. fst (remove_oldest s)" ttl store_inv
proof
  fix s :: "'a session_store" and now now' k k' v w
  show "store_inv s \<Longrightarrow> now' - now < ttl s \<Longrightarrow> get_entry now' k (insert_entry now k v s) = Some v"
    by (simp add: get_entry_Some insert_entry_key elapsed_def)
  show "store_inv s \<Longrightarrow> k' \<noteq> k \<Longrightarrow> get_entry now' k' (insert_entry now k v s) = Some w \<Longrightarrow>
      get_entry now' k' s = Some w"
    by (metis (no_types, lifting) entries_ok_def get_entry_Some insert_entry_other insert_entry_simps(1)
        store_inv_def)
  show "store_inv s \<Longrightarrow> get_entry now' k (insert_entry now k v s) = Some w \<Longrightarrow> w = v"
    by (auto simp: get_entry_Some insert_entry_key)
  show "get_entry now' k' (fst (remove_entry k s)) = (if k' = k then None else get_entry now' k' s)"
    by (simp add: get_entry_def is_expired_def remove_entry_def alist_simps split: option.splits)
  show "store_inv s \<Longrightarrow> now \<le> now' \<Longrightarrow> get_entry now' k (fst (reap_expired now s)) = get_entry now' k s"
    by (simp add: reap_expired_get store_inv_def entries_ok_def)
  show "store_inv s \<Longrightarrow> get_entry now' k (fst (remove_oldest s)) = Some w \<Longrightarrow> get_entry now' k s = Some w"
    by (auto simp: get_entry_Some dest: remove_oldest_sub)
  show "store_inv s \<Longrightarrow> store_inv (insert_entry now k v s) \<and> store_inv (fst (remove_entry k s)) \<and>
      store_inv (fst (reap_expired now s)) \<and> store_inv (fst (remove_oldest s))"
    by (simp add: store_inv_insert store_inv_reap store_inv_remove_oldest remove_entry_def store_inv_delete)
qed

section \<open>Properties\<close>

text \<open>C40: In every state the store reaches from \<open>new\<close> by any sequence of its operations, it holds
  at most \<open>cap\<close> entries, the cap is at least one, and no two entries share a key or an insertion
  number.\<close>

theorem store_reachable_bounded:
  assumes "reachable store_init store_step s"
  shows "store_len s \<le> cap s \<and> 1 \<le> cap s \<and> distinct_keys (entries s) \<and>
    distinct (map (\<lambda>(_, e). seq e) (entries s))"
  using store_sys.reachable_inv [OF assms] by (simp add: store_inv_def entries_ok_def)

theorem store_reachable_bounded_witness:
  "store_len (insert_entry 7 ''b'' (2 :: nat) (insert_entry 5 ''a'' 1 (new_store 100 1))) \<le> 1"
proof -
  have "reachable store_init store_step (insert_entry 7 ''b'' (2 :: nat) (insert_entry 5 ''a'' 1 (new_store 100 1)))"
    by (rule reach_step, rule reach_step, rule reach_init) (rule store_init_new step_insert)+
  from store_reachable_bounded [OF this] show ?thesis by simp
qed

text \<open>A value that was inserted is what a lookup of its key returns until the time to live has
  passed, whatever the store held before, and the insertion makes no other key visible.\<close>

theorem insert_then_get:
  assumes "store_inv s" and "now' - now < ttl s"
  shows "get_entry now' k (insert_entry now k v s) = Some v \<and>
    (\<forall>k' w. k' \<noteq> k \<longrightarrow> get_entry now' k' (insert_entry now k v s) = Some w \<longrightarrow> get_entry now' k' s = Some w)"
  by (simp add: sess.look_put [OF assms] sess.look_put_other [OF assms(1)])

theorem insert_then_get_witness:
  "get_entry 12 ''k'' (insert_entry 5 ''k'' (3 :: nat) (new_store 10 2)) = Some 3"
  using insert_then_get [of "new_store 10 2 :: nat session_store" 12 5] by simp

text \<open>When an insertion goes over the cap, entries leave in the order they were inserted: if an
  unexpired entry survives, so does every unexpired entry inserted after it, and the new entry
  itself always survives.\<close>

theorem insert_evicts_in_order:
  assumes "store_inv s" and "a \<noteq> k" and "b \<noteq> k"
    and "map_of (entries (insert_entry now k v s)) a = Some ea"
    and "map_of (entries s) b = Some eb" and "elapsed now eb < ttl s" and "seq ea < seq eb"
  shows "map_of (entries (insert_entry now k v s)) b = Some eb \<and>
    map_option entry_value (map_of (entries (insert_entry now k v s)) k) = Some v"
proof
  have d: "distinct_keys (entries s)" using assms(1) by (simp add: store_inv_def entries_ok_def)
  show "map_of (entries (insert_entry now k v s)) b = Some eb"
    using assms(4) unfolding insert_entry_def Let_def
    by (rule evict_over_cap_order [rotated]) (use assms d in \<open>simp_all add: alist_simps\<close>)
  show "map_option entry_value (map_of (entries (insert_entry now k v s)) k) = Some v"
    using assms(1) by (simp add: insert_entry_key)
qed

theorem insert_evicts_in_order_witness:
  "map_of (entries (insert_entry 3 ''c'' 30
     (insert_entry 2 ''b'' 20 (insert_entry 1 ''a'' (10 :: nat) (new_store 10 3))))) ''b'' =
   Some \<lparr>entry_value = 20, last_seen = 2, seq = 1\<rparr>"
proof -
  let ?s = "insert_entry 2 ''b'' 20 (insert_entry 1 ''a'' (10 :: nat) (new_store 10 3))"
  have "entries ?s = [(''a'', \<lparr>entry_value = 10, last_seen = 1, seq = 0\<rparr>),
      (''b'', \<lparr>entry_value = 20, last_seen = 2, seq = 1\<rparr>)]" (is "_ = ?es") by code_simp
  moreover have "map_of (entries (insert_entry 3 ''c'' 30 ?s)) ''a'' =
      Some \<lparr>entry_value = 10, last_seen = 1, seq = 0\<rparr>" by code_simp
  ultimately show ?thesis
    using insert_evicts_in_order [of ?s "''a''" "''c''" "''b''" 3 30]
    by (simp add: store_inv_insert elapsed_def)
qed

text \<open>\<open>get_or_insert_with\<close> always finds its entry, so its \<open>expect\<close> never panics, even with a
  zero time to live: the closure runs on the live value, or on the fresh one where there is none,
  and the entry is left with the closure's value and a refreshed time.\<close>

theorem get_or_insert_with_total:
  assumes "store_inv s"
  shows "\<exists>s' e. get_or_insert_with now k mk f s =
      Some (s', snd (f (case get_entry now k s of Some v \<Rightarrow> v | None \<Rightarrow> mk))) \<and>
    map_of (entries s') k = Some e \<and> last_seen e = now \<and>
    entry_value e = fst (f (case get_entry now k s of Some v \<Rightarrow> v | None \<Rightarrow> mk))"
proof -
  define s1 where "s1 = (if is_expired now k s then s\<lparr>entries := AList.delete k (entries s)\<rparr> else s)"
  define s2 where "s2 = (if map_of (entries s1) k = None then insert_entry now k mk s1 else s1)"
  have "store_inv s1" unfolding s1_def by (simp add: assms store_inv_delete)
  moreover have "map_option entry_value (map_of (entries s1) k) = get_entry now k s"
    by (simp add: s1_def get_entry_def alist_simps)
  ultimately obtain e where "map_of (entries s2) k = Some e"
    and "entry_value e = (case get_entry now k s of Some v \<Rightarrow> v | None \<Rightarrow> mk)"
    by (cases "map_of (entries s1) k"; cases "get_entry now k s") (auto simp: s2_def insert_entry_key)
  then show ?thesis
    unfolding get_or_insert_with_def Let_def s1_def [symmetric] s2_def [symmetric]
    by (simp add: alist_simps case_prod_unfold)
qed

theorem get_or_insert_with_total_witness:
  "\<exists>s'. get_or_insert_with 4 ''k'' 1 (\<lambda>v. (v + 1, v)) (new_store 0 1 :: nat session_store) = Some (s', 1)"
  using get_or_insert_with_total [of "new_store 0 1 :: nat session_store" 4 "''k''" 1 "\<lambda>v. (v + 1, v)"]
  by (auto simp: get_entry_def)

end
