(* ===== verification/Json.thy ===== *)
theory Json
  imports Prelude
begin

text \<open>
  JSON values as the gateway handles them (\<open>serde_json::Value\<close>): the data type, the accessors
  the code calls on it, and objects as \<open>serde_json::Map\<close> stores them, sorted by key. Printing
  and parsing JSON text is code of that package and stays a parameter of the definitions that
  use it. A number is one of the package's three forms; a float is the bit pattern of its
  \<open>f64\<close>.
\<close>

section \<open>Values\<close>

datatype jnum = PosInt nat | NegInt int | Float nat

datatype json =
    JNull
  | JBool bool
  | JNum jnum
  | JStr string
  | JArr "json list"
  | JObj "(string \<times> json) list"

type_synonym jobj = "(string \<times> json) list"

section \<open>Accessors\<close>

fun as_object :: "json \<Rightarrow> jobj option" where
  "as_object (JObj m) = Some m"
| "as_object _ = None"

fun as_array :: "json \<Rightarrow> json list option" where
  "as_array (JArr a) = Some a"
| "as_array _ = None"

fun as_str :: "json \<Rightarrow> string option" where
  "as_str (JStr s) = Some s"
| "as_str _ = None"

fun as_bool :: "json \<Rightarrow> bool option" where
  "as_bool (JBool b) = Some b"
| "as_bool _ = None"

fun as_u64 :: "json \<Rightarrow> nat option" where
  "as_u64 (JNum (PosInt n)) = Some n"
| "as_u64 _ = None"

fun as_i64 :: "json \<Rightarrow> int option" where
  "as_i64 (JNum (PosInt n)) = (if n \<le> 9223372036854775807 then Some (int n) else None)"
| "as_i64 (JNum (NegInt i)) = Some i"
| "as_i64 _ = None"

fun is_number :: "json \<Rightarrow> bool" where
  "is_number (JNum _) = True"
| "is_number _ = False"

text \<open>\<open>Value::get\<close> with a string key: \<open>None\<close> on anything but an object.\<close>

fun jget :: "string \<Rightarrow> json \<Rightarrow> json option" where
  "jget k (JObj m) = map_of m k"
| "jget k _ = None"

fun jget_idx :: "nat \<Rightarrow> json \<Rightarrow> json option" where
  "jget_idx i (JArr a) = (if i < length a then Some (a ! i) else None)"
| "jget_idx i _ = None"

definition jget_str :: "string \<Rightarrow> json \<Rightarrow> string option" where
  "jget_str k v = Option.bind (jget k v) as_str"

definition jget_array :: "string \<Rightarrow> json \<Rightarrow> json list option" where
  "jget_array k v = Option.bind (jget k v) as_array"

definition jget_bool :: "string \<Rightarrow> json \<Rightarrow> bool option" where
  "jget_bool k v = Option.bind (jget k v) as_bool"

definition jget_u64 :: "string \<Rightarrow> json \<Rightarrow> nat option" where
  "jget_u64 k v = Option.bind (jget k v) as_u64"

section \<open>Objects\<close>

text \<open>Insertion keeps the keys sorted, as the package's map does.\<close>

fun obj_insert :: "string \<Rightarrow> 'a \<Rightarrow> (string \<times> 'a) list \<Rightarrow> (string \<times> 'a) list" where
  "obj_insert k v [] = [(k, v)]"
| "obj_insert k v ((k', v') # m) =
     (if k < k' then (k, v) # (k', v') # m
      else if k = k' then (k, v) # m
      else (k', v') # obj_insert k v m)"

definition obj_remove :: "string \<Rightarrow> (string \<times> 'a) list \<Rightarrow> (string \<times> 'a) list" where
  "obj_remove k m = AList.delete k m"

abbreviation sorted_keys :: "(string \<times> 'a) list \<Rightarrow> bool" where
  "sorted_keys m \<equiv> sorted_wrt (<) (map fst m)"

lemma map_of_obj_insert [alist_simps]: "map_of (obj_insert k v m) = (map_of m)(k \<mapsto> v)"
  by (induction k v m rule: obj_insert.induct) (auto simp: fun_eq_iff)

lemma set_obj_insert_keys: "fst ` set (obj_insert k v m) = insert k (fst ` set m)"
  by (induction k v m rule: obj_insert.induct) auto

lemma sorted_obj_insert: "sorted_keys m \<Longrightarrow> sorted_keys (obj_insert k v m)"
proof (induction k v m rule: obj_insert.induct)
  case (2 k v k' v' m)
  then show ?case
    by (auto simp: set_obj_insert_keys dest: order.strict_trans)
qed simp

lemma sorted_keys_distinct: "sorted_keys m \<Longrightarrow> distinct_keys m"
  by (induction m) auto

lemma map_of_obj_remove [alist_simps]: "map_of (obj_remove k m) = (map_of m)(k := None)"
  by (simp add: obj_remove_def alist_simps)

section \<open>JSON Pointer\<close>

text \<open>\<open>Value::pointer\<close> (RFC 6901). \<open>~1\<close> and \<open>~0\<close> stand for \<open>/\<close> and \<open>~\<close>; an array index has no
  sign and no leading zero.\<close>

fun unescape_with :: "char \<Rightarrow> char \<Rightarrow> string \<Rightarrow> string" where
  "unescape_with d r (a # b # cs) =
     (if a = CHR ''~'' \<and> b = d then r # unescape_with d r cs else a # unescape_with d r (b # cs))"
| "unescape_with d r cs = cs"

definition unescape_token :: "string \<Rightarrow> string" where
  "unescape_token s = unescape_with (CHR ''0'') (CHR ''~'') (unescape_with (CHR ''1'') (CHR ''/'') s)"

definition parse_index :: "string \<Rightarrow> nat option" where
  "parse_index s =
     (if starts_with ''+'' s \<or> (starts_with ''0'' s \<and> length s \<noteq> 1) then None
      else parse_unsigned u64_max s)"

definition pointer_step :: "string \<Rightarrow> json \<Rightarrow> json option" where
  "pointer_step t v =
     (case v of
        JObj m \<Rightarrow> map_of m t
      | JArr a \<Rightarrow> Option.bind (parse_index t) (\<lambda>i. jget_idx i v)
      | _ \<Rightarrow> None)"

fun pointer_steps :: "string list \<Rightarrow> json \<Rightarrow> json option" where
  "pointer_steps [] v = Some v"
| "pointer_steps (t # ts) v = Option.bind (pointer_step (unescape_token t) v) (pointer_steps ts)"

definition pointer :: "string \<Rightarrow> json \<Rightarrow> json option" where
  "pointer p v =
     (if p = [] then Some v
      else if starts_with ''/'' p then pointer_steps (tl (split_on (\<lambda>c. c = CHR ''/'') p)) v
      else None)"

section \<open>Equality\<close>

text \<open>\<open>==\<close> on values compares floats as \<open>f64\<close> does: the two zeros are equal.\<close>

fun canon_num :: "jnum \<Rightarrow> jnum" where
  "canon_num (Float b) = Float (if b = 2 ^ 63 then 0 else b)"
| "canon_num n = n"

lemma size_obj_value [termination_simp]:
  "(k, v) \<in> set m \<Longrightarrow> size v < Suc (size_list (size_prod (\<lambda>_. 0) size) m)"
  by (induction m) auto

fun canon_zero :: "json \<Rightarrow> json" where
  "canon_zero (JNum n) = JNum (canon_num n)"
| "canon_zero (JArr a) = JArr (map canon_zero a)"
| "canon_zero (JObj m) = JObj (map (\<lambda>(k, v). (k, canon_zero v)) m)"
| "canon_zero v = v"

definition json_eq :: "json \<Rightarrow> json \<Rightarrow> bool" where
  "json_eq a b \<longleftrightarrow> canon_zero a = canon_zero b"

lemma json_eq_refl [simp]: "json_eq a a"
  by (simp add: json_eq_def)

end
