(* ===== verification/Integrity.thy ===== *)
theory Integrity
  imports Json
begin

text \<open>
  Labelling of what a downstream server returned (\<open>integrity.rs\<close>): the sanitised server label
  and the provenance mark that \<open>label_untrusted_result\<close> puts on a result, on its content blocks
  and on the resources and messages inside it.
\<close>

section \<open>The server label\<close>

definition wrapper_label_max_chars :: nat where
  "wrapper_label_max_chars = 64"

definition label_char :: "string \<Rightarrow> string" where
  "label_char ch =
     (case ch of
        [c] \<Rightarrow> if is_ascii_alnum c \<or> c = CHR ''_'' \<or> c = CHR ''-'' then [c] else ''_''
      | _ \<Rightarrow> ''_'')"

definition sanitize_wrapper_label :: "string \<Rightarrow> string" where
  "sanitize_wrapper_label raw =
     (let out = concat (map label_char (take wrapper_label_max_chars (utf8_chars raw)))
      in if out = [] then ''unknown'' else out)"

section \<open>Provenance marks\<close>

definition provenance_key :: string where
  "provenance_key = ''app.toolport/provenance''"

definition provenance_of :: "string \<Rightarrow> json" where
  "provenance_of server =
     JObj [(''server'', JStr (sanitize_wrapper_label server)), (''source'', JStr ''downstream''),
           (''trust'', JStr ''untrusted'')]"

text \<open>The local function \<open>mark\<close>: \<open>_meta\<close> is made an object where it is none.\<close>

fun mark :: "json \<Rightarrow> json \<Rightarrow> json" where
  "mark p (JObj m) =
     (let meta = (case map_of m ''_meta'' of Some (JObj mm) \<Rightarrow> mm | _ \<Rightarrow> [])
      in JObj (obj_insert ''_meta'' (JObj (obj_insert provenance_key p meta)) m))"
| "mark p v = v"

text \<open>\<open>get_mut\<close> with an update in place: nothing happens where the key is absent.\<close>

fun update_field :: "string \<Rightarrow> (json \<Rightarrow> json) \<Rightarrow> json \<Rightarrow> json" where
  "update_field k f (JObj m) =
     (case map_of m k of None \<Rightarrow> JObj m | Some v \<Rightarrow> JObj (obj_insert k (f v) m))"
| "update_field k f v = v"

fun each_item :: "(json \<Rightarrow> json) \<Rightarrow> json \<Rightarrow> json" where
  "each_item f (JArr a) = JArr (map f a)"
| "each_item f v = v"

definition mark_block :: "json \<Rightarrow> json \<Rightarrow> json" where
  "mark_block p b = update_field ''resource'' (mark p) (mark p b)"

definition mark_message_content :: "json \<Rightarrow> json \<Rightarrow> json" where
  "mark_message_content p c = (case c of JArr a \<Rightarrow> JArr (map (mark p) a) | _ \<Rightarrow> mark p c)"

definition label_untrusted_result :: "string \<Rightarrow> json \<Rightarrow> json" where
  "label_untrusted_result server result =
     (let p = provenance_of server;
          r1 = mark p result;
          r2 = update_field ''content'' (each_item (mark_block p)) r1;
          r3 = update_field ''contents'' (each_item (mark_block p)) r2
      in update_field ''messages'' (each_item (update_field ''content'' (mark_message_content p))) r3)"

section \<open>Properties of the label\<close>

definition label_safe :: "char \<Rightarrow> bool" where
  "label_safe c \<longleftrightarrow> is_ascii_alnum c \<or> c = CHR ''_'' \<or> c = CHR ''-''"

lemma label_char_safe: "c \<in> set (label_char ch) \<Longrightarrow> label_safe c"
  by (auto simp: label_char_def label_safe_def split: list.splits if_splits)

lemma length_label_char [simp]: "length (label_char ch) = 1"
  by (auto simp: label_char_def split: list.splits)

lemma length_concat_label: "length (concat (map label_char cs)) = length cs"
  by (induction cs) auto

lemma sanitize_wrapper_label_safe: "c \<in> set (sanitize_wrapper_label raw) \<Longrightarrow> label_safe c"
proof -
  have unknown: "c \<in> set ''unknown'' \<Longrightarrow> label_safe c"
    by (auto simp: label_safe_def is_ascii_alnum_def is_ascii_lower_def)
  show "c \<in> set (sanitize_wrapper_label raw) \<Longrightarrow> label_safe c"
    using unknown by (auto simp: sanitize_wrapper_label_def Let_def label_char_safe split: if_splits)
qed

lemma sanitize_wrapper_label_length:
  "1 \<le> length (sanitize_wrapper_label raw) \<and> length (sanitize_wrapper_label raw) \<le> 64"
  by (auto simp: sanitize_wrapper_label_def Let_def length_concat_label wrapper_label_max_chars_def
      Suc_le_eq simp del: concat_eq_Nil_conv)

definition marked_with :: "json \<Rightarrow> json \<Rightarrow> bool" where
  "marked_with p v \<longleftrightarrow> Option.bind (jget ''_meta'' v) (jget provenance_key) = Some p"

lemma mark_object: "marked_with p (mark p (JObj m))"
  by (simp add: marked_with_def Let_def alist_simps)

lemma update_field_other:
  "k' \<noteq> k \<Longrightarrow> jget k' (update_field k f v) = jget k' v"
  by (cases v) (auto simp: alist_simps split: option.splits)

lemma update_field_same: "jget k (update_field k f v) = map_option f (jget k v)"
  by (cases v) (auto simp: alist_simps split: option.splits)

lemma mark_other: "k \<noteq> ''_meta'' \<Longrightarrow> jget k (mark p v) = jget k v"
  by (cases v) (auto simp: alist_simps Let_def)

lemma marked_update_field: "k \<noteq> ''_meta'' \<Longrightarrow> marked_with p (update_field k f v) = marked_with p v"
  by (simp add: marked_with_def update_field_other)

lemmas label_simps = update_field_other update_field_same mark_other marked_update_field

lemma label_untrusted_result_marks:
  "marked_with (provenance_of srv) (label_untrusted_result srv (JObj m))"
  by (simp add: label_untrusted_result_def Let_def marked_update_field mark_object del: mark.simps)

lemma label_untrusted_result_content:
  assumes "map_of m ''content'' = Some (JArr bs)"
  shows "jget ''content'' (label_untrusted_result srv (JObj m)) =
    Some (JArr (map (mark_block (provenance_of srv)) bs))"
proof -
  have "jget ''content'' (mark p (JObj m)) = Some (JArr bs)" for p
    using assms by (simp add: mark_other del: mark.simps)
  then show ?thesis
    unfolding label_untrusted_result_def Let_def by (simp add: label_simps del: mark.simps)
qed

end
