(* ===== verification/Shaping.thy ===== *)
theory Shaping
  imports SessionStore Integrity
begin

text \<open>
  Result shaping (\<open>shaping.rs\<close>): an oversized tool result is cut to a byte budget, its full body
  is kept in a bounded cache under a cursor, and \<open>fetch_result\<close> reads it back in pages.

  The process globals of the file (the cache, the cursor counter, the trim flag) are the fields
  of \<open>shape_state\<close>. What the code takes from elsewhere is the record \<open>shape_env\<close>: JSON printing
  and parsing (\<open>serde_json\<close>), the capacity an allocation really has, and two type sizes.
\<close>

section \<open>Text pieces\<close>

definition nl :: string where
  "nl = [CHR 0x0A]"

definition dq :: string where
  "dq = [CHR 0x22]"

section \<open>Environment and state\<close>

record shape_env =
  ser :: "json \<Rightarrow> string"
  parse :: "string \<Rightarrow> json option"
  str_capacity :: "string \<Rightarrow> nat"
  vec_capacity :: "json list \<Rightarrow> nat"
  sizeof_value :: nat
  sizeof_cached :: nat

record cached =
  server :: "string option"
  body :: string
  structured :: "json option"
  projections_unavailable :: bool
  csize :: nat
  owner :: "string option"

record shape_state =
  cache :: "cached session_store"
  cursor_n :: nat
  trim_pending :: bool

definition default_budget_bytes :: nat where
  "default_budget_bytes = 48 * 1024"

definition cache_ttl :: nat where
  "cache_ttl = 15 * 60 * 1000"

definition max_cache_entries :: nat where
  "max_cache_entries = 64"

definition max_cache_bytes :: nat where
  "max_cache_bytes = 64 * 1024 * 1024"

definition init_shape :: shape_state where
  "init_shape = \<lparr>cache = new_store cache_ttl max_cache_entries, cursor_n = 1, trim_pending = False\<rparr>"

section \<open>The budget\<close>

text \<open>\<open>brand::env_var\<close> on the values of the two variables: the first that is not blank.\<close>

definition env_var :: "string option \<Rightarrow> string option \<Rightarrow> string option" where
  "env_var new legacy =
     (case filter (\<lambda>v. trim v \<noteq> []) (List.map_filter id [new, legacy]) of
        [] \<Rightarrow> None
      | v # _ \<Rightarrow> Some v)"

definition resolve_budget :: "string option \<Rightarrow> nat \<times> string option" where
  "resolve_budget value =
     (case value of
        Some v \<Rightarrow>
          (case parse_unsigned u64_max (trim v) of
             Some n \<Rightarrow> (n, None)
           | None \<Rightarrow>
               (default_budget_bytes,
                Some (''toolport: invalid TOOLPORT_RESULT_BUDGET/CONDUIT_RESULT_BUDGET value '' @
                      [CHR 0x27] @ v @ [CHR 0x27] @ '', falling back to default budget'')))
      | None \<Rightarrow> (default_budget_bytes, None))"

definition budget :: "string option \<Rightarrow> string option \<Rightarrow> nat \<times> string option" where
  "budget new legacy = resolve_budget (env_var new legacy)"

section \<open>Cursors and sizes\<close>

definition next_cursor :: "shape_state \<Rightarrow> shape_state \<times> string" where
  "next_cursor st = (st\<lparr>cursor_n := cursor_n st + 1\<rparr>, ''r'' @ show_nat (cursor_n st))"

definition allocation_size :: "nat \<Rightarrow> nat" where
  "allocation_size c = (if c = 0 then 0 else sat_add64 c 15 div 16 * 16 + 16)"

fun value_heap_size :: "shape_env \<Rightarrow> json \<Rightarrow> nat" where
  "value_heap_size env (JStr s) = allocation_size (str_capacity env s)"
| "value_heap_size env (JArr a) =
     allocation_size (vec_capacity env a * sizeof_value env) + sum_list (map (value_heap_size env) a)"
| "value_heap_size env (JObj m) =
     (let nodes = (if length m < 11 then (if m = [] then 0 else 1) else (length m - 1) div 5 + 1);
          node_bytes = 11 * (24 + sizeof_value env) + 16 + 12 * 8
      in nodes * allocation_size node_bytes +
         sum_list (map (\<lambda>(k, v). allocation_size (str_capacity env k) + value_heap_size env v) m))"
| "value_heap_size env _ = 0"

definition retained_size :: "shape_env \<Rightarrow> string \<Rightarrow> json option \<Rightarrow> nat" where
  "retained_size env b st =
     sizeof_cached env + allocation_size (str_capacity env b) +
     (case st of None \<Rightarrow> 0 | Some v \<Rightarrow> value_heap_size env v)"

section \<open>The cache\<close>

definition sweep :: "nat \<Rightarrow> shape_state \<Rightarrow> shape_state" where
  "sweep now st =
     (let before = store_weight csize (cache st);
          (c, n) = reap_expired now (cache st)
      in st\<lparr>cache := c, trim_pending := trim_pending st \<or> (0 < n \<and> 1024 * 1024 \<le> before)\<rparr>)"

text \<open>The state after a maintenance tick, and whether it trims the allocator.\<close>

definition maintain_cache :: "nat \<Rightarrow> bool \<Rightarrow> shape_state \<Rightarrow> shape_state \<times> bool" where
  "maintain_cache now idle_transition st =
     (let st1 = sweep now st
      in (st1\<lparr>trim_pending := False\<rparr>, trim_pending st1 \<or> idle_transition))"

definition needs_room :: "nat \<Rightarrow> cached session_store \<Rightarrow> bool" where
  "needs_room n s \<longleftrightarrow>
     \<not> store_is_empty s \<and>
     (max_cache_entries \<le> store_len s \<or> max_cache_bytes < store_weight csize s + n)"

text \<open>The eviction loop returns whether it evicted, which is when it sets the trim flag.\<close>

function evict_loop :: "nat \<Rightarrow> cached session_store \<Rightarrow> cached session_store \<times> bool" where
  "evict_loop n s =
     (if needs_room n s then
        (if snd (remove_oldest s) then (fst (evict_loop n (fst (remove_oldest s))), True) else (s, False))
      else (s, False))"
  by pat_completeness auto
termination
  by (relation "measure (\<lambda>(n, s). store_len s)")
    (auto simp: needs_room_def store_is_empty_def remove_oldest_shrinks)

declare evict_loop.simps [simp del]

definition evict_to_fit :: "nat \<Rightarrow> shape_state \<Rightarrow> shape_state" where
  "evict_to_fit n st =
     (let (c, evicted) = evict_loop n (cache st)
      in st\<lparr>cache := c, trim_pending := trim_pending st \<or> evicted\<rparr>)"

definition retain_in :: "shape_env \<Rightarrow> nat \<Rightarrow> string \<Rightarrow> cached \<Rightarrow> shape_state \<Rightarrow> shape_state \<times> bool" where
  "retain_in env now cursor e st =
     (let e1 = (if max_cache_bytes < csize e \<and> structured e \<noteq> None
                then e\<lparr>structured := None, projections_unavailable := True,
                       csize := retained_size env (body e) None\<rparr>
                else e)
      in if max_cache_bytes < csize e1 then (st, False)
         else let st1 = evict_to_fit (csize e1) (sweep now st)
              in (st1\<lparr>cache := insert_entry now cursor e1 (cache st1)\<rparr>, True))"

definition retain_result :: "shape_env \<Rightarrow> nat \<Rightarrow> string \<Rightarrow> cached \<Rightarrow> shape_state \<Rightarrow> shape_state \<times> bool" where
  "retain_result env now cursor e st =
     (let (st1, retained) = retain_in env now cursor e st
      in (st1\<lparr>trim_pending := trim_pending st1 \<or> 1024 * 1024 \<le> csize e\<rparr>, retained))"

section \<open>Bodies, projections, heads\<close>

text \<open>A line feed before \<open>t\<close>, unless nothing was written yet.\<close>

definition push_line :: "string \<Rightarrow> string \<Rightarrow> string" where
  "push_line out t = (if out = [] then out else out @ nl) @ t"

definition content_texts :: "json \<Rightarrow> string list" where
  "content_texts result =
     (case jget_array ''content'' result of
        None \<Rightarrow> []
      | Some blocks \<Rightarrow> List.map_filter (jget_str ''text'') blocks)"

definition single_text :: "json \<Rightarrow> bool" where
  "single_text result =
     (case jget_array ''content'' result of
        Some [b] \<Rightarrow> jget ''type'' b = Some (JStr ''text'')
      | _ \<Rightarrow> False)"

definition extract_body :: "shape_env \<Rightarrow> json \<Rightarrow> string \<times> nat" where
  "extract_body env result =
     (let out = foldl push_line [] (content_texts result)
      in case jget ''structuredContent'' result of
           None \<Rightarrow> (out, length out)
         | Some sc \<Rightarrow>
             let text = ser env sc;
                 source_bytes = length out + (length text + (if out = [] then 0 else 1));
                 duplicate = single_text result \<and>
                   (out = text \<or> (case parse env out of Some v \<Rightarrow> json_eq v sc | None \<Rightarrow> False))
             in (if duplicate then out else push_line out text, source_bytes))"

definition value_size :: "shape_env \<Rightarrow> json \<Rightarrow> nat" where
  "value_size env v = length (ser env v)"

definition text_result :: "string \<Rightarrow> bool \<Rightarrow> json" where
  "text_result text is_error =
     JObj [(''content'', JArr [JObj [(''text'', JStr text), (''type'', JStr ''text'')]]),
           (''isError'', JBool is_error)]"

fun project_segments :: "string list \<Rightarrow> json \<Rightarrow> json option" where
  "project_segments [] v = Some v"
| "project_segments (seg # segs) v =
     (case v of
        JObj m \<Rightarrow> Option.bind (map_of m seg) (project_segments segs)
      | JArr a \<Rightarrow>
          Option.bind (parse_unsigned u64_max seg) (\<lambda>i. Option.bind (jget_idx i v) (project_segments segs))
      | _ \<Rightarrow> None)"

definition project :: "json \<Rightarrow> string \<Rightarrow> json option" where
  "project v path = project_segments (split_on (\<lambda>c. c = CHR ''.'') path) v"

text \<open>The loop over \<open>char_indices\<close>: \<open>i\<close> is where the next character starts, and the result is
  where the last character that fits ends.\<close>

fun head_end :: "nat \<Rightarrow> nat \<Rightarrow> string list \<Rightarrow> nat" where
  "head_end mx i [] = i"
| "head_end mx i (c # cs) = (if mx < i + length c then i else head_end mx (i + length c) cs)"

definition head_within_bytes :: "string \<Rightarrow> nat \<Rightarrow> string" where
  "head_within_bytes s mx = (if length s \<le> mx then s else take (head_end mx 0 (utf8_chars s)) s)"

definition is_text_representable :: "json \<Rightarrow> bool" where
  "is_text_representable result =
     (case jget_array ''content'' result of
        Some blocks \<Rightarrow> list_all (\<lambda>b. jget_str ''text'' b \<noteq> None) blocks
      | None \<Rightarrow> True)"

section \<open>The notice for a body that was not kept\<close>

text \<open>\<open>{:.1}\<close> of \<open>body_bytes as f64 / 1_000_000.0\<close>: the quotient rounded to 53 significant bits,
  then to one decimal, both to nearest with ties to even.\<close>

definition round_div :: "nat \<Rightarrow> nat \<Rightarrow> nat" where
  "round_div p q =
     (let d = p div q; r = p mod q in if 2 * r < q \<or> (2 * r = q \<and> even d) then d else d + 1)"

fun scale_bits :: "nat \<Rightarrow> nat \<Rightarrow> nat \<Rightarrow> nat" where
  "scale_bits 0 p q = 0"
| "scale_bits (Suc n) p q = (if 2 ^ 52 * q \<le> p then 0 else Suc (scale_bits n (2 * p) q))"

definition one_decimal :: "nat \<Rightarrow> nat \<Rightarrow> string" where
  "one_decimal p q =
     (let k = scale_bits 75 p q; m = round_div (p * 2 ^ k) q; t = round_div (m * 10) (2 ^ k)
      in show_nat (t div 10) @ ''.'' @ show_nat (t mod 10))"

definition not_retained_notice :: "nat \<Rightarrow> string" where
  "not_retained_notice body_bytes =
     nl @ nl @ ''[Toolport: full result ('' @ one_decimal body_bytes 1000000 @
     '' MB) was too large to keep for paging. Re-run the tool with narrower arguments.]''"

section \<open>Shaping a result\<close>

definition own_field :: "string \<Rightarrow> bool" where
  "own_field k \<longleftrightarrow> k \<in> {''content'', ''structuredContent'', ''isError''}"

definition preserved_bytes :: "shape_env \<Rightarrow> json \<Rightarrow> nat" where
  "preserved_bytes env result =
     (case as_object result of
        None \<Rightarrow> 0
      | Some m \<Rightarrow>
          sum_list (map (\<lambda>(k, v). length k + value_size env v + 4) (filter (\<lambda>(k, _). \<not> own_field k) m)))"

definition result_server :: "json \<Rightarrow> string option" where
  "result_server result = Option.bind (pointer ''/_meta/app.toolport~1provenance/server'' result) as_str"

definition shaped_marker :: "nat \<Rightarrow> nat \<Rightarrow> nat \<Rightarrow> nat \<Rightarrow> string \<Rightarrow> string" where
  "shaped_marker sz bud head_chars tot cursor =
     nl @ nl @ ''[Toolport shaped this result: ~'' @ show_nat (sz div 1024) @ '' KB exceeds '' @
     show_nat (bud div 1024) @ '' KB budget. Showing first '' @ show_nat head_chars @ '' of '' @
     show_nat tot @ '' characters. Continue with toolport_fetch_result {'' @ dq @ ''cursor'' @ dq @
     '':'' @ dq @ cursor @ dq @ '','' @ dq @ ''offset'' @ dq @ '':'' @ show_nat head_chars @
     ''}. If the cursor expired, re-run the original tool call.]''"

definition carry_envelope :: "json \<Rightarrow> json \<Rightarrow> json" where
  "carry_envelope result shaped =
     (case (result, shaped) of
        (JObj src, JObj dst) \<Rightarrow>
          JObj (foldl (\<lambda>d (k, v). if own_field k then d else obj_insert k v d) dst src)
      | _ \<Rightarrow> shaped)"

text \<open>The closure \<open>build\<close>; \<open>mk\<close> gives the notice for a head of so many characters.\<close>

definition build_shaped :: "json \<Rightarrow> (nat \<Rightarrow> string) \<Rightarrow> bool \<Rightarrow> string \<Rightarrow> json" where
  "build_shaped result mk is_error head =
     (let shaped = carry_envelope result (text_result (head @ mk (char_count head)) is_error)
      in case result_server result of
           Some srv \<Rightarrow> label_untrusted_result srv shaped
         | None \<Rightarrow> shaped)"

fun fit_loop ::
  "(json \<Rightarrow> string) \<Rightarrow> (string \<Rightarrow> json) \<Rightarrow> nat \<Rightarrow> nat \<Rightarrow> nat \<Rightarrow> nat \<Rightarrow> string \<Rightarrow> string" where
  "fit_loop pr build bud min_head 0 limit head = head"
| "fit_loop pr build bud min_head (Suc n) limit head =
     (let sz = length (pr (build head))
      in if sz \<le> bud \<or> head = [] then head
         else let limit' = max (limit - max (sz - bud) 1) min_head
              in fit_loop pr build bud min_head n limit' (head_within_bytes head limit'))"

text \<open>The early returns: shaping is off, the result fits, its text does not stand for it, or the
  envelope alone uses up the budget.\<close>

definition leaves_whole :: "shape_env \<Rightarrow> nat \<Rightarrow> json \<Rightarrow> bool" where
  "leaves_whole env bud result \<longleftrightarrow>
     bud = 0 \<or> length (ser env result) \<le> bud \<or>
     \<not> is_text_representable result \<or>
     snd (extract_body env result) < length (ser env result) div 2 \<or>
     bud \<le> preserved_bytes env result"

definition entry_of :: "shape_env \<Rightarrow> string option \<Rightarrow> json \<Rightarrow> cached" where
  "entry_of env own result =
     (let bdy = fst (extract_body env result); stru = jget ''structuredContent'' result
      in \<lparr>server = result_server result, body = bdy, structured = stru,
          projections_unavailable = False, csize = retained_size env bdy stru, owner = own\<rparr>)"

definition shape_notice :: "shape_env \<Rightarrow> nat \<Rightarrow> json \<Rightarrow> bool \<Rightarrow> string \<Rightarrow> nat \<Rightarrow> string" where
  "shape_notice env bud result retained cursor head_chars =
     (let bdy = fst (extract_body env result)
      in if retained then shaped_marker (length (ser env result)) bud head_chars (char_count bdy) cursor
         else not_retained_notice (length bdy))"

definition shape_result_preserving_prefix ::
  "shape_env \<Rightarrow> nat \<Rightarrow> nat \<Rightarrow> string option \<Rightarrow> nat \<Rightarrow> json \<Rightarrow> shape_state \<Rightarrow> shape_state \<times> json \<times> bool" where
  "shape_result_preserving_prefix env now bud own min_head_bytes result st =
     (if leaves_whole env bud result then (st, result, False)
      else let bdy = fst (extract_body env result);
               min_head = min min_head_bytes (length bdy);
               limit = max (bud - (512 + preserved_bytes env result)) min_head;
               is_error = (case jget_bool ''isError'' result of Some b \<Rightarrow> b | None \<Rightarrow> False);
               (st1, cursor) = next_cursor st;
               (st2, retained) = retain_result env now cursor (entry_of env own result) st1;
               build = build_shaped result (shape_notice env bud result retained cursor) is_error;
               head = fit_loop (ser env) build bud min_head 4 limit (head_within_bytes bdy limit);
               shaped = build head
      in if bud < length (ser env shaped)
         then (st2\<lparr>cache := fst (remove_entry cursor (cache st2))\<rparr>, result, False)
         else (st2\<lparr>trim_pending := trim_pending st2 \<or> 1024 * 1024 \<le> length (ser env result)\<rparr>, shaped, True))"

definition shape_result ::
  "shape_env \<Rightarrow> nat \<Rightarrow> nat \<Rightarrow> string option \<Rightarrow> json \<Rightarrow> shape_state \<Rightarrow> shape_state \<times> json \<times> bool" where
  "shape_result env now bud own result st = shape_result_preserving_prefix env now bud own 0 result st"

definition stash_payload ::
  "shape_env \<Rightarrow> nat \<Rightarrow> string \<Rightarrow> json option \<Rightarrow> string option \<Rightarrow> shape_state \<Rightarrow> shape_state \<times> string option" where
  "stash_payload env now bdy stru own st =
     (let (st1, cursor) = next_cursor st;
          entry = \<lparr>server = None, body = bdy, structured = stru, projections_unavailable = False,
                   csize = retained_size env bdy stru, owner = own\<rparr>;
          (st2, retained) = retain_result env now cursor entry st1
      in (st2, if retained then Some cursor else None))"

section \<open>Reading a result back\<close>

text \<open>The single pass over \<open>char_indices().enumerate()\<close> that maps the window to byte offsets.\<close>

fun page_bounds :: "nat \<Rightarrow> nat \<Rightarrow> nat \<Rightarrow> nat \<Rightarrow> string list \<Rightarrow> nat \<times> nat \<Rightarrow> nat \<times> nat" where
  "page_bounds off en i b [] (sb, eb) = (sb, eb)"
| "page_bounds off en i b (c # cs) (sb, eb) =
     (let sb' = (if i = off then b else sb)
      in if i = en then (sb', b) else page_bounds off en (i + 1) (b + length c) cs (sb', eb))"

text \<open>Indexing with a byte range panics, here \<open>None\<close>, unless start, end and length are in order.\<close>

definition byte_slice :: "string \<Rightarrow> nat \<Rightarrow> nat \<Rightarrow> string option" where
  "byte_slice s i j = (if i \<le> j \<and> j \<le> length s then Some (take (j - i) (drop i s)) else None)"

definition page_end :: "nat \<Rightarrow> nat \<Rightarrow> nat \<Rightarrow> nat" where
  "page_end offset len tot = min (sat_add64 offset len) tot"

definition page_footer :: "nat \<Rightarrow> nat \<Rightarrow> nat \<Rightarrow> string" where
  "page_footer offset en tot =
     (if 0 < tot - en
      then nl @ nl @ ''[Toolport: characters '' @ show_nat offset @ ''..'' @ show_nat en @ '' of '' @
           show_nat tot @ ''. '' @ show_nat (tot - en) @
           '' remain, call toolport_fetch_result with offset='' @ show_nat en @ '' for the next slice.]''
      else nl @ nl @ ''[Toolport: end of result ('' @ show_nat tot @ '' characters).]'')"

definition unknown_cursor :: "string \<Rightarrow> json" where
  "unknown_cursor cursor =
     text_result (''[Toolport: cursor '' @ dq @ cursor @ dq @
       '' is unknown or expired. Re-run the original tool call to get a fresh result.]'') True"

definition label_if :: "string option \<Rightarrow> json \<Rightarrow> json" where
  "label_if srv v = (case srv of Some s \<Rightarrow> label_untrusted_result s v | None \<Rightarrow> v)"

definition fetch_projection :: "shape_env \<Rightarrow> cached \<Rightarrow> string \<Rightarrow> json" where
  "fetch_projection env c path =
     (case structured c of
        None \<Rightarrow>
          text_result
            (if projections_unavailable c
             then ''[Toolport: projections aren'' @ [CHR 0x27] @ ''t available for this very large result. Page the text or narrow the call.]''
             else ''[Toolport: this cached result has no structuredContent.]'') True
      | Some v \<Rightarrow>
          (case project v path of
             None \<Rightarrow> text_result (''[Toolport: projection '' @ dq @ path @ dq @ '' not found.]'') True
           | Some w \<Rightarrow> label_if (server c) (text_result (ser env w) False)))"

definition fetch_page :: "nat \<Rightarrow> nat \<Rightarrow> nat \<Rightarrow> cached \<Rightarrow> json option" where
  "fetch_page bud offset len c =
     (let tot = char_count (body c)
      in if tot \<le> offset
         then Some (text_result (''[Toolport: offset '' @ show_nat offset @ '' is at or past the end of the result ('' @
                show_nat tot @ '' characters). Nothing more to read.]'') False)
         else let n = (if len = 0 then bud else len);
                  en = page_end offset n tot;
                  (sb, eb) = page_bounds offset en 0 0 (utf8_chars (body c)) (length (body c), length (body c))
              in map_option (\<lambda>slice. label_if (server c) (text_result (slice @ page_footer offset en tot) False))
                   (byte_slice (body c) sb eb))"

text \<open>\<open>bud\<close> is what \<open>budget()\<close> resolves to at the call.\<close>

definition fetch_result ::
  "shape_env \<Rightarrow> nat \<Rightarrow> nat \<Rightarrow> string \<Rightarrow> nat \<Rightarrow> nat \<Rightarrow> string option \<Rightarrow> string option \<Rightarrow> shape_state \<Rightarrow>
   shape_state \<times> json option" where
  "fetch_result env now bud cursor offset len requester projection st =
     (let st1 = sweep now st
      in case get_entry now cursor (cache st1) of
           None \<Rightarrow> (st1, Some (unknown_cursor cursor))
         | Some c \<Rightarrow>
             if owner c \<noteq> requester then (st1, Some (unknown_cursor cursor))
             else case projection of
                    Some path \<Rightarrow> (st1, Some (fetch_projection env c path))
                  | None \<Rightarrow> (st1, fetch_page bud offset len c))"

section \<open>Characters and heads\<close>

lemma span_append:
  assumes "r = [] \<or> \<not> P (hd r)"
  shows "takeWhile P (takeWhile P xs @ r) = takeWhile P xs" and "dropWhile P (takeWhile P xs @ r) = r"
proof -
  have "\<forall>x \<in> set (takeWhile P xs). P x" by (auto dest: set_takeWhileD)
  with assms show "takeWhile P (takeWhile P xs @ r) = takeWhile P xs"
    and "dropWhile P (takeWhile P xs @ r) = r"
    by (cases r; simp add: takeWhile_append2 dropWhile_append2)+
qed

lemma utf8_chars_take: "utf8_chars (concat (take j (utf8_chars s))) = take j (utf8_chars s)"
proof (induction s arbitrary: j rule: utf8_chars.induct)
  case (2 c cs)
  show ?case
  proof (cases j)
    case (Suc i)
    let ?r = "concat (take i (utf8_chars (dropWhile is_cont cs)))"
    have "?r = [] \<or> \<not> is_cont (hd ?r)"
    proof (cases "dropWhile is_cont cs")
      case Nil
      show ?thesis unfolding Nil by simp
    next
      case (Cons d ds)
      then have "\<not> is_cont d" by (metis dropWhile_eq_Cons_conv)
      with Cons show ?thesis by (cases i) auto
    qed
    then have "takeWhile is_cont (takeWhile is_cont cs @ ?r) = takeWhile is_cont cs"
      and "dropWhile is_cont (takeWhile is_cont cs @ ?r) = ?r"
      by (simp_all only: span_append)
    with 2 [of i] Suc show ?thesis by simp
  qed simp
qed simp

text \<open>How many of the leading characters fit.\<close>

fun fit_count :: "nat \<Rightarrow> string list \<Rightarrow> nat" where
  "fit_count mx [] = 0"
| "fit_count mx (c # cs) = (if mx < length c then 0 else Suc (fit_count (mx - length c) cs))"

lemma head_end_fit: "i \<le> mx \<Longrightarrow> head_end mx i cs = i + length (concat (take (fit_count (mx - i) cs) cs))"
proof (induction cs arbitrary: i)
  case (Cons c cs)
  then show ?case by (auto simp: less_diff_conv2 add.commute)
qed simp

lemma fit_count_all: "length (concat cs) \<le> mx \<Longrightarrow> fit_count mx cs = length cs"
  by (induction cs arbitrary: mx) auto

lemma take_concat_take: "take (length (concat (take k cs))) (concat cs) = concat (take k cs)"
  by (metis append_eq_conv_conj append_take_drop_id concat_append)

lemma head_within_bytes_fit:
  "head_within_bytes s mx = concat (take (fit_count mx (utf8_chars s)) (utf8_chars s))"
proof (cases "length s \<le> mx")
  case True
  then show ?thesis by (simp add: head_within_bytes_def fit_count_all)
next
  case False
  then show ?thesis
    using take_concat_take [of "fit_count mx (utf8_chars s)" "utf8_chars s"]
    by (simp add: head_within_bytes_def head_end_fit)
qed

lemma fit_count_mono: "a \<le> b \<Longrightarrow> fit_count a cs \<le> fit_count b cs"
  by (induction cs arbitrary: a b) (auto simp: diff_le_mono)

lemma fit_count_take: "fit_count b (take j cs) = min j (fit_count b cs)"
  by (induction cs arbitrary: b j; case_tac j) auto

lemma fit_count_le: "length (concat (take (fit_count mx cs) cs)) \<le> mx"
proof (induction cs arbitrary: mx)
  case (Cons c cs)
  show ?case using Cons.IH [of "mx - length c"] by auto
qed simp

lemma head_within_bytes_length: "length (head_within_bytes s mx) \<le> mx"
  by (simp only: head_within_bytes_fit fit_count_le)

lemma head_of_head:
  assumes "b \<le> a"
  shows "head_within_bytes (head_within_bytes s a) b = head_within_bytes s b"
  by (simp add: head_within_bytes_fit utf8_chars_take fit_count_take min.absorb2 fit_count_mono assms
      min.absorb1)

lemma head_prefix_mono:
  assumes "a \<le> b"
  shows "\<exists>r. head_within_bytes s b = head_within_bytes s a @ r"
proof -
  let ?cs = "utf8_chars s"
  have "fit_count a ?cs \<le> fit_count b ?cs" using assms by (rule fit_count_mono)
  then obtain d where "fit_count b ?cs = fit_count a ?cs + d" using le_Suc_ex by blast
  then show ?thesis by (simp add: head_within_bytes_fit take_add)
qed

lemma head_within_bytes_prefix: "\<exists>r. s = head_within_bytes s mx @ r"
  by (metis append_take_drop_id concat_append concat_utf8_chars head_within_bytes_fit)

text \<open>The shrinking loop only ever shortens the head of the body, never below the protected part.\<close>

lemma fit_loop_head:
  assumes "head = head_within_bytes s limit" and "min_head \<le> limit"
  shows "\<exists>l \<ge> min_head. fit_loop pr build bud min_head n limit head = head_within_bytes s l"
  using assms
proof (induction n arbitrary: limit head)
  case (Suc n)
  let ?l = "max (limit - max (length (pr (build head)) - bud) 1) min_head"
  have "?l \<le> limit" using Suc.prems(2) by auto
  then have "head_within_bytes head ?l = head_within_bytes s ?l"
    using Suc.prems(1) by (simp add: head_of_head)
  with Suc show ?case by (auto simp: Let_def)
qed auto

section \<open>Pages\<close>

lemma page_bounds_spec:
  assumes "i \<le> en" and "off \<le> en"
  shows "page_bounds off en i b cs (sb, eb) =
    (if i \<le> off \<and> off < i + length cs then b + length (concat (take (off - i) cs)) else sb,
     if en < i + length cs then b + length (concat (take (en - i) cs)) else eb)"
  using assms
proof (induction cs arbitrary: i b sb)
  case (Cons c cs)
  show ?case
  proof (cases "i = en")
    case True
    with Cons.prems show ?thesis by auto
  next
    case False
    then have "Suc i \<le> en" using Cons.prems by simp
    from Cons.IH [OF this Cons.prems(2)] show ?thesis
      using False Cons.prems by (auto simp: Let_def take_Cons' Suc_diff_le not_less_eq_eq)
  qed
qed simp

definition page_slice :: "string \<Rightarrow> nat \<Rightarrow> nat \<Rightarrow> string" where
  "page_slice s off en = concat (take (en - off) (drop off (utf8_chars s)))"

lemma byte_slice_middle: "byte_slice (a @ b @ c) (length a) (length a + length b) = Some b"
  by (simp add: byte_slice_def)

lemma page_bounds_slice:
  assumes "off \<le> en" and "en \<le> char_count s"
  shows "(case page_bounds off en 0 0 (utf8_chars s) (length s, length s) of (sb, eb) \<Rightarrow> byte_slice s sb eb) =
    Some (page_slice s off en)"
proof -
  let ?cs = "utf8_chars s"
  have full: "k = length ?cs \<Longrightarrow> length (concat (take k ?cs)) = length s" for k by simp
  have pb: "page_bounds off en 0 0 ?cs (length s, length s) =
      (length (concat (take off ?cs)), length (concat (take en ?cs)))"
    using assms full by (auto simp: page_bounds_spec char_count_def)
  obtain d where d: "en = off + d" using assms(1) le_Suc_ex by blast
  have split: "s = concat (take off ?cs) @ concat (take d (drop off ?cs)) @ concat (drop en ?cs)"
    by (metis append_assoc append_take_drop_id concat_append concat_utf8_chars d take_add)
  have len: "length (concat (take en ?cs)) =
      length (concat (take off ?cs)) + length (concat (take d (drop off ?cs)))"
    by (simp add: d take_add)
  show ?thesis
    unfolding pb prod.case len
    using byte_slice_middle [of "concat (take off ?cs)" "concat (take d (drop off ?cs))" "concat (drop en ?cs)"]
    by (simp add: page_slice_def d flip: split [unfolded d])
qed

section \<open>The cache stays within its bounds\<close>

definition cursor_of :: "nat \<Rightarrow> string" where
  "cursor_of n = ''r'' @ show_nat n"

definition keys_below :: "nat \<Rightarrow> 'v session_store \<Rightarrow> bool" where
  "keys_below n s \<longleftrightarrow> (\<forall>k e. map_of (entries s) k = Some e \<longrightarrow> (\<exists>m < n. k = cursor_of m))"

definition shape_inv :: "shape_state \<Rightarrow> bool" where
  "shape_inv st \<longleftrightarrow>
     store_inv (cache st) \<and> ttl (cache st) = cache_ttl \<and> cap (cache st) = max_cache_entries \<and>
     store_weight csize (cache st) \<le> max_cache_bytes \<and> keys_below (cursor_n st) (cache st)"

lemma shape_invI:
  "store_inv (cache st) \<Longrightarrow> ttl (cache st) = cache_ttl \<Longrightarrow> cap (cache st) = max_cache_entries \<Longrightarrow>
   store_weight csize (cache st) \<le> max_cache_bytes \<Longrightarrow> keys_below (cursor_n st) (cache st) \<Longrightarrow> shape_inv st"
  by (simp add: shape_inv_def)

lemma store_inv_distinct: "store_inv s \<Longrightarrow> distinct_keys (entries s)"
  by (simp add: store_inv_def entries_ok_def)

lemma keys_below_sub:
  "keys_below n s \<Longrightarrow> (\<And>k e. map_of (entries t) k = Some e \<Longrightarrow> map_of (entries s) k = Some e) \<Longrightarrow> keys_below n t"
  unfolding keys_below_def by blast

lemma keys_below_reap: "store_inv s \<Longrightarrow> keys_below n s \<Longrightarrow> keys_below n (fst (reap_expired now s))"
  by (erule keys_below_sub) (auto simp: alist_simps store_inv_distinct split: option.splits if_splits)

lemma keys_below_insert:
  assumes "store_inv s" and "keys_below n s"
  shows "keys_below (Suc n) (insert_entry now (cursor_of n) v s)"
proof -
  have "\<exists>m < Suc n. k = cursor_of m"
    if "map_of (entries (insert_entry now (cursor_of n) v s)) k = Some e" for k e
  proof (cases "k = cursor_of n")
    case False
    have "map_of (entries s) k = Some e"
      using insert_entry_other [OF _ False that] assms(1) by (simp add: store_inv_distinct)
    with assms(2) show ?thesis unfolding keys_below_def using less_SucI by blast
  qed blast
  then show ?thesis by (simp add: keys_below_def)
qed

lemma evict_loop_sub:
  "map_of (entries (fst (evict_loop n s))) k = Some e \<Longrightarrow> map_of (entries s) k = Some e"
proof (induction n s rule: evict_loop.induct)
  case (1 n s)
  show ?case
  proof (cases "needs_room n s \<and> snd (remove_oldest s)")
    case True
    then have "evict_loop n s = (fst (evict_loop n (fst (remove_oldest s))), True)"
      by (subst evict_loop.simps) simp
    with 1 True show ?thesis by (auto dest: remove_oldest_sub)
  next
    case False
    then have "evict_loop n s = (s, False)" by (subst evict_loop.simps) auto
    with 1(2) show ?thesis by simp
  qed
qed

lemma evict_loop_bounds:
  assumes "store_inv s"
  shows "store_inv (fst (evict_loop n s)) \<and> \<not> needs_room n (fst (evict_loop n s)) \<and>
    ttl (fst (evict_loop n s)) = ttl s \<and> cap (fst (evict_loop n s)) = cap s"
  using assms
proof (induction n s rule: evict_loop.induct)
  case (1 n s)
  show ?case
  proof (cases "needs_room n s")
    case True
    then have more: "snd (remove_oldest s)"
      by (auto simp: needs_room_def store_is_empty_def remove_oldest_def oldest_entry_None split: option.splits)
    with True have "evict_loop n s = (fst (evict_loop n (fst (remove_oldest s))), True)"
      by (subst evict_loop.simps) simp
    with 1(1) [OF True more] 1(2) show ?thesis by (simp add: store_inv_remove_oldest)
  next
    case False
    then have "evict_loop n s = (s, False)" by (subst evict_loop.simps) auto
    with False 1(2) show ?thesis by simp
  qed
qed

lemma evict_loop_get:
  assumes "store_inv s" and "get_entry now k (fst (evict_loop n s)) = Some c"
  shows "get_entry now k s = Some c"
  using assms(2) evict_loop_bounds [OF assms(1), of n] evict_loop_sub unfolding get_entry_Some by metis

lemma shape_inv_init: "shape_inv init_shape"
  by (simp add: shape_inv_def init_shape_def max_cache_entries_def store_weight_def keys_below_def)

lemma shape_inv_trim [simp]: "shape_inv (st\<lparr>trim_pending := b\<rparr>) = shape_inv st"
  by (simp add: shape_inv_def)

lemma sweep_simps [simp]:
  "cache (sweep now st) = fst (reap_expired now (cache st))" "cursor_n (sweep now st) = cursor_n st"
  by (simp_all add: sweep_def Let_def case_prod_unfold)

lemma shape_inv_sweep: "shape_inv st \<Longrightarrow> shape_inv (sweep now st)"
  by (auto simp: shape_inv_def store_inv_reap keys_below_reap simp del: reap_expired_simps(4)
      intro: order.trans [OF store_weight_reap])

lemma shape_inv_remove: "shape_inv st \<Longrightarrow> shape_inv (st\<lparr>cache := fst (remove_entry k (cache st))\<rparr>)"
  by (auto simp: shape_inv_def remove_entry_def store_inv_delete alist_simps keys_below_def
      intro: order.trans [OF store_weight_remove [unfolded remove_entry_def fst_conv]] split: if_splits)

lemma cursor_of_inj [simp]: "cursor_of a = cursor_of b \<longleftrightarrow> a = b"
  by (simp add: cursor_of_def str_simps)

lemma next_cursor_simps [simp]:
  "snd (next_cursor st) = cursor_of (cursor_n st)" "cache (fst (next_cursor st)) = cache st"
  "cursor_n (fst (next_cursor st)) = cursor_n st + 1"
  by (simp_all add: next_cursor_def cursor_of_def)

lemma evict_to_fit_simps [simp]:
  "cache (evict_to_fit n st) = fst (evict_loop n (cache st))" "cursor_n (evict_to_fit n st) = cursor_n st"
  by (simp_all add: evict_to_fit_def Let_def case_prod_unfold)

text \<open>What \<open>retain\<close> admits: the entry itself, or the entry without its structured part.\<close>

definition admitted :: "shape_env \<Rightarrow> cached \<Rightarrow> cached" where
  "admitted env e =
     (if max_cache_bytes < csize e \<and> structured e \<noteq> None
      then e\<lparr>structured := None, projections_unavailable := True, csize := retained_size env (body e) None\<rparr>
      else e)"

lemma admitted_simps [simp]:
  "body (admitted env e) = body e" "owner (admitted env e) = owner e" "server (admitted env e) = server e"
  by (simp_all add: admitted_def)

lemma retain_result_unfold:
  "cache (fst (retain_result env now cur e st)) =
     (if max_cache_bytes < csize (admitted env e) then cache st
      else insert_entry now cur (admitted env e)
             (fst (evict_loop (csize (admitted env e)) (fst (reap_expired now (cache st))))))"
  "snd (retain_result env now cur e st) = (csize (admitted env e) \<le> max_cache_bytes)"
  "cursor_n (fst (retain_result env now cur e st)) = cursor_n st"
  by (simp_all add: retain_result_def retain_in_def Let_def case_prod_unfold admitted_def)

lemma shape_inv_retain:
  assumes "shape_inv st"
  shows "shape_inv (fst (retain_result env now (cursor_of (cursor_n st)) e (fst (next_cursor st))))"
proof (cases "max_cache_bytes < csize (admitted env e)")
  case True
  with assms show ?thesis by (fastforce simp: shape_inv_def retain_result_unfold keys_below_def)
next
  case False
  let ?a = "admitted env e"
  let ?r = "fst (reap_expired now (cache st))"
  let ?v = "fst (evict_loop (csize ?a) ?r)"
  have r: "store_inv ?r" "keys_below (cursor_n st) ?r"
    using assms by (simp_all add: shape_inv_def store_inv_reap keys_below_reap)
  note ev = evict_loop_bounds [OF r(1), of "csize ?a"]
  have "store_weight csize ?v + csize ?a \<le> max_cache_bytes"
    using ev False by (auto simp: needs_room_def store_is_empty_def store_weight_def)
  then have w: "store_weight csize (insert_entry now (cursor_of (cursor_n st)) ?a ?v) \<le> max_cache_bytes"
    by (rule order.trans [OF store_weight_insert])
  have "keys_below (cursor_n st) ?v" using r(2) evict_loop_sub by (rule keys_below_sub)
  then have "keys_below (Suc (cursor_n st)) (insert_entry now (cursor_of (cursor_n st)) ?a ?v)"
    using ev by (simp add: keys_below_insert)
  with w assms ev False show ?thesis
    by (intro shape_invI) (simp_all add: retain_result_unfold store_inv_insert shape_inv_def)
qed

section \<open>What shaping does\<close>

definition kept_state :: "shape_env \<Rightarrow> nat \<Rightarrow> cached \<Rightarrow> shape_state \<Rightarrow> shape_state" where
  "kept_state env now e st = fst (retain_result env now (cursor_of (cursor_n st)) e (fst (next_cursor st)))"

text \<open>The three outcomes: not shaped and nothing kept, declined after the entry was admitted, and
  shaped, in which case the text starts with a head of the body.\<close>

lemma shape_cases:
  obtains
    (skip) "shape_result_preserving_prefix env now bud own mh result st = (st, result, False)"
  | (declined) st2 where "st2 = kept_state env now (entry_of env own result) st"
      and "shape_result_preserving_prefix env now bud own mh result st =
        (st2\<lparr>cache := fst (remove_entry (cursor_of (cursor_n st)) (cache st2))\<rparr>, result, False)"
  | (shaped) st2 b mk er l where "st2 = kept_state env now (entry_of env own result) st"
      and "min mh (length (fst (extract_body env result))) \<le> l"
      and "shape_result_preserving_prefix env now bud own mh result st =
        (st2\<lparr>trim_pending := b\<rparr>,
         build_shaped result mk er (head_within_bytes (fst (extract_body env result)) l), True)"
      and "length (ser env (build_shaped result mk er (head_within_bytes (fst (extract_body env result)) l))) \<le> bud"
proof (cases "leaves_whole env bud result")
  case True
  then show ?thesis by (intro that(1)) (simp add: shape_result_preserving_prefix_def)
next
  case False
  define cur where "cur = cursor_of (cursor_n st)"
  define st2 where "st2 = kept_state env now (entry_of env own result) st"
  define er where "er = (case jget_bool ''isError'' result of Some b \<Rightarrow> b | None \<Rightarrow> False)"
  define mk where "mk = shape_notice env bud result
    (snd (retain_result env now cur (entry_of env own result) (fst (next_cursor st)))) cur"
  define mn where "mn = min mh (length (fst (extract_body env result)))"
  define lim where "lim = max (bud - (512 + preserved_bytes env result)) mn"
  obtain l where l: "mn \<le> l" "fit_loop (ser env) (build_shaped result mk er) bud mn 4 lim
      (head_within_bytes (fst (extract_body env result)) lim) = head_within_bytes (fst (extract_body env result)) l"
    using fit_loop_head [of _ "fst (extract_body env result)" lim mn "ser env" "build_shaped result mk er" bud 4]
    by (auto simp: lim_def)
  define sh where "sh = build_shaped result mk er (head_within_bytes (fst (extract_body env result)) l)"
  have unfold: "shape_result_preserving_prefix env now bud own mh result st =
      (if bud < length (ser env sh) then (st2\<lparr>cache := fst (remove_entry cur (cache st2))\<rparr>, result, False)
       else (st2\<lparr>trim_pending := trim_pending st2 \<or> 1024 * 1024 \<le> length (ser env result)\<rparr>, sh, True))"
    using False l(2)
    unfolding shape_result_preserving_prefix_def sh_def st2_def cur_def er_def mk_def mn_def lim_def kept_state_def
    by (simp add: Let_def case_prod_unfold)
  show ?thesis
  proof (cases "bud < length (ser env sh)")
    case True
    with unfold show ?thesis using that(2) [OF st2_def] by (simp add: cur_def)
  next
    case False
    with unfold l(1) show ?thesis using that(3) [OF st2_def] by (simp add: sh_def mn_def)
  qed
qed

lemma carry_fold_own:
  "own_field k \<Longrightarrow>
     map_of (foldl (\<lambda>d (k, v). if own_field k then d else obj_insert k v d) dst src) k = map_of dst k"
  by (induction src arbitrary: dst) (auto simp: alist_simps)

lemma carry_fold_other:
  assumes "\<not> own_field k" and "distinct_keys src"
  shows "map_of (foldl (\<lambda>d (k, v). if own_field k then d else obj_insert k v d) dst src) k =
     (case map_of src k of Some v \<Rightarrow> Some v | None \<Rightarrow> map_of dst k)"
  using assms(2)
proof (induction src arbitrary: dst)
  case (Cons x src)
  obtain a b where x: "x = (a, b)" by (cases x)
  with Cons.prems have "a \<notin> fst ` set src" "distinct_keys src" by simp_all
  with Cons.IH assms(1) x show ?case
    by (cases "a = k") (simp_all add: alist_simps map_of_eq_None_iff [THEN iffD2] split: option.split)
qed simp

lemma own_fields [simp]: "own_field ''content''" "own_field ''structuredContent''" "own_field ''isError''"
  by (simp_all add: own_field_def)

lemma carry_content: "jget ''content'' (carry_envelope result (text_result t er)) =
    Some (JArr [JObj [(''text'', JStr t), (''type'', JStr ''text'')]])"
  by (cases result) (simp_all add: carry_envelope_def text_result_def carry_fold_own)

lemma carry_is_object: "\<exists>m. carry_envelope result (text_result t er) = JObj m"
  by (cases result) (simp_all add: carry_envelope_def text_result_def)

lemma mark_block_text: "jget_str ''text'' (mark_block p b) = jget_str ''text'' b"
  by (simp add: mark_block_def jget_str_def label_simps del: mark.simps)

lemma build_shaped_text:
  "content_texts (build_shaped result mk er head) = [head @ mk (char_count head)]"
proof -
  let ?t = "head @ mk (char_count head)"
  obtain m where m: "carry_envelope result (text_result ?t er) = JObj m" using carry_is_object by blast
  have c: "jget ''content'' (JObj m) = Some (JArr [JObj [(''text'', JStr ?t), (''type'', JStr ''text'')]])"
    using carry_content [of result ?t er] m by simp
  have tx: "jget_str ''text'' (JObj [(''text'', JStr ?t), (''type'', JStr ''text'')]) = Some ?t"
    by (simp add: jget_str_def)
  show ?thesis
  proof (cases "result_server result")
    case None
    with c tx show ?thesis
      by (simp add: build_shaped_def m content_texts_def jget_array_def List.map_filter_def del: jget.simps)
  next
    case (Some srv)
    from c have "map_of m ''content'' = Some (JArr [JObj [(''text'', JStr ?t), (''type'', JStr ''text'')]])" by simp
    from label_untrusted_result_content [OF this, of srv] show ?thesis
      using tx Some by (simp add: build_shaped_def m content_texts_def jget_array_def List.map_filter_def
          mark_block_text del: jget.simps)
  qed
qed

lemma label_other:
  "k \<notin> {''_meta'', ''content'', ''contents'', ''messages''} \<Longrightarrow> jget k (label_untrusted_result srv v) = jget k v"
  by (simp add: label_untrusted_result_def Let_def label_simps del: mark.simps)

lemma build_shaped_envelope:
  assumes "distinct_keys m" and "\<not> own_field k" and "k \<notin> {''_meta'', ''contents'', ''messages''}"
  shows "jget k (build_shaped (JObj m) mk er head) = map_of m k"
proof -
  have "k \<noteq> ''content''" "k \<noteq> ''isError''" using assms(2) by (auto simp: own_field_def)
  then show ?thesis
    using assms
    by (auto simp: build_shaped_def Let_def label_other carry_envelope_def text_result_def carry_fold_other
        split: option.splits)
qed

section \<open>The cache as a transition system\<close>

inductive shape_step :: "shape_state \<Rightarrow> shape_state \<Rightarrow> bool" where
  step_shape: "shape_step st (fst (shape_result_preserving_prefix env now bud own mh result st))"
| step_stash: "shape_step st (fst (stash_payload env now bdy stru own st))"
| step_fetch: "shape_step st (fst (fetch_result env now bud cursor offset len requester projection st))"
| step_tick: "shape_step st (fst (maintain_cache now idle st))"

lemma fetch_state [simp]:
  "fst (fetch_result env now bud cursor offset len requester projection st) = sweep now st"
  by (simp add: fetch_result_def Let_def split: option.splits)

lemma stash_simps:
  "fst (stash_payload env now bdy stru own st) =
     kept_state env now \<lparr>server = None, body = bdy, structured = stru, projections_unavailable = False,
       csize = retained_size env bdy stru, owner = own\<rparr> st"
  "snd (stash_payload env now bdy stru own st) =
     (if csize (admitted env \<lparr>server = None, body = bdy, structured = stru, projections_unavailable = False,
        csize = retained_size env bdy stru, owner = own\<rparr>) \<le> max_cache_bytes
      then Some (cursor_of (cursor_n st)) else None)"
  by (simp_all add: stash_payload_def kept_state_def case_prod_unfold Let_def retain_result_unfold)

lemma shape_inv_kept: "shape_inv st \<Longrightarrow> shape_inv (kept_state env now e st)"
  unfolding kept_state_def by (rule shape_inv_retain)

lemma shape_inv_step:
  assumes "shape_step st st'" and "shape_inv st"
  shows "shape_inv st'"
  using assms(1)
proof cases
  case (step_shape env now bud own mh result)
  then show ?thesis
    by (cases rule: shape_cases [of env now bud own mh result st])
      (simp_all add: assms(2) shape_inv_kept shape_inv_remove)
qed (simp_all add: assms(2) shape_inv_sweep stash_simps shape_inv_kept maintain_cache_def Let_def)

interpretation shape_sys: invariant_system "\<lambda>st. st = init_shape" shape_step shape_inv
  by unfold_locales (auto simp: shape_inv_init intro: shape_inv_step)

section \<open>What stays fetchable\<close>

lemma kept_get:
  assumes "shape_inv st" and "csize (admitted env e) \<le> max_cache_bytes" and "now' - now < cache_ttl"
  shows "get_entry now' (cursor_of (cursor_n st)) (cache (kept_state env now e st)) = Some (admitted env e)"
proof -
  let ?r = "fst (reap_expired now (cache st))"
  have "store_inv ?r" using assms(1) by (simp add: shape_inv_def store_inv_reap)
  from evict_loop_bounds [OF this, of "csize (admitted env e)"] assms show ?thesis
    by (simp add: kept_state_def retain_result_unfold sess.look_put shape_inv_def)
qed

lemma kept_get_other:
  assumes "shape_inv st" and "now \<le> now'" and "k \<noteq> cursor_of (cursor_n st)"
    and "get_entry now' k (cache (kept_state env now e st)) = Some c"
  shows "get_entry now' k (cache st) = Some c"
proof (cases "csize (admitted env e) \<le> max_cache_bytes")
  case True
  let ?r = "fst (reap_expired now (cache st))"
  have inv: "store_inv (cache st)" "store_inv ?r" using assms(1) by (simp_all add: shape_inv_def store_inv_reap)
  have "store_inv (fst (evict_loop (csize (admitted env e)) ?r))" using evict_loop_bounds inv(2) by blast
  from sess.look_put_other [OF this assms(3)] assms(4) True
  have "get_entry now' k (fst (evict_loop (csize (admitted env e)) ?r)) = Some c"
    by (simp add: kept_state_def retain_result_unfold)
  with inv have "get_entry now' k ?r = Some c" by (blast intro: evict_loop_get)
  with inv(1) assms(2) show ?thesis by (simp add: sess.look_reap)
qed (use assms(4) in \<open>simp add: kept_state_def retain_result_unfold\<close>)

lemma fetch_page_spec:
  assumes "offset < char_count (body c)" and "char_count (body c) \<le> u64_max"
  shows "fetch_page bud offset len c =
    (let n = (if len = 0 then bud else len); en = page_end offset n (char_count (body c))
     in Some (label_if (server c)
          (text_result (page_slice (body c) offset en @ page_footer offset en (char_count (body c))) False)))"
proof -
  let ?en = "page_end offset (if len = 0 then bud else len) (char_count (body c))"
  have "offset \<le> ?en" and "?en \<le> char_count (body c)"
    using assms by (auto simp: page_end_def sat_add64_def)
  from page_bounds_slice [OF this] assms(1) show ?thesis
    by (simp add: fetch_page_def Let_def case_prod_unfold)
qed

lemma page_end_cut: "offset < tot \<Longrightarrow> tot \<le> u64_max \<Longrightarrow> page_end offset n tot = min (offset + n) tot"
  by (auto simp: page_end_def sat_add64_def)

lemma pages_concat:
  assumes "0 < n"
  shows "concat (map (\<lambda>i. concat (take n (drop (i * n) cs))) [0..<k]) = concat (take (k * n) cs)"
proof (induction k)
  case (Suc k)
  have "take (Suc k * n) cs = take (k * n) cs @ take n (drop (k * n) cs)"
    by (simp add: take_add [symmetric] add.commute)
  with Suc show ?case by simp
qed simp

section \<open>Properties\<close>

text \<open>A printer that needs no JSON package, and a result to shape, for the concrete cases below.\<close>

definition demo_env :: shape_env where
  "demo_env =
     \<lparr>ser = (\<lambda>v. if jget ''structuredContent'' v = None then ''short'' else replicate 60 (CHR ''y'')),
      parse = (\<lambda>_. None), str_capacity = length, vec_capacity = length, sizeof_value = 32, sizeof_cached = 136\<rparr>"

definition demo_fields :: jobj where
  "demo_fields = [(''content'', JArr [JObj [(''text'', JStr (replicate 40 (CHR ''t'')))]]),
     (''structuredContent'', JNull), (''x'', JNull)]"

lemma demo_shaped:
  "snd (snd (shape_result_preserving_prefix demo_env 3 50 None 5 (JObj demo_fields) init_shape)) = True"
  by code_simp

text \<open>In every state the result cache reaches, by shaping results, stashing payloads, fetching
  pages and maintenance ticks in any order, it holds at most 64 entries and at most 64 MiB of
  estimated allocations, every entry's cursor was issued before, and entries live 15 minutes.\<close>

theorem shape_cache_bounded:
  assumes "reachable (\<lambda>st. st = init_shape) shape_step st"
  shows "store_len (cache st) \<le> 64 \<and> store_weight csize (cache st) \<le> 67108864 \<and>
    ttl (cache st) = 900000 \<and>
    (\<forall>k e. map_of (entries (cache st)) k = Some e \<longrightarrow> (\<exists>n < cursor_n st. k = ''r'' @ show_nat n))"
  using shape_sys.reachable_inv [OF assms]
  by (simp add: shape_inv_def store_inv_def max_cache_entries_def max_cache_bytes_def cache_ttl_def
      keys_below_def cursor_of_def)

theorem shape_cache_bounded_witness:
  "store_weight csize (cache (fst (stash_payload demo_env 5 ''text'' None None init_shape))) \<le> 67108864"
  by (rule shape_cache_bounded [THEN conjunct2, THEN conjunct1], rule reach_step, rule reach_init)
    (rule refl step_stash)+





text \<open>C22: A client learns nothing about results it does not own: if two caches agree on the live
  entries a requester owns, every fetch it makes gets the same answer from both, so a foreign
  cursor cannot be told from one that never existed.\<close>

theorem fetch_owner_isolation:
  assumes "store_inv (cache st)" and "store_inv (cache st')"
    and "\<And>k c. owner c = requester \<Longrightarrow>
      get_entry now k (cache st) = Some c \<longleftrightarrow> get_entry now k (cache st') = Some c"
  shows "snd (fetch_result env now bud cursor offset len requester projection st) =
    snd (fetch_result env now bud cursor offset len requester projection st')"
proof -
  have swept: "get_entry now cursor (cache (sweep now s)) = get_entry now cursor (cache s)"
    if "store_inv (cache s)" for s
    using that by (simp add: sess.look_reap)
  have "(case get_entry now cursor (cache st) of Some c \<Rightarrow> if owner c = requester then Some c else None | None \<Rightarrow> None) =
        (case get_entry now cursor (cache st') of Some c \<Rightarrow> if owner c = requester then Some c else None | None \<Rightarrow> None)"
    using assms(3) [of _ cursor] by (cases "get_entry now cursor (cache st)"; cases "get_entry now cursor (cache st')") auto
  then show ?thesis
    unfolding fetch_result_def Let_def swept [OF assms(1)] swept [OF assms(2)]
    by (auto split: option.splits if_splits)
qed

theorem fetch_owner_isolation_witness:
  "snd (fetch_result undefined 5 9 ''r1'' 0 0 (Some ''b'') None
     (init_shape\<lparr>cache := insert_entry 1 ''r1'' \<lparr>server = None, body = ''secret'', structured = None,
        projections_unavailable = False, csize = 0, owner = Some ''a''\<rparr> (new_store 100 2)\<rparr>)) =
   snd (fetch_result undefined 5 9 ''r1'' 0 0 (Some ''b'') None (init_shape\<lparr>cache := new_store 100 2\<rparr>))"
proof (rule fetch_owner_isolation)
  fix k and c :: cached
  assume "owner c = Some ''b''"
  then show "get_entry 5 k (cache (init_shape\<lparr>cache := insert_entry 1 ''r1'' \<lparr>server = None, body = ''secret'', structured = None,
        projections_unavailable = False, csize = 0, owner = Some ''a''\<rparr> (new_store 100 2)\<rparr>)) = Some c \<longleftrightarrow>
      get_entry 5 k (cache (init_shape\<lparr>cache := new_store 100 2\<rparr>)) = Some c"
    by (cases "k = ''r1''") (auto simp: get_entry_Some insert_entry_key dest!: insert_entry_other [rotated 2])
qed (simp_all add: store_inv_insert)

text \<open>A shaped result stays readable: if the entry, or the entry without its structured part, fits
  the cache, then until its 15 minutes are over a fetch by its owner, under the cursor the
  notice names, pages through exactly the text the result was cut from.\<close>

theorem shaped_body_fetchable:
  assumes "shape_inv st" and "shape_result_preserving_prefix env now bud own mh result st = (st', r', True)"
    and "csize (admitted env (entry_of env own result)) \<le> max_cache_bytes"
    and "now' - now < cache_ttl"
  shows "snd (fetch_result env now' b (''r'' @ show_nat (cursor_n st)) offset len own None st') =
      fetch_page b offset len (admitted env (entry_of env own result)) \<and>
    body (admitted env (entry_of env own result)) = fst (extract_body env result)"
proof (cases rule: shape_cases [of env now bud own mh result st])
  case (shaped st2 b' mk er l)
  let ?e = "entry_of env own result"
  have "shape_inv st2" using shaped(1) assms(1) by (simp add: shape_inv_kept)
  moreover have "get_entry now' (cursor_of (cursor_n st)) (cache st2) = Some (admitted env ?e)"
    using kept_get [OF assms(1,3,4)] shaped(1) by simp
  ultimately have "get_entry now' (cursor_of (cursor_n st)) (cache (sweep now' st')) = Some (admitted env ?e)"
    using shaped(3) assms(2) by (auto simp: sess.look_reap shape_inv_def)
  then show ?thesis
    by (simp add: fetch_result_def Let_def cursor_of_def entry_of_def del: sweep_simps)
qed (use assms(2) in simp_all)

theorem shaped_body_fetchable_witness:
  "\<exists>st' r'. shape_result_preserving_prefix demo_env 3 50 None 5 (JObj demo_fields) init_shape = (st', r', True) \<and>
     snd (fetch_result demo_env 1000 9 ''r1'' 2 7 None None st') =
       fetch_page 9 2 7 (admitted demo_env (entry_of demo_env None (JObj demo_fields)))"
proof -
  obtain st' r' where run:
    "shape_result_preserving_prefix demo_env 3 50 None 5 (JObj demo_fields) init_shape = (st', r', True)"
    using demo_shaped by (metis surj_pair snd_conv)
  have "csize (admitted demo_env (entry_of demo_env None (JObj demo_fields))) \<le> max_cache_bytes"
    and "''r'' @ show_nat (cursor_n init_shape) = ''r1''" and "1000 - 3 < cache_ttl" by code_simp+
  then show ?thesis using shaped_body_fetchable [OF shape_inv_init run, of 1000 9 2 7] run by simp
qed

text \<open>With the budget variable set to 0, a fetch that leaves \<open>len\<close> to the default makes no
  progress: it returns no text of the body and names the offset it was called with as the next.\<close>

theorem fetch_zero_budget_stuck:
  assumes "offset < char_count (body c)" and "char_count (body c) \<le> u64_max"
  shows "fetch_page (fst (budget (Some ''0'') None)) offset 0 c =
    Some (label_if (server c) (text_result (page_footer offset offset (char_count (body c))) False))"
proof -
  have "fst (budget (Some ''0'') None) = 0" by code_simp
  then show ?thesis
    using fetch_page_spec [OF assms, of 0 0] assms by (simp add: page_end_cut page_slice_def)
qed

theorem fetch_zero_budget_stuck_witness:
  "fetch_page (fst (budget (Some ''0'') None)) 1 0 \<lparr>server = None, body = ''abc'', structured = None,
     projections_unavailable = False, csize = 0, owner = None\<rparr> = Some (text_result (page_footer 1 1 (Suc (Suc (Suc 0)))) False)"
  using fetch_zero_budget_stuck [of 1 "\<lparr>server = None, body = ''abc'', structured = None,
     projections_unavailable = False, csize = 0, owner = None\<rparr>"]
  by (simp add: char_count_def is_cont_def u64_max_def label_if_def)

end
