(* ===== verification/CounterFile.thy ===== *)
theory CounterFile
  imports Json
begin

text \<open>
  What the rate-limit counters and the shared backoff windows have in common: a small JSON file of
  numbers by key that several gateway processes read, merge and replace. The file's content is
  what \<open>read_to_string\<close> and \<open>serde_json\<close> make of it; the merge loop takes the operation that
  combines two numbers. The locale states when such a merge does not depend on the order of the
  processes; the two components interpret it with saturating addition and with the maximum.
\<close>

type_synonym counts = "(string \<times> nat) list"

section \<open>Files\<close>

datatype disk = Missing | Unreadable | Corrupt | Stored counts

definition path_join :: "string \<Rightarrow> string \<Rightarrow> string" where
  "path_join dir leaf = (if dir = [] then leaf else if ends_with ''/'' dir then dir @ leaf else dir @ ''/'' @ leaf)"

section \<open>Merging\<close>

definition count_of :: "counts \<Rightarrow> string \<Rightarrow> nat" where
  "count_of c k = get_or 0 c k"

definition merge_entry :: "(nat \<Rightarrow> nat \<Rightarrow> nat) \<Rightarrow> counts \<Rightarrow> string \<times> nat \<Rightarrow> counts" where
  "merge_entry f kept kv = (let (k, v) = kv in AList.update k (f (count_of kept k) v) kept)"

definition merge_with :: "(nat \<Rightarrow> nat \<Rightarrow> nat) \<Rightarrow> counts \<Rightarrow> counts \<Rightarrow> counts" where
  "merge_with f kept incoming = foldl (merge_entry f) kept incoming"

lemma count_of_update: "count_of (AList.update k v c) j = (if j = k then v else count_of c j)"
  by (simp add: count_of_def get_or_def alist_simps)

lemma count_of_absent: "k \<notin> fst ` set c \<Longrightarrow> count_of c k = 0"
  by (simp add: count_of_def get_or_def map_of_eq_None_iff [THEN iffD2])

lemma count_of_Cons: "count_of ((a, b) # c) k = (if k = a then b else count_of c k)"
  by (simp add: count_of_def get_or_def)

text \<open>Each key of the incoming counts is combined once, every other key is kept.\<close>

lemma count_of_merge:
  assumes "distinct_keys b" and "\<And>x. x = count_of a k \<Longrightarrow> f x 0 = x"
  shows "count_of (merge_with f a b) k = f (count_of a k) (count_of b k)"
  using assms
proof (induction b arbitrary: a)
  case Nil
  then show ?case by (simp add: merge_with_def count_of_absent)
next
  case (Cons kv b)
  obtain j v where kv: "kv = (j, v)" by (cases kv)
  let ?a = "merge_entry f a (j, v)"
  have a: "count_of ?a k = (if k = j then f (count_of a j) v else count_of a k)"
    by (simp add: merge_entry_def count_of_update)
  have step: "count_of (merge_with f a (kv # b)) k = count_of (merge_with f ?a b) k"
    by (simp add: merge_with_def kv)
  show ?case
  proof (cases "k = j")
    case True
    have "count_of (merge_with f c b) j = count_of c j" if "j \<notin> fst ` set b" for c
      using that
      by (induction b arbitrary: c)
        (auto simp: merge_with_def merge_entry_def count_of_update)
    with Cons.prems True kv a step show ?thesis by (simp add: count_of_Cons)
  next
    case False
    with Cons.IH [of ?a] Cons.prems kv a step show ?thesis by (simp add: count_of_Cons)
  qed
qed

lemma distinct_keys_merge: "distinct_keys a \<Longrightarrow> distinct_keys (merge_with f a b)"
  by (induction b arbitrary: a) (auto simp: merge_with_def merge_entry_def)

text \<open>The contract on the operation, and what the processes get from it.\<close>

locale merge_op =
  fixes f :: "nat \<Rightarrow> nat \<Rightarrow> nat" and ok :: "nat \<Rightarrow> bool"
  assumes ok_zero: "ok 0"
    and ok_f: "ok x \<Longrightarrow> ok y \<Longrightarrow> ok (f x y)"
    and zero: "ok x \<Longrightarrow> f x 0 = x"
    and comm: "ok x \<Longrightarrow> ok y \<Longrightarrow> f x y = f y x"
    and assoc: "ok x \<Longrightarrow> ok y \<Longrightarrow> ok z \<Longrightarrow> f (f x y) z = f x (f y z)"
    and grows: "ok x \<Longrightarrow> ok y \<Longrightarrow> x \<le> f x y"
begin

definition fine :: "counts \<Rightarrow> bool" where
  "fine c \<longleftrightarrow> distinct_keys c \<and> (\<forall>k. ok (count_of c k))"

lemma fine_count: "fine a \<Longrightarrow> fine b \<Longrightarrow> count_of (merge_with f a b) k = f (count_of a k) (count_of b k)"
  unfolding fine_def by (rule count_of_merge) (simp_all add: zero)

lemma fine_merge: "fine a \<Longrightarrow> fine b \<Longrightarrow> fine (merge_with f a b)"
  using fine_count unfolding fine_def by (simp add: distinct_keys_merge ok_f)

lemma merge_comm: "fine a \<Longrightarrow> fine b \<Longrightarrow> count_of (merge_with f a b) k = count_of (merge_with f b a) k"
  by (simp add: fine_count) (simp add: fine_def comm)

lemma merge_assoc:
  "fine a \<Longrightarrow> fine b \<Longrightarrow> fine c \<Longrightarrow>
     count_of (merge_with f (merge_with f a b) c) k = count_of (merge_with f a (merge_with f b c)) k"
  by (simp add: fine_count fine_merge) (simp add: fine_def assoc)

lemma merge_keeps: "fine a \<Longrightarrow> fine b \<Longrightarrow> count_of a k \<le> count_of (merge_with f a b) k"
  by (simp add: fine_count) (simp add: fine_def grows)

end

end
