(* ===== verification/UsageReport.thy ===== *)
theory UsageReport
  imports Json
begin

text \<open>
  The UTC calendar and the per-server usage rollup (\<open>usage_report.rs\<close>, and \<open>tool_call_ok\<close> of
  \<open>audit.rs\<close>). \<open>civil_from_days\<close> is the conversion that the rate limits key their windows with;
  it is proved to be the inverse of the count of days, for every day of the proleptic calendar.
  An \<open>i64\<close> is an \<open>int\<close>; the code's division on it truncates and is written out.
\<close>

section \<open>Calendar\<close>

definition tdiv :: "int \<Rightarrow> int \<Rightarrow> int" where
  "tdiv a b = sgn a * sgn b * (\<bar>a\<bar> div \<bar>b\<bar>)"

definition yoe_of :: "nat \<Rightarrow> nat" where
  "yoe_of doe = (doe - doe div 1460 + doe div 36524 - doe div 146096) div 365"

definition civil_from_days :: "int \<Rightarrow> int \<times> nat \<times> nat" where
  "civil_from_days z0 =
     (let z = z0 + 719468;
          era = tdiv (if 0 \<le> z then z else z - 146096) 146097;
          doe = nat (z - era * 146097);
          yoe = yoe_of doe;
          y = int yoe + era * 400;
          doy = doe - (365 * yoe + yoe div 4 - yoe div 100);
          mp = (5 * doy + 2) div 153;
          d = doy - (153 * mp + 2) div 5 + 1;
          m = (if mp < 10 then mp + 3 else mp - 9)
      in (if m \<le> 2 then y + 1 else y, m, d))"

text \<open>\<open>{y:04}\<close> of a signed number: the sign counts towards the width.\<close>

definition show_year :: "int \<Rightarrow> string" where
  "show_year y = (if 0 \<le> y then show_padded 4 (nat y) else ''-'' @ show_padded 3 (nat (- y)))"

definition show_ymd :: "int \<times> nat \<times> nat \<Rightarrow> string" where
  "show_ymd = (\<lambda>(y, m, d). show_year y @ ''-'' @ show_padded 2 m @ ''-'' @ show_padded 2 d)"

definition utc_day :: "nat \<Rightarrow> string" where
  "utc_day ts_millis = show_ymd (civil_from_days (int (ts_millis div 86400000)))"

definition utc_day_back :: "nat \<Rightarrow> nat \<Rightarrow> string" where
  "utc_day_back now offset_back = utc_day (now - offset_back * 86400000)"

section \<open>Rollup\<close>

record usage_row =
  row_calls :: nat
  tokens_saved :: nat

text \<open>\<open>audit::tool_call_ok\<close>: the outcome of a tool-call row, \<open>None\<close> for every other row.\<close>

definition tool_call_ok :: "json \<Rightarrow> bool option" where
  "tool_call_ok entry =
     (case jget_bool ''ok'' entry of
        None \<Rightarrow> None
      | Some ok \<Rightarrow>
          if jget_str ''tool'' entry = Some ''sync_environment_refused'' then None
          else case jget_str ''kind'' entry of
                 Some k \<Rightarrow>
                   if k \<in> {''approval'', ''routine'', ''advisor'', ''suggestion'', ''candidate'',
                           ''telemetry_gap'', ''internal'', ''session''}
                   then None else Some ok
               | None \<Rightarrow> Some ok)"

definition ts_day :: "string \<Rightarrow> json \<Rightarrow> bool" where
  "ts_day day e = (case jget_u64 ''ts'' e of None \<Rightarrow> False | Some ts \<Rightarrow> utc_day ts = day)"

definition row_server :: "json \<Rightarrow> string option" where
  "row_server e =
     Option.bind (case jget ''serverId'' e of Some v \<Rightarrow> Some v | None \<Rightarrow> jget ''server'' e) as_str"

type_synonym rows = "(string \<times> usage_row) list"

definition row_of :: "rows \<Rightarrow> string \<Rightarrow> usage_row" where
  "row_of rows s = get_or \<lparr>row_calls = 0, tokens_saved = 0\<rparr> rows s"

definition count_call :: "string set \<Rightarrow> rows \<Rightarrow> json \<Rightarrow> rows" where
  "count_call team rows e =
     (if tool_call_ok e = None then rows
      else case row_server e of
             None \<Rightarrow> rows
           | Some s \<Rightarrow>
               if s \<notin> team then rows
               else obj_insert s ((row_of rows s)\<lparr>row_calls := row_calls (row_of rows s) + 1\<rparr>) rows)"

definition add_tokens :: "string set \<Rightarrow> rows \<Rightarrow> string \<times> json \<Rightarrow> rows" where
  "add_tokens team rows st =
     (let (s, tokens) = st
      in if s \<notin> team then rows
         else obj_insert s ((row_of rows s)\<lparr>tokens_saved :=
                sat_add64 (tokens_saved (row_of rows s)) (case as_u64 tokens of Some n \<Rightarrow> n | None \<Rightarrow> 0)\<rparr>) rows)"

definition add_savings :: "string set \<Rightarrow> rows \<Rightarrow> json \<Rightarrow> rows" where
  "add_savings team rows e =
     (case Option.bind (jget ''byServer'' e) as_object of
        None \<Rightarrow> rows
      | Some m \<Rightarrow> foldl (add_tokens team) rows m)"

definition savings_of_day :: "string \<Rightarrow> json \<Rightarrow> bool" where
  "savings_of_day day e =
     (if jget_str ''kind'' e = Some ''team_daily'' then jget_str ''day'' e = Some day else ts_day day e)"

definition rollup :: "string \<Rightarrow> json list \<Rightarrow> json list \<Rightarrow> string set \<Rightarrow> rows" where
  "rollup day audit_lines savings_lines team =
     (let rows = foldl (count_call team) [] (filter (ts_day day) audit_lines)
      in foldl (add_savings team) rows (filter (savings_of_day day) savings_lines))"

section \<open>The calendar is right\<close>

text \<open>The reference direction: the number of days before a date, by counting years and months.\<close>

definition days_from_civil :: "int \<Rightarrow> nat \<Rightarrow> nat \<Rightarrow> int" where
  "days_from_civil y m d =
     (let y' = (if m \<le> 2 then y - 1 else y); era = y' div 400; yoe = nat (y' mod 400);
          mp = (if 2 < m then m - 3 else m + 9);
          doy = (153 * mp + 2) div 5 + d - 1;
          doe = yoe * 365 + yoe div 4 - yoe div 100 + doy
      in era * 146097 + int doe - 719468)"

definition year_start :: "nat \<Rightarrow> nat" where
  "year_start y = 365 * y + y div 4 - y div 100"

text \<open>A day of an era is a century, a four-year group, a year and a day of that year; only the last
  year of a group can have the day 365.\<close>

lemma era_day_cases:
  assumes "a < (146097 :: nat)"
  obtains c q r t where "a = 36524 * c + 1461 * q + 365 * r + t" and "c \<le> 3" and "q \<le> 24" and "r \<le> 3"
    and "t \<le> 365" and "t = 365 \<Longrightarrow> r = 3" and "c < 3 \<Longrightarrow> 1461 * q + 365 * r + t < 36524"
proof -
  define c where "c = min 3 (a div 36524)"
  define b where "b = a - 36524 * c"
  define q where "q = b div 1461"
  define s where "s = b mod 1461"
  define r where "r = min 3 (s div 365)"
  define t where "t = s - 365 * r"
  have c: "36524 * c \<le> a" "c \<le> 3" "c < 3 \<Longrightarrow> b < 36524" "b \<le> 36524"
    using assms unfolding b_def c_def by (auto simp: min_def split: if_splits)
  have b: "b = 1461 * q + s" "s < 1461" "q \<le> 24"
    using c(4) unfolding q_def s_def by auto
  have s: "365 * r \<le> s" "r \<le> 3" "t \<le> 365" "t = 365 \<longrightarrow> r = 3"
    using b(2) unfolding t_def r_def by (auto simp: min_def split: if_splits)
  have eq: "a = 36524 * c + b" "s = 365 * r + t" using c(1) s(1) unfolding b_def t_def by simp_all
  show thesis
    by (rule that [of c q r t]) (use c b s eq in simp_all)
qed

lemma yoe_of_era_day:
  assumes a: "a = 36524 * c + 1461 * q + 365 * r + t" and c: "c \<le> 3" and q: "q \<le> 24" and r: "r \<le> 3"
    and t: "t \<le> 365" and leap: "t = 365 \<Longrightarrow> r = 3" and short: "c < 3 \<Longrightarrow> 1461 * q + 365 * r + t < 36524"
  shows "yoe_of a = 100 * c + 4 * q + r"
proof -
  define e :: nat where "e = (if 1460 \<le> 24 * c + q + 365 * r + t then 1 else 0)"
  have e: "24 * c + q + 365 * r + t < 1460 + 1460 * e" "1460 * e \<le> 24 * c + q + 365 * r + t"
    using c q r t by (auto simp: e_def)
  have d4: "a div 1460 = 25 * c + q + e" by (rule div_nat_eqI) (use a e in simp_all)
  have big: "a div 36524 - a div 146096 = c \<and> a div 146096 \<le> a div 36524"
  proof (cases "a < 146096")
    case True
    then have "a div 36524 = c"
      by (intro div_nat_eqI; cases "c < 3") (use a c q r t short in auto)
    with True show ?thesis by simp
  next
    case False
    then have "c = 3 \<and> a < 2 * 146096" using a c q r t short by auto
    moreover from this have "a div 36524 = 4" using False a q r t by (intro div_nat_eqI) auto
    moreover from calculation have "a div 146096 = 1" using False by (intro div_nat_eqI) auto
    ultimately show ?thesis by simp
  qed
  have te: "e \<le> t" "t < 365 + e"
    using c q r t leap by (cases "t = 365"; auto simp: e_def split: if_splits)+
  have x: "a div 36524 = c + a div 146096" using big by linarith
  have "a - a div 1460 + a div 36524 - a div 146096 = a - (25 * c + q + e) + c"
    unfolding d4 x by simp
  also have "\<dots> = 365 * (100 * c + 4 * q + r) + (t - e)"
    unfolding a using te by simp
  finally show ?thesis unfolding yoe_of_def using te by simp
qed

lemma year_start_split:
  assumes "c \<le> 3" and "q \<le> 24" and "r \<le> 3"
  shows "year_start (100 * c + 4 * q + r) = 36524 * c + 1461 * q + 365 * r"
proof -
  have "(100 * c + 4 * q + r) div 4 = 25 * c + q" and "(100 * c + 4 * q + r) div 100 = c"
    by (rule div_nat_eqI; use assms in simp)+
  then show ?thesis unfolding year_start_def by simp
qed

lemma yoe_of_bounds:
  assumes "a < 146097"
  shows "yoe_of a < 400 \<and> year_start (yoe_of a) \<le> a \<and> a \<le> year_start (yoe_of a) + 365"
  using assms
proof (cases rule: era_day_cases)
  case (1 c q r t)
  then have "yoe_of a = 100 * c + 4 * q + r" by (intro yoe_of_era_day)
  with 1 show ?thesis by (simp add: year_start_split)
qed

lemma era_floor: "tdiv (if 0 \<le> z then z else z - 146096) 146097 = z div 146097"
proof (cases "0 \<le> z")
  case True
  then show ?thesis by (cases "z = 0") (simp_all add: tdiv_def sgn_if)
next
  case False
  then have "tdiv (z - 146096) 146097 = - ((146096 - z) div 146097)" by (simp add: tdiv_def sgn_if)
  also have "(146096 - z) div 146097 = - (z div 146097)"
    by (rule int_div_pos_eq [of _ _ _ "146096 - z mod 146097"]) (simp_all add: algebra_simps mult_div_mod_eq)
  finally show ?thesis using False by simp
qed

text \<open>Within a year that starts in March the month and the day give the day of the year back.\<close>

lemma month_day:
  assumes "doy \<le> (365 :: nat)" and mp: "mp = (5 * doy + 2) div 153"
  shows "mp \<le> 11 \<and> (153 * mp + 2) div 5 \<le> doy \<and> doy - (153 * mp + 2) div 5 \<le> 30"
proof -
  have "153 * mp \<le> 5 * doy + 2" and "5 * doy + 2 < 153 * mp + 153"
    unfolding mp by (simp_all add: mult.commute [of 153] div_times_less_eq_dividend dividend_less_div_times)
  moreover have "5 * ((153 * mp + 2) div 5) \<le> 153 * mp + 2" and "153 * mp + 2 < 5 * ((153 * mp + 2) div 5) + 5"
    by (simp_all add: mult.commute [of 5] div_times_less_eq_dividend dividend_less_div_times)
  ultimately show ?thesis using assms(1) by linarith
qed

lemma civil_from_days_inverse:
  assumes "civil_from_days z = (y, m, d)"
  shows "1 \<le> m \<and> m \<le> 12 \<and> 1 \<le> d \<and> d \<le> 31 \<and> days_from_civil y m d = z"
proof -
  define era where "era = (z + 719468) div 146097"
  define doe where "doe = nat (z + 719468 - era * 146097)"
  define yoe where "yoe = yoe_of doe"
  define doy where "doy = doe - year_start yoe"
  define mp where "mp = (5 * doy + 2) div 153"
  have rem: "0 \<le> z + 719468 - era * 146097" "z + 719468 - era * 146097 < 146097"
    unfolding era_def by (simp_all add: minus_div_mult_eq_mod)
  then have z: "z = era * 146097 + int doe - 719468" and "doe < 146097" by (simp_all add: doe_def)
  then have y: "yoe < 400" "year_start yoe \<le> doe" "doy \<le> 365"
    using yoe_of_bounds [of doe] by (auto simp: yoe_def doy_def)
  note md = month_day [OF y(3) mp_def]
  have res: "(y, m, d) = (if (if mp < 10 then mp + 3 else mp - 9) \<le> 2 then int yoe + era * 400 + 1 else int yoe + era * 400,
      if mp < 10 then mp + 3 else mp - 9, doy - (153 * mp + 2) div 5 + 1)"
    using assms [symmetric]
    unfolding civil_from_days_def Let_def era_floor mp_def doy_def year_start_def yoe_def doe_def era_def .
  have m: "m = (if mp < 10 then mp + 3 else mp - 9)" and d: "d = doy - (153 * mp + 2) div 5 + 1"
    and yy: "(if m \<le> 2 then y - 1 else y) = int yoe + era * 400"
    using res by (auto split: if_splits)
  have "(if 2 < m then m - 3 else m + 9) = mp" using md m by auto
  moreover have "(153 * mp + 2) div 5 + d - 1 = doy" using md d by simp
  moreover have "(int yoe + era * 400) div 400 = era" "nat ((int yoe + era * 400) mod 400) = yoe"
    using y(1) by simp_all
  ultimately have "days_from_civil y m d = era * 146097 + int (year_start yoe + doy) - 719468"
    unfolding days_from_civil_def Let_def yy year_start_def by (simp only: mult.commute)
  then have "days_from_civil y m d = z" using y(2) z by (simp add: doy_def)
  moreover have "1 \<le> m \<and> m \<le> 12 \<and> 1 \<le> d \<and> d \<le> 31" using md m d by auto
  ultimately show ?thesis by simp
qed

section \<open>What the rollup counts\<close>

definition counts_for :: "string set \<Rightarrow> string \<Rightarrow> json \<Rightarrow> bool" where
  "counts_for team s e \<longleftrightarrow> s \<in> team \<and> tool_call_ok e \<noteq> None \<and> row_server e = Some s"

lemma row_of_insert: "row_of (obj_insert k v rows) s = (if s = k then v else row_of rows s)"
  by (simp add: row_of_def get_or_def alist_simps)

lemma count_call_calls:
  "row_calls (row_of (count_call team rows e) s) = row_calls (row_of rows s) + (if counts_for team s e then 1 else 0)"
  by (auto simp: count_call_def counts_for_def row_of_insert split: option.splits)

lemma count_calls_fold:
  "row_calls (row_of (foldl (count_call team) rows es) s) =
     row_calls (row_of rows s) + length (filter (counts_for team s) es)"
  by (induction es arbitrary: rows) (auto simp: count_call_calls)

lemma add_tokens_calls: "row_calls (row_of (add_tokens team rows st) s) = row_calls (row_of rows s)"
  by (cases st) (simp add: add_tokens_def row_of_insert)

lemma add_savings_calls: "row_calls (row_of (add_savings team rows e) s) = row_calls (row_of rows s)"
proof -
  have "row_calls (row_of (foldl (add_tokens team) rows m) s) = row_calls (row_of rows s)" for m
    by (induction m arbitrary: rows) (auto simp: add_tokens_calls)
  then show ?thesis by (simp add: add_savings_def split: option.splits)
qed

lemma savings_fold_calls:
  "row_calls (row_of (foldl (add_savings team) rows es) s) = row_calls (row_of rows s)"
  by (induction es arbitrary: rows) (auto simp: add_savings_calls)

definition team_rows :: "string set \<Rightarrow> rows \<Rightarrow> bool" where
  "team_rows team rows \<longleftrightarrow> sorted_keys rows \<and> fst ` set rows \<subseteq> team"

lemma team_rows_insert: "team_rows team rows \<Longrightarrow> k \<in> team \<Longrightarrow> team_rows team (obj_insert k v rows)"
  by (simp add: team_rows_def sorted_obj_insert set_obj_insert_keys)

lemma team_rows_count: "team_rows team rows \<Longrightarrow> team_rows team (count_call team rows e)"
  by (auto simp: count_call_def team_rows_insert split: option.splits)

lemma team_rows_fold:
  "(\<And>r x. team_rows team r \<Longrightarrow> team_rows team (f r x)) \<Longrightarrow> team_rows team rows \<Longrightarrow> team_rows team (foldl f rows xs)"
  by (induction xs arbitrary: rows) auto

lemma team_rows_savings: "team_rows team rows \<Longrightarrow> team_rows team (add_savings team rows e)"
  by (auto simp: add_savings_def add_tokens_def team_rows_insert split: option.splits intro!: team_rows_fold)

section \<open>Properties\<close>

text \<open>The civil date of a day number is a real date, with a month from 1 to 12 and a day from 1 to
  31, and counting the days up to that date gives the day number back, before and after 1970.\<close>

theorem civil_from_days_correct:
  "case civil_from_days z of (y, m, d) \<Rightarrow>
     1 \<le> m \<and> m \<le> 12 \<and> 1 \<le> d \<and> d \<le> 31 \<and> days_from_civil y m d = z"
  using civil_from_days_inverse [of z] by (cases "civil_from_days z") blast

text \<open>The rollup of a day has one row per team server at most, in key order, never a row for a
  server outside the team, and the calls of a row are exactly the audit lines of that day that
  are tool calls of that server, failed ones included.\<close>

theorem rollup_counts:
  "team_rows team (rollup day audit_lines savings_lines team) \<and>
   row_calls (row_of (rollup day audit_lines savings_lines team) s) =
     length (filter (counts_for team s) (filter (ts_day day) audit_lines))"
proof
  show "team_rows team (rollup day audit_lines savings_lines team)"
    unfolding rollup_def Let_def
    by (intro team_rows_fold team_rows_savings team_rows_count) (simp_all add: team_rows_def)
  show "row_calls (row_of (rollup day audit_lines savings_lines team) s) =
      length (filter (counts_for team s) (filter (ts_day day) audit_lines))"
    unfolding rollup_def Let_def savings_fold_calls count_calls_fold
    by (simp add: row_of_def get_or_def del: filter_filter)
qed

end
