(* ===== verification/RateLimits.thy ===== *)
theory RateLimits
  imports CounterFile UsageReport
begin

text \<open>
  Cooperative rate limits (\<open>rate_limits.rs\<close>): caps from the team configuration, counters by UTC day
  or month in a file that all gateway processes share, and the check that either refuses a call
  or counts it once for every distinct counter.

  A process's \<open>Option<CounterState>\<close> and the file system are explicit. The time is in
  milliseconds since the epoch and read once per operation. Whether taking the file lock and
  replacing the file succeed is an argument: the code does not decide it. The lock spans the
  whole operation, so operations of several processes are atomic steps on the shared file.
\<close>

section \<open>Caps\<close>

record cap =
  cap_id :: string
  window :: string
  max_calls :: nat
  cap_tool :: "string option"
  cap_unknown_fields :: jobj

definition str_or :: "string \<Rightarrow> string option \<Rightarrow> string" where
  "str_or d s = (case s of Some x \<Rightarrow> x | None \<Rightarrow> d)"

definition parse_cap :: "json \<Rightarrow> cap option" where
  "parse_cap v =
     (let cid = str_or [] (jget_str ''id'' v);
          win = to_ascii_lowercase (str_or [] (jget_str ''window'' v));
          mx = (case Option.bind (case jget ''maxCalls'' v of Some x \<Rightarrow> Some x | None \<Rightarrow> jget ''max_calls'' v) as_u64 of
                  Some n \<Rightarrow> n | None \<Rightarrow> 0);
          tname = (case map_option trim (jget_str ''tool'' v) of Some t \<Rightarrow> if t = [] then None else Some t | None \<Rightarrow> None)
      in if win \<notin> {''day'', ''month''} \<or> mx = 0 then None
         else Some \<lparr>cap_id = (if cid = [] then ''anon-'' @ win @ ''-'' @ show_nat mx @ ''-'' @ str_or ''*'' tname else cid),
                    window = win, max_calls = mx, cap_tool = tname,
                    cap_unknown_fields = []\<rparr>)"

definition parse_caps :: "json \<Rightarrow> cap list" where
  "parse_caps team_cfg =
     (case jget_array ''rateLimits'' team_cfg of None \<Rightarrow> [] | Some arr \<Rightarrow> List.map_filter parse_cap arr)"

definition tool_matches :: "string \<Rightarrow> string \<Rightarrow> string \<Rightarrow> bool" where
  "tool_matches cap_tl server_id orig_tool \<longleftrightarrow>
     cap_tl = orig_tool \<or> cap_tl = server_id @ ''__'' @ orig_tool \<or>
     Option.bind (strip_suffix orig_tool cap_tl) (strip_suffix ''/'') = Some server_id"

section \<open>Windows and counters\<close>

definition ymd_from_ms :: "int \<Rightarrow> int \<times> nat \<times> nat" where
  "ymd_from_ms ms = civil_from_days (ms div 86400000)"

definition window_key :: "int \<Rightarrow> string \<Rightarrow> string" where
  "window_key now win =
     (let (y, m, d) = ymd_from_ms now
      in if win = ''month'' then show_year y @ ''-'' @ show_padded 2 m
         else show_year y @ ''-'' @ show_padded 2 m @ ''-'' @ show_padded 2 d)"

definition counter_key :: "int \<Rightarrow> string \<Rightarrow> string option \<Rightarrow> string" where
  "counter_key now win tname = win @ '':'' @ window_key now win @ '':'' @ str_or ''*'' tname"

definition prune :: "int \<Rightarrow> counts \<Rightarrow> counts" where
  "prune now cfile =
     retain (\<lambda>k _. case strip_prefix ''day:'' k of
        Some rest \<Rightarrow> starts_with (window_key now ''day'') rest
      | None \<Rightarrow>
          (case strip_prefix ''month:'' k of
             Some rest \<Rightarrow> starts_with (window_key now ''month'') rest
           | None \<Rightarrow> False)) cfile"

section \<open>State\<close>

datatype rl_error = Busy | ReadFailed | ParseFailed | SaveFailed | LimitReached string

record counter_state =
  path :: "string option"
  cfile :: counts
  pending_merge :: bool

type_synonym files = "string \<Rightarrow> disk"

text \<open>What the operating system answers in one operation: the lock, the write after a merge, and the
  write after counting.\<close>

record rl_io =
  lock_ok :: bool
  merge_save_ok :: bool
  save_ok :: bool

definition load_file :: "disk \<Rightarrow> rl_error + counts" where
  "load_file d =
     (case d of Missing \<Rightarrow> Inr [] | Unreadable \<Rightarrow> Inl ReadFailed | Corrupt \<Rightarrow> Inl ParseFailed | Stored c \<Rightarrow> Inr c)"

text \<open>The read, merge and write that \<open>sync_bound_state\<close> and \<open>check_and_count\<close> do under the lock.\<close>

definition refresh :: "rl_io \<Rightarrow> int \<Rightarrow> string \<Rightarrow> counter_state \<Rightarrow> files \<Rightarrow> (rl_error + unit) \<times> counter_state \<times> files" where
  "refresh io now p st fs =
     (if \<not> lock_ok io then (Inl Busy, st, fs)
      else case load_file (fs p) of
             Inl e \<Rightarrow> (Inl e, st, fs)
           | Inr raw \<Rightarrow>
               let d = prune now raw
               in if pending_merge st
                  then let mine = prune now (cfile st); merged = merge_with sat_add64 d mine
                       in if merge_save_ok io
                          then (Inr (), st\<lparr>cfile := merged, pending_merge := False\<rparr>, fs(p := Stored merged))
                          else (Inl SaveFailed, st\<lparr>cfile := mine\<rparr>, fs)
                  else (Inr (), st\<lparr>cfile := d\<rparr>, fs))"

definition sync_bound_state ::
  "rl_io \<Rightarrow> int \<Rightarrow> counter_state \<Rightarrow> files \<Rightarrow> (rl_error + unit) \<times> counter_state \<times> files" where
  "sync_bound_state io now st fs =
     (case path st of None \<Rightarrow> (Inr (), st, fs) | Some p \<Rightarrow> refresh io now p st fs)"

definition bind_data_dir ::
  "rl_io \<Rightarrow> int \<Rightarrow> string \<Rightarrow> counter_state option \<Rightarrow> files \<Rightarrow> counter_state option \<times> files" where
  "bind_data_dir io now dir g fs =
     (let p = path_join dir ''rate_limit_counters.json''
      in case g of
           Some st \<Rightarrow>
             if path st \<noteq> None then (g, fs)
             else let (_, st', fs') = sync_bound_state io now
                        (st\<lparr>path := Some p, pending_merge := cfile st \<noteq> []\<rparr>) fs
                  in (Some st', fs')
         | None \<Rightarrow>
             let (_, st', fs') = sync_bound_state io now
                   \<lparr>path = Some p, cfile = [], pending_merge = False\<rparr> fs
             in (Some st', fs'))"

section \<open>The check\<close>

definition applies :: "string \<Rightarrow> string \<Rightarrow> cap \<Rightarrow> bool" where
  "applies server_id orig_tool c =
     (case cap_tool c of None \<Rightarrow> True | Some t \<Rightarrow> tool_matches t server_id orig_tool)"

definition cap_key :: "int \<Rightarrow> cap \<Rightarrow> string" where
  "cap_key now c = counter_key now (window c) (cap_tool c)"

definition limit_message :: "cap \<Rightarrow> nat \<Rightarrow> string" where
  "limit_message c used =
     (let win = (if window c = ''month'' then ''this month'' else ''today'');
          scope = (case cap_tool c of Some t \<Rightarrow> ''tool `'' @ t @ ''`'' | None \<Rightarrow> ''all tools'')
      in ''Toolport: org rate limit reached for '' @ scope @ '' ('' @ show_nat used @ ''/'' @ show_nat (max_calls c) @
         '' calls '' @ win @ ''). Ask a team admin to raise the cap, or wait for the next window.'')"

fun first_over :: "int \<Rightarrow> counts \<Rightarrow> cap list \<Rightarrow> cap option" where
  "first_over now cs [] = None"
| "first_over now cs (c # rest) =
     (if max_calls c \<le> count_of cs (cap_key now c) then Some c else first_over now cs rest)"

fun count_caps :: "int \<Rightarrow> string set \<Rightarrow> cap list \<Rightarrow> counts \<Rightarrow> counts" where
  "count_caps now seen [] cs = cs"
| "count_caps now seen (c # rest) cs =
     (let k = cap_key now c
      in if k \<in> seen then count_caps now seen rest cs
         else count_caps now (insert k seen) rest (AList.update k (sat_add64 (count_of cs k) 1) cs))"

definition check_and_count ::
  "rl_io \<Rightarrow> int \<Rightarrow> cap list \<Rightarrow> string \<Rightarrow> string \<Rightarrow> counter_state option \<Rightarrow> files \<Rightarrow>
   (rl_error + unit) \<times> counter_state option \<times> files" where
  "check_and_count io now caps server_id orig_tool g fs =
     (let applicable = filter (applies server_id orig_tool) caps
      in if caps = [] \<or> applicable = [] then (Inr (), g, fs)
         else
           let st = (case g of Some st \<Rightarrow> st | None \<Rightarrow> \<lparr>path = None, cfile = [], pending_merge = False\<rparr>);
               (r, st1, fs1) =
                 (case path st of
                    Some p \<Rightarrow> refresh io now p st fs
                  | None \<Rightarrow> (Inr (), st\<lparr>cfile := prune now (cfile st)\<rparr>, fs))
           in case r of
                Inl e \<Rightarrow> (Inl e, Some st1, fs1)
              | Inr _ \<Rightarrow>
                  (case first_over now (cfile st1) applicable of
                     Some c \<Rightarrow> (Inl (LimitReached (limit_message c (count_of (cfile st1) (cap_key now c)))), Some st1, fs1)
                   | None \<Rightarrow>
                       let st2 = st1\<lparr>cfile := count_caps now {} applicable (cfile st1)\<rparr>
                       in case path st of
                            Some p \<Rightarrow>
                              if save_ok io then (Inr (), Some st2, fs1(p := Stored (cfile st2)))
                              else (Inl SaveFailed, Some st2, fs1)
                          | None \<Rightarrow> (Inr (), Some (st2\<lparr>pending_merge := True\<rparr>), fs1)))"

section \<open>Merging counts of several processes\<close>

interpretation sum_merge: merge_op sat_add64 "\<lambda>x. x \<le> u64_max"
  by unfold_locales (auto simp: sat_add64_def)

section \<open>One check\<close>

lemma count_of_prune:
  assumes "window c = ''day'' \<or> window c = ''month''"
  shows "count_of (prune now cs) (cap_key now c) = count_of cs (cap_key now c)"
proof -
  let ?P = "\<lambda>k. case strip_prefix ''day:'' k of
        Some rest \<Rightarrow> starts_with (window_key now ''day'') rest
      | None \<Rightarrow> (case strip_prefix ''month:'' k of Some rest \<Rightarrow> starts_with (window_key now ''month'') rest | None \<Rightarrow> False)"
  have keep: "?P k \<Longrightarrow> count_of (retain (\<lambda>k _. ?P k) cs) k = count_of cs k" for k
    by (induction cs) (auto simp: retain_def count_of_Cons)
  have day: "strip_prefix ''day:'' (''day:'' @ r) = Some r" and month: "strip_prefix ''month:'' (''month:'' @ r) = Some r"
    and other: "strip_prefix ''day:'' (''month:'' @ r) = None" for r
    by simp_all
  have "?P (cap_key now c)"
    using assms day [of "window_key now ''day'' @ '':'' @ str_or ''*'' (cap_tool c)"]
      month [of "window_key now ''month'' @ '':'' @ str_or ''*'' (cap_tool c)"]
      other [of "window_key now ''month'' @ '':'' @ str_or ''*'' (cap_tool c)"]
    by (auto simp: cap_key_def counter_key_def starts_with_iff)
  then show ?thesis unfolding prune_def by (rule keep)
qed

lemma first_over_None:
  "first_over now cs caps = None \<longleftrightarrow> (\<forall>c \<in> set caps. count_of cs (cap_key now c) < max_calls c)"
  by (induction caps) auto

lemma first_over_Some: "first_over now cs caps = Some c \<Longrightarrow> c \<in> set caps \<and> max_calls c \<le> count_of cs (cap_key now c)"
  by (induction caps) (auto split: if_splits)

text \<open>Every distinct counter goes up by one, however many caps share it.\<close>

lemma count_caps_count:
  "count_of (count_caps now seen caps cs) k =
     (if k \<notin> seen \<and> k \<in> cap_key now ` set caps then sat_add64 (count_of cs k) 1 else count_of cs k)"
  by (induction now seen caps cs rule: count_caps.induct) (auto simp: Let_def count_of_update)

definition used :: "files \<Rightarrow> string \<Rightarrow> string \<Rightarrow> nat" where
  "used fs p k = (case load_file (fs p) of Inl _ \<Rightarrow> 0 | Inr cs \<Rightarrow> count_of cs k)"

definition bound_to :: "string \<Rightarrow> counter_state option \<Rightarrow> bool" where
  "bound_to p g = (case g of None \<Rightarrow> False | Some st \<Rightarrow> path st = Some p \<and> \<not> pending_merge st)"

text \<open>A bound process with nothing pending: a refusal leaves the file as it is, an accepted call was
  below every applicable cap and is the one unit added.\<close>

lemma check_bound:
  assumes "bound_to p g" and "c \<in> set caps" and "applies srv tool c"
    and "window c = ''day'' \<or> window c = ''month''"
    and "check_and_count io now caps srv tool g fs = (r, g', fs')"
  shows "bound_to p g' \<and> (\<forall>q. q \<noteq> p \<longrightarrow> fs' q = fs q) \<and>
    (case r of
       Inl _ \<Rightarrow> fs' = fs
     | Inr _ \<Rightarrow> used fs p (cap_key now c) < max_calls c \<and>
         used fs' p (cap_key now c) = sat_add64 (used fs p (cap_key now c)) 1)"
proof -
  obtain st where g: "g = Some st" and st: "path st = Some p" "\<not> pending_merge st"
    using assms(1) by (auto simp: bound_to_def split: option.splits)
  let ?app = "filter (applies srv tool) caps"
  have app: "c \<in> set ?app" "caps \<noteq> []" "?app \<noteq> []" using assms(2,3) by (auto simp: filter_empty_conv)
  show ?thesis
  proof (cases "lock_ok io \<and> isl (load_file (fs p)) = False")
    case False
    then have "r \<noteq> Inr () \<and> fs' = fs \<and> g' = g"
      using assms(5) app st unfolding check_and_count_def refresh_def g
      by (auto simp: Let_def split: sum.splits if_splits)
    then show ?thesis using assms(1) by (auto split: sum.splits)
  next
    case True
    then obtain cs where cs: "load_file (fs p) = Inr cs" by (cases "load_file (fs p)") auto
    let ?cs = "prune now cs"
    have u: "used fs p (cap_key now c) = count_of ?cs (cap_key now c)"
      using cs assms(4) by (simp add: used_def count_of_prune)
    show ?thesis
    proof (cases "first_over now ?cs ?app")
      case (Some d)
      then have "(\<exists>e. r = Inl e) \<and> fs' = fs \<and> g' = Some (st\<lparr>cfile := ?cs\<rparr>)"
        using assms(5) app st cs True unfolding check_and_count_def refresh_def g by (auto simp: Let_def)
      then show ?thesis using st by (auto simp: bound_to_def)
    next
      case None
      then have below: "count_of ?cs (cap_key now c) < max_calls c" using app(1) by (simp add: first_over_None)
      have "g' = Some (st\<lparr>cfile := count_caps now {} ?app ?cs\<rparr>) \<and>
          (if save_ok io then r = Inr () \<and> fs' = fs(p := Stored (count_caps now {} ?app ?cs))
           else (\<exists>e. r = Inl e) \<and> fs' = fs)"
        using assms(5) app st cs True None unfolding check_and_count_def refresh_def g
        by (auto simp: Let_def split: if_splits)
      moreover have "count_of (count_caps now {} ?app ?cs) (cap_key now c) = sat_add64 (count_of ?cs (cap_key now c)) 1"
        using app(1) by (simp add: count_caps_count)
      ultimately show ?thesis
        using st below u by (auto simp: bound_to_def used_def load_file_def split: if_splits)
    qed
  qed
qed

section \<open>Several processes\<close>

record rl_call =
  who :: nat
  answers :: rl_io
  at_ms :: int
  target_server :: string
  target_tool :: string

text \<open>Calls of several gateway processes, one after the other, on their shared files; the first
  component of the result is the number of accepted calls.\<close>

fun rl_run :: "cap list \<Rightarrow> rl_call list \<Rightarrow> (nat \<Rightarrow> counter_state option) \<Rightarrow> files \<Rightarrow> nat \<times> files" where
  "rl_run caps [] procs fs = (0, fs)"
| "rl_run caps (x # xs) procs fs =
     (let (r, g, fs1) = check_and_count (answers x) (at_ms x) caps (target_server x) (target_tool x) (procs (who x)) fs;
          (n, fs2) = rl_run caps xs (procs(who x := g)) fs1
      in (n + (case r of Inr _ \<Rightarrow> 1 | Inl _ \<Rightarrow> 0), fs2))"

lemma rl_run_bound:
  assumes "\<And>i. bound_to p (procs i)" and "c \<in> set caps" and "window c = ''day'' \<or> window c = ''month''"
    and "max_calls c \<le> u64_max"
    and "\<And>x. x \<in> set calls \<Longrightarrow> applies (target_server x) (target_tool x) c \<and> cap_key (at_ms x) c = key"
  shows "used fs p key + fst (rl_run caps calls procs fs) = used (snd (rl_run caps calls procs fs)) p key \<and>
    used (snd (rl_run caps calls procs fs)) p key \<le> max (max_calls c) (used fs p key)"
  using assms(1,5)
proof (induction calls arbitrary: procs fs)
  case (Cons x xs)
  obtain r g fs1 where run: "check_and_count (answers x) (at_ms x) caps (target_server x) (target_tool x) (procs (who x)) fs = (r, g, fs1)"
    by (metis surj_pair)
  from Cons.prems(2) have x: "applies (target_server x) (target_tool x) c" "cap_key (at_ms x) c = key" by simp_all
  note one = check_bound [OF Cons.prems(1) assms(2) x(1) assms(3) run]
  define procs1 where "procs1 = procs(who x := g)"
  have b: "bound_to p (procs1 i)" for i using one Cons.prems(1) by (simp add: procs1_def)
  have xs: "y \<in> set xs \<Longrightarrow> applies (target_server y) (target_tool y) c \<and> cap_key (at_ms y) c = key" for y
    using Cons.prems(2) by simp
  note ih = Cons.IH [OF b xs, of fs1]
  have unfold: "rl_run caps (x # xs) procs fs =
      (fst (rl_run caps xs procs1 fs1) + (case r of Inr _ \<Rightarrow> 1 | Inl _ \<Rightarrow> 0), snd (rl_run caps xs procs1 fs1))"
    using run by (simp add: procs1_def case_prod_unfold Let_def)
  show ?case
  proof (cases r)
    case (Inl e)
    then have "fs1 = fs" using one by simp
    with ih Inl show ?thesis unfolding unfold by simp
  next
    case (Inr u)
    then have "used fs p key < max_calls c" "used fs1 p key = used fs p key + 1"
      using one x(2) assms(4) by (auto simp: sat_add64_exact)
    with ih Inr show ?thesis unfolding unfold by simp
  qed
qed simp

lemma parse_cap_ok:
  "parse_cap v = Some c \<Longrightarrow> (window c = ''day'' \<or> window c = ''month'') \<and> 0 < max_calls c"
  unfolding parse_cap_def Let_def by (simp split: if_split_asm) auto

lemma parse_caps_ok: "c \<in> set (parse_caps cfg) \<Longrightarrow> (window c = ''day'' \<or> window c = ''month'') \<and> 0 < max_calls c"
  unfolding parse_caps_def List.map_filter_def
  by (cases "jget_array ''rateLimits'' cfg") (auto dest!: parse_cap_ok [of _ c] simp del: One_nat_def)

section \<open>Properties\<close>


definition demo_cfg :: json where
  "demo_cfg = JObj [(''rateLimits'', JArr [JObj [(''maxCalls'', JNum (PosInt 1)), (''window'', JStr ''Day'')]])]"

definition demo_call :: rl_call where
  "demo_call = \<lparr>who = 0, answers = \<lparr>lock_ok = True, merge_save_ok = True, save_ok = True\<rparr>, at_ms = 1767225600000,
     target_server = ''s'', target_tool = ''t''\<rparr>"


text \<open>Calls accepted before the data directory is known are not lost: when binding succeeds, the
  counters of the current window on disk become the counts another process left there plus the
  early ones, added with saturation.\<close>

theorem bind_merges_early_calls:
  assumes "path st = None" and "cfile st \<noteq> []" and "distinct_keys (cfile st)"
    and "window c = ''day'' \<or> window c = ''month''"
    and "lock_ok io" and "merge_save_ok io" and "load_file (fs (path_join dir ''rate_limit_counters.json'')) = Inr disk"
    and "\<forall>k. count_of disk k \<le> u64_max"
    and "bind_data_dir io now dir (Some st) fs = (g, fs')"
  shows "used fs' (path_join dir ''rate_limit_counters.json'') (cap_key now c) =
    sat_add64 (count_of disk (cap_key now c)) (count_of (cfile st) (cap_key now c))"
proof -
  let ?p = "path_join dir ''rate_limit_counters.json''"
  have "distinct_keys (prune now (cfile st))" using assms(3) by (simp add: prune_def)
  then have "count_of (merge_with sat_add64 (prune now disk) (prune now (cfile st))) (cap_key now c) =
      sat_add64 (count_of (prune now disk) (cap_key now c)) (count_of (prune now (cfile st)) (cap_key now c))"
    using assms(4,8) by (intro count_of_merge) (simp_all add: count_of_prune sat_add64_def min_absorb1)
  moreover have "fs' ?p = Stored (merge_with sat_add64 (prune now disk) (prune now (cfile st)))"
    using assms by (auto simp: bind_data_dir_def sync_bound_state_def refresh_def Let_def)
  ultimately show ?thesis using assms(4) by (simp add: used_def load_file_def count_of_prune)
qed

theorem bind_merges_early_calls_witness:
  "used (snd (bind_data_dir (answers demo_call) 1767225600000 ''d''
       (Some \<lparr>path = None, cfile = [(''day:2026-01-01:*'', 2)], pending_merge = True\<rparr>)
       (\<lambda>_. Stored [(''day:2026-01-01:*'', 5)]))) ''d/rate_limit_counters.json'' ''day:2026-01-01:*'' = 7"
proof -
  let ?c = "\<lparr>cap_id = ''c'', window = ''day'', max_calls = 9, cap_tool = None, cap_unknown_fields = []\<rparr>"
  let ?st = "\<lparr>path = None, cfile = [(''day:2026-01-01:*'', 2)], pending_merge = True\<rparr>"
  let ?fs = "\<lambda>_ :: string. Stored [(''day:2026-01-01:*'', 5)]"
  have key: "cap_key 1767225600000 ?c = ''day:2026-01-01:*''" by code_simp
  have p: "path_join ''d'' ''rate_limit_counters.json'' = ''d/rate_limit_counters.json''" by code_simp
  obtain g fs' where run: "bind_data_dir (answers demo_call) 1767225600000 ''d'' (Some ?st) ?fs = (g, fs')"
    by (metis surj_pair)
  show ?thesis
    using bind_merges_early_calls [OF _ _ _ _ _ _ _ _ run, of ?c "[(''day:2026-01-01:*'', 5)]"] key p run
    by (simp add: demo_call_def load_file_def count_of_Cons count_of_absent u64_max_def sat_add64_def)
qed

end
