(* ===== verification/DownstreamBackoff.thy ===== *)
theory DownstreamBackoff
  imports CounterFile
begin

text \<open>
  The backoff windows that gateway processes share after a provider answered 429
  (\<open>downstream_backoff.rs\<close>, with the delays of \<open>downstream.rs\<close>). A window is the time, in
  milliseconds since the epoch, before which a provider is not contacted again. The origin of a
  URL comes from the \<open>url\<close> package and is the parameter \<open>origin\<close>; clock readings, the lock and the
  write are arguments as in the rate limits.
\<close>

section \<open>Delays\<close>

definition http_retry_cap :: nat where
  "http_retry_cap = 10000"

definition http_retry_base :: nat where
  "http_retry_base = 250"

definition backoff_delay :: "nat \<Rightarrow> nat" where
  "backoff_delay attempt = min (http_retry_base * 2 ^ min attempt 6) http_retry_cap"

text \<open>\<open>http_date\<close> is the date parser of the \<open>httpdate\<close> package, in milliseconds since the epoch.\<close>

definition retry_after_delay :: "(string \<Rightarrow> nat option) \<Rightarrow> nat \<Rightarrow> string \<Rightarrow> nat option" where
  "retry_after_delay http_date now v =
     (case parse_unsigned u64_max (trim v) of
        Some seconds \<Rightarrow> Some (min (seconds * 1000) http_retry_cap)
      | None \<Rightarrow> map_option (\<lambda>target. min (target - now) http_retry_cap) (http_date (trim v)))"

section \<open>State and operations\<close>

record backoff_state =
  bpath :: "string option"
  not_before :: counts

definition init_backoff :: backoff_state where
  "init_backoff = \<lparr>bpath = None, not_before = []\<rparr>"

definition load_windows :: "disk \<Rightarrow> counts option" where
  "load_windows d = (case d of Missing \<Rightarrow> Some [] | Stored c \<Rightarrow> Some c | _ \<Rightarrow> None)"

definition merge_max :: "counts \<Rightarrow> counts \<Rightarrow> counts" where
  "merge_max kept incoming = merge_with (\<lambda>a b. if a < b then b else a) kept incoming"

definition sanitize :: "counts \<Rightarrow> nat \<Rightarrow> counts" where
  "sanitize c now =
     (let ceiling = sat_add64 now http_retry_cap
      in map (\<lambda>(k, ts). (k, if ceiling < ts then ceiling else ts)) (retain (\<lambda>_ ts. \<not> ts \<le> now) c))"

definition bind_backoff :: "nat \<Rightarrow> string \<Rightarrow> backoff_state \<Rightarrow> (string \<Rightarrow> disk) \<Rightarrow> backoff_state" where
  "bind_backoff now dir st fs =
     (let p = path_join dir ''downstream_backoff.json''
      in if bpath st \<noteq> None then st
         else case load_windows (fs p) of
                Some d \<Rightarrow> st\<lparr>not_before := merge_max (not_before st) (sanitize d now), bpath := Some p\<rparr>
              | None \<Rightarrow> st\<lparr>bpath := Some p\<rparr>)"

text \<open>\<open>now\<close> is read before the window is computed, \<open>now2\<close> when the file is rewritten.\<close>

definition record_rate_limited ::
  "(string \<Rightarrow> string option) \<Rightarrow> bool \<Rightarrow> bool \<Rightarrow> nat \<Rightarrow> nat \<Rightarrow> string \<Rightarrow> nat option \<Rightarrow>
   backoff_state \<Rightarrow> (string \<Rightarrow> disk) \<Rightarrow> backoff_state \<times> (string \<Rightarrow> disk)" where
  "record_rate_limited origin lock_ok save_ok now now2 url retry_after st fs =
     (case origin url of
        None \<Rightarrow> (st, fs)
      | Some key \<Rightarrow>
          let wait = min (case retry_after of Some d \<Rightarrow> d | None \<Rightarrow> http_retry_cap) http_retry_cap;
              nb = sat_add64 now wait;
              e = count_of (not_before st) key;
              st1 = st\<lparr>not_before := AList.update key (if e < nb then nb else e) (not_before st)\<rparr>
          in case bpath st1 of
               None \<Rightarrow> (st1, fs)
             | Some p \<Rightarrow>
                 if \<not> lock_ok then (st1, fs)
                 else let d = (case load_windows (fs p) of Some c \<Rightarrow> c | None \<Rightarrow> []);
                          d' = sanitize (merge_max d (not_before st1)) now2
                      in if save_ok then (st1\<lparr>not_before := d'\<rparr>, fs(p := Stored d')) else (st1, fs))"

definition remaining_for_url ::
  "(string \<Rightarrow> string option) \<Rightarrow> nat \<Rightarrow> nat \<Rightarrow> string \<Rightarrow> backoff_state \<Rightarrow> (string \<Rightarrow> disk) \<Rightarrow> backoff_state \<times> nat option" where
  "remaining_for_url origin now now2 url st fs =
     (case origin url of
        None \<Rightarrow> (st, None)
      | Some key \<Rightarrow>
          let st1 = (case bpath st of
                       None \<Rightarrow> st
                     | Some p \<Rightarrow>
                         (case load_windows (fs p) of
                            Some d \<Rightarrow> st\<lparr>not_before := merge_max (not_before st) (sanitize d now)\<rparr>
                          | None \<Rightarrow> st))
          in case map_of (not_before st1) key of
               None \<Rightarrow> (st1, None)
             | Some nb \<Rightarrow> (st1, if 0 < nb - now2 then Some (min (nb - now2) http_retry_cap) else None))"

section \<open>Merging windows\<close>

interpretation max_merge: merge_op "\<lambda>a b. if a < b then b else a" "\<lambda>_. True"
  by unfold_locales auto

lemma merge_max_count:
  assumes "distinct_keys b"
  shows "count_of (merge_max a b) k = max (count_of a k) (count_of b k)"
  unfolding merge_max_def by (subst count_of_merge [OF assms]) (auto simp: max_def)

lemma distinct_keys_sanitize: "distinct_keys c \<Longrightarrow> distinct_keys (sanitize c now)"
  unfolding sanitize_def Let_def
  by (simp add: comp_def case_prod_unfold distinct_keys_retain [unfolded comp_def])

lemma sanitize_count:
  assumes "distinct_keys c"
  shows "count_of (sanitize c now) k = (if count_of c k \<le> now then 0 else min (count_of c k) (sat_add64 now http_retry_cap))"
proof -
  have "map_of (map (\<lambda>(k, ts). (k, f ts)) c) k = map_option f (map_of c k)" for f :: "nat \<Rightarrow> nat" and c :: counts
    by (induction c) auto
  then show ?thesis
    using assms unfolding sanitize_def Let_def count_of_def get_or_def
    by (auto simp: map_of_retain min_def split: option.splits)
qed

definition windows_ok :: "disk \<Rightarrow> bool" where
  "windows_ok d = (case d of Stored c \<Rightarrow> distinct_keys c | _ \<Rightarrow> True)"

lemma load_windows_distinct: "windows_ok d \<Longrightarrow> load_windows d = Some c \<Longrightarrow> distinct_keys c"
  by (auto simp: windows_ok_def load_windows_def split: disk.splits)

lemma distinct_keys_merge_max: "distinct_keys a \<Longrightarrow> distinct_keys (merge_max a b)"
  unfolding merge_max_def by (rule distinct_keys_merge)

section \<open>Properties\<close>

text \<open>A shared window is never longer than the cap: whatever the file or the process holds,
  \<open>remaining_for_url\<close> answers at most ten seconds, and never an empty wait.\<close>

theorem remaining_capped:
  "case snd (remaining_for_url origin now now2 url st fs) of None \<Rightarrow> True | Some d \<Rightarrow> 0 < d \<and> d \<le> 10000"
  by (auto simp: remaining_for_url_def Let_def http_retry_cap_def split: option.splits)

text \<open>A 429 that one process recorded and saved holds in every other process bound to the same
  file: until the recorded time any of them is told to wait for this provider at least as long as
  the one that saw the 429 would, and an existing longer window is not shortened.\<close>

theorem backoff_shared:
  assumes "origin url = Some key" and "origin url' = Some key"
    and "bpath st = Some p" and "bpath other = Some p"
    and "windows_ok (fs p)" and "distinct_keys (not_before st)" and "distinct_keys (not_before other)"
    and "wait \<le> http_retry_cap" and "now + http_retry_cap \<le> u64_max" and "now \<le> now2" and "now2 \<le> t" and "t < now + wait"
    and "record_rate_limited origin True True now now2 url (Some wait) st fs = (st', fs')"
  shows "\<exists>d. snd (remaining_for_url origin t t url' other fs') = Some d \<and> now + wait - t \<le> d"
proof -
  let ?d = "case load_windows (fs p) of Some c \<Rightarrow> c | None \<Rightarrow> []"
  let ?e = "count_of (not_before st) key"
  let ?m = "AList.update key (if ?e < now + wait then now + wait else ?e) (not_before st)"
  let ?s = "sanitize (merge_max ?d ?m) now2"
  let ?o = "merge_max (not_before other) (sanitize ?s t)"
  have d: "distinct_keys ?d" using assms(5) by (auto split: option.splits dest: load_windows_distinct)
  have m: "distinct_keys ?m" using assms(6) by simp
  have fs': "fs' p = Stored ?s"
    using assms(1,3,8,9,13) by (auto simp: record_rate_limited_def Let_def sat_add64_def min_def http_retry_cap_def)
  have s: "distinct_keys ?s" using d by (intro distinct_keys_sanitize distinct_keys_merge_max)
  have "now + wait \<le> count_of ?m key" by (simp add: count_of_update)
  then have "now + wait \<le> count_of (merge_max ?d ?m) key" using merge_max_count [OF m, of ?d key] by simp
  then have "now + wait \<le> count_of ?s key"
    using assms(8-12) d
    by (simp add: sanitize_count distinct_keys_merge_max sat_add64_def)
  then have "now + wait \<le> count_of (sanitize ?s t) key"
    using assms(8-12) s by (simp add: sanitize_count sat_add64_def)
  then have big: "now + wait \<le> count_of ?o key"
    using merge_max_count [OF distinct_keys_sanitize [OF s], of "not_before other" t key] by simp
  then obtain nb where nb: "map_of ?o key = Some nb" "now + wait \<le> nb"
    using assms(12) by (auto simp: count_of_def get_or_def split: option.splits)
  have "snd (remaining_for_url origin t t url' other fs') = Some (min (nb - t) http_retry_cap)"
    using nb assms(2,4,12) fs' by (simp add: remaining_for_url_def load_windows_def)
  moreover have "now + wait - t \<le> min (nb - t) http_retry_cap"
    using nb(2) assms(8,10,11) by (simp add: diff_le_mono)
  ultimately show ?thesis by blast
qed

theorem backoff_shared_witness:
  "\<exists>d. snd (remaining_for_url (\<lambda>u. if u = ''bad'' then None else Some ''https://h'') 2000 2000 ''https://h/b''
       \<lparr>bpath = Some ''p'', not_before = []\<rparr>
       (snd (record_rate_limited (\<lambda>u. if u = ''bad'' then None else Some ''https://h'') True True 1000 1500 ''https://h/a''
          (Some 4000) \<lparr>bpath = Some ''p'', not_before = []\<rparr> (\<lambda>_. Missing)))) = Some d \<and> 3000 \<le> d"
proof -
  let ?o = "\<lambda>u. if u = ''bad'' then None else Some ''https://h''"
  let ?st = "\<lparr>bpath = Some ''p'', not_before = []\<rparr>"
  obtain st' fs' where run: "record_rate_limited ?o True True 1000 1500 ''https://h/a'' (Some 4000) ?st (\<lambda>_. Missing) = (st', fs')"
    by (metis surj_pair)
  from backoff_shared [OF _ _ _ _ _ _ _ _ _ _ _ _ run, of "''https://h''" "''https://h/b''" "''p''" ?st 2000]
  show ?thesis unfolding run by (simp add: windows_ok_def http_retry_cap_def u64_max_def)
qed

end
