(* ===== verification/Approval.thy ===== *)
theory Approval
  imports Json
begin

text \<open>
  The contract of human approval that the gateway and the desktop broker share (\<open>approval.rs\<close>):
  display labels, the gating policy, allow keys, the challenge that authenticates the broker,
  and the gateway's client with its one retry.

  The JSON package, the HMAC and the two Unicode tables that other packages provide are the
  fields of \<open>approval_env\<close>. The network is what the definitions are given: whether an endpoint
  accepts a connection, what the peer sends, and what each read of the waiting loop sees.
\<close>

section \<open>Types\<close>

record approval_env =
  to_json :: "json \<Rightarrow> string"
  from_json :: "string \<Rightarrow> json option"
  hmac_sha256 :: "string \<Rightarrow> string \<Rightarrow> nat list"
  is_format_char :: "string \<Rightarrow> bool"
  is_combining_mark :: "string \<Rightarrow> bool"

record endpoint_descriptor =
  endpoint :: string
  unix_endpoint :: "string option"
  desc_token :: string

datatype approval_reason = Destructive | UntrustedSource | DestructiveAndUntrusted | PiiCrossServer

record pii_release_value =
  pii_token :: string
  pii_value :: string
  pii_origins :: "string list"

record pii_release_request =
  release_server :: string
  release_values :: "pii_release_value list"

record url_elicitation_request =
  elicit_url :: string
  elicit_origin :: string
  elicit_message :: string

record approval_request =
  req_token :: string
  req_id :: string
  client :: "string option"
  client_name :: "string option"
  client_label :: "string option"
  req_server :: string
  req_tool :: string
  reason :: approval_reason
  arguments :: json
  tool_fingerprint :: "string option"
  url_elicitation :: "url_elicitation_request option"
  pii_release :: "pii_release_request option"

datatype approval_decision = Approved | Denied | Timeout | Unreachable | StaleState | Withdrawn

definition is_approved :: "approval_decision \<Rightarrow> bool" where
  "is_approved d \<longleftrightarrow> d = Approved"

definition default_timeout_secs :: nat where
  "default_timeout_secs = 120"

section \<open>Client labels\<close>

definition client_label_max_bytes :: nat where
  "client_label_max_bytes = 200"

definition client_label_max_chars :: nat where
  "client_label_max_chars = 120"

definition client_label_within_bounds :: "string \<Rightarrow> bool" where
  "client_label_within_bounds text \<longleftrightarrow>
     length text \<le> client_label_max_bytes \<and>
     length (take (client_label_max_chars + 1) (utf8_chars text)) \<le> client_label_max_chars"

text \<open>The loop over the characters; \<open>label\<close> is the list of the characters kept, in order, and
  \<open>marks\<close> the length of the current run of combining marks.\<close>

fun label_loop :: "approval_env \<Rightarrow> string list \<Rightarrow> string list \<Rightarrow> nat \<Rightarrow> string list" where
  "label_loop env [] label marks = label"
| "label_loop env (c0 # cs) label marks =
     (if \<not> is_whitespace c0 \<and> (is_control c0 \<or> is_format_char env c0) then label_loop env cs label marks
      else let c = (if is_whitespace c0 then '' '' else c0)
      in if c = '' '' \<and> (label = [] \<or> last label = '' '') then label_loop env cs label marks
      else let marks' = (if is_combining_mark env c then marks + 1 else 0)
      in if 2 < marks' then label_loop env cs label marks'
      else if length label = client_label_max_chars \<or> client_label_max_bytes < length (concat label) + length c then label
      else label_loop env cs (label @ [c]) marks')"

definition trim_end_chars :: "string list \<Rightarrow> string list" where
  "trim_end_chars cs = rev (dropWhile is_whitespace (rev cs))"

definition sanitize_client_label :: "approval_env \<Rightarrow> string \<Rightarrow> string option" where
  "sanitize_client_label env text =
     (let label = trim_end_chars (label_loop env (utf8_chars text) [] 0)
      in if label = [] then None else Some (concat label))"

definition ellipsis :: string where
  "ellipsis = map char_of [226, 128, 166 :: nat]"

definition shorten_client_label :: "string \<Rightarrow> nat \<Rightarrow> string" where
  "shorten_client_label label limit =
     (if char_count label \<le> limit then label
      else concat (take (limit - 1) (utf8_chars label)) @ ellipsis)"

definition client_info_label :: "approval_env \<Rightarrow> json option \<Rightarrow> string option" where
  "client_info_label env params =
     (case Option.bind params (jget ''clientInfo'') of
        None \<Rightarrow> None
      | Some info \<Rightarrow>
          (case jget_str ''name'' info of
             None \<Rightarrow> None
           | Some name \<Rightarrow>
               let version = jget_str ''version'' info
               in if \<not> client_label_within_bounds name \<or>
                     (case version of Some v \<Rightarrow> \<not> client_label_within_bounds v | None \<Rightarrow> False)
                  then Some ''[private]''
                  else case sanitize_client_label env name of
                         None \<Rightarrow> None
                       | Some n \<Rightarrow>
                           let label = (case Option.bind version (sanitize_client_label env) of
                                          Some v \<Rightarrow> n @ '' '' @ v
                                        | None \<Rightarrow> n)
                           in if \<not> client_label_within_bounds label then Some ''[private]''
                              else sanitize_client_label env label))"

section \<open>Gating\<close>

definition gate_reason :: "bool \<Rightarrow> bool \<Rightarrow> bool \<Rightarrow> approval_reason option" where
  "gate_reason enabled is_destructive untrusted_source =
     (if \<not> enabled then None
      else case (is_destructive, untrusted_source) of
             (True, True) \<Rightarrow> Some DestructiveAndUntrusted
           | (True, False) \<Rightarrow> Some Destructive
           | (False, True) \<Rightarrow> Some UntrustedSource
           | (False, False) \<Rightarrow> None)"

definition allow_key :: "string \<Rightarrow> string \<Rightarrow> string" where
  "allow_key srv tool = srv @ ''/'' @ tool"

definition fingerprint_allow_key :: "string \<Rightarrow> string \<Rightarrow> string \<Rightarrow> string" where
  "fingerprint_allow_key srv tool fp = srv @ ''/'' @ tool @ ''/'' @ fp"

section \<open>The challenge\<close>

definition hex_digit :: "nat \<Rightarrow> char" where
  "hex_digit n = (if n < 10 then char_of (48 + n) else char_of (87 + n))"

definition hex :: "nat list \<Rightarrow> string" where
  "hex bytes = concat (map (\<lambda>b. [hex_digit (b div 16), hex_digit (b mod 16)]) bytes)"

definition challenge_proof :: "approval_env \<Rightarrow> string \<Rightarrow> string \<Rightarrow> string" where
  "challenge_proof env token nonce = hex (hmac_sha256 env token nonce)"

text \<open>The comparison takes constant time; its result is equality.\<close>

definition proof_matches :: "string \<Rightarrow> string \<Rightarrow> bool" where
  "proof_matches expected presented \<longleftrightarrow> length expected = length presented \<and> expected = presented"

definition answer_challenge :: "approval_env \<Rightarrow> string \<Rightarrow> string \<Rightarrow> string option" where
  "answer_challenge env first_line token =
     (case Option.bind (from_json env first_line) (jget_str ''toolportApprovalChallenge'') of
        None \<Rightarrow> None
      | Some nonce \<Rightarrow> Some (to_json env (JObj [(''toolportApprovalProof'', JStr (challenge_proof env token nonce))])))"

section \<open>Dialling the broker\<close>

datatype dial_error = InvalidInput | NoRandom | ConnectFailed | IoFailed | UnexpectedEof | InvalidData | PermissionDenied

text \<open>A peer that accepted a connection: the bytes it sends after the challenge line, or \<open>None\<close> for
  an I/O error.\<close>

type_synonym peer = "string \<Rightarrow> string option"
type_synonym network = "string \<Rightarrow> peer option"

definition max_proof_line_bytes :: nat where
  "max_proof_line_bytes = 1024"

text \<open>\<open>read_line\<close> on a limited reader: up to and with the first line feed.\<close>

definition read_line :: "nat \<Rightarrow> string \<Rightarrow> string" where
  "read_line limit bytes =
     (let b = take limit bytes; l = takeWhile (\<lambda>c. c \<noteq> CHR 0x0A) b in take (length l + 1) b)"

definition connect_endpoint :: "network \<Rightarrow> endpoint_descriptor \<Rightarrow> peer option" where
  "connect_endpoint net desc =
     (case unix_endpoint desc of
        Some u \<Rightarrow> (case net u of Some p \<Rightarrow> Some p | None \<Rightarrow> net (endpoint desc))
      | None \<Rightarrow> net (endpoint desc))"

definition check_proof :: "approval_env \<Rightarrow> string \<Rightarrow> string \<Rightarrow> string \<Rightarrow> dial_error option" where
  "check_proof env token nonce bytes =
     (let reply = read_line max_proof_line_bytes bytes
      in if reply = [] then Some UnexpectedEof
         else if \<not> ends_with [CHR 0x0A] reply then Some InvalidData
         else case Option.bind (from_json env (trim reply)) (jget_str ''toolportApprovalProof'') of
                None \<Rightarrow> Some InvalidData
              | Some p \<Rightarrow>
                  if proof_matches (challenge_proof env token nonce) p then None else Some PermissionDenied)"

definition dial_broker :: "approval_env \<Rightarrow> nat list option \<Rightarrow> network \<Rightarrow> endpoint_descriptor \<Rightarrow> dial_error + peer" where
  "dial_broker env random net desc =
     (if desc_token desc = [] then Inl InvalidInput
      else case random of
             None \<Rightarrow> Inl NoRandom
           | Some bytes \<Rightarrow>
               let nonce = hex bytes
               in case connect_endpoint net desc of
                    None \<Rightarrow> Inl ConnectFailed
                  | Some p \<Rightarrow>
                      (case p (to_json env (JObj [(''toolportApprovalChallenge'', JStr nonce)]) @ [CHR 0x0A]) of
                         None \<Rightarrow> Inl IoFailed
                       | Some reply \<Rightarrow>
                           (case check_proof env (desc_token desc) nonce reply of
                              Some e \<Rightarrow> Inl e
                            | None \<Rightarrow> Inr p)))"

section \<open>One attempt\<close>

datatype broker_attempt = Decided approval_decision | NotReached

text \<open>One round of the waiting loop: whether the caller cancelled, whether the deadline passed, and
  what the read returned. A read that timed out may have read a part of the line.\<close>

datatype read_outcome = ReadLine string | ReadEof | ReadTimedOut string | ReadFailed

record poll =
  poll_cancelled :: bool
  poll_late :: bool
  poll_read :: read_outcome

definition decision_of :: "approval_env \<Rightarrow> string \<Rightarrow> approval_decision option" where
  "decision_of env t =
     Option.bind (Option.bind (from_json env t) as_str)
       (map_of [(''approved'', Approved), (''denied'', Denied), (''timeout'', Timeout),
                (''unreachable'', Unreachable), (''stale_state'', StaleState), (''withdrawn'', Withdrawn)])"

text \<open>The loop of \<open>exchange_approval_request_with_cancel\<close>; \<open>None\<close> while it still waits.\<close>

fun exchange_loop :: "approval_env \<Rightarrow> bool \<Rightarrow> string \<Rightarrow> poll list \<Rightarrow> broker_attempt option" where
  "exchange_loop env cancellable resp [] = None"
| "exchange_loop env cancellable resp (p # ps) =
     (if cancellable \<and> poll_cancelled p then Some (Decided Withdrawn)
      else if poll_late p then Some (Decided Timeout)
      else case poll_read p of
             ReadEof \<Rightarrow> Some NotReached
           | ReadLine l \<Rightarrow>
               let t = trim (resp @ l)
               in if t = [] then Some NotReached
                  else Some (Decided (case decision_of env t of Some d \<Rightarrow> d | None \<Rightarrow> Timeout))
           | ReadTimedOut part \<Rightarrow>
               if cancellable then exchange_loop env cancellable (resp @ part) ps else Some (Decided Timeout)
           | ReadFailed \<Rightarrow> Some (Decided Timeout))"

definition broker_attempt_after_cancel :: "broker_attempt \<Rightarrow> bool \<Rightarrow> broker_attempt" where
  "broker_attempt_after_cancel d cancelled =
     (if d = Decided Approved \<or> d = Decided Denied \<or> \<not> cancelled then d else Decided Withdrawn)"

text \<open>Everything outside the process that one attempt depends on. \<open>write_ok\<close> is false when the
  request could not be written.\<close>

record attempt_io =
  random_bytes :: "nat list option"
  net :: network
  clone_ok :: bool
  write_ok :: bool
  polls :: "poll list"
  cancelled_before :: bool
  cancelled_dialled :: bool
  cancelled_after :: bool

text \<open>The result is the attempt (\<open>None\<close> while waiting) and whether the request crossed the wire.\<close>

definition try_decide_once_with_cancel ::
  "approval_env \<Rightarrow> attempt_io \<Rightarrow> bool \<Rightarrow> endpoint_descriptor option \<Rightarrow> broker_attempt option \<times> bool" where
  "try_decide_once_with_cancel env io cancellable desc =
     (if cancellable \<and> cancelled_before io then (Some (Decided Withdrawn), False)
      else case desc of
             None \<Rightarrow> (Some NotReached, False)
           | Some d \<Rightarrow>
               (case dial_broker env (random_bytes io) (net io) d of
                  Inl _ \<Rightarrow> (Some NotReached, False)
                | Inr _ \<Rightarrow>
                    if \<not> clone_ok io then (Some NotReached, False)
                    else if cancellable \<and> cancelled_dialled io then (Some (Decided Withdrawn), False)
                    else let attempt = (if write_ok io then exchange_loop env cancellable [] (polls io) else Some NotReached)
                         in (map_option (\<lambda>a. broker_attempt_after_cancel a (cancellable \<and> cancelled_after io)) attempt,
                             write_ok io)))"

definition try_decide_once :: "approval_env \<Rightarrow> attempt_io \<Rightarrow> endpoint_descriptor option \<Rightarrow> broker_attempt option \<times> bool" where
  "try_decide_once env io desc = try_decide_once_with_cancel env io False desc"

definition decide_via_broker :: "approval_env \<Rightarrow> attempt_io \<Rightarrow> endpoint_descriptor option \<Rightarrow> approval_decision option" where
  "decide_via_broker env io desc =
     map_option (\<lambda>a. case a of Decided d \<Rightarrow> d | NotReached \<Rightarrow> Unreachable) (fst (try_decide_once env io desc))"

definition request_human_decision ::
  "approval_env \<Rightarrow> attempt_io \<times> endpoint_descriptor option \<Rightarrow> attempt_io \<times> endpoint_descriptor option \<Rightarrow>
   approval_decision option" where
  "request_human_decision env first second =
     (case fst (try_decide_once env (fst first) (snd first)) of
        None \<Rightarrow> None
      | Some (Decided d) \<Rightarrow> Some d
      | Some NotReached \<Rightarrow>
          (case fst (try_decide_once env (fst second) (snd second)) of
             None \<Rightarrow> None
           | Some (Decided d) \<Rightarrow> Some d
           | Some NotReached \<Rightarrow> Some Unreachable))"

section \<open>Labels stay within their bounds\<close>

definition label_char_ok :: "approval_env \<Rightarrow> string \<Rightarrow> bool" where
  "label_char_ok env c \<longleftrightarrow> c = '' '' \<or> \<not> (is_whitespace c \<or> is_control c \<or> is_format_char env c)"

text \<open>What every push keeps, the loop keeps.\<close>

lemma label_loop_inv:
  assumes "\<And>l c. P l \<Longrightarrow> label_char_ok env c \<Longrightarrow> length l \<noteq> client_label_max_chars \<Longrightarrow>
      length (concat l) + length c \<le> client_label_max_bytes \<Longrightarrow> P (l @ [c])"
    and "P label"
  shows "P (label_loop env cs label marks)"
  using assms(2)
proof (induction cs arbitrary: label marks)
  case (Cons c0 cs)
  let ?c = "if is_whitespace c0 then '' '' else c0"
  have "P (label @ [?c])"
    if "length label \<noteq> client_label_max_chars" "length (concat label) + length ?c \<le> client_label_max_bytes"
      "\<not> (\<not> is_whitespace c0 \<and> (is_control c0 \<or> is_format_char env c0))"
    using assms(1) [OF Cons.prems _ that(1,2)] that(3) by (auto simp: label_char_ok_def)
  with Cons show ?case unfolding label_loop.simps Let_def by (simp only: split: if_split) auto
qed simp

lemma label_loop_bounds:
  "length (label_loop env cs [] marks) \<le> client_label_max_chars \<and>
   length (concat (label_loop env cs [] marks)) \<le> client_label_max_bytes"
  by (rule label_loop_inv [where P = "\<lambda>l. length l \<le> client_label_max_chars \<and> length (concat l) \<le> client_label_max_bytes"])
    auto

lemma label_loop_clean: "c \<in> set (label_loop env cs [] marks) \<Longrightarrow> label_char_ok env c"
  using label_loop_inv [where P = "\<lambda>l. \<forall>c \<in> set l. label_char_ok env c" and label = "[]"] by auto

lemma trim_end_take: "\<exists>k. trim_end_chars cs = take k cs"
  unfolding trim_end_chars_def by (metis dropWhile_eq_drop rev_drop rev_rev_ident)

section \<open>What an approval requires\<close>

text \<open>The peer that the descriptor led to answered this dial's nonce with the proof that only a holder
  of the token can compute.\<close>

definition authenticated :: "approval_env \<Rightarrow> attempt_io \<Rightarrow> endpoint_descriptor option \<Rightarrow> bool" where
  "authenticated env io desc \<longleftrightarrow>
     (\<exists>d bytes p reply v.
        desc = Some d \<and> desc_token d \<noteq> [] \<and> random_bytes io = Some bytes \<and> connect_endpoint (net io) d = Some p \<and>
        p (to_json env (JObj [(''toolportApprovalChallenge'', JStr (hex bytes))]) @ [CHR 0x0A]) = Some reply \<and>
        from_json env (trim (read_line 1024 reply)) = Some v \<and>
        jget_str ''toolportApprovalProof'' v = Some (hex (hmac_sha256 env (desc_token d) (hex bytes))))"

lemma check_proof_None:
  "check_proof env token nonce bytes = None \<longleftrightarrow>
     ends_with [CHR 0x0A] (read_line 1024 bytes) \<and> read_line 1024 bytes \<noteq> [] \<and>
     (\<exists>v. from_json env (trim (read_line 1024 bytes)) = Some v \<and>
          jget_str ''toolportApprovalProof'' v = Some (hex (hmac_sha256 env token nonce)))"
  by (auto simp: check_proof_def Let_def proof_matches_def challenge_proof_def max_proof_line_bytes_def
      split: option.splits bind_splits if_splits)

lemma dial_authenticated:
  assumes "dial_broker env (random_bytes io) (net io) d = Inr p"
  shows "authenticated env io (Some d)"
  using assms unfolding dial_broker_def authenticated_def
  by (auto simp: Let_def check_proof_None split: option.splits if_splits)

lemma attempt_authenticated:
  assumes "snd (try_decide_once_with_cancel env io can desc) \<or>
    fst (try_decide_once_with_cancel env io can desc) = Some (Decided Approved)"
  shows "authenticated env io desc"
proof (cases desc)
  case None
  then show ?thesis using assms by (simp add: try_decide_once_with_cancel_def split: if_splits)
next
  case (Some d)
  show ?thesis
  proof (cases "dial_broker env (random_bytes io) (net io) d")
    case (Inl e)
    then show ?thesis using assms Some by (simp add: try_decide_once_with_cancel_def split: if_splits)
  next
    case (Inr p)
    then show ?thesis unfolding Some by (rule dial_authenticated)
  qed
qed

text \<open>The text of an answer: the parts read before it and the line itself.\<close>

fun answer_text :: "string \<Rightarrow> poll list \<Rightarrow> string option" where
  "answer_text resp [] = None"
| "answer_text resp (p # ps) =
     (case poll_read p of
        ReadLine l \<Rightarrow> Some (trim (resp @ l))
      | ReadTimedOut part \<Rightarrow> answer_text (resp @ part) ps
      | _ \<Rightarrow> None)"

lemma exchange_approved:
  "exchange_loop env can resp ps = Some (Decided Approved) \<Longrightarrow>
     \<exists>t. answer_text resp ps = Some t \<and> decision_of env t = Some Approved"
  by (induction env can resp ps rule: exchange_loop.induct)
    (auto simp: Let_def split: if_splits read_outcome.splits option.splits)

lemma after_cancel_approved: "broker_attempt_after_cancel a c = Decided Approved \<longleftrightarrow> a = Decided Approved"
  by (auto simp: broker_attempt_after_cancel_def)

lemma attempt_approved:
  assumes "fst (try_decide_once_with_cancel env io can desc) = Some (Decided Approved)"
  shows "authenticated env io desc \<and> (\<exists>t. answer_text [] (polls io) = Some t \<and> decision_of env t = Some Approved)"
proof
  show "authenticated env io desc" using assms by (blast intro: attempt_authenticated)
  have "exchange_loop env can [] (polls io) = Some (Decided Approved)"
    using assms unfolding try_decide_once_with_cancel_def
    by (auto simp: Let_def after_cancel_approved split: if_splits option.splits sum.splits)
  then show "\<exists>t. answer_text [] (polls io) = Some t \<and> decision_of env t = Some Approved"
    by (rule exchange_approved)
qed

lemma exchange_late: "\<exists>p \<in> set ps. poll_late p \<Longrightarrow> exchange_loop env can resp ps \<noteq> None"
  by (induction env can resp ps rule: exchange_loop.induct) (auto simp: Let_def split: read_outcome.splits)

lemma read_line_whole:
  assumes "CHR 0x0A \<notin> set l" and "length l < n"
  shows "read_line n (l @ [CHR 0x0A]) = l @ [CHR 0x0A]"
proof -
  have "takeWhile (\<lambda>c. c \<noteq> CHR 0x0A) (l @ [CHR 0x0A]) = l"
    using assms(1) by (subst takeWhile_append2) auto
  with assms(2) show ?thesis by (simp add: read_line_def)
qed

section \<open>A concrete environment\<close>

text \<open>A one-field notation in the place of JSON and a constant in the place of the HMAC, for the
  concrete cases below.\<close>

definition demo_approval :: approval_env where
  "demo_approval =
     \<lparr>to_json = (\<lambda>v. case v of JObj [(k, JStr s)] \<Rightarrow> k @ '':'' @ s | JStr s \<Rightarrow> s | _ \<Rightarrow> []),
      from_json = (\<lambda>t. let k = takeWhile (\<lambda>c. c \<noteq> CHR '':'') t
                       in Some (if k = t then JStr t else JObj [(k, JStr (drop (length k + 1) t))])),
      hmac_sha256 = (\<lambda>_ _. [10, 11]), is_format_char = (\<lambda>_. False), is_combining_mark = (\<lambda>_. False)\<rparr>"

definition demo_descriptor :: endpoint_descriptor where
  "demo_descriptor = \<lparr>endpoint = ''127.0.0.1:1'', unix_endpoint = None, desc_token = ''t''\<rparr>"

definition demo_attempt :: "read_outcome \<Rightarrow> attempt_io" where
  "demo_attempt r =
     \<lparr>random_bytes = Some [1], net = (\<lambda>_. Some (\<lambda>_. Some (''toolportApprovalProof:0a0b'' @ [CHR 0x0A]))), clone_ok = True,
      write_ok = True, polls = [\<lparr>poll_cancelled = False, poll_late = False, poll_read = r\<rparr>],
      cancelled_before = False, cancelled_dialled = False, cancelled_after = False\<rparr>"

section \<open>Properties\<close>

text \<open>C17: Approval fails closed: the gateway lets a call run only if, on the first or on the second
  dial, the peer proved it holds the token of the descriptor by answering that dial's nonce, and
  the line it then sent reads as \<open>approved\<close>. Whatever else happens (no broker, a wrong proof, a
  dropped connection, an unreadable answer, a timeout) is not an approval.\<close>

theorem approval_fails_closed:
  assumes "request_human_decision env (io1, desc1) (io2, desc2) = Some d" and "is_approved d"
  shows "(authenticated env io1 desc1 \<and> (\<exists>t. answer_text [] (polls io1) = Some t \<and> decision_of env t = Some Approved)) \<or>
    (authenticated env io2 desc2 \<and> (\<exists>t. answer_text [] (polls io2) = Some t \<and> decision_of env t = Some Approved))"
proof -
  have "fst (try_decide_once env io1 desc1) = Some (Decided Approved) \<or>
      fst (try_decide_once env io2 desc2) = Some (Decided Approved)"
    using assms by (auto simp: request_human_decision_def is_approved_def split: option.splits broker_attempt.splits)
  then show ?thesis unfolding try_decide_once_def using attempt_approved by blast
qed

theorem approval_fails_closed_witness:
  "authenticated demo_approval (demo_attempt (ReadLine (''approved'' @ [CHR 0x0A]))) (Some demo_descriptor)"
proof -
  have "request_human_decision demo_approval (demo_attempt ReadEof, None)
      (demo_attempt (ReadLine (''approved'' @ [CHR 0x0A])), Some demo_descriptor) = Some Approved" by code_simp
  from approval_fails_closed [OF this] show ?thesis by (auto simp: is_approved_def authenticated_def)
qed

text \<open>C19: A request crosses the wire only after the proof: if a peer answered the nonce with anything
  but the proof, or did not answer, or there is no token, then nothing of the request was
  written and the attempt is not a decision of that peer.\<close>

theorem request_only_after_proof:
  assumes "\<not> authenticated env io desc"
  shows "\<not> snd (try_decide_once_with_cancel env io can desc) \<and>
    fst (try_decide_once_with_cancel env io can desc) \<in> {Some NotReached, Some (Decided Withdrawn)}"
proof
  show "\<not> snd (try_decide_once_with_cancel env io can desc)" using assms attempt_authenticated by blast
  show "fst (try_decide_once_with_cancel env io can desc) \<in> {Some NotReached, Some (Decided Withdrawn)}"
    using assms dial_authenticated [of env io]
    by (auto simp: try_decide_once_with_cancel_def split: option.splits sum.splits)
qed

theorem request_only_after_proof_witness:
  "\<not> snd (try_decide_once_with_cancel demo_approval ((demo_attempt ReadEof)\<lparr>net := (\<lambda>_. Some (\<lambda>_. Some (''ok'' @ [CHR 0x0A])))\<rparr>)
       False (Some demo_descriptor))"
proof -
  have "\<not> authenticated demo_approval ((demo_attempt ReadEof)\<lparr>net := (\<lambda>_. Some (\<lambda>_. Some (''ok'' @ [CHR 0x0A])))\<rparr>)
      (Some demo_descriptor)"
  proof -
    have "trim (read_line 1024 (''ok'' @ [CHR 0x0A])) = ''ok''" and "from_json demo_approval ''ok'' = Some (JStr ''ok'')"
      by code_simp+
    then show ?thesis
      by (simp add: authenticated_def demo_attempt_def demo_descriptor_def connect_endpoint_def jget_str_def)
  qed
  then show ?thesis using request_only_after_proof by blast
qed

text \<open>The two sides of the handshake agree: the proof line the broker writes for the gateway's
  nonce passes the gateway's check when both hold the same token. The JSON package reads back
  what it printed, ignores a final line feed and prints on one line; the proof line fits the
  bound.\<close>

theorem handshake_completes:
  assumes "v = JObj [(''toolportApprovalProof'', JStr (challenge_proof env token nonce))]"
    and "from_json env (trim (to_json env v @ [CHR 0x0A])) = Some v"
    and "CHR 0x0A \<notin> set (to_json env v)" and "length (to_json env v) < 1024"
    and "from_json env first_line = Some (JObj [(''toolportApprovalChallenge'', JStr nonce)])"
  shows "\<exists>line. answer_challenge env first_line token = Some line \<and>
    check_proof env token nonce (line @ [CHR 0x0A]) = None"
proof -
  have "read_line 1024 (to_json env v @ [CHR 0x0A]) = to_json env v @ [CHR 0x0A]"
    using assms(3,4) by (rule read_line_whole)
  moreover have "answer_challenge env first_line token = Some (to_json env v)"
    using assms(1,5) by (simp add: answer_challenge_def jget_str_def)
  moreover have "jget_str ''toolportApprovalProof'' v = Some (hex (hmac_sha256 env token nonce))"
    using assms(1) by (simp add: jget_str_def challenge_proof_def)
  ultimately show ?thesis
    using assms(2) by (auto simp: check_proof_None ends_with_iff)
qed

theorem handshake_completes_witness:
  "\<exists>line. answer_challenge demo_approval ''toolportApprovalChallenge:01'' ''t'' = Some line \<and>
     check_proof demo_approval ''t'' ''01'' (line @ [CHR 0x0A]) = None"
  by (rule handshake_completes [OF refl]) code_simp+

text \<open>A sanitised client label is safe to show: at most 120 characters and 200 bytes, not empty,
  no control or format character, no white space but single blanks between words.\<close>

theorem client_label_safe:
  assumes "sanitize_client_label env text = Some l"
  shows "\<exists>cs. l = concat cs \<and> cs \<noteq> [] \<and> length cs \<le> 120 \<and> length l \<le> 200 \<and> \<not> is_whitespace (last cs) \<and>
    (\<forall>c \<in> set cs. c = '' '' \<or> \<not> (is_whitespace c \<or> is_control c \<or> is_format_char env c))"
proof -
  let ?full = "label_loop env (utf8_chars text) [] 0"
  let ?cs = "trim_end_chars ?full"
  obtain k where k: "?cs = take k ?full" using trim_end_take by blast
  have l: "l = concat ?cs" "?cs \<noteq> []"
    using assms by (auto simp: sanitize_client_label_def Let_def split: if_splits)
  have "length (concat ?cs) \<le> length (concat ?full)"
    unfolding k by (metis append_take_drop_id concat_append le_add1 length_append)
  then have "length ?cs \<le> 120" "length l \<le> 200"
    using label_loop_bounds [of env "utf8_chars text" 0] k l
    by (auto simp: client_label_max_chars_def client_label_max_bytes_def)
  moreover have "\<not> is_whitespace (last ?cs)"
    using l(2) hd_dropWhile [of is_whitespace "rev ?full"] by (auto simp: trim_end_chars_def last_rev)
  moreover have "\<forall>c \<in> set ?cs. label_char_ok env c"
    unfolding k by (auto dest: in_set_takeD label_loop_clean)
  ultimately show ?thesis using l by (auto simp: label_char_ok_def intro!: exI [of _ ?cs])
qed

theorem client_label_safe_witness:
  "sanitize_client_label demo_approval ''  a  b '' = Some ''a b'' \<and> length ''a b'' \<le> (200 :: nat)"
proof -
  have "sanitize_client_label demo_approval ''  a  b '' = Some ''a b''" by code_simp
  with client_label_safe [OF this] show ?thesis by auto
qed

text \<open>The comment on \<open>try_decide_once\<close> says that an attempt is reported unreachable only when
  the request never reached a broker. The code also reports it when the broker took the request
  and then closed the connection, so the retry can show the same call to a person twice.\<close>

theorem unreachable_after_request:
  "\<exists>env io desc. try_decide_once env io desc = (Some NotReached, True)"
proof -
  have "try_decide_once demo_approval (demo_attempt ReadEof) (Some demo_descriptor) = (Some NotReached, True)"
    by code_simp
  then show ?thesis by blast
qed

end
