(* ===== verification/ApprovalBroker.thy ===== *)
theory ApprovalBroker
  imports Approval
begin

text \<open>
  The desktop side of human approval (\<open>approval_broker.rs\<close>): the queue of held calls, the
  decisions a person delivers, and the threads that serve gateway connections.

  \<open>Inner\<close> and what the threads share are one record. A channel is the list of decisions sent on it
  and not yet received, by connection; a waiter's \<open>Sender\<close> is the number of its connection. Each
  step of the transition system is one critical section of the code: serving a request up to
  parking it, a person's decision, the thread that watches for a disconnect, receiving or timing
  out, the final removal with the answer, and the end of a worker. \<open>log\<close> records why approvals
  were granted and is read by no operation.
\<close>

section \<open>State\<close>

record pending_view =
  view_id :: string
  view_client :: "string option"
  view_client_name :: string
  view_client_label :: "string option"
  view_server :: string
  view_tool :: string
  view_fingerprint :: "string option"
  view_reason :: approval_reason
  view_arguments :: json
  view_url_elicitation :: "url_elicitation_request option"
  view_pii_release :: "pii_release_request option"
  deadline_ms :: nat

record waiter =
  w_view :: pending_view
  w_conn :: nat

datatype phase =
    NoConn
  | Parked approval_request
  | Deciding approval_request approval_decision
  | Answered approval_request approval_decision
  | Finished approval_request approval_decision

datatype grant = Human nat pending_view | Allowlisted nat string

record broker =
  broker_token :: string
  pending :: "(string \<times> waiter) list"
  session_allow :: "string list"
  workers :: nat
  phases :: "nat \<Rightarrow> phase"
  watching :: "nat \<Rightarrow> bool"
  chans :: "nat \<Rightarrow> approval_decision list"
  log :: "grant list"

definition max_pending :: nat where
  "max_pending = 64"

definition max_approval_request_bytes :: nat where
  "max_approval_request_bytes = 1024 * 1024"

definition max_connection_workers :: nat where
  "max_connection_workers = max_pending + 32"

definition new_broker :: "string \<Rightarrow> broker" where
  "new_broker token =
     \<lparr>broker_token = token, pending = [], session_allow = [], workers = 0, phases = (\<lambda>_. NoConn),
      watching = (\<lambda>_. False), chans = (\<lambda>_. []), log = []\<rparr>"

section \<open>Connections\<close>

text \<open>The compare-and-exchange loop, whose effect is one guarded increment.\<close>

definition try_acquire_connection :: "nat \<Rightarrow> nat option" where
  "try_acquire_connection active = (if max_connection_workers \<le> active then None else Some (active + 1))"

datatype request_error = EmptyRequest | TooLarge | NotTerminated

definition read_approval_request :: "string \<Rightarrow> request_error + string" where
  "read_approval_request bytes =
     (let line = read_line (max_approval_request_bytes + 1) bytes
      in if line = [] then Inl EmptyRequest
         else if max_approval_request_bytes < length line then Inl TooLarge
         else if \<not> ends_with [CHR 0x0A] line then Inl NotTerminated
         else Inr line)"

definition token_eq :: "string \<Rightarrow> string \<Rightarrow> bool" where
  "token_eq actual expected \<longleftrightarrow> length actual = length expected \<and> actual = expected"

definition deadline_ms_from_now :: "nat \<Rightarrow> nat" where
  "deadline_ms_from_now now = now + default_timeout_secs * 1000"

section \<open>Operations of the shell\<close>

definition list_pending :: "broker \<Rightarrow> pending_view list" where
  "list_pending b = map (\<lambda>(_, w). w_view w) (pending b)"

definition send :: "nat \<Rightarrow> approval_decision \<Rightarrow> broker \<Rightarrow> broker" where
  "send c d b = b\<lparr>chans := (chans b)(c := chans b c @ [d])\<rparr>"

definition decide :: "string \<Rightarrow> bool \<Rightarrow> broker \<Rightarrow> broker \<times> pending_view option" where
  "decide i approved b =
     (case map_of (pending b) i of
        None \<Rightarrow> (b, None)
      | Some w \<Rightarrow>
          let d = (if approved then Approved else Denied);
              b1 = b\<lparr>pending := AList.delete i (pending b),
                     log := (if approved then Human (w_conn w) (w_view w) # log b else log b)\<rparr>
          in (send (w_conn w) d b1, Some (w_view w)))"

definition add_session_allow :: "string \<Rightarrow> broker \<Rightarrow> broker" where
  "add_session_allow key b = b\<lparr>session_allow := List.insert key (session_allow b)\<rparr>"

definition remove_session_allow :: "string \<Rightarrow> broker \<Rightarrow> broker" where
  "remove_session_allow key b = b\<lparr>session_allow := removeAll key (session_allow b)\<rparr>"

definition session_contains :: "broker \<Rightarrow> string \<Rightarrow> bool" where
  "session_contains b key \<longleftrightarrow> key \<in> set (session_allow b)"

section \<open>Serving a request\<close>

datatype preflight_result = PreDeny | AutoApprove string | AskHuman

definition preflight :: "approval_request \<Rightarrow> string \<Rightarrow> (string \<Rightarrow> bool) \<Rightarrow> preflight_result" where
  "preflight req token is_allowed =
     (if req_token req = [] \<or> \<not> token_eq (req_token req) token then PreDeny
      else if url_elicitation req = None \<and> pii_release req = None
      then (case tool_fingerprint req of
              Some fp \<Rightarrow>
                let key = fingerprint_allow_key (req_server req) (req_tool req) fp
                in if is_allowed key then AutoApprove key else AskHuman
            | None \<Rightarrow> AskHuman)
      else AskHuman)"

text \<open>\<open>read\<close> results of the watching thread, and the decision it makes of them.\<close>

datatype watch_read = WatchInterrupted | WatchTimedOut | WatchOther

fun disconnect_decision :: "watch_read list \<Rightarrow> approval_decision option" where
  "disconnect_decision [] = None"
| "disconnect_decision (WatchInterrupted # rs) = disconnect_decision rs"
| "disconnect_decision (WatchTimedOut # rs) = Some Timeout"
| "disconnect_decision (WatchOther # rs) = Some Denied"

text \<open>The request lines of a connection: an optional challenge, which gets the proof, then the request.
  \<open>parse_request\<close> is the JSON package on the request line.\<close>

definition receive_request ::
  "approval_env \<Rightarrow> (string \<Rightarrow> approval_request option) \<Rightarrow> string \<Rightarrow> bool \<Rightarrow> string \<Rightarrow> string \<Rightarrow>
   approval_request option \<times> string option" where
  "receive_request env parse_request token proof_written first second =
     (case read_approval_request first of
        Inl _ \<Rightarrow> (None, None)
      | Inr line \<Rightarrow>
          (case answer_challenge env line token of
             Some proof \<Rightarrow>
               if \<not> proof_written then (None, Some proof)
               else (case read_approval_request second of
                       Inl _ \<Rightarrow> (None, Some proof)
                     | Inr line2 \<Rightarrow> (parse_request line2, Some proof))
           | None \<Rightarrow> (parse_request line, None)))"

definition view_of :: "(string option \<Rightarrow> string option \<Rightarrow> string) \<Rightarrow> nat \<Rightarrow> approval_request \<Rightarrow> pending_view" where
  "view_of name now req =
     \<lparr>view_id = req_id req, view_client = client req, view_client_name = name (client req) (client_name req),
      view_client_label = client_label req, view_server = req_server req, view_tool = req_tool req,
      view_fingerprint = tool_fingerprint req, view_reason = reason req, view_arguments = arguments req,
      view_url_elicitation = url_elicitation req, view_pii_release = pii_release req,
      deadline_ms = deadline_ms_from_now now\<rparr>"

definition answer_now :: "nat \<Rightarrow> approval_request \<Rightarrow> approval_decision \<Rightarrow> broker \<Rightarrow> broker" where
  "answer_now c req d b = b\<lparr>phases := (phases b)(c := Answered req d)\<rparr>"

definition handle_request ::
  "(string option \<Rightarrow> string option \<Rightarrow> string) \<Rightarrow> (string \<Rightarrow> bool) \<Rightarrow> nat \<Rightarrow> nat \<Rightarrow> approval_request \<Rightarrow> broker \<Rightarrow> broker" where
  "handle_request name persistent_allowed now c req b =
     (case preflight req (broker_token b) (\<lambda>key. session_contains b key \<or> persistent_allowed key) of
        PreDeny \<Rightarrow> answer_now c req Denied b
      | AutoApprove key \<Rightarrow> answer_now c req Approved (b\<lparr>log := Allowlisted c key # log b\<rparr>)
      | AskHuman \<Rightarrow>
          if max_pending \<le> length (pending b) then answer_now c req Denied b
          else if map_of (pending b) (req_id req) \<noteq> None then answer_now c req Denied b
          else b\<lparr>pending := AList.update (req_id req) \<lparr>w_view = view_of name now req, w_conn = c\<rparr> (pending b),
                 phases := (phases b)(c := Parked req), watching := (watching b)(c := True)\<rparr>)"

text \<open>The watching thread of connection \<open>c\<close> woke up.\<close>

definition watcher_fires :: "nat \<Rightarrow> string \<Rightarrow> approval_decision \<Rightarrow> broker \<Rightarrow> broker" where
  "watcher_fires c i d b =
     (let b1 = b\<lparr>watching := (watching b)(c := False)\<rparr>
      in case map_of (pending b) i of
           None \<Rightarrow> b1
         | Some w \<Rightarrow> send (w_conn w) d (b1\<lparr>pending := AList.delete i (pending b)\<rparr>))"

text \<open>\<open>recv_timeout\<close>: the next decision on the channel, or the timeout.\<close>

definition receive :: "nat \<Rightarrow> approval_request \<Rightarrow> broker \<Rightarrow> broker" where
  "receive c req b =
     (case chans b c of
        d # ds \<Rightarrow> b\<lparr>phases := (phases b)(c := Deciding req d), chans := (chans b)(c := ds)\<rparr>
      | [] \<Rightarrow> b\<lparr>phases := (phases b)(c := Deciding req Timeout)\<rparr>)"

text \<open>The final removal and the answer.\<close>

definition resolve :: "nat \<Rightarrow> approval_request \<Rightarrow> approval_decision \<Rightarrow> broker \<Rightarrow> broker" where
  "resolve c req d b =
     b\<lparr>pending := AList.delete (req_id req) (pending b), phases := (phases b)(c := Answered req d)\<rparr>"

inductive broker_step :: "broker \<Rightarrow> broker \<Rightarrow> bool" where
  step_serve: "phases b c = NoConn \<Longrightarrow> try_acquire_connection (workers b) = Some n \<Longrightarrow>
     fst (receive_request env parse_request (broker_token b) ok l1 l2) = Some req \<Longrightarrow>
     broker_step b (handle_request name persistent_allowed now c req (b\<lparr>workers := n\<rparr>))"
| step_decide: "broker_step b (fst (decide i approved b))"
| step_allow: "broker_step b (add_session_allow key b)"
| step_revoke: "broker_step b (remove_session_allow key b)"
| step_watch: "watching b c \<Longrightarrow> phases b c \<in> {Parked req, Deciding req d', Answered req d'} \<Longrightarrow>
     disconnect_decision reads = Some d \<Longrightarrow> broker_step b (watcher_fires c (req_id req) d b)"
| step_receive: "phases b c = Parked req \<Longrightarrow> broker_step b (receive c req b)"
| step_resolve: "phases b c = Deciding req d \<Longrightarrow> broker_step b (resolve c req d b)"
| step_finish: "phases b c = Answered req d \<Longrightarrow> \<not> watching b c \<Longrightarrow>
     broker_step b (b\<lparr>phases := (phases b)(c := Finished req d), workers := workers b - 1\<rparr>)"

inductive_cases broker_stepE: "broker_step b b'"

section \<open>The invariant\<close>

fun held :: "phase \<Rightarrow> approval_request option" where
  "held (Parked r) = Some r"
| "held (Deciding r _) = Some r"
| "held _ = None"

fun served :: "phase \<Rightarrow> approval_request option" where
  "served NoConn = None"
| "served (Parked r) = Some r"
| "served (Deciding r _) = Some r"
| "served (Answered r _) = Some r"
| "served (Finished r _) = Some r"

fun decision_in :: "phase \<Rightarrow> approval_decision option" where
  "decision_in (Deciding _ d) = Some d"
| "decision_in (Answered _ d) = Some d"
| "decision_in (Finished _ d) = Some d"
| "decision_in _ = None"

lemma held_served: "held p = Some r \<Longrightarrow> served p = Some r"
  by (cases p) auto

definition shows_request :: "pending_view \<Rightarrow> approval_request \<Rightarrow> bool" where
  "shows_request v req \<longleftrightarrow> (\<exists>name now. v = view_of name now req)"

definition human_approved :: "broker \<Rightarrow> nat \<Rightarrow> approval_request \<Rightarrow> bool" where
  "human_approved b c req \<longleftrightarrow> (\<exists>v. Human c v \<in> set (log b) \<and> shows_request v req)"

definition auto_approved :: "broker \<Rightarrow> nat \<Rightarrow> approval_request \<Rightarrow> bool" where
  "auto_approved b c req \<longleftrightarrow>
     (\<exists>fp. tool_fingerprint req = Some fp \<and> url_elicitation req = None \<and> pii_release req = None \<and>
        Allowlisted c (fingerprint_allow_key (req_server req) (req_tool req) fp) \<in> set (log b))"

definition authentic :: "broker \<Rightarrow> approval_request \<Rightarrow> bool" where
  "authentic b req \<longleftrightarrow> req_token req \<noteq> [] \<and> req_token req = broker_token b"

definition queue_ok :: "broker \<Rightarrow> bool" where
  "queue_ok b \<longleftrightarrow> distinct_keys (pending b) \<and> length (pending b) \<le> max_pending \<and> workers b \<le> max_connection_workers"

definition waiters_ok :: "broker \<Rightarrow> bool" where
  "waiters_ok b \<longleftrightarrow>
     (\<forall>i w. map_of (pending b) i = Some w \<longrightarrow>
        (\<exists>req. held (phases b (w_conn w)) = Some req \<and> req_id req = i \<and> shows_request (w_view w) req))"

definition held_ok :: "broker \<Rightarrow> bool" where
  "held_ok b \<longleftrightarrow> (\<forall>c req. held (phases b c) = Some req \<longrightarrow> authentic b req)"

definition sent_ok :: "broker \<Rightarrow> bool" where
  "sent_ok b \<longleftrightarrow>
     (\<forall>c. Approved \<in> set (chans b c) \<longrightarrow> (\<exists>req. served (phases b c) = Some req \<and> human_approved b c req))"

definition granted_ok :: "broker \<Rightarrow> bool" where
  "granted_ok b \<longleftrightarrow>
     (\<forall>c req. served (phases b c) = Some req \<longrightarrow> decision_in (phases b c) = Some Approved \<longrightarrow>
        authentic b req \<and> (human_approved b c req \<or> auto_approved b c req))"

definition broker_inv :: "broker \<Rightarrow> bool" where
  "broker_inv b \<longleftrightarrow> queue_ok b \<and> waiters_ok b \<and> held_ok b \<and> sent_ok b \<and> granted_ok b"

lemmas broker_inv_defs = queue_ok_def waiters_ok_def held_ok_def sent_ok_def granted_ok_def

lemma broker_inv_new: "broker_inv (new_broker token)"
  by (simp add: broker_inv_def broker_inv_defs new_broker_def max_pending_def max_connection_workers_def)

text \<open>Only the log and the token matter to why a call was approved.\<close>

lemma grants_mono:
  assumes "set (log b) \<subseteq> set (log b')" and "broker_token b' = broker_token b"
  shows "human_approved b c req \<Longrightarrow> human_approved b' c req"
    and "auto_approved b c req \<Longrightarrow> auto_approved b' c req"
    and "authentic b' req = authentic b req"
  using assms by (auto simp: human_approved_def auto_approved_def authentic_def)

lemma send_simps [simp]:
  "pending (send c d b) = pending b" "workers (send c d b) = workers b" "phases (send c d b) = phases b"
  "log (send c d b) = log b" "broker_token (send c d b) = broker_token b"
  "chans (send c d b) = (chans b)(c := chans b c @ [d])"
  by (simp_all add: send_def)

lemma waiters_delete:
  assumes "waiters_ok b" and "pending b' = AList.delete i (pending b)" and "phases b' = phases b"
  shows "waiters_ok b'"
  using assms by (auto simp: waiters_ok_def alist_simps)

lemma queue_delete:
  assumes "queue_ok b" and "pending b' = AList.delete i (pending b)" and "workers b' = workers b"
  shows "queue_ok b'"
  using assms by (auto simp: queue_ok_def intro: order.trans [OF length_delete_le])

text \<open>What a step that only extends the log has to show for each part.\<close>

lemma held_frame:
  assumes "held_ok b" and "broker_token b' = broker_token b"
    and "\<And>k req. held (phases b' k) = Some req \<Longrightarrow> held (phases b k) = Some req \<or> authentic b req"
  shows "held_ok b'"
  using assms unfolding held_ok_def authentic_def by metis

lemma sent_frame:
  assumes "sent_ok b" and "set (log b) \<subseteq> set (log b')" and "broker_token b' = broker_token b"
    and "\<And>k. Approved \<in> set (chans b' k) \<Longrightarrow>
      (Approved \<in> set (chans b k) \<and> served (phases b' k) = served (phases b k)) \<or>
      (\<exists>req. served (phases b' k) = Some req \<and> human_approved b' k req)"
  shows "sent_ok b'"
  using assms(1,4) grants_mono(1) [OF assms(2,3)] unfolding sent_ok_def by metis

lemma granted_frame:
  assumes "granted_ok b" and "set (log b) \<subseteq> set (log b')" and "broker_token b' = broker_token b"
    and "\<And>k req. served (phases b' k) = Some req \<Longrightarrow> decision_in (phases b' k) = Some Approved \<Longrightarrow>
      (served (phases b k) = Some req \<and> decision_in (phases b k) = Some Approved) \<or>
      (authentic b req \<and> (human_approved b' k req \<or> auto_approved b' k req))"
  shows "granted_ok b'"
  using assms(1,4) grants_mono [OF assms(2,3)] unfolding granted_ok_def by metis

lemma broker_invI:
  "queue_ok b \<Longrightarrow> waiters_ok b \<Longrightarrow> held_ok b \<Longrightarrow> sent_ok b \<Longrightarrow> granted_ok b \<Longrightarrow> broker_inv b"
  by (simp add: broker_inv_def)

lemma inv_decide:
  assumes "broker_inv b"
  shows "broker_inv (fst (decide i approved b))"
proof (cases "map_of (pending b) i")
  case None
  with assms show ?thesis by (simp add: decide_def)
next
  case (Some w)
  let ?b = "fst (decide i approved b)"
  have f: "pending ?b = AList.delete i (pending b)" "workers ?b = workers b" "phases ?b = phases b"
    "broker_token ?b = broker_token b" "set (log b) \<subseteq> set (log ?b)"
    "chans ?b = (chans b)(w_conn w := chans b (w_conn w) @ [if approved then Approved else Denied])"
    "approved \<Longrightarrow> Human (w_conn w) (w_view w) \<in> set (log ?b)"
    using Some by (auto simp: decide_def Let_def)
  obtain req where req: "held (phases b (w_conn w)) = Some req" "shows_request (w_view w) req"
    using assms Some by (auto simp: broker_inv_def waiters_ok_def)
  have human: "approved \<Longrightarrow> human_approved ?b (w_conn w) req"
    using f(7) req(2) unfolding human_approved_def by blast
  note inv = assms [unfolded broker_inv_def]
  show ?thesis
  proof (rule broker_invI)
    show "queue_ok ?b" "waiters_ok ?b"
      using inv f(1-3) by (blast intro: queue_delete waiters_delete)+
    show "held_ok ?b" by (rule held_frame [of b]) (use inv f in simp_all)
    show "granted_ok ?b" by (rule granted_frame [of b]) (use inv f in simp_all)
    show "sent_ok ?b"
      by (rule sent_frame [of b])
        (use inv f human held_served [OF req(1)] in \<open>auto split: if_splits\<close>)
  qed
qed

lemma inv_watcher:
  assumes "broker_inv b" and "d \<noteq> Approved"
  shows "broker_inv (watcher_fires c i d b)"
proof -
  let ?b = "watcher_fires c i d b"
  have f: "workers ?b = workers b" "phases ?b = phases b" "broker_token ?b = broker_token b" "log ?b = log b"
    "pending ?b = AList.delete i (pending b)"
    and a: "\<And>k. Approved \<in> set (chans ?b k) \<Longrightarrow> Approved \<in> set (chans b k)"
    using assms(2)
    by (auto simp: watcher_fires_def Let_def delete_idem map_of_eq_None_iff split: option.splits if_splits)
  note inv = assms(1) [unfolded broker_inv_def]
  show ?thesis
  proof (rule broker_invI)
    show "queue_ok ?b" "waiters_ok ?b"
      using inv f by (blast intro: queue_delete waiters_delete)+
    show "held_ok ?b" by (rule held_frame [of b]) (use inv f in simp_all)
    show "granted_ok ?b" by (rule granted_frame [of b]) (use inv f in simp_all)
    show "sent_ok ?b" by (rule sent_frame [of b]) (use inv f a in simp_all)
  qed
qed

lemma disconnect_not_approved: "disconnect_decision rs = Some d \<Longrightarrow> d \<noteq> Approved"
  by (induction rs rule: disconnect_decision.induct) auto

lemma inv_receive:
  assumes "broker_inv b" and "phases b c = Parked req"
  shows "broker_inv (receive c req b)"
proof -
  let ?b = "receive c req b"
  obtain d where f: "phases ?b = (phases b)(c := Deciding req d)" "broker_token ?b = broker_token b"
      "log ?b = log b" "pending ?b = pending b" "workers ?b = workers b"
    and a: "\<And>k. Approved \<in> set (chans ?b k) \<Longrightarrow> Approved \<in> set (chans b k)"
    and d: "d = Approved \<Longrightarrow> Approved \<in> set (chans b c)"
  proof (cases "chans b c")
    case Nil
    show ?thesis by (rule that [of Timeout]) (use Nil in \<open>simp_all add: receive_def\<close>)
  next
    case (Cons d ds)
    show ?thesis by (rule that [of d]) (use Cons in \<open>auto simp: receive_def split: if_splits\<close>)
  qed
  note inv = assms(1) [unfolded broker_inv_def]
  have approved: "human_approved ?b c req \<and> authentic b req" if "d = Approved"
  proof -
    have "served (phases b c) = Some req" "held (phases b c) = Some req" using assms(2) by simp_all
    with d [OF that] inv have "human_approved b c req" "authentic b req"
      unfolding sent_ok_def held_ok_def by (metis option.inject)+
    with f(3) show ?thesis by (simp add: human_approved_def)
  qed
  show ?thesis
  proof (rule broker_invI)
    show "queue_ok ?b" using inv f by (simp add: queue_ok_def)
    show "waiters_ok ?b" using inv f assms(2) by (force simp: waiters_ok_def)
    show "held_ok ?b" by (rule held_frame [of b]) (use inv f assms(2) in \<open>auto split: if_splits\<close>)
    show "granted_ok ?b"
      by (rule granted_frame [of b]) (use inv f approved in \<open>auto split: if_splits\<close>)
    show "sent_ok ?b"
      by (rule sent_frame [of b]) (use inv f a assms(2) in \<open>auto split: if_splits\<close>)
  qed
qed

lemma inv_resolve:
  assumes "broker_inv b" and "phases b c = Deciding req d"
  shows "broker_inv (resolve c req d b)"
proof -
  let ?b = "resolve c req d b"
  have f: "phases ?b = (phases b)(c := Answered req d)" "broker_token ?b = broker_token b" "log ?b = log b"
    "pending ?b = AList.delete (req_id req) (pending b)" "workers ?b = workers b" "chans ?b = chans b"
    by (simp_all add: resolve_def)
  note inv = assms(1) [unfolded broker_inv_def]
  show ?thesis
  proof (rule broker_invI)
    show "queue_ok ?b" using inv f by (blast intro: queue_delete)
    have "w_conn w \<noteq> c" if "map_of (pending b) i = Some w" "i \<noteq> req_id req" for i w
      using that inv assms(2) unfolding waiters_ok_def by (metis held.simps(2) option.inject)
    then show "waiters_ok ?b" using inv f by (auto simp: waiters_ok_def alist_simps)
    show "held_ok ?b" by (rule held_frame [of b]) (use inv f in \<open>auto split: if_splits\<close>)
    show "granted_ok ?b" by (rule granted_frame [of b]) (use inv f assms(2) in \<open>auto split: if_splits\<close>)
    show "sent_ok ?b" by (rule sent_frame [of b]) (use inv f assms(2) in \<open>auto split: if_splits\<close>)
  qed
qed

lemma inv_finish:
  assumes "broker_inv b" and "phases b c = Answered req d"
  shows "broker_inv (b\<lparr>phases := (phases b)(c := Finished req d), workers := workers b - 1\<rparr>)" (is "broker_inv ?b")
proof -
  note inv = assms(1) [unfolded broker_inv_def]
  show ?thesis
  proof (rule broker_invI)
    show "queue_ok ?b" using inv by (auto simp: queue_ok_def)
    show "waiters_ok ?b" using inv assms(2) by (force simp: waiters_ok_def)
    show "held_ok ?b" by (rule held_frame [of b]) (use inv in \<open>auto split: if_splits\<close>)
    show "granted_ok ?b" by (rule granted_frame [of b]) (use inv assms(2) in \<open>auto split: if_splits\<close>)
    show "sent_ok ?b" by (rule sent_frame [of b]) (use inv assms(2) in \<open>auto split: if_splits\<close>)
  qed
qed

text \<open>A served request: denied, approved by an allow key, or parked.\<close>

lemma preflight_cases:
  obtains (deny) "preflight req token allowed = PreDeny"
  | (auto) fp where "preflight req token allowed = AutoApprove (fingerprint_allow_key (req_server req) (req_tool req) fp)"
      and "tool_fingerprint req = Some fp" and "url_elicitation req = None" and "pii_release req = None"
      and "allowed (fingerprint_allow_key (req_server req) (req_tool req) fp)"
      and "req_token req \<noteq> []" and "req_token req = token"
  | (ask) "preflight req token allowed = AskHuman" and "req_token req \<noteq> []" and "req_token req = token"
proof (cases "req_token req = [] \<or> req_token req \<noteq> token")
  case True
  then show ?thesis by (intro deny) (auto simp: preflight_def token_eq_def)
next
  case token: False
  show ?thesis
  proof (cases "\<exists>fp. tool_fingerprint req = Some fp \<and> url_elicitation req = None \<and> pii_release req = None \<and>
      allowed (fingerprint_allow_key (req_server req) (req_tool req) fp)")
    case True
    then obtain fp where "tool_fingerprint req = Some fp" "url_elicitation req = None" "pii_release req = None"
      "allowed (fingerprint_allow_key (req_server req) (req_tool req) fp)" by blast
    with token show ?thesis by (intro auto [of fp]) (auto simp: preflight_def token_eq_def)
  next
    case False
    with token show ?thesis
      by (intro ask) (auto simp: preflight_def token_eq_def Let_def split: option.split)
  qed
qed

lemma inv_answer_now:
  assumes "broker_inv b" and "phases b c = NoConn" and "workers b' \<le> max_connection_workers"
    and "pending b' = pending b" "phases b' = (phases b)(c := Answered req d)" "broker_token b' = broker_token b"
    "chans b' = chans b" "set (log b) \<subseteq> set (log b')"
    and "d = Approved \<Longrightarrow> authentic b req \<and> auto_approved b' c req"
  shows "broker_inv b'"
proof -
  note inv = assms(1) [unfolded broker_inv_def]
  note f = assms(4-8)
  have none: "Approved \<notin> set (chans b c)" using inv assms(2) by (auto simp: sent_ok_def)
  show ?thesis
  proof (rule broker_invI)
    show "queue_ok b'" using inv f assms(3) by (simp add: queue_ok_def)
    show "waiters_ok b'" using inv f assms(2) by (force simp: waiters_ok_def)
    show "held_ok b'" by (rule held_frame [of b]) (use inv f in \<open>auto split: if_splits\<close>)
    show "granted_ok b'"
      by (rule granted_frame [of b]) (use inv f assms(9) in \<open>auto split: if_splits\<close>)
    show "sent_ok b'" by (rule sent_frame [of b]) (use inv f none in \<open>auto split: if_splits\<close>)
  qed
qed

lemma inv_park:
  assumes "broker_inv b" and "phases b c = NoConn" and "workers b' \<le> max_connection_workers"
    and "pending b' = AList.update (req_id req) \<lparr>w_view = view_of name now req, w_conn = c\<rparr> (pending b)"
    "phases b' = (phases b)(c := Parked req)" "broker_token b' = broker_token b"
    "chans b' = chans b" "log b' = log b"
    and "length (pending b) < max_pending" and "authentic b req"
  shows "broker_inv b'"
proof -
  note inv = assms(1) [unfolded broker_inv_def]
  note f = assms(4-8)
  have none: "Approved \<notin> set (chans b c)" using inv assms(2) by (auto simp: sent_ok_def)
  have len: "length (pending b') \<le> max_pending"
    using length_update_le [of "req_id req" _ "pending b"] assms(9) unfolding f(1) by (metis Suc_leI order.trans)
  show ?thesis
  proof (rule broker_invI)
    show "queue_ok b'" using inv f assms(3) len by (simp add: queue_ok_def)
    have "w_conn w \<noteq> c" if "map_of (pending b) i = Some w" for i w
      using that inv assms(2) unfolding waiters_ok_def by (metis held.simps(3) option.distinct(1))
    moreover have "shows_request (view_of name now req) req" by (auto simp: shows_request_def)
    ultimately show "waiters_ok b'"
      using inv f by (auto simp: waiters_ok_def alist_simps)
    show "held_ok b'" by (rule held_frame [of b]) (use inv f assms(10) in \<open>auto split: if_splits\<close>)
    show "granted_ok b'"
      by (rule granted_frame [of b]) (use inv f in \<open>auto split: if_splits\<close>)
    show "sent_ok b'" by (rule sent_frame [of b]) (use inv f none in \<open>auto split: if_splits\<close>)
  qed
qed

lemma inv_serve:
  assumes "broker_inv b" and "phases b c = NoConn" and "try_acquire_connection (workers b) = Some n"
  shows "broker_inv (handle_request name persistent now c req (b\<lparr>workers := n\<rparr>))" (is "broker_inv ?b")
proof -
  have n: "n \<le> max_connection_workers"
    using assms(3) by (auto simp: try_acquire_connection_def split: if_splits)
  let ?al = "\<lambda>key. session_contains (b\<lparr>workers := n\<rparr>) key \<or> persistent key"
  show ?thesis
  proof (cases rule: preflight_cases [of req "broker_token b" ?al])
    case deny
    then have "?b = answer_now c req Denied (b\<lparr>workers := n\<rparr>)" by (simp add: handle_request_def)
    then show ?thesis using assms(1,2) n by (intro inv_answer_now [OF assms(1,2)]) (auto simp: answer_now_def)
  next
    case (auto fp)
    then have b: "?b = answer_now c req Approved (b\<lparr>workers := n, log := Allowlisted c (fingerprint_allow_key (req_server req) (req_tool req) fp) # log b\<rparr>)"
      by (simp add: handle_request_def)
    have "authentic b req \<and> auto_approved ?b c req"
      using auto unfolding b by (auto simp: authentic_def auto_approved_def answer_now_def)
    then show ?thesis
      using n b by (intro inv_answer_now [OF assms(1,2)]) (auto simp: answer_now_def)
  next
    case ask
    show ?thesis
    proof (cases "max_pending \<le> length (pending b) \<or> map_of (pending b) (req_id req) \<noteq> None")
      case True
      then have "?b = answer_now c req Denied (b\<lparr>workers := n\<rparr>)" using ask by (auto simp: handle_request_def)
      then show ?thesis using n by (intro inv_answer_now [OF assms(1,2)]) (auto simp: answer_now_def)
    next
      case False
      with ask n show ?thesis
        by (intro inv_park [OF assms(1,2)]) (auto simp: handle_request_def authentic_def)
    qed
  qed
qed

lemma broker_inv_allow: "broker_inv b \<Longrightarrow> broker_inv (b\<lparr>session_allow := ks\<rparr>)"
  by (rule broker_invI; unfold broker_inv_def; elim conjE)
    (simp add: queue_ok_def, simp add: waiters_ok_def,
     erule held_frame, simp, simp, erule sent_frame, simp, simp, simp, erule granted_frame, simp_all)

lemma broker_inv_step:
  assumes "broker_step b b'" and "broker_inv b"
  shows "broker_inv b'"
  using assms(1)
proof cases
  case (step_watch c req d' reads d)
  then show ?thesis using assms(2) disconnect_not_approved inv_watcher by blast
next
  case (step_allow key)
  then show ?thesis using assms(2) broker_inv_allow by (simp add: add_session_allow_def)
next
  case (step_revoke key)
  then show ?thesis using assms(2) broker_inv_allow by (simp add: remove_session_allow_def)
qed (simp_all only: assms(2) inv_serve inv_decide inv_receive inv_resolve inv_finish)

interpretation broker_sys: invariant_system "\<lambda>b. \<exists>token. b = new_broker token" broker_step broker_inv
  by unfold_locales (auto simp: broker_inv_new intro: broker_inv_step)

section \<open>Properties\<close>

text \<open>In every state the broker reaches, under any interleaving of gateway connections, decisions,
  disconnects and timeouts, at most 64 calls are pending and 96 workers active, no two pending
  calls share an id, and every pending call shown to the person is exactly the request of a
  connection that presented the broker's non-empty token and still waits for its answer.\<close>

theorem broker_queue_sound:
  assumes "reachable (\<lambda>b. \<exists>token. b = new_broker token) broker_step b"
  shows "length (pending b) \<le> 64 \<and> workers b \<le> 96 \<and> distinct_keys (pending b) \<and>
    (\<forall>i w. map_of (pending b) i = Some w \<longrightarrow>
       (\<exists>req. held (phases b (w_conn w)) = Some req \<and> req_id req = i \<and>
          req_token req = broker_token b \<and> broker_token b \<noteq> [] \<and> shows_request (w_view w) req))"
proof -
  have inv: "queue_ok b" "waiters_ok b" "held_ok b"
    using broker_sys.reachable_inv [OF assms] by (simp_all add: broker_inv_def)
  have "\<exists>req. held (phases b (w_conn w)) = Some req \<and> req_id req = i \<and>
      req_token req = broker_token b \<and> broker_token b \<noteq> [] \<and> shows_request (w_view w) req"
    if "map_of (pending b) i = Some w" for i w
    using that inv(2,3) unfolding waiters_ok_def held_ok_def authentic_def by metis
  with inv(1) show ?thesis by (simp add: queue_ok_def max_pending_def max_connection_workers_def)
qed


definition demo_request :: approval_request where
  "demo_request =
     \<lparr>req_token = ''t'', req_id = ''i'', client = None, client_name = None, client_label = None, req_server = ''s'',
      req_tool = ''x'', reason = Destructive, arguments = JNull, tool_fingerprint = None, url_elicitation = None,
      pii_release = None\<rparr>"

definition demo_serve :: "nat \<Rightarrow> broker \<Rightarrow> broker" where
  "demo_serve c b =
     handle_request (\<lambda>_ _. ''n'') (\<lambda>_. False) 0 c demo_request (b\<lparr>workers := workers b + 1\<rparr>)"

lemma demo_serve_step:
  assumes "phases b c = NoConn" and "workers b < 96"
  shows "broker_step b (demo_serve c b)"
proof -
  have "read_approval_request (''r'' @ [CHR 0x0A]) = Inr (''r'' @ [CHR 0x0A])" by code_simp
  moreover have "answer_challenge demo_approval (''r'' @ [CHR 0x0A]) (broker_token b) = None" by code_simp
  ultimately have "fst (receive_request demo_approval (\<lambda>_. Some demo_request) (broker_token b) True (''r'' @ [CHR 0x0A]) []) = Some demo_request"
    by (simp add: receive_request_def)
  then show ?thesis
    unfolding demo_serve_def using assms
    by (intro step_serve) (simp_all add: try_acquire_connection_def max_connection_workers_def max_pending_def)
qed

definition demo_parked :: broker where
  "demo_parked = demo_serve 0 (new_broker ''t'')"

lemma demo_parked_reachable: "reachable (\<lambda>b. \<exists>token. b = new_broker token) broker_step demo_parked"
  unfolding demo_parked_def
  by (rule reach_step, rule reach_init, blast, rule demo_serve_step) (simp_all add: new_broker_def)

theorem broker_queue_sound_witness: "length (pending demo_parked) \<le> 64 \<and> keys_of (pending demo_parked) = [''i'']"
proof -
  have "keys_of (pending demo_parked) = [''i'']" by code_simp
  with broker_queue_sound [OF demo_parked_reachable] show ?thesis by simp
qed

definition demo_approved :: broker where
  "demo_approved = resolve 0 demo_request Approved (receive 0 demo_request (fst (decide ''i'' True demo_parked)))"


text \<open>A request line is bounded before its sender is authenticated: what is read and parsed is at
  most 1 MiB and ends with a line feed; a longer or unterminated line is an error.\<close>

theorem request_line_bounded:
  "case read_approval_request bytes of
     Inl _ \<Rightarrow> True
   | Inr line \<Rightarrow> length line \<le> 1048576 \<and> ends_with [CHR 0x0A] line \<and> (\<exists>rest. bytes = line @ rest)"
proof -
  have "read_line n bytes = take (length (read_line n bytes)) bytes" for n
    by (simp add: read_line_def Let_def min_def)
  then have "\<exists>rest. bytes = read_line n bytes @ rest" for n
    by (metis append_take_drop_id)
  then show ?thesis
    by (auto simp: read_approval_request_def Let_def max_approval_request_bytes_def)
qed

text \<open>The check for a duplicate id does not protect a call whose id comes back too early: when a
  person has decided the first call and a second connection parks the same id before the first
  thread cleans up, that cleanup removes the second waiter, so the second call is pending for
  its gateway but can no longer be seen or decided.\<close>

theorem cleanup_removes_successor:
  "\<exists>b b' c req. reachable (\<lambda>b. \<exists>token. b = new_broker token) broker_step b \<and>
     (\<exists>c0. c0 \<noteq> c \<and> phases b c0 = Deciding req Approved \<and> b' = resolve c0 req Approved b) \<and>
     phases b c = Parked req \<and> keys_of (pending b) = [req_id req] \<and>
     phases b' c = Parked req \<and> pending b' = [] \<and> chans b' c = []"
proof -
  define b1 where "b1 = fst (decide ''i'' True demo_parked)"
  define b2 where "b2 = demo_serve 1 b1"
  define b3 where "b3 = receive 0 demo_request b2"
  have p: "phases b1 1 = NoConn" "workers b1 = 1" "phases b2 0 = Parked demo_request"
    "phases b3 0 = Deciding demo_request Approved" "phases b3 1 = Parked demo_request"
    "keys_of (pending b3) = [req_id demo_request]" "pending (resolve 0 demo_request Approved b3) = []"
    "phases (resolve 0 demo_request Approved b3) 1 = Parked demo_request"
    "chans (resolve 0 demo_request Approved b3) 1 = []"
    unfolding b3_def b2_def b1_def by code_simp+
  have "reachable (\<lambda>b. \<exists>token. b = new_broker token) broker_step b1"
    unfolding b1_def by (rule reach_step, rule demo_parked_reachable, rule step_decide)
  moreover have "broker_step b1 b2" unfolding b2_def by (rule demo_serve_step, rule p(1)) (simp add: p(2))
  moreover have "broker_step b2 b3" unfolding b3_def by (rule step_receive, rule p(3))
  ultimately have "reachable (\<lambda>b. \<exists>token. b = new_broker token) broker_step b3" by (metis reach_step)
  with p show ?thesis by (metis zero_neq_one)
qed

end
