(* ===== verification/CancelRegistry.thy ===== *)
theory CancelRegistry
  imports Prelude
begin

text \<open>
  Cancellation of requests in flight (\<open>CancelRegistry\<close>, \<open>CancelContext\<close> and \<open>CancelGuard\<close> in
  \<open>downstream.rs\<close>): which requests of a client are active, which were cancelled and why, and the
  hooks that forward a cancellation to what a request owns downstream. A hook is named by its key;
  every operation that runs hooks returns the keys it runs with their reason. The client calls the
  hooks of one operation after it left the lock, in the unspecified order of a hash map; here they
  are in the order of the list.
\<close>

section \<open>Operations\<close>

record cancel_state =
  cs_active :: "string set"
  cs_cancelled :: "(string \<times> string option) list"
  cs_hooks :: "(string \<times> nat list) list"
  cs_next_hook :: nat
  cs_closed :: bool
  cs_finished :: bool

type_synonym fired = "(nat \<times> string option) list"

definition new_registry :: cancel_state where
  "new_registry = \<lparr>cs_active = {}, cs_cancelled = [], cs_hooks = [], cs_next_hook = 0, cs_closed = False,
     cs_finished = False\<rparr>"

definition begin_client_request :: "string \<Rightarrow> cancel_state \<Rightarrow> bool \<times> cancel_state" where
  "begin_client_request i st =
     (if cs_closed st \<or> i \<in> cs_active st then (False, st)
      else (True, st\<lparr>cs_cancelled := AList.delete i (cs_cancelled st), cs_active := insert i (cs_active st)\<rparr>))"

definition finish_client_request :: "string \<Rightarrow> cancel_state \<Rightarrow> cancel_state" where
  "finish_client_request i st =
     (let st = st\<lparr>cs_active := cs_active st - {i}\<rparr>
      in if map_of (cs_hooks st) i = None then st\<lparr>cs_cancelled := AList.delete i (cs_cancelled st)\<rparr> else st)"

definition normalize_cancel_reason :: "string option \<Rightarrow> string option" where
  "normalize_cancel_reason reason = (case reason of Some s \<Rightarrow> if trim s = [] then None else Some s | None \<Rightarrow> None)"

definition cancel :: "string \<Rightarrow> string option \<Rightarrow> cancel_state \<Rightarrow> (bool \<times> fired) \<times> cancel_state" where
  "cancel i reason st =
     (if i \<notin> cs_active st \<and> map_of (cs_hooks st) i = None then ((False, []), st)
      else if map_of (cs_cancelled st) i \<noteq> None then ((True, []), st)
      else let reason = normalize_cancel_reason reason
           in ((True, map (\<lambda>k. (k, reason)) (get_or [] (cs_hooks st) i)),
               st\<lparr>cs_cancelled := AList.update i reason (cs_cancelled st)\<rparr>))"

definition finish_connection :: "cancel_state \<Rightarrow> cancel_state" where
  "finish_connection st = st\<lparr>cs_finished := True\<rparr>"

definition disconnected :: "string option" where
  "disconnected = Some ''upstream caller disconnected''"

text \<open>The loop of \<open>close\<close> over the ids, in any order.\<close>

fun close_ids :: "string list \<Rightarrow> cancel_state \<Rightarrow> fired \<times> cancel_state" where
  "close_ids [] st = ([], st)"
| "close_ids (i # is) st =
     (if map_of (cs_cancelled st) i \<noteq> None then close_ids is st
      else let (fs, st') = close_ids is (st\<lparr>cs_cancelled := AList.update i disconnected (cs_cancelled st)\<rparr>)
           in (map (\<lambda>k. (k, disconnected)) (get_or [] (cs_hooks st) i) @ fs, st'))"

definition close :: "string list \<Rightarrow> cancel_state \<Rightarrow> fired \<times> cancel_state" where
  "close ids st = (if cs_closed st \<or> cs_finished st then ([], st) else close_ids ids (st\<lparr>cs_closed := True\<rparr>))"

definition is_cancelled_id :: "string \<Rightarrow> cancel_state \<Rightarrow> bool" where
  "is_cancelled_id i st \<longleftrightarrow> cs_closed st \<or> map_of (cs_cancelled st) i \<noteq> None"

definition on_cancel :: "string \<Rightarrow> cancel_state \<Rightarrow> (nat \<times> fired) \<times> cancel_state" where
  "on_cancel i st =
     (let key = cs_next_hook st + 1;
          fs = (if is_cancelled_id i st
                then [(key, case map_of (cs_cancelled st) i of Some r \<Rightarrow> r | None \<Rightarrow> None)] else [])
      in ((key, fs), st\<lparr>cs_next_hook := key, cs_hooks := AList.update i (get_or [] (cs_hooks st) i @ [key]) (cs_hooks st)\<rparr>))"

text \<open>Dropping the guard of a hook.\<close>

definition drop_guard :: "string \<Rightarrow> nat \<Rightarrow> cancel_state \<Rightarrow> cancel_state" where
  "drop_guard i key st =
     (let st = (case map_of (cs_hooks st) i of
                  None \<Rightarrow> st
                | Some ks \<Rightarrow>
                    let ks' = filter (\<lambda>k. k \<noteq> key) ks
                    in st\<lparr>cs_hooks := (if ks' = [] then AList.delete i (cs_hooks st) else AList.update i ks' (cs_hooks st))\<rparr>)
      in if i \<notin> cs_active st \<and> map_of (cs_hooks st) i = None
         then st\<lparr>cs_cancelled := AList.delete i (cs_cancelled st)\<rparr> else st)"

section \<open>Every hook hears of its cancellation\<close>

text \<open>The system: the registry, and the keys of the hooks that were run so far.\<close>

type_synonym cancel_system = "cancel_state \<times> nat set"

abbreviation run_keys :: "fired \<Rightarrow> nat set" where
  "run_keys fs \<equiv> fst ` set fs"

definition owned_ids :: "cancel_state \<Rightarrow> string set" where
  "owned_ids st = cs_active st \<union> dom (map_of (cs_hooks st))"

inductive cancel_step :: "cancel_system \<Rightarrow> cancel_system \<Rightarrow> bool" where
  "cancel_step (st, f) (snd (begin_client_request i st), f)"
| "cancel_step (st, f) (finish_client_request i st, f)"
| "cancel_step (st, f) (snd (cancel i reason st), f \<union> run_keys (snd (fst (cancel i reason st))))"
| "cancel_step (st, f) (finish_connection st, f)"
| "set ids = owned_ids st \<Longrightarrow> cancel_step (st, f) (snd (close ids st), f \<union> run_keys (fst (close ids st)))"
| "cancel_step (st, f) (snd (on_cancel i st), f \<union> run_keys (snd (fst (on_cancel i st))))"
| "cancel_step (st, f) (drop_guard i key st, f)"

definition live_hook :: "cancel_state \<Rightarrow> string \<Rightarrow> nat \<Rightarrow> bool" where
  "live_hook st i k \<longleftrightarrow> (\<exists>ks. map_of (cs_hooks st) i = Some ks \<and> k \<in> set ks)"

definition cancel_inv :: "cancel_system \<Rightarrow> bool" where
  "cancel_inv s = (case s of (st, f) \<Rightarrow>
     (\<forall>i k. live_hook st i k \<longrightarrow> k \<le> cs_next_hook st) \<and>
     dom (map_of (cs_cancelled st)) \<subseteq> owned_ids st \<and>
     (\<forall>i k. live_hook st i k \<and> is_cancelled_id i st \<longrightarrow> k \<in> f))"

lemma live_hook_get: "live_hook st i k \<longleftrightarrow> k \<in> set (get_or [] (cs_hooks st) i)"
  by (cases "map_of (cs_hooks st) i") (auto simp: live_hook_def get_or_def)

lemma close_ids_frame:
  "close_ids is st = (fs, st') \<Longrightarrow>
     cs_hooks st' = cs_hooks st \<and> cs_active st' = cs_active st \<and> cs_next_hook st' = cs_next_hook st \<and>
     cs_closed st' = cs_closed st \<and> dom (map_of (cs_cancelled st')) = dom (map_of (cs_cancelled st)) \<union> set is"
proof (induction "is" arbitrary: st fs)
  case (Cons i "is")
  let ?st = "st\<lparr>cs_cancelled := AList.update i disconnected (cs_cancelled st)\<rparr>"
  show ?case
  proof (cases "map_of (cs_cancelled st) i")
    case None
    obtain gs where "close_ids is ?st = (gs, st')" using Cons.prems None by (auto split: prod.splits)
    from Cons.IH [OF this] show ?thesis by (auto simp: map_of_update)
  next
    case (Some r)
    then have "close_ids is st = (fs, st')" using Cons.prems by simp
    from Cons.IH [OF this] Some show ?thesis by auto
  qed
qed simp

lemma close_ids_fires:
  "close_ids is st = (fs, st') \<Longrightarrow> i \<in> set is \<Longrightarrow> map_of (cs_cancelled st) i = None \<Longrightarrow> live_hook st i k \<Longrightarrow> k \<in> run_keys fs"
proof (induction "is" st arbitrary: fs st' rule: close_ids.induct)
  case (2 j "is" st)
  let ?st = "st\<lparr>cs_cancelled := AList.update j disconnected (cs_cancelled st)\<rparr>"
  obtain gs st2 where c: "close_ids is ?st = (gs, st2)" by fastforce
  show ?case
  proof (cases "map_of (cs_cancelled st) j")
    case None
    then have fs: "fs = map (\<lambda>k. (k, disconnected)) (get_or [] (cs_hooks st) j) @ gs"
      using 2(3) c by simp
    show ?thesis
    proof (cases "i = j")
      case True
      with fs 2(6) show ?thesis by (force simp: live_hook_get)
    next
      case False
      with 2(2) [OF _ c] None 2(4-6) have "k \<in> run_keys gs" by (simp add: map_of_update live_hook_def)
      with fs show ?thesis by auto
    qed
  next
    case (Some r)
    with 2 show ?thesis by (cases "i = j") auto
  qed
qed simp

lemma live_hook_owned: "live_hook st i k \<Longrightarrow> i \<in> owned_ids st"
  by (auto simp: live_hook_def owned_ids_def)

lemma inv_close:
  assumes "cancel_inv (st, f)" and "set ids = owned_ids st" and "close ids st = (fs, st')"
  shows "cancel_inv (st', f \<union> run_keys fs)"
proof (cases "cs_closed st \<or> cs_finished st")
  case True
  with assms(1,3) show ?thesis by (auto simp: close_def cancel_inv_def)
next
  case False
  let ?st = "st\<lparr>cs_closed := True\<rparr>"
  have c: "close_ids ids ?st = (fs, st')" using assms(3) False by (simp add: close_def)
  note frame = close_ids_frame [OF c]
  have live: "live_hook st' i k = live_hook st i k" for i k using frame by (simp add: live_hook_def)
  have own: "owned_ids st' = owned_ids st" using frame by (simp add: owned_ids_def)
  have all: "k \<in> f \<union> run_keys fs" if k: "live_hook st i k" for i k
  proof (cases "map_of (cs_cancelled st) i")
    case None
    then show ?thesis
      using close_ids_fires [OF c, of i k] k live_hook_owned [OF k] assms(2) by (simp add: live_hook_def)
  next
    case (Some r)
    then have "is_cancelled_id i st" by (simp add: is_cancelled_id_def)
    with assms(1) k show ?thesis unfolding cancel_inv_def by blast
  qed
  show ?thesis using assms(1,2) frame own by (auto simp: cancel_inv_def live dest: all)
qed

lemma inv_begin: "cancel_inv (st, f) \<Longrightarrow> cancel_inv (snd (begin_client_request i st), f)"
  by (auto simp: begin_client_request_def cancel_inv_def is_cancelled_id_def live_hook_def owned_ids_def map_of_delete
      split: if_splits)

lemma inv_finish_request: "cancel_inv (st, f) \<Longrightarrow> cancel_inv (finish_client_request i st, f)"
  by (auto simp: finish_client_request_def Let_def cancel_inv_def is_cancelled_id_def live_hook_def owned_ids_def
      map_of_delete split: if_splits)

lemma inv_finish_connection: "cancel_inv (st, f) \<Longrightarrow> cancel_inv (finish_connection st, f)"
  by (simp add: finish_connection_def cancel_inv_def is_cancelled_id_def live_hook_def owned_ids_def)

lemma inv_shrink:
  assumes "cancel_inv (st, f)" and "\<And>j k. live_hook st' j k \<Longrightarrow> live_hook st j k" and "cs_next_hook st' = cs_next_hook st"
    and "dom (map_of (cs_cancelled st')) \<subseteq> owned_ids st'" and "f \<subseteq> f'"
    and "\<And>j k. live_hook st' j k \<Longrightarrow> is_cancelled_id j st' \<Longrightarrow> is_cancelled_id j st \<or> k \<in> f'"
  shows "cancel_inv (st', f')"
  using assms unfolding cancel_inv_def prod.case by (metis subsetD)

lemma inv_cancel:
  assumes "cancel_inv (st, f)"
  shows "cancel_inv (snd (cancel i reason st), f \<union> run_keys (snd (fst (cancel i reason st))))"
proof -
  let ?st = "snd (cancel i reason st)"
  have same: "cs_hooks ?st = cs_hooks st" "cs_active ?st = cs_active st" "cs_next_hook ?st = cs_next_hook st"
    by (simp_all add: cancel_def Let_def)
  have dom: "dom (map_of (cs_cancelled ?st)) \<subseteq> owned_ids st"
    using assms by (auto simp: cancel_inv_def cancel_def Let_def map_of_update owned_ids_def split: if_splits)
  have fires: "is_cancelled_id j ?st \<Longrightarrow> live_hook st j k \<Longrightarrow>
      is_cancelled_id j st \<or> k \<in> run_keys (snd (fst (cancel i reason st)))" for j k
    by (auto simp: cancel_def Let_def is_cancelled_id_def map_of_update live_hook_get image_iff split: if_splits)
  have live: "live_hook ?st j k = live_hook st j k" for j k using same by (simp add: live_hook_def)
  show ?thesis
  proof (rule inv_shrink [OF assms])
    show "dom (map_of (cs_cancelled ?st)) \<subseteq> owned_ids ?st" using same dom by (simp add: owned_ids_def)
    show "is_cancelled_id j st \<or> k \<in> f \<union> run_keys (snd (fst (cancel i reason st)))"
      if "live_hook ?st j k" "is_cancelled_id j ?st" for j k
      using fires [of j k] that live by blast
  qed (use same live in auto)
qed

lemma inv_on_cancel:
  assumes "cancel_inv (st, f)"
  shows "cancel_inv (snd (on_cancel i st), f \<union> run_keys (snd (fst (on_cancel i st))))"
proof -
  let ?st = "snd (on_cancel i st)" and ?new = "cs_next_hook st + 1"
  have live: "live_hook ?st j k \<longleftrightarrow> live_hook st j k \<or> j = i \<and> k = ?new" for j k
    by (cases "map_of (cs_hooks st) i") (auto simp: on_cancel_def Let_def live_hook_def map_of_update get_or_def)
  have rest: "cs_next_hook ?st = ?new" "owned_ids ?st = insert i (owned_ids st)" "cs_cancelled ?st = cs_cancelled st"
      "is_cancelled_id j ?st = is_cancelled_id j st" for j
    by (auto simp: on_cancel_def Let_def owned_ids_def is_cancelled_id_def map_of_update)
  have new: "is_cancelled_id i st \<Longrightarrow> ?new \<in> run_keys (snd (fst (on_cancel i st)))"
    by (simp add: on_cancel_def Let_def)
  show ?thesis
    using assms new unfolding cancel_inv_def live prod.case rest by (auto intro: le_SucI)
qed

lemma inv_drop:
  assumes "cancel_inv (st, f)"
  shows "cancel_inv (drop_guard i key st, f)"
proof (rule inv_shrink [OF assms])
  show "live_hook (drop_guard i key st) j k \<Longrightarrow> live_hook st j k" for j k
    by (auto simp: drop_guard_def Let_def live_hook_def map_of_update map_of_delete split: if_splits option.splits)
  show "cs_next_hook (drop_guard i key st) = cs_next_hook st"
    by (simp add: drop_guard_def Let_def split: option.split)
  show "dom (map_of (cs_cancelled (drop_guard i key st))) \<subseteq> owned_ids (drop_guard i key st)"
    using assms by (auto simp: cancel_inv_def drop_guard_def Let_def owned_ids_def map_of_update map_of_delete
        split: if_splits option.splits)
  show "is_cancelled_id j (drop_guard i key st) \<Longrightarrow> is_cancelled_id j st \<or> k \<in> f" for j k
    by (auto simp: drop_guard_def Let_def is_cancelled_id_def map_of_delete split: if_splits option.splits)
qed simp

interpretation cancel_sys: invariant_system "\<lambda>s. s = (new_registry, {})" cancel_step cancel_inv
proof
  show "cancel_inv s" if "s = (new_registry, {})" for s
    using that by (simp add: cancel_inv_def new_registry_def live_hook_def get_or_def)
  show "cancel_inv t" if "cancel_inv s" and "cancel_step s t" for s t
    using that(2,1)
    by cases (auto intro: inv_begin inv_finish_request inv_cancel inv_finish_connection inv_on_cancel inv_drop inv_close [OF _ _ prod.collapse [symmetric]])
qed

text \<open>C31: No cancellation is lost. In every state the registry reaches, whatever the order in which requests
  begin and finish, hooks are attached and dropped, requests are cancelled and the connection closes:
  each hook that is still attached to a cancelled request, or to any request of a closed connection,
  has been run; and no record of a cancellation outlives both its request and its hooks. Once closed,
  the registry stays closed, admits no request and reports every request as cancelled.\<close>

theorem cancellation_not_lost:
  assumes "reachable (\<lambda>s. s = (new_registry, {})) cancel_step (st, f)"
  shows "(\<forall>i k. live_hook st i k \<and> is_cancelled_id i st \<longrightarrow> k \<in> f) \<and>
    (\<forall>i. map_of (cs_cancelled st) i \<noteq> None \<longrightarrow> i \<in> cs_active st \<or> map_of (cs_hooks st) i \<noteq> None) \<and>
    (cs_closed st \<longrightarrow> is_cancelled_id i st \<and> begin_client_request i st = (False, st)) \<and>
    (cs_closed st \<and> cancel_step (st, f) (st', f') \<longrightarrow> cs_closed st')"
proof (intro conjI impI)
  have inv: "cancel_inv (st, f)" using assms by (rule cancel_sys.reachable_inv)
  then show "\<forall>i k. live_hook st i k \<and> is_cancelled_id i st \<longrightarrow> k \<in> f" by (simp add: cancel_inv_def)
  have "dom (map_of (cs_cancelled st)) \<subseteq> owned_ids st" using inv by (simp add: cancel_inv_def)
  then show "\<forall>i. map_of (cs_cancelled st) i \<noteq> None \<longrightarrow> i \<in> cs_active st \<or> map_of (cs_hooks st) i \<noteq> None"
    by (auto simp: owned_ids_def)
  show "is_cancelled_id i st" "begin_client_request i st = (False, st)" if "cs_closed st"
    using that by (simp_all add: is_cancelled_id_def begin_client_request_def)
  assume "cs_closed st \<and> cancel_step (st, f) (st', f')"
  then have "cancel_step (st, f) (st', f')" "cs_closed st" by auto
  then show "cs_closed st'"
    by cases (auto simp: begin_client_request_def finish_client_request_def cancel_def finish_connection_def close_def
        on_cancel_def drop_guard_def Let_def split: option.splits)
qed

text \<open>A request with a hook, cancelled, then a second hook.\<close>

definition sample_cancel :: cancel_state where
  "sample_cancel = snd (on_cancel ''r1'' (snd (cancel ''r1'' (Some ''stop'')
     (snd (on_cancel ''r1'' (snd (begin_client_request ''r1'' new_registry)))))))"

lemmas reach_cancel = reach_step [where step = cancel_step]

theorem cancellation_not_lost_witness:
  "live_hook sample_cancel ''r1'' 2 \<and> is_cancelled_id ''r1'' sample_cancel \<and>
   (\<exists>f. reachable (\<lambda>s. s = (new_registry, {})) cancel_step (sample_cancel, f) \<and> {1, 2} \<subseteq> f)"
proof -
  have "reachable (\<lambda>s. s = (new_registry, {})) cancel_step (new_registry, {})" by (rule reach_init) simp
  from reach_cancel [OF reach_cancel [OF reach_cancel [OF reach_cancel [OF this cancel_step.intros(1)]
        cancel_step.intros(6)] cancel_step.intros(3)] cancel_step.intros(6)]
  obtain f where reach: "reachable (\<lambda>s. s = (new_registry, {})) cancel_step (sample_cancel, f)"
    unfolding sample_cancel_def by blast
  have facts: "live_hook sample_cancel ''r1'' 1" "live_hook sample_cancel ''r1'' 2" "is_cancelled_id ''r1'' sample_cancel"
    unfolding live_hook_get by code_simp+
  with cancellation_not_lost [OF reach] reach show ?thesis by blast
qed

end
