(* ===== verification/ToolNames.thy ===== *)
theory ToolNames
  imports Json "HOL-Library.Option_ord" "HOL-Library.Product_Lexorder"
begin

text \<open>
  The names under which the router exposes tools (\<open>router.rs\<close>): sanitising, the spelling rule of
  a client, aliases cut to the limit of a client with a digest suffix, the allocation of unique
  names, and the edit distance behind the hint for a mistyped name.

  \<open>content_digest\<close> (SHA-256 over serialised JSON) is a parameter \<open>digest\<close>. A slice that Rust
  would reject (out of range or inside a character) and an underflow are the value \<open>None\<close>.
\<close>

section \<open>Sanitising and spelling\<close>

definition name_char :: "char \<Rightarrow> bool" where
  "name_char c \<longleftrightarrow> is_ascii_alnum c \<or> c = CHR ''_''"

definition sanitize_char :: "string \<Rightarrow> char" where
  "sanitize_char c = (case c of [b] \<Rightarrow> if name_char b then b else CHR ''_'' | _ \<Rightarrow> CHR ''_'')"

definition sanitize_segment :: "string \<Rightarrow> string" where
  "sanitize_segment s = map sanitize_char (utf8_chars s)"

record alias_rule =
  limit :: nat
  dashed :: bool

definition default_alias_rule :: alias_rule where
  "default_alias_rule = \<lparr>limit = 64, dashed = False\<rparr>"

definition alias_rule_of_limit :: "nat \<Rightarrow> alias_rule" where
  "alias_rule_of_limit n = default_alias_rule\<lparr>limit := n\<rparr>"

text \<open>\<open>str::replace("__", "-")\<close>: leftmost matches that do not overlap.\<close>

fun replace_dd :: "string \<Rightarrow> string" where
  "replace_dd (a # b # r) =
     (if a = CHR ''_'' \<and> b = CHR ''_'' then CHR ''-'' # replace_dd r else a # replace_dd (b # r))"
| "replace_dd s = s"

definition spell :: "alias_rule \<Rightarrow> string \<Rightarrow> string" where
  "spell rule name =
     (if \<not> dashed rule then name
      else let d = replace_dd name
           in case strip_prefix ''_'' d of Some rest \<Rightarrow> ''-'' @ rest | None \<Rightarrow> d)"

definition separator :: "alias_rule \<Rightarrow> string" where
  "separator rule = (if dashed rule then ''-'' else ''__'')"

section \<open>Bounded aliases\<close>

definition hex_digit :: "nat \<Rightarrow> char" where
  "hex_digit n = (if n < 10 then char_of (48 + n) else char_of (87 + n))"

definition hex_byte :: "nat \<Rightarrow> string" where
  "hex_byte b = [hex_digit (b div 16), hex_digit (b mod 16)]"

text \<open>\<open>&s[..n]\<close>.\<close>

definition slice_to :: "nat \<Rightarrow> string \<Rightarrow> string option" where
  "slice_to n s =
     (if n = length s \<or> n < length s \<and> \<not> is_cont (s ! n) then Some (take n s) else None)"

definition trim_end_underscores :: "string \<Rightarrow> string" where
  "trim_end_underscores s = rev (dropWhile (\<lambda>c. c = CHR ''_'') (rev s))"

definition alias_suffix :: "nat list \<Rightarrow> string option" where
  "alias_suffix hash = (if length hash < 6 then None else Some (concat (map hex_byte (take 6 hash))))"

definition alias_prefix :: "alias_rule \<Rightarrow> nat \<Rightarrow> string \<Rightarrow> (string \<times> string) option \<Rightarrow> string option" where
  "alias_prefix rule prefix_budget name parts =
     (case parts of
        Some (server, tool) \<Rightarrow>
          if prefix_budget < 2 then None
          else Option.bind (slice_to (min (min (length server) 24) (prefix_budget - 2)) server) (\<lambda>srv.
            if prefix_budget < length srv + length (separator rule) then None
            else Option.bind
              (slice_to (min (length tool) (prefix_budget - length srv - length (separator rule))) tool)
              (\<lambda>t. Some (srv @ separator rule @ t)))
      | None \<Rightarrow> slice_to prefix_budget name)"

definition bounded_alias ::
  "(json \<Rightarrow> nat list) \<Rightarrow> string \<Rightarrow> json \<Rightarrow> string option \<Rightarrow> alias_rule \<Rightarrow> string option" where
  "bounded_alias digest name identity namespace rule =
     (let name = spell rule name
      in if length name \<le> limit rule then Some name
         else Option.bind (alias_suffix (digest identity)) (\<lambda>suffix.
           let ns = map_option (\<lambda>server. spell rule (sanitize_segment server)) namespace;
               parts = Option.bind ns (\<lambda>server.
                 map_option (\<lambda>tool. (server, tool)) (strip_prefix (server @ separator rule) name))
           in if limit rule < 13 then None
              else Option.bind (alias_prefix rule (limit rule - 13) name parts) (\<lambda>prefix.
                let prefix = (if dashed rule then trim_end_underscores prefix else prefix)
                in Some (prefix @ ''_'' @ suffix))))"

section \<open>Facts about spelling\<close>

definition alias_char :: "char \<Rightarrow> bool" where
  "alias_char c \<longleftrightarrow> name_char c \<or> c = CHR ''-''"

lemma sanitize_segment_chars: "list_all name_char (sanitize_segment s)"
  by (auto simp: sanitize_segment_def sanitize_char_def list_all_iff name_char_def split: list.splits)

lemma name_char_not_cont: "alias_char c \<Longrightarrow> \<not> is_cont c"
  by (auto simp: alias_char_def name_char_def is_cont_def is_ascii_alnum_def is_ascii_upper_def
      is_ascii_lower_def is_ascii_digit_def)

lemma name_char_not_dash: "name_char c \<Longrightarrow> c \<noteq> CHR ''-''"
  by (auto simp: name_char_def is_ascii_alnum_def is_ascii_upper_def is_ascii_lower_def is_ascii_digit_def)

fun has_dd :: "string \<Rightarrow> bool" where
  "has_dd (a # b # r) = (a = CHR ''_'' \<and> b = CHR ''_'' \<or> has_dd (b # r))"
| "has_dd s = False"

lemma has_dd_append:
  "has_dd (u @ v) \<longleftrightarrow>
     has_dd u \<or> has_dd v \<or> u \<noteq> [] \<and> v \<noteq> [] \<and> last u = CHR ''_'' \<and> hd v = CHR ''_''"
proof (induction u rule: has_dd.induct)
  case "2_2"
  then show ?case by (cases v) auto
qed auto

lemma has_dd_iff: "has_dd s \<longleftrightarrow> (\<exists>u v. s = u @ ''__'' @ v)"
proof
  show "has_dd s \<Longrightarrow> \<exists>u v. s = u @ ''__'' @ v"
  proof (induction s rule: has_dd.induct)
    case (1 a b r)
    show ?case
    proof (cases "a = CHR ''_'' \<and> b = CHR ''_''")
      case True
      then have "a # b # r = [] @ ''__'' @ r" by simp
      then show ?thesis by blast
    next
      case False
      with 1 obtain u v where "b # r = u @ ''__'' @ v" by auto
      then have "a # b # r = (a # u) @ ''__'' @ v" by simp
      then show ?thesis by blast
    qed
  qed auto
qed (auto simp: has_dd_append)

lemma has_dd_dash [simp]: "has_dd (CHR ''-'' # t) \<longleftrightarrow> has_dd t"
  by (cases t) auto

lemma has_dd_take: "has_dd (take n s) \<Longrightarrow> has_dd s"
  by (metis append_take_drop_id has_dd_append)

lemma hd_replace_dd: "s \<noteq> [] \<Longrightarrow> replace_dd s \<noteq> [] \<and> (hd (replace_dd s) = hd s \<or> hd (replace_dd s) = CHR ''-'')"
  by (induction s rule: replace_dd.induct) auto

lemma replace_dd_no_dd: "\<not> has_dd (replace_dd s)"
proof (induction s rule: replace_dd.induct)
  case (1 a b r)
  show ?case
  proof (cases "a = CHR ''_'' \<and> b = CHR ''_''")
    case True
    with True 1 show ?thesis by simp
  next
    case False
    with 1 have ih: "\<not> has_dd (replace_dd (b # r))" by auto
    have "has_dd (a # t) \<longleftrightarrow> has_dd t \<or> t \<noteq> [] \<and> a = CHR ''_'' \<and> hd t = CHR ''_''" for t
      by (cases t) auto
    with False ih hd_replace_dd [of "b # r"] show ?thesis by auto
  qed
qed auto

lemma replace_dd_chars: "list_all name_char s \<Longrightarrow> list_all alias_char (replace_dd s)"
  by (induction s rule: replace_dd.induct) (auto simp: alias_char_def)

lemma length_replace_dd: "length (replace_dd s) \<le> length s"
  by (induction s rule: replace_dd.induct) auto

lemma spell_chars: "list_all name_char s \<Longrightarrow> list_all alias_char (spell rule s)"
proof -
  assume "list_all name_char s"
  then have "list_all alias_char (replace_dd s)" and "list_all alias_char s"
    by (simp add: replace_dd_chars) (use \<open>list_all name_char s\<close> in \<open>auto simp: list_all_iff alias_char_def\<close>)
  then show ?thesis
    by (auto simp: spell_def Let_def str_simps alias_char_def split: option.splits)
qed

lemma spell_dashed_ok:
  assumes "dashed rule"
  shows "\<not> has_dd (spell rule s)" and "\<not> starts_with ''_'' (spell rule s)"
proof -
  have "\<not> has_dd t" if "replace_dd s = ''_'' @ t" for t
    using replace_dd_no_dd [of s] that has_dd_append [of "''_''" t] by auto
  with assms replace_dd_no_dd [of s] show "\<not> has_dd (spell rule s)"
    by (auto simp: spell_def Let_def str_simps split: option.splits)
  show "\<not> starts_with ''_'' (spell rule s)"
    using assms by (auto simp: spell_def Let_def starts_with_def split: option.splits)
qed

text \<open>Without a leading underscore the dashed spelling can be read back.\<close>

lemma replace_dd_inj:
  "CHR ''-'' \<notin> set s \<Longrightarrow> CHR ''-'' \<notin> set t \<Longrightarrow> replace_dd s = replace_dd t \<Longrightarrow> s = t"
proof (induction s arbitrary: t rule: replace_dd.induct)
  case (1 a b r)
  show ?case
  proof (cases t rule: replace_dd.cases)
    case (1 c d q)
    with "1.prems" "1.IH" [of q] "1.IH"(2) [of "d # q"] show ?thesis by (auto split: if_splits)
  qed (use "1.prems" hd_replace_dd [of "b # r"] in \<open>auto split: if_splits\<close>)
next
  case "2_1"
  then show ?case by (cases t rule: replace_dd.cases) (auto split: if_splits)
next
  case "2_2"
  then show ?case
    using hd_replace_dd by (cases t rule: replace_dd.cases) (auto split: if_splits dest: sym)
qed

section \<open>Facts about bounded aliases\<close>

definition digest_ok :: "(json \<Rightarrow> nat list) \<Rightarrow> bool" where
  "digest_ok digest \<longleftrightarrow> (\<forall>v. length (digest v) = 32 \<and> (\<forall>b \<in> set (digest v). b < 256))"

lemma hex_digit_char: "n < 16 \<Longrightarrow> name_char (hex_digit n) \<and> hex_digit n \<noteq> CHR ''_''"
proof -
  assume "n < 16"
  moreover have "\<forall>k \<in> set [0 ..< 16]. name_char (hex_digit k) \<and> hex_digit k \<noteq> CHR ''_''"
    by code_simp
  ultimately show ?thesis by simp
qed

lemma no_dd_alnum: "\<forall>c \<in> set s. c \<noteq> CHR ''_'' \<Longrightarrow> \<not> has_dd s"
  by (induction s rule: has_dd.induct) auto

lemma alias_suffix_ok:
  assumes "length hash = 32" and "\<forall>b \<in> set hash. b < 256"
  obtains suffix where "alias_suffix hash = Some suffix" and "length suffix = 12"
    and "list_all name_char suffix" and "\<forall>c \<in> set suffix. c \<noteq> CHR ''_''"
proof -
  have six: "\<forall>b \<in> set (take 6 hash). b < 256" and len: "length (take 6 hash) = 6"
    using assms by (auto dest: in_set_takeD)
  have "length (concat (map hex_byte bs)) = 2 * length bs" for bs
    by (induction bs) (auto simp: hex_byte_def)
  moreover have "\<forall>c \<in> set (concat (map hex_byte (take 6 hash))). name_char c \<and> c \<noteq> CHR ''_''"
    using six by (auto simp: hex_byte_def hex_digit_char)
  ultimately show ?thesis
    using that assms(1) len by (simp add: alias_suffix_def list_all_iff)
qed

lemma slice_to_alias: "list_all alias_char s \<Longrightarrow> n \<le> length s \<Longrightarrow> slice_to n s = Some (take n s)"
  by (auto simp: slice_to_def list_all_iff name_char_not_cont)

lemma trim_end_underscores_ok:
  obtains n where "trim_end_underscores s = take n s"
    and "trim_end_underscores s = [] \<or> last (trim_end_underscores s) \<noteq> CHR ''_''"
    and "s \<noteq> [] \<Longrightarrow> hd s \<noteq> CHR ''_'' \<Longrightarrow> trim_end_underscores s \<noteq> []"
proof -
  let ?P = "\<lambda>c. c = CHR ''_''"
  have "rev s = takeWhile ?P (rev s) @ dropWhile ?P (rev s)" by simp
  then have s: "s = trim_end_underscores s @ rev (takeWhile ?P (rev s))"
    by (metis rev_append rev_rev_ident trim_end_underscores_def)
  have "trim_end_underscores s = take (length (trim_end_underscores s)) s"
    by (metis append_eq_conv_conj s)
  moreover have "trim_end_underscores s = [] \<or> last (trim_end_underscores s) \<noteq> CHR ''_''"
    using hd_dropWhile [of ?P "rev s"]
    by (auto simp: trim_end_underscores_def last_rev simp del: dropWhile_eq_Nil_conv)
  moreover have "trim_end_underscores s \<noteq> []" if "s \<noteq> []" "hd s \<noteq> CHR ''_''"
    using that by (auto simp: trim_end_underscores_def intro: hd_in_set)
  ultimately show ?thesis using that by blast
qed

lemma alias_prefix_ok:
  assumes budget: "3 \<le> b" and chars: "list_all alias_char name" and long: "b < length name"
    and parts: "\<And>srv t. parts = Some (srv, t) \<Longrightarrow> name = srv @ separator rule @ t"
    and dd: "dashed rule \<Longrightarrow> \<not> has_dd name" and lead: "dashed rule \<Longrightarrow> hd name \<noteq> CHR ''_''"
  obtains p where "alias_prefix rule b name parts = Some p" and "length p \<le> b" and "p \<noteq> []"
    and "list_all alias_char p" and "\<not> dashed rule \<Longrightarrow> set p \<subseteq> set name"
    and "dashed rule \<Longrightarrow> \<not> has_dd p \<and> hd p \<noteq> CHR ''_''"
proof (cases parts)
  case None
  have "hd (take b name) = hd name" using budget by (cases name) (auto simp: take_Cons')
  moreover have "list_all alias_char (take b name)"
    using chars by (auto simp: list_all_iff dest: in_set_takeD)
  moreover have "take b name \<noteq> []" using long budget by auto
  moreover have "alias_prefix rule b name parts = Some (take b name)"
    using None chars long by (simp add: alias_prefix_def slice_to_alias)
  moreover have "dashed rule \<Longrightarrow> \<not> has_dd (take b name)" using dd has_dd_take by blast
  moreover have "set (take b name) \<subseteq> set name" by (rule set_take_subset)
  ultimately show ?thesis using that [of "take b name"] lead by simp
next
  case (Some st)
  obtain srv t where st: "st = (srv, t)" by (cases st)
  define n where "n = min (min (length srv) 24) (b - 2)"
  define k where "k = min (length t) (b - length (take n srv) - length (separator rule))"
  let ?p = "take n srv @ separator rule @ take k t"
  have name: "name = srv @ separator rule @ t" using parts Some st by simp
  have sep: "length (separator rule) \<le> 2" by (simp add: separator_def)
  have cs: "list_all alias_char srv" "list_all alias_char t" "list_all alias_char (separator rule)"
    using chars by (auto simp: name)
  have fits: "length (take n srv) + length (separator rule) \<le> b"
    using sep budget by (auto simp: n_def)
  have "alias_prefix rule b name parts = Some ?p"
    using budget fits Some st cs
    by (simp add: alias_prefix_def slice_to_alias n_def [symmetric] k_def)
       (auto simp: k_def slice_to_alias n_def)
  moreover have "length ?p \<le> b" using fits by (auto simp: k_def)
  moreover have "?p \<noteq> []" by (simp add: separator_def)
  moreover have "list_all alias_char ?p"
    using cs by (auto simp: list_all_iff dest: in_set_takeD)
  moreover have "set ?p \<subseteq> set name" by (auto simp: name dest: in_set_takeD)
  moreover have "\<not> has_dd ?p \<and> hd ?p \<noteq> CHR ''_''" if d: "dashed rule"
  proof
    have "\<not> has_dd srv" "\<not> has_dd t" using dd [OF d] by (auto simp: name has_dd_append)
    then show "\<not> has_dd ?p"
      using d by (auto simp: has_dd_append separator_def dest: has_dd_take)
    have "hd ?p = hd name \<or> hd ?p = CHR ''-''"
      using d by (cases srv; cases n) (auto simp: name separator_def)
    with lead [OF d] show "hd ?p \<noteq> CHR ''_''" by auto
  qed
  ultimately show ?thesis using that by blast
qed

lemma alias_join_ok:
  assumes p: "length p \<le> b" "p \<noteq> []" "list_all alias_char p"
      "dashed rule \<Longrightarrow> \<not> has_dd p \<and> hd p \<noteq> CHR ''_''"
    and suffix: "length suffix = 12" "list_all name_char suffix" "\<forall>c \<in> set suffix. c \<noteq> CHR ''_''"
  defines "q \<equiv> (if dashed rule then trim_end_underscores p else p)"
  shows "length (q @ ''_'' @ suffix) \<le> b + 13" and "list_all alias_char (q @ ''_'' @ suffix)"
    and "set q \<subseteq> set p"
    and "dashed rule \<Longrightarrow> \<not> has_dd (q @ ''_'' @ suffix) \<and> \<not> starts_with ''_'' (q @ ''_'' @ suffix)"
proof -
  obtain n where n: "trim_end_underscores p = take n p"
      "trim_end_underscores p = [] \<or> last (trim_end_underscores p) \<noteq> CHR ''_''"
      "hd p \<noteq> CHR ''_'' \<Longrightarrow> trim_end_underscores p \<noteq> []"
    using trim_end_underscores_ok [of p] p(2) by metis
  show sub: "set q \<subseteq> set p" by (auto simp: q_def n(1) dest: in_set_takeD)
  show "length (q @ ''_'' @ suffix) \<le> b + 13"
    using p(1) suffix(1) by (auto simp: q_def n(1))
  show "list_all alias_char (q @ ''_'' @ suffix)"
    using p(3) suffix(2) sub by (auto simp: list_all_iff alias_char_def name_char_def)
  assume d: "dashed rule"
  then have q: "q = take n p" "q \<noteq> []" "last q \<noteq> CHR ''_''"
    using n p(4) by (auto simp: q_def)
  have "\<not> has_dd (''_'' @ suffix)"
    using suffix(1,3) no_dd_alnum [OF suffix(3)] by (cases suffix) auto
  moreover have "\<not> has_dd q" using p(4) [OF d] q(1) by (auto dest: has_dd_take)
  ultimately have "\<not> has_dd (q @ ''_'' @ suffix)" using q(3) by (subst has_dd_append) auto
  moreover have "hd q = hd p" using q(1,2) p(2) by (cases n; cases p) auto
  then have "\<not> starts_with ''_'' (q @ ''_'' @ suffix)"
    using p(4) [OF d] q(2) by (cases q) (auto simp: str_simps)
  ultimately show "\<not> has_dd (q @ ''_'' @ suffix) \<and> \<not> starts_with ''_'' (q @ ''_'' @ suffix)" ..
qed

lemma bounded_alias_total:
  assumes digest: "digest_ok digest" and lim: "16 \<le> limit rule" and name: "list_all name_char name"
  shows "\<exists>alias. bounded_alias digest name identity namespace rule = Some alias \<and>
           length alias \<le> limit rule \<and> list_all alias_char alias \<and>
           (length (spell rule name) \<le> limit rule \<longrightarrow> alias = spell rule name) \<and>
           (dashed rule \<longrightarrow> \<not> (\<exists>u v. alias = u @ ''__'' @ v) \<and> \<not> starts_with ''_'' alias)"
proof (cases "length (spell rule name) \<le> limit rule")
  case True
  then show ?thesis
    using spell_chars [OF name] spell_dashed_ok unfolding has_dd_iff [symmetric]
    by (simp add: bounded_alias_def)
next
  case False
  let ?n = "spell rule name"
  define parts where "parts = Option.bind (map_option (\<lambda>server. spell rule (sanitize_segment server)) namespace)
    (\<lambda>server. map_option (\<lambda>tool. (server, tool)) (strip_prefix (server @ separator rule) ?n))"
  obtain suffix where suffix: "alias_suffix (digest identity) = Some suffix" "length suffix = 12"
      "list_all name_char suffix" "\<forall>c \<in> set suffix. c \<noteq> CHR ''_''"
    using alias_suffix_ok digest unfolding digest_ok_def by metis
  have lead: "dashed rule \<Longrightarrow> hd ?n \<noteq> CHR ''_''"
    using spell_dashed_ok(2) [of rule name] False by (cases ?n) (auto simp: str_simps)
  have split: "parts = Some (srv, t) \<Longrightarrow> ?n = srv @ separator rule @ t" for srv t
    by (cases namespace) (auto simp: parts_def str_simps)
  have b: "3 \<le> limit rule - 13" "limit rule - 13 < length ?n" using lim False by auto
  obtain p where p: "alias_prefix rule (limit rule - 13) ?n parts = Some p" "length p \<le> limit rule - 13"
      "p \<noteq> []" "list_all alias_char p" "dashed rule \<Longrightarrow> \<not> has_dd p \<and> hd p \<noteq> CHR ''_''"
    using alias_prefix_ok [OF b(1) spell_chars [OF name] b(2) split spell_dashed_ok(1) lead] by metis
  show ?thesis
    unfolding has_dd_iff [symmetric]
    using alias_join_ok [of p "limit rule - 13" rule suffix, OF p(2-5) suffix(2-4)] False lim suffix(1) p(1)
    by (auto simp: bounded_alias_def Let_def parts_def [symmetric])
qed

text \<open>For every limit a client view can have (16 or more), every sanitised name and every server
  id, computing the alias does not panic. The alias fits the limit, has only letters, digits,
  underscores and dashes, keeps the spelled name when that fits, and for a client with the
  dashed spelling it neither holds a double underscore nor starts with an underscore, which that
  client would drop.\<close>

theorem bounded_alias_valid:
  assumes digest: "digest_ok digest" and lim: "16 \<le> limit rule" and name: "list_all name_char name"
  shows "\<exists>alias. bounded_alias digest name identity namespace rule = Some alias \<and>
           length alias \<le> limit rule \<and> list_all alias_char alias \<and>
           (length (spell rule name) \<le> limit rule \<longrightarrow> alias = spell rule name) \<and>
           (dashed rule \<longrightarrow> \<not> (\<exists>u v. alias = u @ ''__'' @ v) \<and> \<not> starts_with ''_'' alias)"
  using assms by (rule bounded_alias_total)

definition sample_digest :: "json \<Rightarrow> nat list" where
  "sample_digest v = replicate 32 171"

definition sample_rule :: alias_rule where
  "sample_rule = \<lparr>limit = 20, dashed = True\<rparr>"

theorem bounded_alias_valid_witness:
  "digest_ok sample_digest \<and> 16 \<le> limit sample_rule \<and>
   bounded_alias sample_digest ''git__list_all_open_issues'' JNull (Some ''git'') sample_rule
     = Some ''git-lis_abababababab'' \<and>
   \<not> (\<exists>u v. ''git-lis_abababababab'' = u @ ''__'' @ v)"
proof -
  have c: "bounded_alias sample_digest ''git__list_all_open_issues'' JNull (Some ''git'') sample_rule
     = Some ''git-lis_abababababab''" by code_simp
  have d: "digest_ok sample_digest" by (simp add: digest_ok_def sample_digest_def)
  have n: "list_all name_char ''git__list_all_open_issues''" "16 \<le> limit sample_rule" "dashed sample_rule"
    by code_simp+
  from bounded_alias_valid [OF d n(2,1), of JNull "Some ''git''"] n(3) c d n(2) show ?thesis by simp
qed

section \<open>Edit distance of names\<close>

text \<open>The inner loop of \<open>alias_distance\<close> overwrites one row of the table in place.\<close>

fun distance_row :: "char \<Rightarrow> nat \<Rightarrow> nat list \<Rightarrow> nat \<Rightarrow> string \<Rightarrow> nat list" where
  "distance_row left diagonal row j [] = row"
| "distance_row left diagonal row j (right # bs) =
     (let previous = row ! (j + 1);
          row' = row[j + 1 := min (min (diagonal + (if left \<noteq> right then 1 else 0)) (row ! j + 1)) (previous + 1)]
      in distance_row left previous row' (j + 1) bs)"

fun distance_rows :: "string \<Rightarrow> nat list \<Rightarrow> nat \<Rightarrow> string \<Rightarrow> nat list" where
  "distance_rows b row i [] = row"
| "distance_rows b row i (left # as) =
     distance_rows b (distance_row left (row ! 0) (row[0 := i + 1]) 0 b) (i + 1) as"

definition usize_max :: nat where
  "usize_max = 18446744073709551615"

definition alias_distance :: "string \<Rightarrow> string \<Rightarrow> nat" where
  "alias_distance a b =
     (if 3 < nat \<bar>int (length a) - int (length b)\<bar> \<or> 128 < length a \<or> 128 < length b then usize_max
      else distance_rows b [0 ..< length b + 1] 0 a ! length b)"

text \<open>One edit of a byte string, and the recurrence of Levenshtein.\<close>

inductive edit :: "string \<Rightarrow> string \<Rightarrow> bool" where
  edit_insert: "edit (u @ v) (u @ c # v)"
| edit_delete: "edit (u @ c # v) (u @ v)"
| edit_subst: "edit (u @ c # v) (u @ d # v)"

fun lev :: "string \<Rightarrow> string \<Rightarrow> nat" where
  "lev [] b = length b"
| "lev (x # a) [] = Suc (length a)"
| "lev (x # a) (y # b) =
     min (min (lev a b + (if x \<noteq> y then 1 else 0)) (lev (x # a) b + 1)) (lev a (y # b) + 1)"

lemma lev_Nil2 [simp]: "lev a [] = length a"
  by (cases a) auto

lemma lev_lipschitz:
  "lev (x # a) b \<le> lev a b + 1 \<and> lev a b \<le> lev (x # a) b + 1 \<and>
   lev a (y # b) \<le> lev a b + 1 \<and> lev a b \<le> lev a (y # b) + 1"
proof (induction "length a + length b" arbitrary: a b x y rule: less_induct)
  case less
  have "lev (x # a) b \<le> lev a b + 1 \<and> lev a b \<le> lev (x # a) b + 1"
  proof (cases b)
    case (Cons y' b')
    have "lev a (y' # b') \<le> lev a b' + 1" and "lev a b' \<le> lev (x # a) b' + 1"
      using less [of a b' x y'] Cons by auto
    then show ?thesis using Cons by (auto simp: min_def)
  qed simp
  moreover have "lev a (y # b) \<le> lev a b + 1 \<and> lev a b \<le> lev a (y # b) + 1"
  proof (cases a)
    case (Cons x' a')
    have "lev (x' # a') b \<le> lev a' b + 1" and "lev a' b \<le> lev a' (y # b) + 1"
      using less [of a' b x' y] Cons by auto
    then show ?thesis using Cons by (auto simp: min_def)
  qed simp
  ultimately show ?case by simp
qed

lemma lev_subst: "lev (c # v) b \<le> lev (d # v) b + 1"
  by (induction b) (auto simp: min_def)

lemma lev_context: "\<forall>b. lev p b \<le> lev q b + 1 \<Longrightarrow> lev (u @ p) b \<le> lev (u @ q) b + 1"
proof (induction u arbitrary: b)
  case (Cons z u)
  then have ih: "lev (u @ p) b \<le> lev (u @ q) b + 1" for b by blast
  show ?case
  proof (induction b)
    case Nil
    then show ?case using ih [of "[]"] by simp
  next
    case (Cons y b)
    then show ?case using ih [of b] ih [of "y # b"] by auto
  qed
qed simp

lemma lev_edit: "edit p q \<Longrightarrow> lev p b \<le> lev q b + 1"
proof (induction rule: edit.induct)
  case (edit_insert u v c)
  then show ?case using lev_context [of v "c # v" u b] lev_lipschitz by blast
next
  case (edit_delete u c v)
  then show ?case using lev_context [of "c # v" v u b] lev_lipschitz by blast
next
  case (edit_subst u c v d)
  then show ?case using lev_context [of "c # v" "d # v" u b] lev_subst by blast
qed

lemma lev_refl [simp]: "lev b b = 0"
  by (induction b) auto

lemma lev_least: "(edit ^^ n) a b \<Longrightarrow> lev a b \<le> n"
proof (induction n arbitrary: a)
  case (Suc n)
  then obtain a' where "edit a a'" and "(edit ^^ n) a' b" by (meson relpowp_Suc_E2)
  with Suc.IH [of a'] lev_edit [of a a' b] show ?case by simp
qed simp

lemma edit_Cons: "edit a b \<Longrightarrow> edit (x # a) (x # b)"
  by (induction rule: edit.induct)
     (metis append_Cons edit_insert, metis append_Cons edit_delete, metis append_Cons edit_subst)

lemma edits_Cons: "(edit ^^ n) a b \<Longrightarrow> (edit ^^ n) (x # a) (x # b)"
  by (induction n arbitrary: b) (auto intro: edit_Cons)

lemma edits_insert: "(edit ^^ n) a b \<Longrightarrow> (edit ^^ (n + 1)) a (y # b)"
  using edit_insert [of "[]" b y] by (auto intro: relpowp_Suc_I)

lemma edits_delete: "(edit ^^ n) a b \<Longrightarrow> (edit ^^ (n + 1)) (x # a) b"
  using edit_delete [of "[]" x a] by (auto simp del: relpowp.simps intro: relpowp_Suc_I2)

lemma edits_subst: "(edit ^^ n) a b \<Longrightarrow> (edit ^^ (n + 1)) (x # a) (y # b)"
  using edit_subst [of "[]" x b y] edits_Cons [of n a b x] by (auto intro: relpowp_Suc_I)

lemma lev_reached: "(edit ^^ lev a b) a b"
proof (induction a b rule: lev.induct)
  case (1 b)
  show ?case by (induction b) (auto dest: edits_insert)
next
  case (2 x a)
  have "(edit ^^ length a) a []" for a by (induction a) (auto dest: edits_delete)
  from this [of "x # a"] show ?case by simp
next
  case (3 x a y b)
  have "lev (x # a) (y # b) = lev a b + (if x \<noteq> y then 1 else 0) \<or>
      lev (x # a) (y # b) = lev (x # a) b + 1 \<or> lev (x # a) (y # b) = lev a (y # b) + 1"
    by (auto simp: min_def)
  moreover have "(edit ^^ (lev a b + (if x \<noteq> y then 1 else 0))) (x # a) (y # b)"
    using 3(1) by (auto intro: edits_Cons edits_subst [simplified])
  moreover have "(edit ^^ (lev (x # a) b + 1)) (x # a) (y # b)" using 3(2) by (rule edits_insert)
  moreover have "(edit ^^ (lev a (y # b) + 1)) (x # a) (y # b)" using 3(3) by (rule edits_delete)
  ultimately show ?case by metis
qed

lemma edit_rev: "edit a b \<Longrightarrow> edit (rev a) (rev b)"
proof (induction rule: edit.induct)
  case (edit_insert u v c)
  then show ?case using edit.edit_insert [of "rev v" "rev u" c] by simp
next
  case (edit_delete u c v)
  then show ?case using edit.edit_delete [of "rev v" c "rev u"] by simp
next
  case (edit_subst u c v d)
  then show ?case using edit.edit_subst [of "rev v" c "rev u" d] by simp
qed

lemma edits_rev: "(edit ^^ n) a b \<Longrightarrow> (edit ^^ n) (rev a) (rev b)"
  by (induction n arbitrary: b) (auto intro: edit_rev)

text \<open>The row holds the distances of the prefixes.\<close>

abbreviation prefix_dist :: "string \<Rightarrow> string \<Rightarrow> nat \<Rightarrow> nat \<Rightarrow> nat" where
  "prefix_dist a b i j \<equiv> lev (rev (take i a)) (rev (take j b))"

lemma prefix_dist_Suc:
  assumes "i < length a" and "j < length b"
  shows "prefix_dist a b (Suc i) (Suc j) =
    min (min (prefix_dist a b i j + (if a ! i \<noteq> b ! j then 1 else 0)) (prefix_dist a b (Suc i) j + 1))
        (prefix_dist a b i (Suc j) + 1)"
  using assms by (simp add: take_Suc_conv_app_nth)

lemma length_distance_row [simp]: "length (distance_row left d row j bs) = length row"
  by (induction left d row j bs rule: distance_row.induct) (simp_all add: Let_def)

lemma distance_row_step:
  assumes i: "i < length a" and j: "j < length b" and row: "length row = length b + 1"
    and old: "row ! j = prefix_dist a b (Suc i) j" and todo: "row ! Suc j = prefix_dist a b i (Suc j)"
  shows "distance_row (a ! i) (prefix_dist a b i j) row j (drop j b) =
      distance_row (a ! i) (prefix_dist a b i (Suc j)) (row[Suc j := prefix_dist a b (Suc i) (Suc j)])
        (Suc j) (drop (Suc j) b)"
proof -
  have "drop j b = b ! j # drop (Suc j) b" using j by (simp add: Cons_nth_drop_Suc)
  then show ?thesis
    using prefix_dist_Suc [OF i j] old todo by (simp add: Let_def)
qed

lemma distance_row_correct:
  assumes "i < length a" and "j \<le> length b" and "length row = length b + 1"
    and "\<forall>k \<le> j. row ! k = prefix_dist a b (Suc i) k"
    and "\<forall>k. j < k \<and> k \<le> length b \<longrightarrow> row ! k = prefix_dist a b i k"
  shows "\<forall>k \<le> length b. distance_row (a ! i) (prefix_dist a b i j) row j (drop j b) ! k = prefix_dist a b (Suc i) k"
  using assms(2-)
proof (induction "length b - j" arbitrary: j row)
  case 0
  then show ?case by simp
next
  case (Suc m)
  let ?row = "row[Suc j := prefix_dist a b (Suc i) (Suc j)]"
  have j: "j < length b" using Suc(2) by simp
  have "\<forall>k \<le> Suc j. ?row ! k = prefix_dist a b (Suc i) k"
    using Suc(4,5) j by (auto simp: nth_list_update le_Suc_eq)
  moreover have "\<forall>k. Suc j < k \<and> k \<le> length b \<longrightarrow> ?row ! k = prefix_dist a b i k"
    using Suc(6) by simp
  ultimately show ?case
    using Suc(1) [of "Suc j" ?row] Suc(2,4-6) j distance_row_step [OF assms(1) j Suc(4)] by simp
qed

lemma distance_rows_correct:
  assumes "i \<le> length a" and "length row = length b + 1" and "\<forall>k \<le> length b. row ! k = prefix_dist a b i k"
  shows "distance_rows b row i (drop i a) ! length b = lev (rev a) (rev b)"
  using assms
proof (induction "length a - i" arbitrary: i row)
  case 0
  then show ?case by simp
next
  case (Suc m)
  then have i: "i < length a" by simp
  let ?row = "row[0 := i + 1]"
  have "\<forall>k \<le> 0. ?row ! k = prefix_dist a b (Suc i) k" using Suc(4) i by simp
  moreover have "\<forall>k. 0 < k \<and> k \<le> length b \<longrightarrow> ?row ! k = prefix_dist a b i k" using Suc(5) by simp
  ultimately have "\<forall>k \<le> length b. distance_row (a ! i) (prefix_dist a b i 0) ?row 0 (drop 0 b) ! k = prefix_dist a b (Suc i) k"
    using Suc(4) by (intro distance_row_correct [OF i]) auto
  moreover have "drop i a = a ! i # drop (Suc i) a" using i by (simp add: Cons_nth_drop_Suc)
  moreover have "row ! 0 = prefix_dist a b i 0" using Suc(5) by simp
  ultimately show ?case
    using Suc(1) [of "Suc i" "distance_row (a ! i) (row ! 0) ?row 0 b"] Suc(2,4) i by simp
qed

text \<open>For names of at most 128 bytes whose lengths differ by at most 3, the distance the router
  computes with one row of the table is the edit distance: that many insertions, deletions and
  substitutions of a byte turn one name into the other, and fewer do not. Other pairs get the
  largest \<open>usize\<close>, so they are never offered as a hint.\<close>

theorem alias_distance_correct:
  "(if length a \<le> 128 \<and> length b \<le> 128 \<and> length a \<le> length b + 3 \<and> length b \<le> length a + 3
    then (edit ^^ alias_distance a b) a b \<and> alias_distance a b = (LEAST n. (edit ^^ n) a b)
    else alias_distance a b = usize_max)"
proof -
  have "distance_rows b [0 ..< length b + 1] 0 (drop 0 a) ! length b = lev (rev a) (rev b)"
    by (rule distance_rows_correct) (auto simp: min_def nth_append)
  moreover have "(edit ^^ lev (rev a) (rev b)) a b"
    using edits_rev [OF lev_reached [of "rev a" "rev b"]] by simp
  moreover have "(LEAST n. (edit ^^ n) a b) = lev (rev a) (rev b)"
    using calculation(2) lev_least [OF edits_rev] by (intro Least_equality) auto
  ultimately show ?thesis by (auto simp: alias_distance_def)
qed

end
