(* ===== verification/NameAllocation.thy ===== *)
theory NameAllocation
  imports ToolNames "HOL-Library.Multiset"
begin

text \<open>
  How the router hands out exposed names for the tools or prompts of one server
  (\<open>router.rs\<close>): first the canonical names with \<open>_2\<close>, \<open>_3\<close> suffixes, then the aliases of the
  client view, short names first. The result is proved unique and independent of the order in
  which the server lists its tools.

  The search for a free alias depends on a digest and may in principle not end; it is a partial
  function, so not returning is \<open>None\<close>. The attempt counter is a number without overflow: it
  would take \<open>2 ^ 64\<close> collisions to wrap.
\<close>

section \<open>The two sets of names\<close>

record names_state =
  seen :: "string list"
  legacy_seen :: "string list"
  legacy_names :: "(string \<times> string) list"

lemma suffix_inj: "inj (\<lambda>n. base @ show_nat n)"
  by (auto simp: inj_def show_nat_inj)

function fresh_legacy :: "string \<Rightarrow> string list \<Rightarrow> nat \<Rightarrow> string" where
  "fresh_legacy base taken i =
     (if base @ ''_'' @ show_nat i \<in> set taken then fresh_legacy base taken (Suc i)
      else base @ ''_'' @ show_nat i)"
  by pat_completeness auto
termination
proof (relation "measure (\<lambda>(base, taken, i). card {k. i \<le> k \<and> base @ ''_'' @ show_nat k \<in> set taken})", goal_cases)
  case (2 base taken i)
  then show ?case
    using fresh_measure [of "set taken" "\<lambda>n. (base @ ''_'') @ show_nat n" i] suffix_inj [of "base @ ''_''"]
    by simp
qed simp

declare fresh_legacy.simps [simp del]

definition legacy_exposed_name :: "string \<Rightarrow> string \<Rightarrow> names_state \<Rightarrow> string \<times> names_state" where
  "legacy_exposed_name server_id tool st =
     (let base = sanitize_segment server_id @ ''__'' @ sanitize_segment tool;
          legacy = (if base \<in> set (legacy_seen st) then fresh_legacy base (legacy_seen st) 2 else base)
      in (legacy, st\<lparr>legacy_seen := legacy # legacy_seen st\<rparr>))"

partial_function (option) fresh_alias ::
  "(json \<Rightarrow> nat list) \<Rightarrow> alias_rule \<Rightarrow> string \<Rightarrow> string \<Rightarrow> string \<Rightarrow> string list \<Rightarrow> nat \<Rightarrow> string \<Rightarrow> string option" where
  "fresh_alias digest rule server_id tool legacy taken attempt name =
     (if name \<in> set taken
      then Option.bind
        (bounded_alias digest (legacy @ ''_'' @ show_nat (attempt + 1))
          (JArr [JStr server_id, JStr tool, JNum (PosInt (attempt + 1))]) (Some server_id) rule)
        (\<lambda>name'. fresh_alias digest rule server_id tool legacy taken (attempt + 1) name')
      else Some name)"

declare fresh_alias.simps [code]

definition exposed_name ::
  "(json \<Rightarrow> nat list) \<Rightarrow> alias_rule \<Rightarrow> string \<Rightarrow> string \<Rightarrow> string \<Rightarrow> names_state \<Rightarrow> (string \<times> names_state) option" where
  "exposed_name digest rule server_id tool legacy st =
     Option.bind (bounded_alias digest legacy (JArr [JStr server_id, JStr tool]) (Some server_id) rule)
       (\<lambda>first. Option.bind (fresh_alias digest rule server_id tool legacy (seen st) 0 first)
         (\<lambda>name. Some (name,
            st\<lparr>seen := name # seen st,
               legacy_names := (if name \<noteq> legacy then AList.update name legacy (legacy_names st)
                                else legacy_names st)\<rparr>)))"

section \<open>Allocation for one server\<close>

fun legacy_pass :: "string \<Rightarrow> string option list \<Rightarrow> nat list \<Rightarrow> names_state \<Rightarrow> (nat \<times> string) list \<times> names_state" where
  "legacy_pass server_id names [] st = ([], st)"
| "legacy_pass server_id names (i # is) st =
     (case names ! i of
        None \<Rightarrow> legacy_pass server_id names is st
      | Some orig \<Rightarrow>
          let (legacy, st') = legacy_exposed_name server_id orig st;
              (rest, st'') = legacy_pass server_id names is st'
          in ((i, legacy) # rest, st''))"

fun exposed_pass ::
  "(json \<Rightarrow> nat list) \<Rightarrow> alias_rule \<Rightarrow> string \<Rightarrow> string option list \<Rightarrow> (nat \<times> string) list \<Rightarrow> nat list \<Rightarrow>
   names_state \<Rightarrow> ((nat \<times> string) list \<times> names_state) option" where
  "exposed_pass digest rule server_id names legacy [] st = Some ([], st)"
| "exposed_pass digest rule server_id names legacy (i # is) st =
     (case (names ! i, map_of legacy i) of
        (Some orig, Some leg) \<Rightarrow>
          Option.bind (exposed_name digest rule server_id orig leg st) (\<lambda>(name, st').
            map_option (\<lambda>(rest, st''). ((i, name) # rest, st''))
              (exposed_pass digest rule server_id names legacy is st'))
      | _ \<Rightarrow> exposed_pass digest rule server_id names legacy is st)"

definition over_limit :: "alias_rule \<Rightarrow> string option \<Rightarrow> bool" where
  "over_limit rule legacy = (case legacy of Some name \<Rightarrow> limit rule < length (spell rule name) | None \<Rightarrow> False)"

definition allocate_names ::
  "(json \<Rightarrow> nat list) \<Rightarrow> alias_rule \<Rightarrow> string \<Rightarrow> string option list \<Rightarrow> names_state \<Rightarrow>
   (string option list \<times> names_state) option" where
  "allocate_names digest rule server_id names st =
     (let order = sort_key (\<lambda>i. (names ! i, i)) [0 ..< length names];
          (legacy, st') = legacy_pass server_id names order st;
          order' = sort_key (\<lambda>i. over_limit rule (map_of legacy i)) order
      in map_option (\<lambda>(out, st''). (map (map_of out) [0 ..< length names], st''))
           (exposed_pass digest rule server_id names legacy order' st'))"

definition allocate_exposed_names ::
  "(json \<Rightarrow> nat list) \<Rightarrow> alias_rule \<Rightarrow> string \<Rightarrow> json list \<Rightarrow> names_state \<Rightarrow>
   (string option list \<times> names_state) option" where
  "allocate_exposed_names digest rule server_id items st =
     allocate_names digest rule server_id (map (jget_str ''name'') items) st"

section \<open>Every name is fresh\<close>

lemma fresh_legacy_fresh: "fresh_legacy base taken i \<notin> set taken"
proof (induction base taken i rule: fresh_legacy.induct)
  case (1 base taken i)
  then show ?case by (simp add: fresh_legacy.simps [of base taken i])
qed

lemma fresh_legacy_form: "\<exists>k \<ge> i. fresh_legacy base taken i = base @ ''_'' @ show_nat k"
proof (induction base taken i rule: fresh_legacy.induct)
  case (1 base taken i)
  then show ?case using Suc_leD by (subst fresh_legacy.simps) fastforce
qed

lemma legacy_exposed_name_fresh:
  "legacy_exposed_name server_id tool st = (legacy, st') \<Longrightarrow>
     legacy \<notin> set (legacy_seen st) \<and> legacy_seen st' = legacy # legacy_seen st \<and> seen st' = seen st"
  by (auto simp: legacy_exposed_name_def Let_def fresh_legacy_fresh split: if_splits)

lemma fresh_alias_fresh:
  "fresh_alias digest rule server_id tool legacy taken attempt name = Some r \<Longrightarrow> r \<notin> set taken"
proof (erule fresh_alias.raw_induct [where P = "\<lambda>digest rule server_id tool legacy taken attempt name r. r \<notin> set taken", rotated])
  fix f digest rule server_id tool legacy taken attempt name r
  assume "\<And>digest rule server_id tool legacy taken attempt name r.
      f digest rule server_id tool legacy taken attempt name = Some r \<Longrightarrow> r \<notin> set (taken :: string list)"
    and "(if name \<in> set taken
      then Option.bind
        (bounded_alias digest (legacy @ ''_'' @ show_nat (attempt + 1))
          (JArr [JStr server_id, JStr tool, JNum (PosInt (attempt + 1))]) (Some server_id) rule)
        (f digest rule server_id tool legacy taken (attempt + 1))
      else Some name) = Some r"
  then show "r \<notin> set taken" by (auto split: if_splits bind_splits)
qed

lemma exposed_name_fresh:
  "exposed_name digest rule server_id tool legacy st = Some (name, st') \<Longrightarrow>
     name \<notin> set (seen st) \<and> seen st' = name # seen st \<and> legacy_seen st' = legacy_seen st"
  by (auto simp: exposed_name_def bind_eq_Some_conv dest: fresh_alias_fresh)

lemma exposed_pass_ConsE:
  assumes "exposed_pass digest rule server_id names legacy (i # is) st = Some (out, st')"
  obtains (skip) "exposed_pass digest rule server_id names legacy is st = Some (out, st')"
  | (take) orig leg name st1 rest where "exposed_name digest rule server_id orig leg st = Some (name, st1)"
      and "exposed_pass digest rule server_id names legacy is st1 = Some (rest, st')" and "out = (i, name) # rest"
proof (cases "names ! i = None \<or> map_of legacy i = None")
  case True
  with assms skip show ?thesis by (auto split: option.splits)
next
  case False
  then obtain orig leg where "names ! i = Some orig" "map_of legacy i = Some leg" by auto
  with assms take show ?thesis by (auto simp: bind_eq_Some_conv)
qed

lemma exposed_pass_fresh:
  "exposed_pass digest rule server_id names legacy is st = Some (out, st') \<Longrightarrow>
     seen st' = rev (map snd out) @ seen st \<and> distinct (map snd out) \<and>
     set (map snd out) \<inter> set (seen st) = {} \<and> set (map fst out) \<subseteq> set is"
proof (induction "is" arbitrary: st out st')
  case (Cons i "is")
  from Cons.prems show ?case
  proof (cases rule: exposed_pass_ConsE)
    case skip
    with Cons.IH show ?thesis by fastforce
  next
    case (take orig leg name st1 rest)
    with Cons.IH [OF take(2)] exposed_name_fresh [OF take(1)] show ?thesis by auto
  qed
qed auto

lemma exposed_pass_keys:
  "exposed_pass digest rule server_id names legacy is st = Some (out, st') \<Longrightarrow> distinct is \<Longrightarrow> distinct_keys out"
proof (induction "is" arbitrary: st out st')
  case (Cons i "is")
  from Cons.prems(1) show ?case
  proof (cases rule: exposed_pass_ConsE)
    case skip
    with Cons show ?thesis by simp
  next
    case (take orig leg name st1 rest)
    with Cons exposed_pass_fresh [OF take(2)] show ?thesis by auto
  qed
qed auto

lemma legacy_pass_seen: "legacy_pass server_id names is st = (legacy, st') \<Longrightarrow> seen st' = seen st"
proof (induction "is" arbitrary: st legacy)
  case (Cons i "is")
  then show ?case
    using legacy_exposed_name_fresh by (fastforce split: option.splits prod.splits)
qed auto

lemma map_of_inj_values:
  assumes "distinct (map snd m)" and "map_of m i = Some v" and "map_of m j = Some v"
  shows "i = j"
proof -
  have "(i, v) \<in> set m" "(j, v) \<in> set m" using assms(2,3) by (auto dest: map_of_SomeD)
  with assms(1) show ?thesis by (fastforce simp: distinct_map inj_on_def)
qed

lemma allocate_names_fresh:
  assumes "allocate_names digest rule server_id names st = Some (out, st')"
  shows "length out = length names \<and>
    (\<forall>i j v. i < length out \<longrightarrow> j < length out \<longrightarrow> out ! i = Some v \<longrightarrow> out ! j = Some v \<longrightarrow> i = j) \<and>
    (\<forall>v. Some v \<in> set out \<longrightarrow> v \<notin> set (seen st)) \<and>
    set (seen st') = set (seen st) \<union> {v. Some v \<in> set out}"
proof -
  let ?order = "sort_key (\<lambda>i. (names ! i, i)) [0 ..< length names]"
  obtain legacy st1 where l: "legacy_pass server_id names ?order st = (legacy, st1)" by fastforce
  let ?order' = "sort_key (\<lambda>i. over_limit rule (map_of legacy i)) ?order"
  obtain pairs where p: "exposed_pass digest rule server_id names legacy ?order' st1 = Some (pairs, st')"
      and out: "out = map (map_of pairs) [0 ..< length names]"
    using assms l by (auto simp: allocate_names_def Let_def)
  have seen1: "seen st1 = seen st" using l by (rule legacy_pass_seen)
  note f = exposed_pass_fresh [OF p]
  have keys: "distinct_keys pairs" using exposed_pass_keys [OF p] by simp
  have vals: "{v. Some v \<in> set out} = set (map snd pairs)"
  proof -
    have "set (map fst pairs) \<subseteq> {0 ..< length names}" using f by auto
    then show ?thesis
      using keys by (force simp: out image_iff dest: map_of_SomeD intro: map_of_is_SomeI [symmetric])
  qed
  have inj: "\<forall>i j v. i < length out \<longrightarrow> j < length out \<longrightarrow> out ! i = Some v \<longrightarrow> out ! j = Some v \<longrightarrow> i = j"
    using f map_of_inj_values [of pairs] by (auto simp: out)
  have new: "v \<notin> set (seen st)" if "Some v \<in> set out" for v
    using that vals f seen1 by auto
  have "set (seen st') = set (seen st) \<union> {v. Some v \<in> set out}"
    unfolding vals using f seen1 by auto
  with inj new show ?thesis by (simp add: out)
qed

text \<open>When the names of a server are allocated, no two of its tools get the same exposed name,
  none gets a name that was handed out before, exactly the new names are added to the set of
  names in use, and an item without a name gets none.\<close>

theorem allocate_names_unique:
  assumes "allocate_names digest rule server_id names st = Some (out, st')"
  shows "length out = length names \<and>
    (\<forall>i j v. i < length out \<longrightarrow> j < length out \<longrightarrow> out ! i = Some v \<longrightarrow> out ! j = Some v \<longrightarrow> i = j) \<and>
    (\<forall>v. Some v \<in> set out \<longrightarrow> v \<notin> set (seen st)) \<and>
    set (seen st') = set (seen st) \<union> {v. Some v \<in> set out}"
  using assms by (rule allocate_names_fresh)

definition empty_names :: names_state where
  "empty_names = \<lparr>seen = [], legacy_seen = [], legacy_names = []\<rparr>"

lemma sample_allocation:
  "allocate_names sample_digest default_alias_rule ''gh'' [Some ''get_user'', None, Some ''get-user''] empty_names =
     Some ([Some ''gh__get_user_2'', None, Some ''gh__get_user''],
       \<lparr>seen = [''gh__get_user_2'', ''gh__get_user''],
        legacy_seen = [''gh__get_user_2'', ''gh__get_user''], legacy_names = []\<rparr>)"
  by code_simp

theorem allocate_names_unique_witness:
  "''gh__get_user'' \<notin> set (seen empty_names) \<and>
   allocate_names sample_digest default_alias_rule ''gh'' [Some ''get_user'', None, Some ''get-user''] empty_names \<noteq> None"
  using allocate_names_unique [OF sample_allocation] by (auto simp: sample_allocation)

section \<open>The search for a free alias ends\<close>

text \<open>The alias that the search tries at its \<open>k\<close>th attempt.\<close>

definition attempt_alias ::
  "(json \<Rightarrow> nat list) \<Rightarrow> alias_rule \<Rightarrow> string \<Rightarrow> string \<Rightarrow> string \<Rightarrow> nat \<Rightarrow> string option" where
  "attempt_alias digest rule server_id tool legacy k =
     (if k = 0 then bounded_alias digest legacy (JArr [JStr server_id, JStr tool]) (Some server_id) rule
      else bounded_alias digest (legacy @ ''_'' @ show_nat k)
             (JArr [JStr server_id, JStr tool, JNum (PosInt k)]) (Some server_id) rule)"

lemma attempt_alias_total:
  assumes "digest_ok digest" and "16 \<le> limit rule" and "list_all name_char legacy"
  shows "\<exists>a. attempt_alias digest rule server_id tool legacy k = Some a \<and> length a \<le> limit rule"
proof -
  have "list_all name_char (show_nat k)"
    using digits_of_digit by (auto simp: list_all_iff show_nat_def name_char_def is_ascii_alnum_def)
  with assms(3) have "list_all name_char (legacy @ ''_'' @ show_nat k)" by (simp add: name_char_def)
  from bounded_alias_total [OF assms(1,2) this, of "JArr [JStr server_id, JStr tool, JNum (PosInt k)]" "Some server_id"]
    bounded_alias_total [OF assms, of "JArr [JStr server_id, JStr tool]" "Some server_id"]
  show ?thesis by (cases "k = 0") (auto simp: attempt_alias_def)
qed

lemma fresh_alias_finds:
  assumes "attempt \<le> k" and "\<forall>j. attempt \<le> j \<and> j \<le> k \<longrightarrow> attempt_alias digest rule server_id tool legacy j = Some (al j)"
    and "\<forall>j. attempt \<le> j \<and> j < k \<longrightarrow> al j \<in> set taken" and "al k \<notin> set taken"
  shows "fresh_alias digest rule server_id tool legacy taken attempt (al attempt) = Some (al k)"
  using assms
proof (induction "k - attempt" arbitrary: attempt)
  case 0
  then show ?case by (subst fresh_alias.simps) simp
next
  case (Suc m)
  then have "bounded_alias digest (legacy @ ''_'' @ show_nat (attempt + 1))
      (JArr [JStr server_id, JStr tool, JNum (PosInt (attempt + 1))]) (Some server_id) rule = Some (al (Suc attempt))"
    using Suc(4) [rule_format, of "Suc attempt"] by (simp add: attempt_alias_def)
  moreover have "al attempt \<in> set taken" using Suc(2,5) by auto
  moreover have "fresh_alias digest rule server_id tool legacy taken (Suc attempt) (al (Suc attempt)) = Some (al k)"
    using Suc(2-6) by (intro Suc(1)) auto
  ultimately show ?case by (subst fresh_alias.simps) simp
qed

text \<open>The search for a free alias ends whenever one of the aliases it would try is free, and it
  returns the first of them: for every limit a client view can have and every sanitised name,
  none of the attempts panics, and the chosen name is new and fits the limit.\<close>

theorem exposed_name_returns:
  assumes "digest_ok digest" and "16 \<le> limit rule" and "list_all name_char legacy"
    and "\<exists>k. \<forall>a \<in> set (seen st). attempt_alias digest rule server_id tool legacy k \<noteq> Some a"
  shows "\<exists>name st'. exposed_name digest rule server_id tool legacy st = Some (name, st') \<and>
    name \<notin> set (seen st) \<and> length name \<le> limit rule \<and>
    (\<exists>k. attempt_alias digest rule server_id tool legacy k = Some name \<and>
         (\<forall>j < k. \<exists>a \<in> set (seen st). attempt_alias digest rule server_id tool legacy j = Some a))"
proof -
  define al where "al k = the (attempt_alias digest rule server_id tool legacy k)" for k
  have al: "attempt_alias digest rule server_id tool legacy k = Some (al k)" and len: "length (al k) \<le> limit rule" for k
    using attempt_alias_total [OF assms(1-3), of server_id tool k] by (auto simp: al_def)
  define k where "k = (LEAST k. al k \<notin> set (seen st))"
  have "\<exists>k. al k \<notin> set (seen st)" using assms(4) al by auto
  then have free: "al k \<notin> set (seen st)" unfolding k_def by (rule LeastI_ex)
  have taken: "al j \<in> set (seen st)" if "j < k" for j
    using that not_less_Least unfolding k_def by blast
  have "bounded_alias digest legacy (JArr [JStr server_id, JStr tool]) (Some server_id) rule = Some (al 0)"
    using al [of 0] by (simp add: attempt_alias_def)
  moreover have "fresh_alias digest rule server_id tool legacy (seen st) 0 (al 0) = Some (al k)"
    using al free taken by (intro fresh_alias_finds) auto
  ultimately show ?thesis
    using al free taken len by (fastforce simp: exposed_name_def)
qed

theorem exposed_name_returns_witness:
  "\<exists>name st'. exposed_name sample_digest default_alias_rule ''gh'' ''x'' ''gh__x''
       \<lparr>seen = [''gh__x''], legacy_seen = [], legacy_names = []\<rparr> = Some (name, st') \<and> name \<noteq> ''gh__x''"
proof -
  let ?st = "\<lparr>seen = [''gh__x''], legacy_seen = [], legacy_names = []\<rparr>"
  have d: "digest_ok sample_digest" by (simp add: digest_ok_def sample_digest_def)
  have l: "16 \<le> limit default_alias_rule" "list_all name_char ''gh__x''" by code_simp+
  have "attempt_alias sample_digest default_alias_rule ''gh'' ''x'' ''gh__x'' 1 = Some ''gh__x_1''" by code_simp
  then have "\<exists>k. \<forall>a \<in> set (seen ?st). attempt_alias sample_digest default_alias_rule ''gh'' ''x'' ''gh__x'' k \<noteq> Some a"
    by (intro exI [of _ 1]) simp
  from exposed_name_returns [OF d l this] show ?thesis by auto
qed

section \<open>The order of the listing does not matter\<close>

text \<open>The same two passes on the sequence of raw names, without positions.\<close>

fun legacy_seq :: "string \<Rightarrow> string list \<Rightarrow> names_state \<Rightarrow> (string \<times> string) list \<times> names_state" where
  "legacy_seq server_id [] st = ([], st)"
| "legacy_seq server_id (n # ns) st =
     (let (legacy, st') = legacy_exposed_name server_id n st; (rest, st'') = legacy_seq server_id ns st'
      in ((n, legacy) # rest, st''))"

fun exposed_seq ::
  "(json \<Rightarrow> nat list) \<Rightarrow> alias_rule \<Rightarrow> string \<Rightarrow> (string \<times> string) list \<Rightarrow> string list \<Rightarrow> names_state \<Rightarrow>
   ((string \<times> string) list \<times> names_state) option" where
  "exposed_seq digest rule server_id legacy [] st = Some ([], st)"
| "exposed_seq digest rule server_id legacy (n # ns) st =
     (case map_of legacy n of
        None \<Rightarrow> exposed_seq digest rule server_id legacy ns st
      | Some leg \<Rightarrow> Option.bind (exposed_name digest rule server_id n leg st) (\<lambda>(name, st').
          map_option (\<lambda>(rest, st''). ((n, name) # rest, st'')) (exposed_seq digest rule server_id legacy ns st')))"

text \<open>An injective reading \<open>nm\<close> of the positions carries one pass to the other.\<close>

abbreviation rename_fst :: "('a \<Rightarrow> 'b) \<Rightarrow> ('a \<times> 'c) list \<Rightarrow> ('b \<times> 'c) list" where
  "rename_fst f m \<equiv> map (map_prod f (\<lambda>v. v)) m"

lemma map_of_rename_fst:
  "inj_on f (insert i (set (map fst m))) \<Longrightarrow> map_of (rename_fst f m) (f i) = map_of m i"
proof (induction m)
  case (Cons p m)
  obtain j v where p: "p = (j, v)" by (cases p)
  have "inj_on f (insert i (set (map fst m)))"
    using Cons.prems by (auto intro: inj_on_subset)
  moreover have "f i = f j \<longleftrightarrow> i = j"
    using Cons.prems by (auto simp: p inj_on_def)
  ultimately show ?case using Cons.IH by (simp add: p)
qed simp

lemma legacy_pass_keys: "set (map fst (fst (legacy_pass server_id names is st))) \<subseteq> set is"
proof (induction "is" arbitrary: st)
  case (Cons i "is")
  show ?case
  proof (cases "names ! i")
    case None
    with Cons [of st] show ?thesis by auto
  next
    case (Some n)
    obtain l st' where "legacy_exposed_name server_id n st = (l, st')" by fastforce
    with Some Cons [of st'] show ?thesis by (force split: prod.splits)
  qed
qed simp

lemma legacy_pass_seq:
  assumes "\<forall>i \<in> set is. names ! i = Some (nm i)"
  shows "legacy_seq server_id (map nm is) st =
    (rename_fst nm (fst (legacy_pass server_id names is st)), snd (legacy_pass server_id names is st))"
  using assms by (induction "is" arbitrary: st) (auto split: prod.splits)

lemma legacy_pass_filter:
  "legacy_pass server_id names is st = legacy_pass server_id names (filter (\<lambda>i. names ! i \<noteq> None) is) st"
  by (induction "is" arbitrary: st) (auto split: option.splits prod.splits)

lemma exposed_pass_seq:
  assumes "\<forall>i \<in> set is. names ! i = Some (nm i)" and "inj_on nm (set is \<union> set (map fst legacy))"
  shows "exposed_seq digest rule server_id (rename_fst nm legacy) (map nm is) st =
    map_option (\<lambda>(out, st'). (rename_fst nm out, st')) (exposed_pass digest rule server_id names legacy is st)"
  using assms
proof (induction "is" arbitrary: st)
  case (Cons i "is")
  have inj: "inj_on nm (set is \<union> set (map fst legacy))" "inj_on nm (insert i (set (map fst legacy)))"
    using Cons.prems(2) by (auto intro: inj_on_subset)
  then have ih: "\<And>st. exposed_seq digest rule server_id (rename_fst nm legacy) (map nm is) st =
    map_option (\<lambda>(out, st'). (rename_fst nm out, st')) (exposed_pass digest rule server_id names legacy is st)"
    using Cons by simp
  have i: "names ! i = Some (nm i)" using Cons.prems(1) by simp
  show ?case
  proof (cases "map_of legacy i")
    case None
    then show ?thesis by (simp add: i ih map_of_rename_fst [OF inj(2)])
  next
    case (Some leg)
    then show ?thesis
      by (cases "exposed_name digest rule server_id (nm i) leg st")
         (auto simp: i ih map_of_rename_fst [OF inj(2)] option.map_comp comp_def case_prod_beta)
  qed
qed simp

lemma exposed_pass_filter:
  "exposed_pass digest rule server_id names legacy is st =
     exposed_pass digest rule server_id names legacy (filter (\<lambda>i. names ! i \<noteq> None) is) st"
  by (induction "is" arbitrary: st) (auto split: option.splits intro!: arg_cong2 [where f = Option.bind] ext)

lemma map_insort_key: "(\<And>y. y \<in> insert x (set xs) \<Longrightarrow> k y = l (f y)) \<Longrightarrow>
    map f (insort_key k x xs) = insort_key l (f x) (map f xs)"
  by (induction xs) auto

lemma map_sort_key: "(\<And>y. y \<in> set xs \<Longrightarrow> k y = l (f y)) \<Longrightarrow> map f (sort_key k xs) = sort_key l (map f xs)"
proof (induction xs)
  case (Cons x xs)
  then show ?case using map_insort_key [of x "sort_key k xs" k l f] by simp
qed simp

definition canonical_pass ::
  "(json \<Rightarrow> nat list) \<Rightarrow> alias_rule \<Rightarrow> string \<Rightarrow> string list \<Rightarrow> names_state \<Rightarrow>
   ((string \<times> string) list \<times> names_state) option" where
  "canonical_pass digest rule server_id ns st =
     (let (legacy, st') = legacy_seq server_id ns st
      in exposed_seq digest rule server_id legacy (sort_key (\<lambda>n. over_limit rule (map_of legacy n)) ns) st')"

abbreviation sorted_order :: "string option list \<Rightarrow> nat list" where
  "sorted_order names \<equiv> sort_key (\<lambda>i. (names ! i, i)) [0 ..< length names]"

lemma sorted_order_names: "map ((!) names) (sorted_order names) = sort names"
proof (rule properties_for_sort [symmetric])
  have "sorted (map (\<lambda>i. (names ! i, i)) (sorted_order names))" by simp
  then have "sorted_wrt (\<lambda>i j. (names ! i, i) \<le> (names ! j, j)) (sorted_order names)"
    by (simp add: sorted_map)
  then have "sorted_wrt (\<lambda>i j. names ! i \<le> names ! j) (sorted_order names)"
    by (rule sorted_wrt_mono_rel [rotated]) (auto simp: less_eq_prod_def)
  then show "sorted (map ((!) names) (sorted_order names))" by (simp add: sorted_map)
  show "mset (map ((!) names) (sorted_order names)) = mset names"
    by (metis map_nth mset_map mset_sort)
qed

lemma named_positions:
  assumes "distinct (filter (\<lambda>n. n \<noteq> None) names)"
  defines "is \<equiv> filter (\<lambda>i. names ! i \<noteq> None) (sorted_order names)"
  shows "map (\<lambda>i. the (names ! i)) is = map the (filter (\<lambda>n. n \<noteq> None) (sort names))"
    and "inj_on (\<lambda>i. the (names ! i)) (set is)" and "set is = {i. i < length names \<and> names ! i \<noteq> None}"
proof -
  have eq: "map ((!) names) is = filter (\<lambda>n. n \<noteq> None) (sort names)"
    by (simp add: is_def sorted_order_names [symmetric] filter_map comp_def)
  then show "map (\<lambda>i. the (names ! i)) is = map the (filter (\<lambda>n. n \<noteq> None) (sort names))"
    by (metis (no_types, lifting) comp_apply list.map_comp list.map_cong)
  have "distinct (map ((!) names) is)"
    unfolding eq using assms(1) by (simp add: filter_sort)
  then have "inj_on ((!) names) (set is)" by (simp add: distinct_map)
  then show "inj_on (\<lambda>i. the (names ! i)) (set is)"
    by (auto simp: inj_on_def is_def)
  show "set is = {i. i < length names \<and> names ! i \<noteq> None}" by (auto simp: is_def)
qed

lemma exposed_pass_canonical:
  assumes "\<forall>i \<in> set is. names ! i = Some (nm i)" and inj: "inj_on nm (set is)"
    and l: "legacy_pass server_id names is st = (legacy, st')"
  shows "canonical_pass digest rule server_id (map nm is) st =
    map_option (\<lambda>(out, st''). (rename_fst nm out, st''))
      (exposed_pass digest rule server_id names legacy
        (sort_key (\<lambda>i. over_limit rule (map_of legacy i)) is) st')"
proof -
  have keys: "set (map fst legacy) \<subseteq> set is"
    using legacy_pass_keys [of server_id names "is" st] l by simp
  have sorted: "map nm (sort_key (\<lambda>i. over_limit rule (map_of legacy i)) is) =
      sort_key (\<lambda>n. over_limit rule (map_of (rename_fst nm legacy) n)) (map nm is)"
  proof (rule map_sort_key)
    fix i assume "i \<in> set is"
    then have "inj_on nm (insert i (set (map fst legacy)))"
      using keys by (intro inj_on_subset [OF inj]) auto
    then show "over_limit rule (map_of legacy i) = over_limit rule (map_of (rename_fst nm legacy) (nm i))"
      by (simp add: map_of_rename_fst)
  qed
  show ?thesis
    using exposed_pass_seq [of "sort_key (\<lambda>i. over_limit rule (map_of legacy i)) is" names nm legacy]
      assms(1) inj keys l
    by (simp add: canonical_pass_def legacy_pass_seq [OF assms(1)] sorted [symmetric] Un_absorb2)
qed

lemma zip_renamed:
  assumes "inj_on nm (set is)" and "set is = {i. i < length names \<and> names ! i \<noteq> None}"
    and "\<forall>i \<in> set is. names ! i = Some (nm i)" and "set (map fst out) \<subseteq> set is"
  shows "set (zip names (map (map_of out) [0 ..< length names])) =
    (\<lambda>x. (x, Option.bind x (map_of (rename_fst nm out)))) ` set names"
proof -
  have pos: "map_of out i = Option.bind (names ! i) (map_of (rename_fst nm out))" if i: "i < length names" for i
  proof (cases "names ! i")
    case None
    then have "i \<notin> set (map fst out)" using assms(2,4) by auto
    with None show ?thesis by (simp add: map_of_eq_None_iff)
  next
    case (Some x)
    then have "i \<in> set is" using i assms(2) by auto
    moreover have "inj_on nm (insert i (set (map fst out)))"
      using calculation assms(4) by (intro inj_on_subset [OF assms(1)]) auto
    ultimately show ?thesis using Some assms(3) by (auto simp: map_of_rename_fst)
  qed
  have "set (zip names (map (map_of out) [0 ..< length names])) = (\<lambda>i. (names ! i, map_of out i)) ` {0 ..< length names}"
    by (auto simp: set_zip)
  also have "\<dots> = (\<lambda>i. (names ! i, Option.bind (names ! i) (map_of (rename_fst nm out)))) ` {0 ..< length names}"
    using pos by (intro image_cong) auto
  also have "\<dots> = (\<lambda>x. (x, Option.bind x (map_of (rename_fst nm out)))) ` set names"
    by (auto simp: set_conv_nth image_iff)
  finally show ?thesis .
qed

lemma allocate_names_canonical:
  assumes "distinct (filter (\<lambda>n. n \<noteq> None) names)"
  shows "map_option (\<lambda>(out, st'). (set (zip names out), st')) (allocate_names digest rule server_id names st) =
    map_option (\<lambda>(c, st'). ((\<lambda>x. (x, Option.bind x (map_of c))) ` set names, st'))
      (canonical_pass digest rule server_id (map the (filter (\<lambda>n. n \<noteq> None) (sort names))) st)"
proof -
  define nm where "nm = (\<lambda>i. the (names ! i))"
  define is' where "is' = filter (\<lambda>i. names ! i \<noteq> None) (sorted_order names)"
  note pos = named_positions [OF assms, folded is'_def nm_def]
  have nm: "\<forall>i \<in> set is'. names ! i = Some (nm i)" using pos(3) by (auto simp: nm_def)
  obtain legacy st1 where l: "legacy_pass server_id names is' st = (legacy, st1)" by fastforce
  let ?k = "\<lambda>i. over_limit rule (map_of legacy i)"
  define res where "res = exposed_pass digest rule server_id names legacy (sort_key ?k is') st1"
  have "exposed_pass digest rule server_id names legacy (sort_key ?k (sorted_order names)) st1 = res"
    unfolding res_def is'_def
    by (subst exposed_pass_filter) (simp add: filter_sort)
  then have alloc: "allocate_names digest rule server_id names st =
      map_option (\<lambda>(out, st''). (map (map_of out) [0 ..< length names], st'')) res"
    using l legacy_pass_filter [of server_id names "sorted_order names" st, folded is'_def]
    by (simp add: allocate_names_def)
  have canon: "canonical_pass digest rule server_id (map nm is') st =
      map_option (\<lambda>(out, st''). (rename_fst nm out, st'')) res"
    unfolding res_def by (rule exposed_pass_canonical [OF nm pos(2) l])
  have zip: "set (zip names (map (map_of out) [0 ..< length names])) =
      (\<lambda>x. (x, Option.bind x (map_of (rename_fst nm out)))) ` set names"
    if "res = Some (out, st'')" for out st''
    using zip_renamed [OF pos(2,3) nm, of out] exposed_pass_fresh [OF that [unfolded res_def]] by simp
  show ?thesis
    unfolding alloc pos(1) [symmetric] canon using zip by (cases res) auto
qed

text \<open>C33: The name a tool is exposed under depends on the tools and not on their order: for two
  listings of the same tools (distinct raw names), in any order, every raw name gets the same
  exposed name and the router ends in the same state. So a server that reorders its listing cannot
  move a suffix from one tool to another and redirect calls that a client has cached.\<close>

theorem allocate_names_order_independent:
  assumes "mset names = mset names'" and "distinct (filter (\<lambda>n. n \<noteq> None) names)"
  shows "map_option (\<lambda>(out, st'). (set (zip names out), st')) (allocate_names digest rule server_id names st) =
    map_option (\<lambda>(out, st'). (set (zip names' out), st')) (allocate_names digest rule server_id names' st)"
proof -
  have "sort names = sort names'"
    using assms(1) by (intro properties_for_sort) auto
  moreover have "set names = set names'" using assms(1) by (rule mset_eq_setD)
  moreover have "distinct (filter (\<lambda>n. n \<noteq> None) names')"
    using assms by (metis mset_filter mset_eq_imp_distinct_iff)
  ultimately show ?thesis
    using assms(2) by (simp add: allocate_names_canonical)
qed

theorem allocate_names_order_independent_witness:
  "map_option (\<lambda>(out, st'). set (zip [Some ''get-user'', Some ''get_user'', None] out))
     (allocate_names sample_digest default_alias_rule ''gh'' [Some ''get-user'', Some ''get_user'', None] empty_names) =
   Some {(Some ''get_user'', Some ''gh__get_user_2''), (None, None), (Some ''get-user'', Some ''gh__get_user'')}"
proof -
  let ?a = "[Some ''get_user'', None, Some ''get-user'']" and ?b = "[Some ''get-user'', Some ''get_user'', None]"
  have "mset ?a = mset ?b" and "distinct (filter (\<lambda>n. n \<noteq> None) ?a)" by simp_all
  from allocate_names_order_independent [OF this, of sample_digest default_alias_rule "''gh''" empty_names]
  have "map_option (\<lambda>(out, st'). (set (zip ?b out), st'))
      (allocate_names sample_digest default_alias_rule ''gh'' ?b empty_names) =
    Some ({(Some ''get_user'', Some ''gh__get_user_2''), (None, None), (Some ''get-user'', Some ''gh__get_user'')},
      \<lparr>seen = [''gh__get_user_2'', ''gh__get_user''],
       legacy_seen = [''gh__get_user_2'', ''gh__get_user''], legacy_names = []\<rparr>)"
    by (simp only: sample_allocation option.map prod.case zip_Cons_Cons zip_Nil list.set)
  then obtain out st' where "allocate_names sample_digest default_alias_rule ''gh'' ?b empty_names = Some (out, st')"
      and "set (zip ?b out) =
        {(Some ''get_user'', Some ''gh__get_user_2''), (None, None), (Some ''get-user'', Some ''gh__get_user'')}"
    by (auto simp only: map_option_eq_Some prod.case prod.inject)
  then show ?thesis by (simp only: option.map prod.case)
qed

end
