(* ===== verification/SecretRefs.thy ===== *)
theory SecretRefs
  imports Json
begin

text \<open>
  References to secrets in password managers (\<open>secret_refs.rs\<close>): the closed table of providers,
  the grammar of a reference, and the reading of references and header keys from the fields of a
  server. A reference becomes an argument of a provider's command line, so what matters is that
  no component can be read as an option or leave its place. Deserialising header keys is
  \<open>serde_json\<close> code and a parameter.
\<close>

section \<open>Providers\<close>

record provider =
  scheme :: string
  provider_name :: string
  binary :: string
  sign_in :: string

definition providers :: "provider list" where
  "providers =
     [\<lparr>scheme = ''op://'', provider_name = ''1Password'', binary = ''op'',
        sign_in = ''Sign in to 1Password CLI or unlock the desktop app with CLI integration enabled.''\<rparr>,
      \<lparr>scheme = ''doppler://'', provider_name = ''Doppler'', binary = ''doppler'',
        sign_in = ''Run doppler login on this machine.''\<rparr>,
      \<lparr>scheme = ''infisical://'', provider_name = ''Infisical'', binary = ''infisical'',
        sign_in = ''Run infisical login on this machine. The project component is the project ID.''\<rparr>,
      \<lparr>scheme = ''vault://'', provider_name = ''HashiCorp Vault'', binary = ''vault'',
        sign_in = ''Run vault login and configure VAULT_ADDR locally.''\<rparr>,
      \<lparr>scheme = ''bws://'', provider_name = ''Bitwarden Secrets Manager'', binary = ''bws'',
        sign_in = ''Configure BWS_ACCESS_TOKEN in the local Toolport process environment.''\<rparr>,
      \<lparr>scheme = ''bw://'', provider_name = ''Bitwarden Password Manager'', binary = ''bw'',
        sign_in = ''Run bw login and bw unlock, then start Toolport with BW_SESSION in its environment.''\<rparr>,
      \<lparr>scheme = ''keeper://'', provider_name = ''Keeper Secrets Manager'', binary = ''ksm'',
        sign_in = ''Initialize a local Keeper Secrets Manager CLI profile before testing the reference.''\<rparr>,
      \<lparr>scheme = ''dl://'', provider_name = ''Dashlane'', binary = ''dcli'',
        sign_in = ''Sign in locally with dcli and unlock your Dashlane vault.''\<rparr>,
      \<lparr>scheme = ''lpass://'', provider_name = ''LastPass'', binary = ''lpass'',
        sign_in = ''Run lpass login on this machine and unlock its agent.''\<rparr>,
      \<lparr>scheme = ''env:'', provider_name = ''Environment variable'', binary = '''',
        sign_in = ''Set the named environment variable before starting Toolport.''\<rparr>]"

datatype error_state =
    InvalidReference | PolicyDenied | ApprovalRequired | NotInstalled | Locked | NotFound
  | Timeout | InvalidOutput | Failed

text \<open>An error is its state and the name shown for the provider.\<close>

type_synonym resolve_error = "string \<times> error_state"

definition ref_error :: "provider option \<Rightarrow> error_state \<Rightarrow> resolve_error" where
  "ref_error p st = (case p of Some q \<Rightarrow> provider_name q | None \<Rightarrow> ''Secret reference'', st)"

text \<open>The text of an error: fixed, apart from the name, the program and the hint of the provider.\<close>

definition error_detail :: "provider option \<Rightarrow> error_state \<Rightarrow> string" where
  "error_detail p st =
     (case st of
        InvalidReference \<Rightarrow> ''Use a supported reference with no outer whitespace, controls or option-like path components.''
      | PolicyDenied \<Rightarrow> ''This reference is not allowed by your team'' @ [CHR 0x27] @ ''s secret source policy.''
      | ApprovalRequired \<Rightarrow> ''Review the reference and its destination before enabling this server.''
      | NotInstalled \<Rightarrow> ''Install the official '' @ (case p of Some q \<Rightarrow> binary q | None \<Rightarrow> ''provider'') @ '' CLI on this machine.''
      | Locked \<Rightarrow> (case p of Some q \<Rightarrow> sign_in q | None \<Rightarrow> ''Sign in or unlock the provider locally.'')
      | NotFound \<Rightarrow> ''Reference not found. Check the entry, field and your access to it.''
      | Timeout \<Rightarrow> ''The read timed out. Finish unlocking locally, then test or restart the server.''
      | InvalidOutput \<Rightarrow> ''The CLI did not return one nonempty API key. Check the field and CLI version.''
      | Failed \<Rightarrow> ''The CLI read failed. Check the provider locally, then test again.'')"

definition error_message :: "provider option \<Rightarrow> error_state \<Rightarrow> string" where
  "error_message p st = fst (ref_error p st) @ '': '' @ error_detail p st"

definition env_sync_blocked :: string where
  "env_sync_blocked = ''Environment references are local only. Servers received through personal Pro sync, Teams or imports are Blocked. Use a password manager reference instead.''"

definition safe_status_states :: "error_state list" where
  "safe_status_states = [InvalidReference, PolicyDenied, NotInstalled, Locked, NotFound, Timeout, InvalidOutput, Failed]"

definition safe_status :: "string \<Rightarrow> string option" where
  "safe_status message =
     (if message = env_sync_blocked then Some message
      else find (\<lambda>known. message = known)
             (concat (map (\<lambda>p. map (error_message (Some p)) safe_status_states) providers)))"

section \<open>The grammar of references\<close>

definition safe_ref :: "string \<Rightarrow> bool" where
  "safe_ref s \<longleftrightarrow> s \<noteq> [] \<and> char_count s \<le> 512 \<and> trim s = s \<and>
     \<not> list_ex (\<lambda>c. is_control c \<or> is_whitespace c \<and> c \<noteq> '' '') (utf8_chars s)"

definition is_ascii_alpha :: "char \<Rightarrow> bool" where
  "is_ascii_alpha c \<longleftrightarrow> is_ascii_upper c \<or> is_ascii_lower c"

definition is_ascii_hexdigit :: "char \<Rightarrow> bool" where
  "is_ascii_hexdigit c \<longleftrightarrow> is_ascii_digit c \<or> c \<in> set ''abcdefABCDEF''"

definition name_ref :: "string \<Rightarrow> bool" where
  "name_ref s \<longleftrightarrow>
     (case s of
        [] \<Rightarrow> False
      | c # cs \<Rightarrow> (is_ascii_alpha c \<or> c = CHR ''_'') \<and> list_all (\<lambda>c. is_ascii_alnum c \<or> c = CHR ''_'') cs)"

definition path_component :: "string \<Rightarrow> bool" where
  "path_component p \<longleftrightarrow> p \<noteq> [] \<and> trim p = p \<and> find_str ''  '' p = None \<and> \<not> starts_with ''-'' p \<and>
     p \<noteq> ''.'' \<and> p \<noteq> ''..'' \<and>
     list_all (\<lambda>c. is_ascii_alnum c \<or> c \<in> set ''_-.{}[]'' \<or> c = CHR '' '') p"

definition path_ref :: "string \<Rightarrow> bool" where
  "path_ref s \<longleftrightarrow> \<not> list_ex (\<lambda>c. c \<in> set ''?#@%:'' \<or> c = CHR 0x5C) s \<and>
     list_all path_component (split_on (\<lambda>c. c = CHR ''/'') s)"

definition uuid_ref :: "string \<Rightarrow> bool" where
  "uuid_ref s \<longleftrightarrow> length s = 36 \<and>
     list_all (\<lambda>(i, c). if i \<in> {8, 13, 18, 23} then c = CHR ''-'' else is_ascii_hexdigit c) (enumerate 0 s)"

definition split_once :: "char \<Rightarrow> string \<Rightarrow> (string \<times> string) option" where
  "split_once d s =
     (case dropWhile (\<lambda>c. c \<noteq> d) s of [] \<Rightarrow> None | _ # r \<Rightarrow> Some (takeWhile (\<lambda>c. c \<noteq> d) s, r))"

abbreviation slash_parts :: "string \<Rightarrow> string list" where
  "slash_parts r \<equiv> split_on (\<lambda>c. c = CHR ''/'') r"

definition valid_tail :: "string \<Rightarrow> string \<Rightarrow> bool" where
  "valid_tail sch r =
     (let parts = slash_parts r
      in if sch = ''env:'' then name_ref r
         else if sch = ''vault://'' then
           (case split_once (CHR ''#'') r of
              Some (loc, field) \<Rightarrow>
                path_ref loc \<and> 2 \<le> length (slash_parts loc) \<and> path_ref field \<and> CHR ''/'' \<notin> set field
            | None \<Rightarrow> False)
         else if sch = ''op://'' then path_ref r \<and> 3 \<le> length parts \<and> length parts \<le> 4
         else if sch = ''doppler://'' then path_ref r \<and> length parts = 3
         else if sch = ''infisical://'' then path_ref r \<and> 4 \<le> length parts
         else if sch = ''bws://'' then uuid_ref r
         else if sch = ''bw://'' then length parts = 2 \<and> uuid_ref (parts ! 0) \<and> parts ! 1 = ''password''
         else if sch = ''keeper://'' then
           CHR '' '' \<notin> set r \<and> path_ref r \<and> length parts = 3 \<and>
           parts ! 1 \<in> {''field'', ''custom_field''} \<and> length (parts ! 0) = 22
         else if sch = ''dl://'' then path_ref r \<and> length parts = 2
         else if sch = ''lpass://'' then
           length parts = 2 \<and> list_all is_ascii_digit (parts ! 0) \<and> parts ! 0 \<noteq> [] \<and> parts ! 1 = ''password''
         else False)"

definition parse_ref :: "string \<Rightarrow> resolve_error + provider" where
  "parse_ref reference =
     (case find (\<lambda>p. starts_with (scheme p) reference) providers of
        None \<Rightarrow> Inl (ref_error None InvalidReference)
      | Some p \<Rightarrow>
          if safe_ref reference \<and> valid_tail (scheme p) (drop (length (scheme p)) reference) then Inr p
          else Inl (ref_error (Some p) InvalidReference))"

section \<open>References and header keys of a server\<close>

definition source_ref :: "jobj \<Rightarrow> resolve_error + string option" where
  "source_ref flds =
     (case map_of flds ''source'' of
        None \<Rightarrow> Inr None
      | Some value \<Rightarrow>
          (case as_object value of
             None \<Rightarrow> Inl (ref_error None InvalidReference)
           | Some obj \<Rightarrow>
               if length obj \<noteq> 1 then Inl (ref_error None InvalidReference)
               else case Option.bind (map_of obj ''ref'') as_str of
                      None \<Rightarrow> Inl (ref_error None InvalidReference)
                    | Some reference \<Rightarrow>
                        (case parse_ref reference of Inl e \<Rightarrow> Inl e | Inr _ \<Rightarrow> Inr (Some reference))))"

record header_key =
  hk_key :: string
  hk_env :: "string option"
  hk_source :: "string option"

definition header_name :: "string \<Rightarrow> bool" where
  "header_name s \<longleftrightarrow> s \<noteq> [] \<and>
     list_all (\<lambda>c. is_ascii_alnum c \<or> c \<in> set ''!#$%&*+-.^_`|~'' \<or> c = CHR 0x27) s"

fun check_headers :: "header_key list \<Rightarrow> resolve_error + unit" where
  "check_headers [] = Inr ()"
| "check_headers (h # hs) =
     (if \<not> header_name (hk_key h) \<or> (case hk_env h of Some e \<Rightarrow> \<not> name_ref e | None \<Rightarrow> False)
      then Inl (ref_error None InvalidReference)
      else case hk_source h of
             None \<Rightarrow> check_headers hs
           | Some r \<Rightarrow> (case parse_ref r of Inl e \<Rightarrow> Inl e | Inr _ \<Rightarrow> check_headers hs))"

definition headers :: "(json \<Rightarrow> header_key list option) \<Rightarrow> jobj \<Rightarrow> resolve_error + header_key list" where
  "headers from_value flds =
     (case (case map_of flds ''headerKeys'' of None \<Rightarrow> Some [] | Some v \<Rightarrow> from_value v) of
        None \<Rightarrow> Inl (ref_error None InvalidReference)
      | Some hs \<Rightarrow> (case check_headers hs of Inl e \<Rightarrow> Inl e | Inr _ \<Rightarrow> Inr hs))"

definition prefix_matches :: "string \<Rightarrow> string \<Rightarrow> bool" where
  "prefix_matches prefix reference =
     (case strip_prefix prefix reference of
        None \<Rightarrow> False
      | Some rest \<Rightarrow> rest = [] \<or> ends_with ''/'' prefix \<or> ends_with '':'' prefix \<or>
          starts_with ''/'' rest \<or> starts_with ''#'' rest)"

section \<open>What an accepted reference can contain\<close>

lemma split_on_cong: "\<forall>c \<in> set s. P c = Q c \<Longrightarrow> split_on P s = split_on Q s"
  by (induction s) (auto split: list.splits)

lemma split_on_append: "P c \<Longrightarrow> split_on P (a @ c # b) = split_on P a @ split_on P b"
  by (induction a) (auto split: list.splits)

lemma split_on_none: "\<forall>c \<in> set s. \<not> P c \<Longrightarrow> split_on P s = [s]"
  by (induction s) auto

lemma split_on_covers: "c \<in> set s \<Longrightarrow> P c \<or> (\<exists>p \<in> set (split_on P s). c \<in> set p)"
proof (induction s)
  case (Cons x s)
  obtain w ws where s: "split_on P s = w # ws" by (cases "split_on P s") auto
  from Cons s show ?case by auto
qed simp

text \<open>A component of a reference as a provider's command line sees it.\<close>

definition plain_component :: "string \<Rightarrow> bool" where
  "plain_component p \<longleftrightarrow> p \<noteq> [] \<and> hd p \<noteq> CHR ''-'' \<and> p \<noteq> ''.'' \<and> p \<noteq> ''..''"

lemma path_component_plain: "path_component p \<Longrightarrow> plain_component p \<and> CHR ''#'' \<notin> set p"
proof
  assume p: "path_component p"
  then show "plain_component p"
    by (cases p) (auto simp: path_component_def plain_component_def str_simps)
  have "\<not> (is_ascii_alnum (CHR ''#'') \<or> CHR ''#'' \<in> set ''_-.{}[]'' \<or> CHR ''#'' = CHR '' '')" by code_simp
  moreover have "list_all (\<lambda>c. is_ascii_alnum c \<or> c \<in> set ''_-.{}[]'' \<or> c = CHR '' '') p"
    using p by (simp only: path_component_def)
  ultimately show "CHR ''#'' \<notin> set p" unfolding list_all_iff by blast
qed

lemma path_ref_plain:
  assumes "path_ref s"
  shows "list_all plain_component (slash_parts s)" and "CHR ''#'' \<notin> set s"
  using assms by (auto simp: path_ref_def list_all_iff list_ex_iff path_component_plain)

lemma uuid_ref_plain:
  assumes "uuid_ref s"
  shows "plain_component s" and "CHR ''#'' \<notin> set s" and "CHR ''/'' \<notin> set s"
proof -
  have len: "length s = 36" using assms by (simp add: uuid_ref_def)
  have rule: "if i \<in> {8, 13, 18, 23} then s ! i = CHR ''-'' else is_ascii_hexdigit (s ! i)" if "i < 36" for i
  proof -
    have "(i, s ! i) \<in> set (enumerate 0 s)" using that len by (simp add: in_set_enumerate_eq)
    with assms show ?thesis unfolding uuid_ref_def list_all_iff by blast
  qed
  have each: "s ! i = CHR ''-'' \<or> is_ascii_hexdigit (s ! i)" if "i < 36" for i
    using rule [OF that] by (auto split: if_splits)
  have hd: "is_ascii_hexdigit (s ! 0)" using rule [of 0] by simp
  from len hd have "hd s \<noteq> CHR ''-''"
    by (cases s) (auto simp: is_ascii_hexdigit_def is_ascii_digit_def)
  with len show "plain_component s" by (auto simp: plain_component_def)
  have "c = CHR ''-'' \<or> is_ascii_hexdigit c" if "c \<in> set s" for c
    using that each len by (auto simp: in_set_conv_nth)
  then show "CHR ''#'' \<notin> set s" and "CHR ''/'' \<notin> set s"
    by (fastforce simp: is_ascii_hexdigit_def is_ascii_digit_def)+
qed

definition ref_components :: "string \<Rightarrow> string list" where
  "ref_components r = split_on (\<lambda>c. c = CHR ''/'' \<or> c = CHR ''#'') r"

lemma ref_components_slash: "CHR ''#'' \<notin> set r \<Longrightarrow> ref_components r = slash_parts r"
  unfolding ref_components_def by (rule split_on_cong) auto

lemma two_parts_no_hash:
  assumes "slash_parts r = [a, b]" and "CHR ''#'' \<notin> set a" and "CHR ''#'' \<notin> set b"
  shows "CHR ''#'' \<notin> set r"
  using split_on_covers [of "CHR ''#''" r "\<lambda>c. c = CHR ''/''"] assms by auto

lemma list_of_two: "length xs = 2 \<Longrightarrow> xs = [xs ! 0, xs ! 1]"
  by (auto simp: numeral_2_eq_2 length_Suc_conv)

lemma password_parts_plain:
  assumes "length (slash_parts r) = 2" and "slash_parts r ! 1 = ''password''"
    and "plain_component (slash_parts r ! 0)" and "CHR ''#'' \<notin> set (slash_parts r ! 0)"
  shows "list_all plain_component (ref_components r)"
proof -
  have parts: "slash_parts r = [slash_parts r ! 0, ''password'']"
    using list_of_two [OF assms(1)] assms(2) by simp
  have "CHR ''#'' \<notin> set r" by (rule two_parts_no_hash [OF parts assms(4)]) simp
  then have "ref_components r = [slash_parts r ! 0, ''password'']"
    using parts by (simp add: ref_components_slash)
  then show ?thesis using assms(3) by (simp add: plain_component_def)
qed

lemma vault_plain:
  assumes "split_once (CHR ''#'') r = Some (loc, field)" and "path_ref loc" and "path_ref field"
    and "CHR ''/'' \<notin> set field"
  shows "list_all plain_component (ref_components r)"
proof -
  obtain c where "dropWhile (\<lambda>c. c \<noteq> CHR ''#'') r = c # field" and loc: "loc = takeWhile (\<lambda>c. c \<noteq> CHR ''#'') r"
    using assms(1) by (auto simp: split_once_def split: list.splits)
  then have "dropWhile (\<lambda>c. c \<noteq> CHR ''#'') r = CHR ''#'' # field"
    using hd_dropWhile [of "\<lambda>c. c \<noteq> CHR ''#''" r] by (metis list.distinct(1) list.sel(1))
  then have r: "r = loc @ CHR ''#'' # field" by (metis loc takeWhile_dropWhile_id)
  have "ref_components r = slash_parts loc @ slash_parts field"
    using path_ref_plain(2) [OF assms(2)] path_ref_plain(2) [OF assms(3)]
    by (simp add: r ref_components_def split_on_append flip: ref_components_slash)
  then show ?thesis using path_ref_plain(1) assms(2,3) by simp
qed

lemma if_chain:
  "(if a then p else if b then q else if c then r else if d then s else if e then t else if f then u
    else if g then v else if h then w else if i then x else if j then y else False) \<Longrightarrow>
   p \<or> q \<or> r \<or> s \<or> t \<or> u \<or> v \<or> w \<or> x \<or> y"
  by (auto split: if_splits)

lemma valid_tail_plain: "valid_tail sch r \<Longrightarrow> list_all plain_component (ref_components r)"
proof -
  assume v: "valid_tail sch r"
  have path: "list_all plain_component (ref_components r)" if "path_ref r"
    using path_ref_plain [OF that] by (simp add: ref_components_slash)
  have uuid: "list_all plain_component (ref_components r)" if "uuid_ref r"
  proof -
    have "ref_components r = [r]"
      unfolding ref_components_def using uuid_ref_plain [OF that] by (intro split_on_none) auto
    with uuid_ref_plain(1) [OF that] show ?thesis by simp
  qed
  have name: "list_all plain_component (ref_components r)" if "name_ref r"
  proof -
    have "\<forall>c \<in> set r. is_ascii_alnum c \<or> c = CHR ''_''"
      using that by (auto simp: name_ref_def is_ascii_alpha_def is_ascii_alnum_def list_all_iff split: list.splits)
    moreover have "list_all (\<lambda>c. \<not> (is_ascii_alnum c \<or> c = CHR ''_'')) ''/#-.''" by code_simp
    ultimately have no: "\<forall>c \<in> set r. c \<noteq> CHR ''/'' \<and> c \<noteq> CHR ''#'' \<and> c \<noteq> CHR ''-'' \<and> c \<noteq> CHR ''.''"
      by auto
    then have "ref_components r = [r]"
      unfolding ref_components_def by (intro split_on_none) auto
    moreover have "\<forall>c \<in> set r. c \<noteq> CHR ''-'' \<and> c \<noteq> CHR ''.''" using no by blast
    moreover have "r \<noteq> []" using that by (auto simp: name_ref_def)
    ultimately show ?thesis by (cases r) (auto simp: plain_component_def)
  qed
  have digits: "plain_component p \<and> CHR ''#'' \<notin> set p" if "list_all is_ascii_digit p" "p \<noteq> []" for p
    using that by (cases p) (auto simp: plain_component_def list_all_iff is_ascii_digit_def)
  have vault: "list_all plain_component (ref_components r)"
    if "case split_once (CHR ''#'') r of
        Some (loc, field) \<Rightarrow> path_ref loc \<and> 2 \<le> length (slash_parts loc) \<and> path_ref field \<and> CHR ''/'' \<notin> set field
      | None \<Rightarrow> False"
    using that vault_plain by (auto split: option.splits)
  from if_chain [OF v [unfolded valid_tail_def Let_def]] show ?thesis
    using path uuid name vault digits [of "slash_parts r ! 0"] password_parts_plain [of r]
      uuid_ref_plain [of "slash_parts r ! 0"] by blast
qed

text \<open>No part of an accepted secret reference can act as an option or a path trick on the command
  line of its provider: the text after the scheme, cut at slashes and at the field mark, has only
  non-empty components that neither start with a dash nor are \<open>.\<close> or \<open>..\<close>; the reference has at most
  512 characters, no surrounding space and no control character, and starts with a scheme of the
  closed table.\<close>

theorem parse_ref_plain:
  assumes "parse_ref reference = Inr p"
  shows "p \<in> set providers \<and> (\<exists>r. reference = scheme p @ r \<and> list_all plain_component (ref_components r)) \<and>
    char_count reference \<le> 512 \<and> trim reference = reference \<and>
    (\<forall>c \<in> set (utf8_chars reference). \<not> is_control c)"
proof -
  have f: "find (\<lambda>p. starts_with (scheme p) reference) providers = Some p"
    and safe: "safe_ref reference" and v: "valid_tail (scheme p) (drop (length (scheme p)) reference)"
    using assms by (auto simp: parse_ref_def split: option.splits if_splits)
  from f have "p \<in> set providers" and "starts_with (scheme p) reference"
    by (auto simp: find_Some_iff)
  then obtain r where r: "reference = scheme p @ r" by (auto simp: str_simps)
  with v have "list_all plain_component (ref_components r)" by (simp add: valid_tail_plain)
  with r \<open>p \<in> set providers\<close> safe show ?thesis by (auto simp: safe_ref_def list_ex_iff)
qed

theorem parse_ref_plain_witness:
  "parse_ref ''vault://secret/docs#token'' = Inr (providers ! 3) \<and>
   ref_components ''secret/docs#token'' = [''secret'', ''docs'', ''token''] \<and>
   trim ''vault://secret/docs#token'' = ''vault://secret/docs#token''"
proof -
  have p: "parse_ref ''vault://secret/docs#token'' = Inr (providers ! 3)" by code_simp
  have c: "ref_components ''secret/docs#token'' = [''secret'', ''docs'', ''token'']" by code_simp
  from parse_ref_plain [OF p] p c show ?thesis by simp
qed

end
