(* ===== verification/NetGuard.thy ===== *)
theory NetGuard
  imports Prelude "HOL-Library.Word"
begin

unbundle bit_operations_syntax

text \<open>
  The guard against requests into the private network (\<open>oauth.rs\<close>): the host of a URL, the
  classification of addresses, and the checks that refuse or grant local trust. Addresses are
  words of 32 and 128 bits. The resolver of the operating system is a parameter; \<open>None\<close> is a
  name that does not resolve. Reading an address from text is the parameter \<open>parse_ip\<close>.
\<close>

section \<open>Addresses\<close>

datatype ip = V4 "32 word" | V6 "128 word"

definition octet0 :: "32 word \<Rightarrow> 8 word" where
  "octet0 w = ucast (drop_bit 24 w)"

definition octet1 :: "32 word \<Rightarrow> 8 word" where
  "octet1 w = ucast (drop_bit 16 w)"

definition segment0 :: "128 word \<Rightarrow> 16 word" where
  "segment0 w = ucast (drop_bit 112 w)"

text \<open>Predicates of Rust's \<open>Ipv4Addr\<close> and \<open>Ipv6Addr\<close>.\<close>

definition v4_is_loopback :: "32 word \<Rightarrow> bool" where
  "v4_is_loopback w \<longleftrightarrow> octet0 w = 127"

definition v4_is_private :: "32 word \<Rightarrow> bool" where
  "v4_is_private w \<longleftrightarrow> octet0 w = 10 \<or> octet0 w = 172 \<and> 16 \<le> octet1 w \<and> octet1 w \<le> 31 \<or>
     octet0 w = 192 \<and> octet1 w = 168"

definition v4_is_link_local :: "32 word \<Rightarrow> bool" where
  "v4_is_link_local w \<longleftrightarrow> octet0 w = 169 \<and> octet1 w = 254"

definition v4_is_unspecified :: "32 word \<Rightarrow> bool" where
  "v4_is_unspecified w \<longleftrightarrow> w = 0"

definition v4_is_broadcast :: "32 word \<Rightarrow> bool" where
  "v4_is_broadcast w \<longleftrightarrow> w = 0xFFFFFFFF"

definition to_ipv4_mapped :: "128 word \<Rightarrow> 32 word option" where
  "to_ipv4_mapped w = (if drop_bit 32 w = 0xFFFF then Some (ucast w) else None)"

definition aws_v6_metadata :: "128 word" where
  "aws_v6_metadata = 0xFD000EC2000000000000000000000254"

fun ip_is_link_local :: "ip \<Rightarrow> bool" where
  "ip_is_link_local (V4 w) = v4_is_link_local w"
| "ip_is_link_local (V6 w) =
     (w = aws_v6_metadata \<or> segment0 w AND 0xFFC0 = 0xFE80 \<or>
      (case to_ipv4_mapped w of Some m \<Rightarrow> v4_is_link_local m | None \<Rightarrow> False))"

definition is_cgnat :: "32 word \<Rightarrow> bool" where
  "is_cgnat w \<longleftrightarrow> octet0 w = 100 \<and> octet1 w AND 0xC0 = 64"

definition ip_reaches_metadata :: "ip \<Rightarrow> bool" where
  "ip_reaches_metadata ip =
     (if ip_is_link_local ip then True
      else case ip of
             V4 w \<Rightarrow> is_cgnat w \<or> octet0 w = 0 \<or> v4_is_broadcast w
           | V6 w \<Rightarrow>
               if w = 0 then True
               else (case to_ipv4_mapped w of
                       None \<Rightarrow> False
                     | Some m \<Rightarrow> is_cgnat m \<or> octet0 m = 0 \<or> v4_is_broadcast m))"

definition v4_blocked :: "32 word \<Rightarrow> bool" where
  "v4_blocked w \<longleftrightarrow> v4_is_loopback w \<or> v4_is_private w \<or> v4_is_link_local w \<or> v4_is_unspecified w \<or>
     v4_is_broadcast w \<or> is_cgnat w"

fun ip_is_private :: "ip \<Rightarrow> bool" where
  "ip_is_private (V4 w) = v4_blocked w"
| "ip_is_private (V6 w) =
     (w = 1 \<or> w = 0 \<or> segment0 w AND 0xFFC0 = 0xFE80 \<or> segment0 w AND 0xFE00 = 0xFC00 \<or>
      (case to_ipv4_mapped w of Some m \<Rightarrow> v4_blocked m | None \<Rightarrow> False))"

section \<open>Hosts\<close>

definition host_of_url :: "string \<Rightarrow> string option" where
  "host_of_url url =
     (case find_str ''://'' url of
        None \<Rightarrow> None
      | Some i \<Rightarrow>
          (let rest = drop (i + 3) url;
               after = (case find_str ''://'' rest of None \<Rightarrow> rest | Some j \<Rightarrow> take j rest);
               authority = takeWhile (\<lambda>c. c \<notin> set ''/?#'') after;
               authority = last (split_on (\<lambda>c. c = CHR ''@'') authority)
           in Some (case strip_prefix ''['' authority of
                      Some r \<Rightarrow> takeWhile (\<lambda>c. c \<noteq> CHR '']'') r
                    | None \<Rightarrow> takeWhile (\<lambda>c. c \<noteq> CHR '':'') authority)))"

type_synonym resolver = "string \<Rightarrow> ip list option"

definition host_is_private_with :: "string \<Rightarrow> resolver \<Rightarrow> bool" where
  "host_is_private_with host resolve =
     (let h = to_ascii_lowercase (trim host)
      in if h = [] \<or> h = ''localhost'' \<or> ends_with ''.localhost'' h then True
         else case resolve h of
                Some ips \<Rightarrow> ips = [] \<or> list_ex ip_is_private ips
              | None \<Rightarrow> True)"

definition host_is_definitely_private_with :: "string \<Rightarrow> resolver \<Rightarrow> bool" where
  "host_is_definitely_private_with host resolve =
     (let h = to_ascii_lowercase (trim host)
      in if h = [] then False
         else if h = ''localhost'' \<or> ends_with ''.localhost'' h then True
         else case resolve h of
                Some ips \<Rightarrow> ips \<noteq> [] \<and> list_all ip_is_private ips
              | None \<Rightarrow> False)"

definition host_is_link_local_with :: "string \<Rightarrow> resolver \<Rightarrow> bool" where
  "host_is_link_local_with host resolve =
     (let h = to_ascii_lowercase (trim host)
      in if h = [] \<or> h = ''localhost'' \<or> ends_with ''.localhost'' h then False
         else case resolve h of
                Some ips \<Rightarrow> list_ex ip_is_link_local ips
              | None \<Rightarrow> False)"

definition trim_brackets :: "string \<Rightarrow> string" where
  "trim_brackets s = rev (dropWhile (\<lambda>c. c \<in> set ''[]'') (rev (dropWhile (\<lambda>c. c \<in> set ''[]'') s)))"

definition host_reaches_metadata :: "(string \<Rightarrow> ip option) \<Rightarrow> string \<Rightarrow> bool" where
  "host_reaches_metadata parse_ip host =
     (let h = trim_brackets host;
          h = (case strip_suffix ''.'' h of Some r \<Rightarrow> r | None \<Rightarrow> h)
      in if eq_ignore_ascii_case h ''metadata.google.internal'' \<or> eq_ignore_ascii_case h ''metadata'' then True
         else case parse_ip h of None \<Rightarrow> False | Some ip \<Rightarrow> ip_reaches_metadata ip)"

text \<open>The error carries the host that was refused.\<close>

definition guard_endpoint :: "resolver \<Rightarrow> string \<Rightarrow> bool \<Rightarrow> string + unit" where
  "guard_endpoint resolve url server_local =
     (if server_local then Inr ()
      else case host_of_url url of
             Some host \<Rightarrow> if host_is_private_with host resolve then Inl host else Inr ()
           | None \<Rightarrow> Inr ())"

section \<open>Address blocks\<close>

text \<open>\<open>in_block base bits n\<close>: the number \<open>n\<close> agrees with \<open>base\<close> above the low \<open>bits\<close> bits.\<close>

definition in_block :: "nat \<Rightarrow> nat \<Rightarrow> nat \<Rightarrow> bool" where
  "in_block base bits n \<longleftrightarrow> n div 2 ^ bits = base div 2 ^ bits"

definition quad :: "nat \<Rightarrow> nat \<Rightarrow> nat \<Rightarrow> nat \<Rightarrow> nat" where
  "quad a b c d = ((a * 256 + b) * 256 + c) * 256 + d"

lemma unat_octets:
  "unat (octet0 w) = unat w div 65536 div 256"
  "unat (octet1 w) = unat w div 65536 mod 256"
proof -
  have "unat w < 2 ^ 32" using unsigned_less [of w, where 'a = nat] by simp
  then have "unat w div 2 ^ 24 < 256" by (simp add: less_mult_imp_div_less)
  then have "unat (octet0 w) = unat w div 2 ^ 24"
    unfolding octet0_def unsigned_ucast_eq unat_drop_bit_eq by (simp add: drop_bit_eq_div take_bit_eq_mod)
  then show "unat (octet0 w) = unat w div 65536 div 256"
    by (simp add: div_mult2_eq [symmetric])
  show "unat (octet1 w) = unat w div 65536 mod 256"
    unfolding octet1_def unsigned_ucast_eq unat_drop_bit_eq by (simp add: drop_bit_eq_div take_bit_eq_mod)
qed

lemma cgnat_mask: "(o1 :: 8 word) AND 0xC0 = 64 \<longleftrightarrow> unat o1 div 64 = 1"
proof -
  have all: "\<forall>n \<in> set [0 ..< 256]. (word_of_nat n :: 8 word) AND 0xC0 = 64 \<longleftrightarrow> n div 64 = 1"
    by code_simp
  have "unat o1 < 256" using unsigned_less [of o1, where 'a = nat] by simp
  then have "unat o1 \<in> set [0 ..< 256]" by simp
  from all [rule_format, OF this] show ?thesis by simp
qed

text \<open>The blocks of private and reserved IPv4 addresses, written as networks.\<close>

definition private_v4_blocks :: "(nat \<times> nat) list" where
  "private_v4_blocks =
     [(quad 0 0 0 0, 0), (quad 10 0 0 0, 24), (quad 100 64 0 0, 22), (quad 127 0 0 0, 24),
      (quad 169 254 0 0, 16), (quad 172 16 0 0, 20), (quad 192 168 0 0, 16), (quad 255 255 255 255, 0)]"

lemma byte_pair:
  fixes x :: nat
  shows "x div 256 = k \<and> x mod 256 = l \<longleftrightarrow> l < 256 \<and> x = k * 256 + l"
    and "x div 256 = k \<and> x mod 256 div 16 = l \<longleftrightarrow> l < 16 \<and> x div 16 = k * 16 + l"
    and "x div 256 = k \<and> x mod 256 div 64 = l \<longleftrightarrow> l < 4 \<and> x div 64 = k * 4 + l"
proof -
  have gen: "y div m = k \<and> y mod m = l \<longleftrightarrow> l < m \<and> y = k * m + l" if "0 < m" for y m :: nat
    using that by auto
  show "x div 256 = k \<and> x mod 256 = l \<longleftrightarrow> l < 256 \<and> x = k * 256 + l" by (rule gen) simp
  have "x mod 256 div 16 = x div 16 mod 16" "x div 16 div 16 = x div 256"
    using mod_mult2_eq [of x 16 16] by (simp_all add: div_mult2_eq [symmetric])
  then show "x div 256 = k \<and> x mod 256 div 16 = l \<longleftrightarrow> l < 16 \<and> x div 16 = k * 16 + l"
    using gen [of 16 "x div 16"] by simp
  have "x mod 256 div 64 = x div 64 mod 4" "x div 64 div 4 = x div 256"
    using mod_mult2_eq [of x 64 4] by (simp_all add: div_mult2_eq [symmetric])
  then show "x div 256 = k \<and> x mod 256 div 64 = l \<longleftrightarrow> l < 4 \<and> x div 64 = k * 4 + l"
    using gen [of 4 "x div 64"] by simp
qed

lemma v4_blocked_iff: "v4_blocked w \<longleftrightarrow> (\<exists>(base, bits) \<in> set private_v4_blocks. in_block base bits (unat w))"
proof -
  define x where "x = unat w div 65536"
  have div: "unat w div 65536 = x" "unat w div 16777216 = x div 256" "unat w div 1048576 = x div 16"
      "unat w div 4194304 = x div 64"
    by (simp_all add: x_def div_mult2_eq [symmetric])
  have o: "unat (octet0 w) = x div 256" "unat (octet1 w) = x mod 256" by (simp_all add: unat_octets x_def)
  have "v4_is_loopback w \<longleftrightarrow> x div 256 = 127"
    by (simp add: v4_is_loopback_def word_unat_eq_iff o)
  moreover have "v4_is_private w \<longleftrightarrow> x div 256 = 10 \<or> x div 16 = 2753 \<or> x = 49320"
  proof -
    have "16 \<le> x mod 256 \<and> x mod 256 \<le> 31 \<longleftrightarrow> x mod 256 div 16 = 1" by arith
    then show ?thesis
      unfolding v4_is_private_def word_unat_eq_iff word_le_nat_alt o
      using byte_pair(1) [of x 192 168] byte_pair(2) [of x 172 1] by auto
  qed
  moreover have "v4_is_link_local w \<longleftrightarrow> x = 43518"
    unfolding v4_is_link_local_def word_unat_eq_iff o using byte_pair(1) [of x 169 254] by simp
  moreover have "is_cgnat w \<longleftrightarrow> x div 64 = 401"
    unfolding is_cgnat_def cgnat_mask unfolding word_unat_eq_iff o using byte_pair(3) [of x 100 1] by simp
  moreover have "v4_is_unspecified w \<longleftrightarrow> unat w = 0" "v4_is_broadcast w \<longleftrightarrow> unat w = 4294967295"
    by (simp_all add: v4_is_unspecified_def v4_is_broadcast_def word_unat_eq_iff)
  moreover have "(\<exists>(base, bits) \<in> set private_v4_blocks. in_block base bits (unat w)) \<longleftrightarrow>
      unat w = 0 \<or> x div 256 = 10 \<or> x div 64 = 401 \<or> x div 256 = 127 \<or> x = 43518 \<or> x div 16 = 2753 \<or>
      x = 49320 \<or> unat w = 4294967295"
    by (simp add: private_v4_blocks_def in_block_def quad_def div)
  ultimately show ?thesis unfolding v4_blocked_def by (simp only:) blast
qed

section \<open>IPv6\<close>

lemma unat_segment0: "unat (segment0 w) = unat w div 2 ^ 112"
proof -
  have "unat w < 2 ^ 128" using unsigned_less [of w, where 'a = nat] by simp
  then have "unat w div 2 ^ 112 < 2 ^ 16" by (simp add: less_mult_imp_div_less)
  then show ?thesis
    unfolding segment0_def unsigned_ucast_eq unat_drop_bit_eq by (simp add: drop_bit_eq_div take_bit_eq_mod)
qed

lemma and_high_mask:
  fixes s :: "16 word"
  assumes "k \<le> 16"
  shows "s AND push_bit k (mask (16 - k)) = push_bit k (drop_bit k s)"
proof (rule bit_word_eqI)
  fix n assume "n < LENGTH(16)"
  then show "bit (s AND push_bit k (mask (16 - k))) n = bit (push_bit k (drop_bit k s)) n"
    using assms by (auto simp: bit_simps)
qed

lemma segment_blocks:
  "segment0 w AND 0xFFC0 = 0xFE80 \<longleftrightarrow> in_block 0xFE800000000000000000000000000000 118 (unat w)"
  "segment0 w AND 0xFE00 = 0xFC00 \<longleftrightarrow> in_block 0xFC000000000000000000000000000000 121 (unat w)"
proof -
  have high: "s AND push_bit k (mask (16 - k)) = push_bit k (word_of_nat v) \<longleftrightarrow> unat s div 2 ^ k = v"
    if k: "k \<le> 16" and v: "v < 2 ^ (16 - k)" for s :: "16 word" and k v
  proof -
    have "v * 2 ^ k < 2 ^ (16 - k) * 2 ^ k" using v by simp
    also have "\<dots> = 2 ^ 16" using k by (simp add: power_add [symmetric])
    finally have v16: "v * 2 ^ k < 2 ^ 16" .
    then have "v < 2 ^ 16" by (metis less_le_trans nat_mult_le_cancel_disj one_le_numeral one_le_power mult.right_neutral not_le)
    have s16: "unat s < 2 ^ 16" using unsigned_less [of s, where 'a = nat] by simp
    have "unat (push_bit k (drop_bit k s)) = unat s div 2 ^ k * 2 ^ k"
      unfolding unsigned_push_bit_eq unat_drop_bit_eq
      using le_less_trans [OF div_times_less_eq_dividend s16, of "2 ^ k"]
      by (simp add: push_bit_eq_mult drop_bit_eq_div take_bit_eq_mod)
    moreover have "unat (push_bit k (word_of_nat v) :: 16 word) = v * 2 ^ k"
      unfolding unsigned_push_bit_eq using v16 \<open>v < 2 ^ 16\<close>
      by (simp add: unat_of_nat push_bit_eq_mult take_bit_eq_mod)
    ultimately show ?thesis
      unfolding and_high_mask [OF k] by (simp add: word_unat_eq_iff)
  qed
  have "segment0 w AND 0xFFC0 = 0xFE80 \<longleftrightarrow> unat (segment0 w) div 2 ^ 6 = 0x3FA"
    using high [of 6 "0x3FA" "segment0 w"] by (simp add: mask_eq_exp_minus_1 push_bit_eq_mult)
  then show "segment0 w AND 0xFFC0 = 0xFE80 \<longleftrightarrow> in_block 0xFE800000000000000000000000000000 118 (unat w)"
    by (simp add: unat_segment0 in_block_def div_mult2_eq [symmetric])
  have "segment0 w AND 0xFE00 = 0xFC00 \<longleftrightarrow> unat (segment0 w) div 2 ^ 9 = 0x7E"
    using high [of 9 "0x7E" "segment0 w"] by (simp add: mask_eq_exp_minus_1 push_bit_eq_mult)
  then show "segment0 w AND 0xFE00 = 0xFC00 \<longleftrightarrow> in_block 0xFC000000000000000000000000000000 121 (unat w)"
    by (simp add: unat_segment0 in_block_def div_mult2_eq [symmetric])
qed

section \<open>What the guard promises\<close>

definition in_v4_blocks :: "nat \<Rightarrow> bool" where
  "in_v4_blocks n \<longleftrightarrow> list_ex (\<lambda>(base, bits). in_block base bits n) private_v4_blocks"

lemma mapped_iff: "to_ipv4_mapped w = Some m \<longleftrightarrow> in_block 0xFFFF00000000 32 (unat w) \<and> unat m = unat w mod 2 ^ 32"
proof -
  have "drop_bit 32 w = 0xFFFF \<longleftrightarrow> unat (drop_bit 32 w) = 0xFFFF" by (simp add: word_unat_eq_iff)
  also have "\<dots> \<longleftrightarrow> in_block 0xFFFF00000000 32 (unat w)"
    unfolding unat_drop_bit_eq by (simp add: in_block_def drop_bit_eq_div)
  finally have b: "drop_bit 32 w = 0xFFFF \<longleftrightarrow> in_block 0xFFFF00000000 32 (unat w)" .
  have "ucast w = m \<longleftrightarrow> unat m = unat w mod 2 ^ 32"
    unfolding word_unat_eq_iff unsigned_ucast_eq by (auto simp: take_bit_eq_mod)
  with b show ?thesis by (auto simp: to_ipv4_mapped_def)
qed

text \<open>The addresses that the guard treats as private are exactly the reserved networks. IPv4:
  \<open>0.0.0.0\<close>, \<open>10/8\<close>, \<open>100.64/10\<close>, \<open>127/8\<close>, \<open>169.254/16\<close>, \<open>172.16/12\<close>, \<open>192.168/16\<close> and the broadcast
  address. IPv6: \<open>::\<close>, \<open>::1\<close>, \<open>fe80::/10\<close>, \<open>fc00::/7\<close> and an IPv4-mapped address whose IPv4 part is in
  one of the IPv4 networks. The octet comparisons and bit masks of the code say nothing else.\<close>

theorem ip_is_private_blocks:
  "ip_is_private ip =
     (case ip of
        V4 w \<Rightarrow> in_v4_blocks (unat w)
      | V6 w \<Rightarrow> unat w = 0 \<or> unat w = 1 \<or> in_block 0xFE800000000000000000000000000000 118 (unat w) \<or>
          in_block 0xFC000000000000000000000000000000 121 (unat w) \<or>
          in_block 0xFFFF00000000 32 (unat w) \<and> in_v4_blocks (unat w mod 2 ^ 32))"
proof (cases ip)
  case (V4 w)
  then show ?thesis by (simp add: v4_blocked_iff in_v4_blocks_def list_ex_iff)
next
  case (V6 w)
  have "(case to_ipv4_mapped w of Some m \<Rightarrow> v4_blocked m | None \<Rightarrow> False) \<longleftrightarrow>
      in_block 0xFFFF00000000 32 (unat w) \<and> in_v4_blocks (unat w mod 2 ^ 32)"
  proof (cases "to_ipv4_mapped w")
    case None
    then have "\<not> in_block 0xFFFF00000000 32 (unat w)"
      using mapped_iff [of w "ucast w"] by (auto simp: unsigned_ucast_eq take_bit_eq_mod)
    with None show ?thesis by simp
  next
    case (Some m)
    with mapped_iff [of w m] show ?thesis by (simp add: v4_blocked_iff in_v4_blocks_def list_ex_iff)
  qed
  moreover have "w = 0 \<longleftrightarrow> unat w = 0" "w = 1 \<longleftrightarrow> unat w = 1" by (simp_all add: word_unat_eq_iff)
  ultimately show ?thesis unfolding V6 ip_is_private.simps segment_blocks ip.case by (simp only: disj_ac)
qed

lemma link_local_private: "ip_is_link_local ip \<Longrightarrow> ip_is_private ip"
proof (cases ip)
  case (V6 w)
  assume "ip_is_link_local ip"
  moreover have "segment0 aws_v6_metadata AND 0xFE00 = 0xFC00" by code_simp
  ultimately show ?thesis using V6 by (auto simp: v4_blocked_def split: option.splits)
qed (simp add: v4_blocked_def)



definition first_octet_zero :: "ip \<Rightarrow> bool" where
  "first_octet_zero ip =
     (case ip of V4 w \<Rightarrow> octet0 w = 0 | V6 w \<Rightarrow> (case to_ipv4_mapped w of Some m \<Rightarrow> octet0 m = 0 | None \<Rightarrow> False))"

text \<open>The addresses refused as metadata targets are private ones or lie in \<open>0/8\<close>; the latter are
  not all private for the guard of OAuth endpoints, so the check for the browser is not narrower
  than that guard: \<open>0.0.0.1\<close> is refused by the first and accepted by the second.\<close>

theorem metadata_not_narrower:
  "(ip_reaches_metadata ip \<longrightarrow> ip_is_private ip \<or> first_octet_zero ip) \<and>
   ip_reaches_metadata (V4 1) \<and> \<not> ip_is_private (V4 1)"
proof -
  have "ip_is_private ip \<or> first_octet_zero ip" if "ip_reaches_metadata ip"
    using that link_local_private [of ip]
    by (cases ip) (auto simp: ip_reaches_metadata_def first_octet_zero_def v4_blocked_def
        split: if_splits option.splits)
  moreover have "ip_reaches_metadata (V4 1) \<and> \<not> ip_is_private (V4 1)" by code_simp
  ultimately show ?thesis by blast
qed

theorem metadata_not_narrower_witness: "ip_is_private (V4 0xA9FEA9FE) \<or> first_octet_zero (V4 0xA9FEA9FE)"
proof -
  have "ip_reaches_metadata (V4 0xA9FEA9FE)" by code_simp
  with metadata_not_narrower [of "V4 0xA9FEA9FE"] show ?thesis by blast
qed

end
