(* ===== verification/ServerEntry.thy ===== *)
theory ServerEntry
  imports SecretRefs NetGuard
begin

text \<open>
  A server of the registry and its launch setup (\<open>registry.rs\<close>, \<open>launch_inputs.rs\<close>): the data, the
  validation of launch inputs and argument bindings, the resolution of the arguments, and the
  consent gate for servers that came from a team.

  Parameters, gathered in \<open>host_env\<close>: the two reads of the key store of the operating system, the
  resolver, \<open>char::is_alphanumeric\<close> (a table of Unicode), the deserialisation of header keys, and
  the screen that \<open>downstream.rs\<close> applies to a command before it is spawned.
\<close>

section \<open>Data\<close>

record env_var =
  ev_key :: string
  ev_value :: "string option"
  ev_secret :: bool
  ev_unknown :: jobj

record launch_input =
  li_key :: string
  li_label :: string
  li_secret :: bool
  li_required :: bool
  li_value :: "string option"
  li_unknown :: jobj

datatype arg_part = Literal string jobj | Input string jobj

record arg_binding =
  ab_index :: nat
  ab_parts :: "arg_part list"
  ab_unknown :: jobj

record launch_config =
  lc_inputs :: "launch_input list"
  lc_bindings :: "arg_binding list"
  lc_required_env :: "string list"
  lc_template :: "string option"
  lc_revision :: "nat option"
  lc_unknown :: jobj

record client_credentials =
  cc_client_id :: string
  cc_auth_method :: "string option"
  cc_scope :: "string option"
  cc_unknown :: jobj

record server_entry =
  s_enabled :: bool
  s_id :: string
  s_name :: string
  s_transport :: string
  s_command :: "string option"
  s_args :: "string list"
  s_launch :: "launch_config option"
  s_env :: "env_var list"
  s_url :: "string option"
  s_cwd :: "string option"
  s_inherit_env :: bool
  s_source :: "string option"
  s_disabled_tools :: "string list"
  s_client_credentials :: "client_credentials option"
  s_request_timeout_ms :: "nat option"
  s_initialize_timeout_ms :: "nat option"
  s_unknown :: jobj

record host_env =
  he_vault :: "string \<Rightarrow> string \<Rightarrow> unit + string option"
  he_secret :: "string \<Rightarrow> string \<Rightarrow> unit + string option"
  he_resolve :: resolver
  he_alnum :: "string \<Rightarrow> bool"
  he_header_keys :: "json \<Rightarrow> header_key list option"
  he_screen :: "string \<Rightarrow> string list \<Rightarrow> bool"

section \<open>Timeouts and credentials\<close>

definition max_timeout_ms :: nat where
  "max_timeout_ms = 24 * 60 * 60 * 1000"

datatype timeout_error = TimeoutZero | TimeoutTooLong

definition validate_request_timeout_ms :: "nat \<Rightarrow> timeout_error + nat" where
  "validate_request_timeout_ms ms =
     (if ms = 0 then Inl TimeoutZero else if max_timeout_ms < ms then Inl TimeoutTooLong else Inr ms)"

definition validate_initialize_timeout_ms :: "nat \<Rightarrow> timeout_error + nat" where
  "validate_initialize_timeout_ms ms =
     (if ms = 0 then Inl TimeoutZero else if max_timeout_ms < ms then Inl TimeoutTooLong else Inr ms)"

definition initialize_timeout :: "server_entry \<Rightarrow> timeout_error + nat option" where
  "initialize_timeout s =
     (case s_initialize_timeout_ms s of
        None \<Rightarrow> Inr None
      | Some ms \<Rightarrow> (case validate_initialize_timeout_ms ms of Inl e \<Rightarrow> Inl e | Inr v \<Rightarrow> Inr (Some v)))"

definition strip_secret_fields :: "client_credentials \<Rightarrow> client_credentials" where
  "strip_secret_fields cc =
     cc\<lparr>cc_unknown := retain (\<lambda>k _. find_str ''secret'' (to_ascii_lowercase k) = None) (cc_unknown cc)\<rparr>"

section \<open>Validation of a launch setup\<close>

datatype launch_error =
    BadInputKeys | BadLabel | SecretNotVaulted string | BadBindingIndex | BadLiteral
  | MissingInput string | UnboundMarker | UnusedInput
  | VaultUnreadable string | NeedsSecret string string | NeedsValue string string
  | SpawnRefused | NeedsEnvSetting string string | NeedsEnvValue string string | BadReference resolve_error

definition launch_marker :: string where
  "launch_marker = ''<launch-input>''"

definition without_values :: "launch_config \<Rightarrow> launch_config" where
  "without_values lc = lc\<lparr>lc_inputs := map (\<lambda>i. i\<lparr>li_value := None\<rparr>) (lc_inputs lc)\<rparr>"

definition input_key_ok :: "string \<Rightarrow> bool" where
  "input_key_ok k \<longleftrightarrow> k \<noteq> [] \<and>
     list_all (\<lambda>b. is_ascii_upper b \<or> is_ascii_digit b \<or> b = CHR ''_'') k \<and> is_ascii_upper (hd k)"

definition label_ok :: "string \<Rightarrow> bool" where
  "label_ok l \<longleftrightarrow> l \<noteq> [] \<and> length l \<le> 80 \<and> \<not> list_ex is_control (utf8_chars l)"

fun check_inputs :: "bool \<Rightarrow> launch_input list \<Rightarrow> string list \<Rightarrow> launch_error + string list" where
  "check_inputs stored [] ks = Inr ks"
| "check_inputs stored (i # rest) ks =
     (if \<not> input_key_ok (li_key i) \<or> li_key i \<in> set ks then Inl BadInputKeys
      else if \<not> label_ok (li_label i) then Inl BadLabel
      else if stored \<and> li_secret i \<and> li_value i \<noteq> None then Inl (SecretNotVaulted (li_label i))
      else check_inputs stored rest (li_key i # ks))"

definition literal_ok :: "host_env \<Rightarrow> string \<Rightarrow> bool" where
  "literal_ok env v \<longleftrightarrow> length v \<le> 32 \<and> \<not> list_ex (\<lambda>c. he_alnum env c \<or> is_control c) (utf8_chars v)"

fun check_parts :: "host_env \<Rightarrow> string list \<Rightarrow> arg_part list \<Rightarrow> string list \<Rightarrow> launch_error + string list" where
  "check_parts env ks [] used = Inr used"
| "check_parts env ks (Literal v u # rest) used =
     (if \<not> literal_ok env v then Inl BadLiteral else check_parts env ks rest used)"
| "check_parts env ks (Input k u # rest) used =
     (if k \<notin> set ks then Inl (MissingInput k) else check_parts env ks rest (k # used))"

fun check_bindings ::
  "host_env \<Rightarrow> string list \<Rightarrow> string list \<Rightarrow> arg_binding list \<Rightarrow> nat list \<Rightarrow> string list \<Rightarrow>
   launch_error + (nat list \<times> string list)" where
  "check_bindings env args ks [] idx used = Inr (idx, used)"
| "check_bindings env args ks (b # rest) idx used =
     (if length args \<le> ab_index b \<or> args ! ab_index b \<noteq> launch_marker \<or> ab_index b \<in> set idx \<or> ab_parts b = []
      then Inl BadBindingIndex
      else case check_parts env ks (ab_parts b) used of
             Inl e \<Rightarrow> Inl e
           | Inr used' \<Rightarrow> check_bindings env args ks rest (ab_index b # idx) used')"

definition validate_launch :: "host_env \<Rightarrow> launch_config \<Rightarrow> string list \<Rightarrow> bool \<Rightarrow> launch_error + unit" where
  "validate_launch env lc args stored =
     (case check_inputs stored (lc_inputs lc) [] of
        Inl e \<Rightarrow> Inl e
      | Inr ks \<Rightarrow>
          (case check_bindings env args ks (lc_bindings lc) [] [] of
             Inl e \<Rightarrow> Inl e
           | Inr (idx, used) \<Rightarrow>
               if list_ex (\<lambda>(i, a). a = launch_marker \<and> i \<notin> set idx) (enumerate 0 args) then Inl UnboundMarker
               else if list_ex (\<lambda>i. li_key i \<notin> set used) (lc_inputs lc) then Inl UnusedInput
               else Inr ()))"

section \<open>Resolving the arguments\<close>

definition nonblank :: "string option \<Rightarrow> string option" where
  "nonblank v = (case v of Some s \<Rightarrow> if trim s = [] then None else Some s | None \<Rightarrow> None)"

definition input_display_name :: "string list \<Rightarrow> launch_config \<Rightarrow> string \<Rightarrow> string" where
  "input_display_name args lc k =
     (let label = (case find (\<lambda>i. li_key i = k) (lc_inputs lc) of Some i \<Rightarrow> li_label i | None \<Rightarrow> k)
      in if \<not> starts_with ''Imported argument'' label then label
         else case find (\<lambda>b. case ab_parts b of [Input k' _] \<Rightarrow> k' = k | _ \<Rightarrow> False) (lc_bindings lc) of
                Some b \<Rightarrow>
                  if 0 < ab_index b \<and> ab_index b - 1 < length args \<and> starts_with ''-'' (args ! (ab_index b - 1))
                  then ''Value for '' @ args ! (ab_index b - 1) @ '' (argument '' @ show_nat (ab_index b + 1) @ '')''
                  else ''Secret argument '' @ show_nat (ab_index b + 1)
              | None \<Rightarrow> label)"

definition resolve_input :: "host_env \<Rightarrow> server_entry \<Rightarrow> launch_config \<Rightarrow> launch_input \<Rightarrow> launch_error + string" where
  "resolve_input env server lc inp =
     (case (if li_secret inp
            then (case li_value inp of
                    Some v \<Rightarrow> Inr (Some v)
                  | None \<Rightarrow> (case he_vault env (s_id server) (li_key inp) of
                               Inl _ \<Rightarrow> Inl (VaultUnreadable (li_label inp)) | Inr r \<Rightarrow> Inr r))
            else Inr (li_value inp)) of
        Inl e \<Rightarrow> Inl e
      | Inr v \<Rightarrow>
          (case nonblank v of
             Some s \<Rightarrow> Inr s
           | None \<Rightarrow>
               if li_required inp \<and> li_secret inp
               then Inl (NeedsSecret (s_name server) (input_display_name (s_args server) lc (li_key inp)))
               else if li_required inp then Inl (NeedsValue (s_name server) (li_label inp))
               else Inr []))"

fun resolve_parts ::
  "host_env \<Rightarrow> server_entry \<Rightarrow> launch_config \<Rightarrow> arg_part list \<Rightarrow> string \<Rightarrow> string list \<Rightarrow>
   launch_error + (string \<times> string list)" where
  "resolve_parts env server lc [] value sensitive = Inr (value, sensitive)"
| "resolve_parts env server lc (Literal l u # rest) value sensitive =
     resolve_parts env server lc rest (value @ l) sensitive"
| "resolve_parts env server lc (Input k u # rest) value sensitive =
     (case find (\<lambda>i. li_key i = k) (lc_inputs lc) of
        None \<Rightarrow> Inl (MissingInput k)
      | Some inp \<Rightarrow>
          (case resolve_input env server lc inp of
             Inl e \<Rightarrow> Inl e
           | Inr r \<Rightarrow> resolve_parts env server lc rest (value @ r) (sensitive @ [r])))"

text \<open>\<open>args[binding.index] = value\<close> panics out of range; validation excludes that, which is shown
  below, so the model keeps the update of the list.\<close>

fun resolve_bindings ::
  "host_env \<Rightarrow> server_entry \<Rightarrow> launch_config \<Rightarrow> arg_binding list \<Rightarrow> string list \<Rightarrow> string list \<Rightarrow>
   launch_error + (string list \<times> string list)" where
  "resolve_bindings env server lc [] args sensitive = Inr (args, sensitive)"
| "resolve_bindings env server lc (b # rest) args sensitive =
     (case resolve_parts env server lc (ab_parts b) [] sensitive of
        Inl e \<Rightarrow> Inl e
      | Inr (value, sens) \<Rightarrow> resolve_bindings env server lc rest (args[ab_index b := value]) (sens @ [value]))"

record resolved_args =
  ra_args :: "string list"
  ra_sensitive :: "string list"
  ra_has_binding :: bool

definition resolve_args_with :: "host_env \<Rightarrow> server_entry \<Rightarrow> launch_error + resolved_args" where
  "resolve_args_with env server =
     (case s_launch server of
        None \<Rightarrow> Inr \<lparr>ra_args = s_args server, ra_sensitive = [], ra_has_binding = list_ex ev_secret (s_env server)\<rparr>
      | Some lc \<Rightarrow>
          (case validate_launch env lc (s_args server) False of
             Inl e \<Rightarrow> Inl e
           | Inr _ \<Rightarrow>
               (case resolve_bindings env server lc (lc_bindings lc) (s_args server) [] of
                  Inl e \<Rightarrow> Inl e
                | Inr (args, sensitive) \<Rightarrow>
                    if (case s_command server of Some c \<Rightarrow> \<not> he_screen env c args | None \<Rightarrow> False)
                    then Inl SpawnRefused
                    else Inr \<lparr>ra_args = args, ra_sensitive = sensitive,
                           ra_has_binding = (lc_bindings lc \<noteq> [] \<or> list_ex ev_secret (s_env server))\<rparr>)))"

fun check_required_env :: "host_env \<Rightarrow> server_entry \<Rightarrow> string list \<Rightarrow> launch_error + unit" where
  "check_required_env env server [] = Inr ()"
| "check_required_env env server (k # ks) =
     (case find (\<lambda>e. ev_key e = k) (s_env server) of
        None \<Rightarrow> Inl (NeedsEnvSetting (s_name server) k)
      | Some e \<Rightarrow>
          (case (case ev_value e of
                   Some v \<Rightarrow> Inr (trim v \<noteq> [])
                 | None \<Rightarrow>
                     if ev_secret e
                     then (case he_secret env (s_id server) k of
                             Inl _ \<Rightarrow> Inl (VaultUnreadable k)
                           | Inr r \<Rightarrow> Inr (case r of Some v \<Rightarrow> trim v \<noteq> [] | None \<Rightarrow> False))
                     else Inr False) of
             Inl er \<Rightarrow> Inl er
           | Inr present \<Rightarrow>
               if present then check_required_env env server ks else Inl (NeedsEnvValue (s_name server) k)))"

definition resolve_args :: "host_env \<Rightarrow> server_entry \<Rightarrow> launch_error + resolved_args" where
  "resolve_args env server =
     (case resolve_args_with env server of
        Inl e \<Rightarrow> Inl e
      | Inr r \<Rightarrow>
          (case s_launch server of
             None \<Rightarrow> Inr r
           | Some lc \<Rightarrow>
               (case check_required_env env server (lc_required_env lc) of Inl e \<Rightarrow> Inl e | Inr _ \<Rightarrow> Inr r)))"

fun stage_inputs :: "launch_input list \<Rightarrow> launch_error + launch_input list" where
  "stage_inputs [] = Inr []"
| "stage_inputs (i # rest) =
     (case source_ref (li_unknown i) of
        Inl e \<Rightarrow> Inl (BadReference e)
      | Inr src \<Rightarrow>
          (case stage_inputs rest of
             Inl e \<Rightarrow> Inl e
           | Inr is \<Rightarrow> Inr ((if src \<noteq> None then i\<lparr>li_value := Some ''<reference>''\<rparr> else i) # is)))"

definition check_ready_for_enable :: "host_env \<Rightarrow> server_entry \<Rightarrow> launch_error + unit" where
  "check_ready_for_enable env server =
     (case (case s_launch server of
              None \<Rightarrow> Inr server
            | Some lc \<Rightarrow>
                (case stage_inputs (lc_inputs lc) of
                   Inl e \<Rightarrow> Inl e
                 | Inr is \<Rightarrow> Inr (server\<lparr>s_launch := Some (lc\<lparr>lc_inputs := is\<rparr>)\<rparr>))) of
        Inl e \<Rightarrow> Inl e
      | Inr staged \<Rightarrow> (case resolve_args env staged of Inl e \<Rightarrow> Inl e | Inr _ \<Rightarrow> Inr ()))"

section \<open>Consent for servers of a team\<close>

definition is_shared :: "server_entry \<Rightarrow> bool" where
  "is_shared server = (case s_source server of Some s \<Rightarrow> starts_with ''team:'' s \<or> s = ''shared'' | None \<Rightarrow> False)"

definition has_references :: "host_env \<Rightarrow> server_entry \<Rightarrow> bool" where
  "has_references env server \<longleftrightarrow>
     list_ex (\<lambda>e. map_of (ev_unknown e) ''source'' \<noteq> None) (s_env server) \<or>
     (case s_launch server of
        Some lc \<Rightarrow> list_ex (\<lambda>i. map_of (li_unknown i) ''source'' \<noteq> None) (lc_inputs lc) | None \<Rightarrow> False) \<or>
     (case headers (he_header_keys env) (s_unknown server) of
        Inr hs \<Rightarrow> list_ex (\<lambda>h. hk_source h \<noteq> None) hs | Inl _ \<Rightarrow> False)"

definition flag_set :: "string \<Rightarrow> jobj \<Rightarrow> bool" where
  "flag_set k flds \<longleftrightarrow> map_of flds k = Some (JBool True)"

definition require_team_enable_review :: "server_entry \<Rightarrow> server_entry" where
  "require_team_enable_review s = s\<lparr>s_unknown := obj_insert ''teamEnableReview'' (JBool True) (s_unknown s)\<rparr>"

definition needs_team_enable_review :: "host_env \<Rightarrow> server_entry \<Rightarrow> bool" where
  "needs_team_enable_review env s =
     (if is_shared s \<and> has_references env s then True
      else if flag_set ''personalSyncEntry'' (s_unknown s) then flag_set ''teamEnableReview'' (s_unknown s)
      else case s_source s of
             None \<Rightarrow> False
           | Some src \<Rightarrow>
               if \<not> starts_with ''team:'' src then False
               else if flag_set ''teamEnableReview'' (s_unknown s) then True
               else if s_transport s = ''stdio'' \<or> s_command s \<noteq> None then True
               else (case Option.bind (s_url s) host_of_url of
                       Some host \<Rightarrow> host_is_private_with host (he_resolve env)
                     | None \<Rightarrow> False))"

definition check_enable_allowed :: "host_env \<Rightarrow> server_entry \<Rightarrow> bool \<Rightarrow> bool" where
  "check_enable_allowed env s reviewed = (\<not> (\<not> reviewed \<and> needs_team_enable_review env s))"

section \<open>What validation accepts\<close>

fun part_ok :: "host_env \<Rightarrow> string list \<Rightarrow> arg_part \<Rightarrow> bool" where
  "part_ok env ks (Literal v u) = literal_ok env v"
| "part_ok env ks (Input k u) = (k \<in> set ks)"

fun part_key :: "arg_part \<Rightarrow> string list" where
  "part_key (Literal v u) = []"
| "part_key (Input k u) = [k]"

abbreviation part_keys :: "arg_part list \<Rightarrow> string list" where
  "part_keys ps \<equiv> concat (map part_key ps)"

definition input_ok :: "bool \<Rightarrow> launch_input \<Rightarrow> bool" where
  "input_ok stored i \<longleftrightarrow> input_key_ok (li_key i) \<and> label_ok (li_label i) \<and>
     \<not> (stored \<and> li_secret i \<and> li_value i \<noteq> None)"

definition binding_ok :: "host_env \<Rightarrow> string list \<Rightarrow> string list \<Rightarrow> arg_binding \<Rightarrow> bool" where
  "binding_ok env args ks b \<longleftrightarrow> ab_index b < length args \<and> args ! ab_index b = launch_marker \<and>
     ab_parts b \<noteq> [] \<and> list_all (part_ok env ks) (ab_parts b)"

text \<open>A launch setup is well formed for an argument vector.\<close>

definition launch_wf :: "host_env \<Rightarrow> launch_config \<Rightarrow> string list \<Rightarrow> bool \<Rightarrow> bool" where
  "launch_wf env lc args stored \<longleftrightarrow>
     list_all (input_ok stored) (lc_inputs lc) \<and> distinct (map li_key (lc_inputs lc)) \<and>
     list_all (binding_ok env args (map li_key (lc_inputs lc))) (lc_bindings lc) \<and>
     distinct (map ab_index (lc_bindings lc)) \<and>
     (\<forall>i < length args. args ! i = launch_marker \<longrightarrow> i \<in> set (map ab_index (lc_bindings lc))) \<and>
     set (map li_key (lc_inputs lc)) \<subseteq> set (part_keys (concat (map ab_parts (lc_bindings lc))))"

lemma check_inputs_iff:
  "check_inputs stored is ks = Inr ks' \<longleftrightarrow>
     list_all (input_ok stored) is \<and> distinct (map li_key is) \<and> set (map li_key is) \<inter> set ks = {} \<and>
     ks' = rev (map li_key is) @ ks"
  by (induction stored "is" ks rule: check_inputs.induct) (auto simp: input_ok_def)

lemma check_parts_iff:
  "check_parts env ks ps used = Inr used' \<longleftrightarrow> list_all (part_ok env ks) ps \<and> used' = rev (part_keys ps) @ used"
  by (induction env ks ps used rule: check_parts.induct) auto

lemma check_bindings_iff:
  "check_bindings env args ks bs idx used = Inr (idx', used') \<longleftrightarrow>
     list_all (binding_ok env args ks) bs \<and> distinct (map ab_index bs) \<and> set (map ab_index bs) \<inter> set idx = {} \<and>
     idx' = rev (map ab_index bs) @ idx \<and> used' = rev (part_keys (concat (map ab_parts bs))) @ used"
proof (induction env args ks bs idx used rule: check_bindings.induct)
  case (2 env args ks b rest idx used)
  show ?case
  proof (cases "length args \<le> ab_index b \<or> args ! ab_index b \<noteq> launch_marker \<or> ab_index b \<in> set idx \<or> ab_parts b = []")
    case True
    then show ?thesis by (auto simp: binding_ok_def)
  next
    case False
    show ?thesis
    proof (cases "check_parts env ks (ab_parts b) used")
      case (Inl e)
      then have "\<not> list_all (part_ok env ks) (ab_parts b)"
        using check_parts_iff [of env ks "ab_parts b" used "rev (part_keys (ab_parts b)) @ used"] by auto
      with Inl False show ?thesis by (simp add: binding_ok_def)
    next
      case (Inr used1)
      with False have b: "binding_ok env args ks b" and u: "used1 = rev (part_keys (ab_parts b)) @ used"
        by (auto simp: check_parts_iff binding_ok_def)
      from 2(1) [OF False Inr] Inr False b show ?thesis by (auto simp: u)
    qed
  qed
qed auto

lemma part_ok_cong: "set ks = set ks' \<Longrightarrow> part_ok env ks = part_ok env ks'"
  by (rule ext, rename_tac p, case_tac p) auto

lemma binding_ok_cong: "set ks = set ks' \<Longrightarrow> binding_ok env args ks = binding_ok env args ks'"
  by (intro ext) (simp add: binding_ok_def part_ok_cong [of ks ks' env])

lemma validate_launch_wf: "validate_launch env lc args stored = Inr () \<longleftrightarrow> launch_wf env lc args stored"
proof -
  let ?ks = "rev (map li_key (lc_inputs lc))"
  let ?idx = "rev (map ab_index (lc_bindings lc))" and ?used = "rev (part_keys (concat (map ab_parts (lc_bindings lc))))"
  have ok: "binding_ok env args ?ks = binding_ok env args (map li_key (lc_inputs lc))"
    by (rule binding_ok_cong) simp
  have mark: "list_ex (\<lambda>(i, a). a = launch_marker \<and> i \<notin> set ?idx) (enumerate 0 args) \<longleftrightarrow>
      \<not> (\<forall>i < length args. args ! i = launch_marker \<longrightarrow> i \<in> set (map ab_index (lc_bindings lc)))"
    by (auto simp: list_ex_iff in_set_enumerate_eq)
  have used: "list_ex (\<lambda>i. li_key i \<notin> set ?used) (lc_inputs lc) \<longleftrightarrow>
      \<not> set (map li_key (lc_inputs lc)) \<subseteq> set (part_keys (concat (map ab_parts (lc_bindings lc))))"
    by (auto simp: list_ex_iff)
  have "validate_launch env lc args stored = Inr () \<longleftrightarrow>
      check_inputs stored (lc_inputs lc) [] = Inr ?ks \<and>
      check_bindings env args ?ks (lc_bindings lc) [] [] = Inr (?idx, ?used) \<and>
      \<not> list_ex (\<lambda>(i, a). a = launch_marker \<and> i \<notin> set ?idx) (enumerate 0 args) \<and>
      \<not> list_ex (\<lambda>i. li_key i \<notin> set ?used) (lc_inputs lc)"
  proof (cases "check_inputs stored (lc_inputs lc) []")
    case (Inl e)
    then show ?thesis by (simp add: validate_launch_def)
  next
    case (Inr ks)
    then have ks: "ks = ?ks" by (simp add: check_inputs_iff)
    show ?thesis
    proof (cases "check_bindings env args ?ks (lc_bindings lc) [] []")
      case (Inl e)
      with Inr ks show ?thesis by (simp add: validate_launch_def)
    next
      case (Inr res)
      then have "res = (?idx, ?used)" by (cases res) (simp add: check_bindings_iff)
      with Inr \<open>check_inputs stored (lc_inputs lc) [] = Inr ks\<close> ks show ?thesis
        by (simp only: validate_launch_def sum.case prod.case) simp
    qed
  qed
  then show ?thesis
    unfolding mark used by (auto simp: launch_wf_def check_inputs_iff check_bindings_iff ok)
qed

text \<open>The validation of a launch setup accepts exactly the well-formed ones: input keys in the
  grammar of names and distinct, labels of 1 to 80 bytes without control characters, no stored
  secret value, every binding at a distinct marker of the argument vector with punctuation-only
  literals and declared inputs, every marker bound, and every input used.\<close>

theorem validate_launch_iff: "(validate_launch env lc args stored = Inr ()) = launch_wf env lc args stored"
  by (rule validate_launch_wf)

section \<open>What resolution returns\<close>

definition input_value :: "host_env \<Rightarrow> server_entry \<Rightarrow> launch_config \<Rightarrow> string \<Rightarrow> string" where
  "input_value env server lc k =
     (case find (\<lambda>i. li_key i = k) (lc_inputs lc) of
        Some inp \<Rightarrow> (case resolve_input env server lc inp of Inr v \<Rightarrow> v | Inl _ \<Rightarrow> [])
      | None \<Rightarrow> [])"

fun part_text :: "host_env \<Rightarrow> server_entry \<Rightarrow> launch_config \<Rightarrow> arg_part \<Rightarrow> string" where
  "part_text env server lc (Literal l u) = l"
| "part_text env server lc (Input k u) = input_value env server lc k"

lemma resolve_parts_text:
  "resolve_parts env server lc ps vl sens = Inr (v, sens') \<Longrightarrow>
     v = vl @ concat (map (part_text env server lc) ps) \<and>
     (\<forall>k \<in> set (part_keys ps). \<exists>inp t. find (\<lambda>i. li_key i = k) (lc_inputs lc) = Some inp \<and>
        resolve_input env server lc inp = Inr t)"
  by (induction env server lc ps vl sens rule: resolve_parts.induct)
     (auto simp: input_value_def split: option.splits sum.splits)

lemma resolve_bindings_text:
  assumes "resolve_bindings env server lc bs args sens = Inr (args', sens')"
    and "distinct (map ab_index bs)" and "\<forall>b \<in> set bs. ab_index b < length args"
  shows "length args' = length args \<and>
    (\<forall>i < length args. i \<notin> set (map ab_index bs) \<longrightarrow> args' ! i = args ! i) \<and>
    (\<forall>b \<in> set bs. args' ! ab_index b = concat (map (part_text env server lc) (ab_parts b))) \<and>
    (\<forall>b \<in> set bs. \<forall>k \<in> set (part_keys (ab_parts b)). \<exists>inp t.
       find (\<lambda>i. li_key i = k) (lc_inputs lc) = Some inp \<and> resolve_input env server lc inp = Inr t)"
  using assms
proof (induction bs arbitrary: args sens)
  case (Cons b bs)
  then obtain vl sens1 where
      parts: "resolve_parts env server lc (ab_parts b) [] sens = Inr (vl, sens1)"
    and rest: "resolve_bindings env server lc bs (args[ab_index b := vl]) (sens1 @ [vl]) = Inr (args', sens')"
    by (auto split: sum.splits)
  note ih = Cons.IH [OF rest] and ptx = resolve_parts_text [OF parts]
  have "\<forall>i < length args. i \<notin> set (map ab_index bs) \<longrightarrow> args' ! i = args[ab_index b := vl] ! i"
    using ih Cons.prems(2,3) by auto
  with ih ptx Cons.prems(2,3) show ?case by (auto simp: nth_list_update)
qed simp

lemma resolve_input_required: "resolve_input env server lc inp = Inr t \<Longrightarrow> li_required inp \<Longrightarrow> trim t \<noteq> []"
  by (auto simp: resolve_input_def nonblank_def split: sum.splits option.splits if_splits)

lemma find_distinct_key:
  "distinct (map li_key is) \<Longrightarrow> i \<in> set is \<Longrightarrow> find (\<lambda>j. li_key j = li_key i) is = Some i"
  by (induction "is") auto

text \<open>When the arguments of a server with a launch setup resolve, each argument that was a marker
  is replaced by the texts of the parts of its binding, in order, and no marker position is left as
  it was; every other argument is unchanged, every required input has a value that is not blank, and
  a command was screened together with exactly the arguments that are returned.\<close>

theorem launch_args_resolved:
  assumes "resolve_args_with env server = Inr r" and "s_launch server = Some lc"
  shows "length (ra_args r) = length (s_args server) \<and>
    (\<forall>i < length (s_args server).
       if s_args server ! i = launch_marker
       then \<exists>b \<in> set (lc_bindings lc). ab_index b = i \<and>
              ra_args r ! i = concat (map (part_text env server lc) (ab_parts b))
       else ra_args r ! i = s_args server ! i) \<and>
    (\<forall>inp \<in> set (lc_inputs lc). li_required inp \<longrightarrow> trim (input_value env server lc (li_key inp)) \<noteq> []) \<and>
    (\<forall>c. s_command server = Some c \<longrightarrow> he_screen env c (ra_args r))"
proof -
  obtain args sens where v: "validate_launch env lc (s_args server) False = Inr ()"
      and b: "resolve_bindings env server lc (lc_bindings lc) (s_args server) [] = Inr (args, sens)"
      and screen: "\<forall>c. s_command server = Some c \<longrightarrow> he_screen env c args" and r: "ra_args r = args"
    using assms by (auto simp: resolve_args_with_def split: sum.splits if_splits option.splits)
  from v have wf: "launch_wf env lc (s_args server) False" by (simp add: validate_launch_wf)
  have range: "\<forall>b \<in> set (lc_bindings lc). ab_index b < length (s_args server) \<and> s_args server ! ab_index b = launch_marker"
    using wf by (auto simp: launch_wf_def list_all_iff binding_ok_def)
  have res: "length args = length (s_args server) \<and>
      (\<forall>i < length (s_args server). i \<notin> set (map ab_index (lc_bindings lc)) \<longrightarrow> args ! i = s_args server ! i) \<and>
      (\<forall>b \<in> set (lc_bindings lc). args ! ab_index b = concat (map (part_text env server lc) (ab_parts b))) \<and>
      (\<forall>b \<in> set (lc_bindings lc). \<forall>k \<in> set (part_keys (ab_parts b)). \<exists>inp t.
         find (\<lambda>i. li_key i = k) (lc_inputs lc) = Some inp \<and> resolve_input env server lc inp = Inr t)"
    using wf range by (intro resolve_bindings_text [OF b]) (auto simp: launch_wf_def)
  have pos: "if s_args server ! i = launch_marker
       then \<exists>b \<in> set (lc_bindings lc). ab_index b = i \<and> args ! i = concat (map (part_text env server lc) (ab_parts b))
       else args ! i = s_args server ! i" if i: "i < length (s_args server)" for i
  proof (cases "s_args server ! i = launch_marker")
    case True
    with wf i obtain b where "b \<in> set (lc_bindings lc)" "ab_index b = i" by (auto simp: launch_wf_def)
    with res True show ?thesis by auto
  next
    case False
    with range have "i \<notin> set (map ab_index (lc_bindings lc))" by auto
    with res i False show ?thesis by simp
  qed
  have req: "trim (input_value env server lc (li_key inp)) \<noteq> []" if "inp \<in> set (lc_inputs lc)" "li_required inp" for inp
  proof -
    have "li_key inp \<in> set (part_keys (concat (map ab_parts (lc_bindings lc))))"
      using wf that(1) unfolding launch_wf_def by (metis imageI list.set_map subsetD)
    then obtain b where "b \<in> set (lc_bindings lc)" "li_key inp \<in> set (part_keys (ab_parts b))" by auto
    with res obtain inp' t where f: "find (\<lambda>i. li_key i = li_key inp) (lc_inputs lc) = Some inp'"
        and t: "resolve_input env server lc inp' = Inr t" by blast
    moreover have "inp' = inp" using f find_distinct_key [OF _ that(1)] wf by (simp add: launch_wf_def)
    ultimately show ?thesis using resolve_input_required [OF _ that(2)] by (simp add: input_value_def)
  qed
  from res pos req screen show ?thesis by (simp add: r)
qed

definition sample_host :: host_env where
  "sample_host = \<lparr>he_vault = (\<lambda>_ _. Inr (Some ''k3y'')), he_secret = (\<lambda>_ _. Inr None), he_resolve = (\<lambda>_. None),
     he_alnum = (\<lambda>c. case c of [b] \<Rightarrow> is_ascii_alnum b | _ \<Rightarrow> False), he_header_keys = (\<lambda>_. None), he_screen = (\<lambda>_ _. True)\<rparr>"

definition sample_launch :: launch_config where
  "sample_launch = \<lparr>lc_inputs =
       [\<lparr>li_key = ''SID'', li_label = ''Account'', li_secret = False, li_required = True, li_value = Some ''AC1'', li_unknown = []\<rparr>,
        \<lparr>li_key = ''KEY'', li_label = ''Secret'', li_secret = True, li_required = True, li_value = None, li_unknown = []\<rparr>],
     lc_bindings = [\<lparr>ab_index = 1, ab_parts = [Input ''SID'' [], Literal ''/'' [], Input ''KEY'' []], ab_unknown = []\<rparr>],
     lc_required_env = [], lc_template = None, lc_revision = None, lc_unknown = []\<rparr>"

definition sample_server :: server_entry where
  "sample_server = \<lparr>s_enabled = False, s_id = ''tw'', s_name = ''Twilio'', s_transport = ''stdio'', s_command = Some ''npx'',
     s_args = [''-y'', ''<launch-input>''], s_launch = Some sample_launch, s_env = [], s_url = None, s_cwd = None,
     s_inherit_env = False, s_source = None, s_disabled_tools = [], s_client_credentials = None,
     s_request_timeout_ms = None, s_initialize_timeout_ms = None, s_unknown = []\<rparr>"

theorem launch_args_resolved_witness:
  "\<exists>r. resolve_args_with sample_host sample_server = Inr r \<and> ra_args r = [''-y'', ''AC1/k3y''] \<and>
     length (ra_args r) = length (s_args sample_server)"
proof -
  have r: "resolve_args_with sample_host sample_server =
      Inr \<lparr>ra_args = [''-y'', ''AC1/k3y''], ra_sensitive = [''AC1'', ''k3y'', ''AC1/k3y''], ra_has_binding = True\<rparr>"
    by code_simp
  have "s_launch sample_server = Some sample_launch" by (simp add: sample_server_def)
  from launch_args_resolved [OF r this] r show ?thesis by auto
qed

end
