(* ===== verification/RegistryIds.thy ===== *)
theory RegistryIds
  imports ToolNames
begin

text \<open>
  Identifiers, hashes and paths of the registry (\<open>registry.rs\<close>): slugs, the collision test of ids
  and the search for a free id, constant-time comparison, and the prefix test on paths that routes
  a folder to a profile. The platform switch \<open>cfg!(windows)\<close> is an argument.
\<close>

section \<open>Slugs and ids\<close>

fun slug_loop :: "string list \<Rightarrow> string \<Rightarrow> bool \<Rightarrow> string" where
  "slug_loop [] out prev_dash = out"
| "slug_loop (c # cs) out prev_dash =
     (case c of
        [b] \<Rightarrow>
          if is_ascii_alnum b then slug_loop cs (out @ [to_lower_byte b]) False
          else if out \<noteq> [] \<and> \<not> prev_dash then slug_loop cs (out @ ''-'') True
          else slug_loop cs out prev_dash
      | _ \<Rightarrow>
          if out \<noteq> [] \<and> \<not> prev_dash then slug_loop cs (out @ ''-'') True else slug_loop cs out prev_dash)"

definition trim_dashes :: "string \<Rightarrow> string" where
  "trim_dashes s = rev (dropWhile (\<lambda>c. c = CHR ''-'') (rev (dropWhile (\<lambda>c. c = CHR ''-'') s)))"

definition slugify :: "string \<Rightarrow> string" where
  "slugify s = trim_dashes (slug_loop (utf8_chars s) [] False)"

definition ids_collide :: "string \<Rightarrow> string \<Rightarrow> bool" where
  "ids_collide a b \<longleftrightarrow> eq_ignore_ascii_case (sanitize_segment a) (sanitize_segment b)"

text \<open>The key on which two ids collide.\<close>

definition id_key :: "string \<Rightarrow> string" where
  "id_key s = to_ascii_lowercase (sanitize_segment s)"

lemma ids_collide_key: "ids_collide a b \<longleftrightarrow> id_key a = id_key b"
  by (simp add: ids_collide_def id_key_def eq_ignore_ascii_case_def)

definition id_taken :: "string list \<Rightarrow> string \<Rightarrow> bool" where
  "id_taken existing candidate = list_ex (\<lambda>e. ids_collide e candidate) existing"

lemma id_taken_key: "id_taken existing c \<longleftrightarrow> id_key c \<in> id_key ` set existing"
  unfolding id_taken_def list_ex_iff ids_collide_key image_iff by metis

text \<open>Digits after a dash keep their spelling under the collision key.\<close>

lemma utf8_chars_append_ascii:
  "\<not> is_cont c \<Longrightarrow> utf8_chars (s @ c # t) = utf8_chars s @ utf8_chars (c # t)"
proof (induction s rule: utf8_chars.induct)
  case (2 b bs)
  then have "takeWhile is_cont (bs @ c # t) = takeWhile is_cont bs"
    and "dropWhile is_cont (bs @ c # t) = dropWhile is_cont bs @ c # t"
    by (auto simp: takeWhile_tail dropWhile_append)
  with 2 show ?case by (simp del: utf8_chars.simps(2) add: utf8_chars.simps(2) [of b])
qed simp

lemma sanitize_append:
  "\<not> is_cont c \<Longrightarrow> sanitize_segment (s @ c # t) = sanitize_segment s @ sanitize_segment (c # t)"
  by (simp add: sanitize_segment_def utf8_chars_append_ascii)

lemma sanitize_digits: "\<forall>c \<in> set d. is_ascii_digit c \<Longrightarrow> sanitize_segment d = d"
proof (induction d)
  case (Cons c d)
  have cont: "\<not> is_cont x" if "is_ascii_digit x" for x
    using that by (simp add: is_cont_def is_ascii_digit_def)
  have "takeWhile is_cont d = []" using Cons.prems cont by (cases d) auto
  then have "sanitize_segment (c # d) = sanitize_char [c] # sanitize_segment d"
    by (simp add: sanitize_segment_def dropWhile_eq_self_iff) (metis append_Nil takeWhile_dropWhile_id)
  with Cons show ?case by (simp add: sanitize_char_def name_char_def is_ascii_alnum_def)
qed (simp add: sanitize_segment_def)

lemma lower_digits: "\<forall>c \<in> set d. is_ascii_digit c \<Longrightarrow> to_ascii_lowercase d = d"
  by (induction d) (auto simp: to_ascii_lowercase_def to_lower_byte_def is_ascii_digit_def is_ascii_upper_def)

lemma sanitize_dash_digits:
  assumes "\<forall>c \<in> set d. is_ascii_digit c"
  shows "sanitize_segment (CHR ''-'' # d) = CHR ''_'' # d"
proof (cases d)
  case Nil
  then show ?thesis
    by (simp add: sanitize_segment_def sanitize_char_def name_char_def is_ascii_alnum_def is_ascii_upper_def
        is_ascii_lower_def is_ascii_digit_def)
next
  case (Cons x xs)
  have "sanitize_segment ([CHR ''-''] @ x # xs) = sanitize_segment [CHR ''-''] @ sanitize_segment (x # xs)"
    using assms Cons by (intro sanitize_append) (simp add: is_cont_def is_ascii_digit_def)
  moreover have "sanitize_segment [CHR ''-''] = ''_''" by code_simp
  ultimately show ?thesis using assms Cons sanitize_digits by simp
qed

lemma id_key_suffix: "id_key (base @ ''-'' @ show_nat n) = id_key base @ ''_'' @ show_nat n"
proof -
  have d: "\<forall>c \<in> set (show_nat n). is_ascii_digit c" by (simp add: show_nat_def digits_of_digit)
  have "\<not> is_cont (CHR ''-'')" by code_simp
  then have "sanitize_segment (base @ CHR ''-'' # show_nat n) = sanitize_segment base @ ''_'' @ show_nat n"
    by (simp add: sanitize_append sanitize_dash_digits [OF d])
  then show ?thesis
    using lower_digits [OF d]
    by (simp add: id_key_def to_ascii_lowercase_def to_lower_byte_def is_ascii_upper_def)
qed

function unique_suffix :: "string \<Rightarrow> string list \<Rightarrow> nat \<Rightarrow> string" where
  "unique_suffix base existing n =
     (if id_taken existing (base @ ''-'' @ show_nat n) then unique_suffix base existing (Suc n)
      else base @ ''-'' @ show_nat n)"
  by pat_completeness auto
termination
proof (relation "measure (\<lambda>(base, existing, n). card {k. n \<le> k \<and> id_key base @ ''_'' @ show_nat k \<in> id_key ` set existing})", goal_cases)
  case (2 base existing n)
  have "inj (\<lambda>k. id_key base @ ''_'' @ show_nat k)" by (auto simp: inj_def show_nat_inj)
  from fresh_measure [OF _ this, of "id_key ` set existing" n] 2 show ?case
    by (simp add: id_taken_key id_key_suffix [simplified])
qed simp

declare unique_suffix.simps [simp del]

definition unique_id :: "string \<Rightarrow> string list \<Rightarrow> string" where
  "unique_id base existing =
     (let base = (if base = [] then ''item'' else base)
      in if \<not> id_taken existing base then base else unique_suffix base existing 2)"

lemma unique_suffix_free: "\<not> id_taken existing (unique_suffix base existing n)"
proof (induction base existing n rule: unique_suffix.induct)
  case (1 base existing n)
  then show ?case by (subst unique_suffix.simps) simp
qed

lemma unique_id_free: "\<not> id_taken existing (unique_id base existing)"
  by (simp add: unique_id_def Let_def unique_suffix_free)

lemma unique_suffix_first:
  "\<exists>k \<ge> n. unique_suffix base existing n = base @ ''-'' @ show_nat k \<and>
     (\<forall>j. n \<le> j \<and> j < k \<longrightarrow> id_taken existing (base @ ''-'' @ show_nat j))"
proof (induction base existing n rule: unique_suffix.induct)
  case (1 base existing n)
  show ?case
  proof (cases "id_taken existing (base @ ''-'' @ show_nat n)")
    case True
    with 1 obtain k where "Suc n \<le> k" "unique_suffix base existing (Suc n) = base @ ''-'' @ show_nat k"
        "\<forall>j. Suc n \<le> j \<and> j < k \<longrightarrow> id_taken existing (base @ ''-'' @ show_nat j)" by blast
    then have "n \<le> k \<and> unique_suffix base existing n = base @ ''-'' @ show_nat k \<and>
        (\<forall>j. n \<le> j \<and> j < k \<longrightarrow> id_taken existing (base @ ''-'' @ show_nat j))"
      using True by (subst unique_suffix.simps) (auto simp: le_eq_less_or_eq [of n] Suc_le_eq)
    then show ?thesis by blast
  next
    case False
    then show ?thesis by (subst unique_suffix.simps) auto
  qed
qed

text \<open>The search for a free id always ends. The id it returns is the given base (or \<open>item\<close> for an
  empty one) when no existing id collides with it, and otherwise the base with the first number
  from 2 that is free; no existing id collides with the result under the sanitised,
  case-insensitive comparison.\<close>

theorem unique_id_correct:
  "\<not> id_taken existing (unique_id base existing) \<and>
   (\<exists>b. b = (if base = [] then ''item'' else base) \<and>
     (if id_taken existing b
      then \<exists>k \<ge> 2. unique_id base existing = b @ ''-'' @ show_nat k \<and>
             (\<forall>j. 2 \<le> j \<and> j < k \<longrightarrow> id_taken existing (b @ ''-'' @ show_nat j))
      else unique_id base existing = b))"
proof -
  define b where "b = (if base = [] then ''item'' else base)"
  have u: "unique_id base existing = (if id_taken existing b then unique_suffix b existing 2 else b)"
    by (simp add: unique_id_def b_def)
  from unique_suffix_first [of 2 b existing] unique_id_free [of existing base]
  have "\<not> id_taken existing (unique_id base existing) \<and>
     (if id_taken existing b
      then \<exists>k \<ge> 2. unique_id base existing = b @ ''-'' @ show_nat k \<and>
             (\<forall>j. 2 \<le> j \<and> j < k \<longrightarrow> id_taken existing (b @ ''-'' @ show_nat j))
      else unique_id base existing = b)"
    unfolding u by auto
  then show ?thesis using b_def by blast
qed

theorem unique_id_correct_witness:
  "unique_id ''gh-api'' [''gh_api'', ''GH_API_2''] = ''gh-api-3'' \<and> \<not> id_taken [''gh_api'', ''GH_API_2''] ''gh-api-3''"
proof -
  have u: "unique_id ''gh-api'' [''gh_api'', ''GH_API_2''] = ''gh-api-3''" by code_simp
  from unique_id_correct [of "[''gh_api'', ''GH_API_2'']" "''gh-api''"] u show ?thesis by simp
qed

section \<open>Hashes and paths\<close>

definition ct_eq :: "string \<Rightarrow> string \<Rightarrow> bool" where
  "ct_eq a b =
     (if length a \<noteq> length b then False
      else foldl (\<lambda>diff (x, y). or diff (xor (of_char x :: nat) (of_char y))) 0 (zip a b) = 0)"

lemma or_zero_iff: "or (a :: nat) b = 0 \<longleftrightarrow> a = 0 \<and> b = 0"
  by (rule or_eq_0_iff)

lemma xor_zero_iff: "xor (a :: nat) b = 0 \<longleftrightarrow> a = b"
  by (metis xor.assoc xor.left_neutral xor.right_neutral xor_self_eq)

lemma ct_eq_iff: "ct_eq a b \<longleftrightarrow> a = b"
proof -
  have "foldl (\<lambda>diff (x, y). or diff (xor (of_char x :: nat) (of_char y))) d ps = 0 \<longleftrightarrow>
      d = 0 \<and> (\<forall>(x, y) \<in> set ps. x = y)" for d :: nat and ps :: "(char \<times> char) list"
    by (induction ps arbitrary: d) (auto simp: or_zero_iff xor_zero_iff)
  moreover have "length a = length b \<Longrightarrow> (\<forall>(x, y) \<in> set (zip a b). x = y) \<longleftrightarrow> a = b"
    by (induction a b rule: list_induct2) auto
  ultimately show ?thesis by (cases "length a = length b") (simp_all add: ct_eq_def, metis)
qed

definition normalize_path :: "bool \<Rightarrow> string \<Rightarrow> string" where
  "normalize_path windows p =
     (let s = map (\<lambda>c. if c = CHR 0x5C then CHR ''/'' else c) (trim p);
          s = (let r = rev (dropWhile (\<lambda>c. c = CHR ''/'') (rev s))
               in if r = [] \<and> s \<noteq> [] then ''/'' else r)
      in if windows then to_ascii_lowercase s else s)"

definition path_is_within :: "string \<Rightarrow> string \<Rightarrow> bool" where
  "path_is_within base root =
     (if base = [] then False
      else if root = base then True
      else starts_with base root \<and> length base < length root \<and> root ! length base = CHR ''/'')"

lemma path_is_within_iff: "path_is_within base root \<longleftrightarrow> base \<noteq> [] \<and> (\<exists>r. root = base @ r \<and> (r = [] \<or> hd r = CHR ''/''))"
proof -
  have "starts_with base root \<and> length base < length root \<and> root ! length base = CHR ''/'' \<longleftrightarrow>
      (\<exists>r. root = base @ r \<and> r \<noteq> [] \<and> hd r = CHR ''/'')"
    by (auto simp: str_simps nth_append hd_conv_nth)
  then show ?thesis unfolding path_is_within_def by auto
qed

definition access_integrity_id :: "string \<Rightarrow> string" where
  "access_integrity_id i =
     (case strip_prefix ''@default-access:'' i of
        Some r \<Rightarrow> r
      | None \<Rightarrow> (case strip_prefix ''@all-enabled:'' i of Some r \<Rightarrow> r | None \<Rightarrow> i))"

end
