(* ===== verification/Registry.thy ===== *)
theory Registry
  imports ServerEntry RegistryIds
begin

text \<open>
  The registry of servers and profiles (\<open>registry.rs\<close>), with the parts of \<open>local_auth.rs\<close> and
  \<open>teams.rs\<close> that its operations call: the state, every operation on servers, profiles, access,
  tools, discovery, folders and clients, each as a function on the record.

  An operation that can fail returns its result together with the registry, because the code
  changes the registry in place and a late error leaves the earlier changes. Fields of the struct
  that no modelled operation reads or writes are left out of the record. Maps are association
  lists. Deserialisation of stored review state and credential bindings and SHA-256 are
  parameters, gathered in \<open>store_env\<close>.
\<close>

section \<open>State\<close>

record profile =
  p_id :: string
  p_name :: string
  p_enabled_server_ids :: "string list"
  p_tool_scope :: "(string \<times> string list) list"
  p_instructions :: "string option"
  p_unknown :: jobj

record folder_profile =
  fp_path :: string
  fp_profile :: string
  fp_unknown :: jobj

record http_client =
  hc_id :: string
  hc_label :: string
  hc_token_sha256 :: string
  hc_profile :: string
  hc_unknown :: jobj

record tool_override =
  to_name :: "string option"
  to_description :: "string option"
  to_unknown :: jobj

datatype safety_level = Off | Ask | Strict

record kept_v1_safety =
  kv_hold_untrusted :: bool
  kv_deny_destructive :: bool
  kv_quarantine_on_drift :: bool
  kv_block_on_injection :: bool

record registry =
  r_safety_level :: "safety_level option"
  r_kept_v1_safety :: "kept_v1_safety option"
  r_version :: nat
  r_servers :: "server_entry list"
  r_profiles :: "profile list"
  r_active_profile_id :: "string option"
  r_default_access_profile_id :: "string option"
  r_default_access_context_id :: "string option"
  r_default_access_legacy_policy :: bool
  r_deny_destructive :: bool
  r_confirm_destructive :: bool
  r_human_approval :: bool
  r_human_approval_allow :: "string list"
  r_team_forced_human_approval :: bool
  r_team_min_safety_level :: safety_level
  r_team_forced_quarantine_on_drift :: bool
  r_team_forced_block_on_injection :: bool
  r_team_forced_pii_redaction :: bool
  r_team_forced_deny_destructive :: bool
  r_team_forced_content_defense :: bool
  r_tool_overrides :: "(string \<times> (string \<times> tool_override) list) list"
  r_pinned_tools :: "(string \<times> string list) list"
  r_quarantine_on_drift :: bool
  r_lazy_discovery :: bool
  r_gateway_instructions :: "string option"
  r_discovery_mode :: "string option"
  r_legacy_lazy_discovery :: bool
  r_pii_redaction :: bool
  r_block_on_injection :: bool
  r_injection_block_exempt :: "(string \<times> bool) list"
  r_live_inspect :: bool
  r_team :: "jobj option"
  r_result_budgets :: "(string \<times> nat) list"
  r_client_scopes :: "(string \<times> string) list"
  r_folder_profiles :: "folder_profile list"
  r_client_discovery :: "(string \<times> string) list"
  r_http_clients :: "http_client list"
  r_unknown :: jobj

text \<open>The team connection is represented by its forward-compatible fields, the part that holds the
  review state.\<close>

record held_access =
  ha_existed :: bool
  ha_enabled :: bool
  ha_profiles :: "string list"

record member_review =
  mr_held_access :: "(string \<times> held_access) list"
  mr_rest :: json

record auth_binding =
  au_personal_id :: string
  au_team_id :: string
  au_origin :: string
  au_device_id :: string
  au_fingerprint :: string

record store_env =
  se_review_of :: "json \<Rightarrow> member_review option"
  se_json_of_review :: "member_review \<Rightarrow> json"
  se_bindings_of :: "json \<Rightarrow> (string \<times> auth_binding) list option"
  se_sha256_hex :: "string \<Rightarrow> string"

datatype reg_error =
    NoServer string | NoProfile string | NoUniqueProfile string | NoAccessSet
  | SuppliesCredentials | BindingsUnreadable | ReviewUnreadable | ReviewRequired
  | NotReady launch_error | DefaultAccessInUse | LastProfile | BelowTeamFloor

type_synonym 'a outcome = "(reg_error + 'a) \<times> registry"

abbreviation okay :: "registry \<Rightarrow> unit outcome" where
  "okay reg \<equiv> (Inr (), reg)"

definition default_profile_id :: string where
  "default_profile_id = ''default''"

definition all_enabled_access :: string where
  "all_enabled_access = ''@all-enabled''"

definition invalid_profile_ref_prefix :: string where
  "invalid_profile_ref_prefix = ''__toolport_invalid_profile_ref__:''"

definition new_profile :: "string \<Rightarrow> string \<Rightarrow> profile" where
  "new_profile i nm = \<lparr>p_id = i, p_name = nm, p_enabled_server_ids = [], p_tool_scope = [],
     p_instructions = None, p_unknown = []\<rparr>"

definition registry_version :: nat where
  "registry_version = 3"

definition default_registry :: registry where
  "default_registry = \<lparr>
     r_safety_level = Some Ask, r_kept_v1_safety = None, r_version = registry_version, r_servers = [],
     r_profiles = [new_profile default_profile_id ''Default''],
     r_active_profile_id = Some default_profile_id, r_default_access_profile_id = None,
     r_default_access_context_id = None, r_default_access_legacy_policy = False,
     r_deny_destructive = False, r_confirm_destructive = False, r_human_approval = False,
     r_human_approval_allow = [], r_team_forced_human_approval = False, r_team_min_safety_level = Off,
     r_team_forced_quarantine_on_drift = False, r_team_forced_block_on_injection = False,
     r_team_forced_pii_redaction = False, r_team_forced_deny_destructive = False,
     r_team_forced_content_defense = False, r_tool_overrides = [], r_pinned_tools = [],
     r_quarantine_on_drift = False, r_lazy_discovery = True, r_gateway_instructions = None,
     r_discovery_mode = None, r_legacy_lazy_discovery = False, r_pii_redaction = False,
     r_block_on_injection = False, r_injection_block_exempt = [], r_live_inspect = False,
     r_team = None, r_result_budgets = [], r_client_scopes = [], r_folder_profiles = [],
     r_client_discovery = [], r_http_clients = [], r_unknown = []\<rparr>"

text \<open>\<open>iter_mut().find\<close>: change the first element that satisfies a test.\<close>

fun update_first :: "('a \<Rightarrow> bool) \<Rightarrow> ('a \<Rightarrow> 'a) \<Rightarrow> 'a list \<Rightarrow> 'a list" where
  "update_first P f [] = []"
| "update_first P f (x # xs) = (if P x then f x # xs else x # update_first P f xs)"

abbreviation find_server :: "registry \<Rightarrow> string \<Rightarrow> server_entry option" where
  "find_server reg i \<equiv> find (\<lambda>s. s_id s = i) (r_servers reg)"

abbreviation find_profile :: "registry \<Rightarrow> string \<Rightarrow> profile option" where
  "find_profile reg i \<equiv> find (\<lambda>p. p_id p = i) (r_profiles reg)"

abbreviation update_server_at :: "string \<Rightarrow> (server_entry \<Rightarrow> server_entry) \<Rightarrow> registry \<Rightarrow> registry" where
  "update_server_at i f reg \<equiv> reg\<lparr>r_servers := update_first (\<lambda>s. s_id s = i) f (r_servers reg)\<rparr>"

abbreviation update_profile_at :: "string \<Rightarrow> (profile \<Rightarrow> profile) \<Rightarrow> registry \<Rightarrow> registry" where
  "update_profile_at i f reg \<equiv> reg\<lparr>r_profiles := update_first (\<lambda>p. p_id p = i) f (r_profiles reg)\<rparr>"

section \<open>References to profiles\<close>

definition profile_id_for_ref :: "registry \<Rightarrow> string \<Rightarrow> string option" where
  "profile_id_for_ref reg ref =
     (let ref = trim ref
      in if ref = [] then None
         else case find_profile reg ref of
                Some p \<Rightarrow> Some (p_id p)
              | None \<Rightarrow>
                  (case filter (\<lambda>p. eq_ignore_ascii_case (p_name p) ref) (r_profiles reg) of
                     [p] \<Rightarrow> Some (p_id p)
                   | _ \<Rightarrow> None))"

definition canonical_profile_id :: "registry \<Rightarrow> string \<Rightarrow> reg_error + string" where
  "canonical_profile_id reg ref =
     (if ref = all_enabled_access then Inr all_enabled_access
      else case profile_id_for_ref reg ref of Some i \<Rightarrow> Inr i | None \<Rightarrow> Inl (NoUniqueProfile ref))"

text \<open>The two closures of \<open>normalize_profile_references\<close>.\<close>

definition resolve_stored_ref :: "registry \<Rightarrow> string \<Rightarrow> string option" where
  "resolve_stored_ref reg ref =
     (if trim ref = [] then None
      else if trim ref = all_enabled_access then Some all_enabled_access
      else profile_id_for_ref reg ref)"

definition normalize_stored_ref :: "store_env \<Rightarrow> registry \<Rightarrow> string \<Rightarrow> string" where
  "normalize_stored_ref se reg ref =
     (if trim ref = [] then []
      else case resolve_stored_ref reg ref of
             Some i \<Rightarrow> i
           | None \<Rightarrow> invalid_profile_ref_prefix @ se_sha256_hex se (trim ref))"

definition normalize_profile_references :: "store_env \<Rightarrow> registry \<Rightarrow> registry" where
  "normalize_profile_references se reg =
     reg\<lparr>r_active_profile_id := Option.bind (r_active_profile_id reg) (resolve_stored_ref reg),
         r_client_scopes := map (\<lambda>(c, s). (c, normalize_stored_ref se reg s)) (r_client_scopes reg),
         r_folder_profiles := map (\<lambda>m. m\<lparr>fp_profile := normalize_stored_ref se reg (fp_profile m)\<rparr>) (r_folder_profiles reg),
         r_http_clients := map (\<lambda>c. c\<lparr>hc_profile := normalize_stored_ref se reg (hc_profile c)\<rparr>) (r_http_clients reg)\<rparr>"

section \<open>Servers\<close>

definition server_ids :: "registry \<Rightarrow> string list" where
  "server_ids reg = map s_id (r_servers reg)"

definition profile_ids :: "registry \<Rightarrow> string list" where
  "profile_ids reg = map p_id (r_profiles reg)"

definition add_server :: "server_entry \<Rightarrow> registry \<Rightarrow> string \<times> registry" where
  "add_server entry reg =
     (let i = unique_id (slugify (s_name entry)) (server_ids reg)
      in (i, reg\<lparr>r_servers := r_servers reg @ [entry\<lparr>s_id := i\<rparr>]\<rparr>))"

definition update_server :: "server_entry \<Rightarrow> registry \<Rightarrow> unit outcome" where
  "update_server entry reg =
     (case find_server reg (s_id entry) of
        None \<Rightarrow> (Inl (NoServer (s_id entry)), reg)
      | Some _ \<Rightarrow> okay (update_server_at (s_id entry) (\<lambda>slot. entry\<lparr>s_enabled := s_enabled slot\<rparr>) reg))"

text \<open>\<open>local_auth::bindings\<close> and \<open>supplies_authentication\<close>.\<close>

definition auth_bindings :: "store_env \<Rightarrow> registry \<Rightarrow> reg_error + (string \<times> auth_binding) list" where
  "auth_bindings se reg =
     (case map_of (r_unknown reg) ''localTeamAuthentication'' of
        None \<Rightarrow> Inr []
      | Some v \<Rightarrow> (case se_bindings_of se v of None \<Rightarrow> Inl BindingsUnreadable | Some bs \<Rightarrow> Inr bs))"

definition supplies_authentication :: "store_env \<Rightarrow> registry \<Rightarrow> string \<Rightarrow> reg_error + bool" where
  "supplies_authentication se reg personal =
     (case auth_bindings se reg of
        Inl e \<Rightarrow> Inl e
      | Inr bs \<Rightarrow> Inr (list_ex (\<lambda>(i, b). au_personal_id b = personal \<and>
                    list_ex (\<lambda>s. s_id s = i) (r_servers reg)) bs))"

definition forget_server_in_profile :: "string \<Rightarrow> profile \<Rightarrow> profile" where
  "forget_server_in_profile i p =
     p\<lparr>p_enabled_server_ids := filter (\<lambda>x. x \<noteq> i) (p_enabled_server_ids p),
       p_tool_scope := AList.delete i (p_tool_scope p)\<rparr>"

definition remove_server :: "store_env \<Rightarrow> string \<Rightarrow> registry \<Rightarrow> unit outcome" where
  "remove_server se i reg =
     (case supplies_authentication se reg i of
        Inl e \<Rightarrow> (Inl e, reg)
      | Inr True \<Rightarrow> (Inl SuppliesCredentials, reg)
      | Inr False \<Rightarrow>
          (let kept = filter (\<lambda>s. s_id s \<noteq> i) (r_servers reg)
           in if length kept = length (r_servers reg) then (Inl (NoServer i), reg)
              else let sid = sanitize_segment i
                   in okay (reg\<lparr>
                        r_servers := kept,
                        r_profiles := map (forget_server_in_profile i) (r_profiles reg),
                        r_tool_overrides := AList.delete i (r_tool_overrides reg),
                        r_pinned_tools := AList.delete i (r_pinned_tools reg),
                        r_injection_block_exempt := AList.delete sid (r_injection_block_exempt reg),
                        r_result_budgets := AList.delete sid (r_result_budgets reg),
                        r_human_approval_allow :=
                          filter (\<lambda>k. \<not> starts_with (sid @ ''/'') k) (r_human_approval_allow reg)\<rparr>)))"

section \<open>Access\<close>

definition active_profile_id :: "registry \<Rightarrow> string" where
  "active_profile_id reg =
     (case r_active_profile_id reg of
        Some i \<Rightarrow> i
      | None \<Rightarrow> (case r_profiles reg of p # _ \<Rightarrow> p_id p | [] \<Rightarrow> default_profile_id))"

definition context_or_empty :: "registry \<Rightarrow> string" where
  "context_or_empty reg = (case r_default_access_context_id reg of Some i \<Rightarrow> i | None \<Rightarrow> [])"

definition default_access_id :: "registry \<Rightarrow> string" where
  "default_access_id reg =
     (if r_version reg < 3 then active_profile_id reg
      else case r_default_access_profile_id reg of
             Some i \<Rightarrow> i
           | None \<Rightarrow> ''@default-access:'' @ context_or_empty reg)"

definition all_access_id :: "registry \<Rightarrow> string" where
  "all_access_id reg = ''@all-enabled:'' @ context_or_empty reg"

definition resolve_profile_id :: "registry \<Rightarrow> string \<Rightarrow> string" where
  "resolve_profile_id reg ref =
     (if trim ref = [] then default_access_id reg
      else if ref = all_enabled_access then all_access_id reg
      else if ref = default_access_id reg \<or> ref = all_access_id reg then ref
      else case profile_id_for_ref reg ref of Some i \<Rightarrow> i | None \<Rightarrow> ref)"

definition access_label :: "registry \<Rightarrow> string \<Rightarrow> string" where
  "access_label reg ref =
     (if trim ref = [] \<or> starts_with ''@default-access:'' ref then ''Default access''
      else if ref = all_enabled_access \<or> starts_with ''@all-enabled:'' ref then ''All enabled servers''
      else case find_profile reg (resolve_profile_id reg ref) of Some p \<Rightarrow> p_name p | None \<Rightarrow> ref)"

definition default_access_label :: "registry \<Rightarrow> string" where
  "default_access_label reg =
     (let ref = (case r_default_access_profile_id reg of
                   Some i \<Rightarrow> Some i
                 | None \<Rightarrow> if r_default_access_legacy_policy reg then r_default_access_context_id reg else None);
          name = Option.bind ref (\<lambda>i. map_option p_name (find_profile reg i))
      in case name of
           Some n \<Rightarrow> if eq_ignore_ascii_case (trim n) ''default'' then ''Default access''
                     else ''Default access ('' @ n @ '')''
         | None \<Rightarrow> ''Default access'')"

definition access_upgrade_notice_pending :: "registry \<Rightarrow> bool" where
  "access_upgrade_notice_pending reg \<longleftrightarrow>
     3 \<le> r_version reg \<and> flag_set ''accessUpgradeNoticePending'' (r_unknown reg) \<and>
     \<not> flag_set ''accessUpgradeNoticeDismissed'' (r_unknown reg)"

definition dismiss_access_upgrade_notice :: "registry \<Rightarrow> registry" where
  "dismiss_access_upgrade_notice reg =
     reg\<lparr>r_unknown := obj_insert ''accessUpgradeNoticeDismissed'' (JBool True) (r_unknown reg)\<rparr>"

definition removed_features_notice :: "registry \<Rightarrow> string list" where
  "removed_features_notice reg =
     (case map_of (r_unknown reg) ''removedFeaturesNotice'' of
        None \<Rightarrow> []
      | Some n \<Rightarrow>
          if jget_bool ''dismissed'' n = Some True then []
          else List.map_filter as_str (case jget_array ''features'' n of Some a \<Rightarrow> a | None \<Rightarrow> []))"

definition dismiss_removed_features_notice :: "registry \<Rightarrow> registry" where
  "dismiss_removed_features_notice reg =
     (case map_of (r_unknown reg) ''removedFeaturesNotice'' of
        Some (JObj n) \<Rightarrow>
          reg\<lparr>r_unknown := obj_insert ''removedFeaturesNotice'' (JObj (obj_insert ''dismissed'' (JBool True) n)) (r_unknown reg)\<rparr>
      | _ \<Rightarrow> reg)"

definition access_profile :: "registry \<Rightarrow> string \<Rightarrow> profile option" where
  "access_profile reg i =
     (let i = (if i = default_access_id reg \<and> r_default_access_profile_id reg = None \<and>
                  r_default_access_legacy_policy reg
               then context_or_empty reg else i)
      in find_profile reg i)"

definition server_enabled :: "registry \<Rightarrow> string \<Rightarrow> bool" where
  "server_enabled reg i =
     (if r_version reg < 3
      then list_ex (\<lambda>p. i \<in> set (p_enabled_server_ids p)) (r_profiles reg)
      else list_ex (\<lambda>s. s_id s = i \<and> s_enabled s) (r_servers reg))"

definition is_enabled :: "registry \<Rightarrow> string \<Rightarrow> string \<Rightarrow> bool" where
  "is_enabled reg pid sid =
     (if 3 \<le> r_version reg \<and> \<not> server_enabled reg sid then False
      else if 3 \<le> r_version reg \<and>
              (pid = default_access_id reg \<and> r_default_access_profile_id reg = None \<or>
               pid = all_access_id reg \<or> pid = all_enabled_access) then True
      else case find_profile reg pid of
             Some p \<Rightarrow> sid \<in> set (p_enabled_server_ids p)
           | None \<Rightarrow> False)"

definition enabled_here :: "registry \<Rightarrow> string \<Rightarrow> bool" where
  "enabled_here reg i =
     (if 3 \<le> r_version reg then server_enabled reg i else is_enabled reg (active_profile_id reg) i)"

definition enabled_servers :: "registry \<Rightarrow> server_entry list" where
  "enabled_servers reg = filter (\<lambda>s. is_enabled reg (default_access_id reg) (s_id s)) (r_servers reg)"

definition enabled_servers_for :: "registry \<Rightarrow> string \<Rightarrow> server_entry list" where
  "enabled_servers_for reg ref =
     (let i = resolve_profile_id reg ref in filter (\<lambda>s. is_enabled reg i (s_id s)) (r_servers reg))"

definition configured_instructions :: "registry \<Rightarrow> string option \<Rightarrow> string option" where
  "configured_instructions reg ref =
     (let i = resolve_profile_id reg (case ref of Some r \<Rightarrow> r | None \<Rightarrow> [])
      in case Option.bind (access_profile reg i) p_instructions of
           Some t \<Rightarrow> Some t
         | None \<Rightarrow> r_gateway_instructions reg)"

section \<open>Switching servers\<close>

definition set_global_server_enabled :: "host_env \<Rightarrow> string \<Rightarrow> bool \<Rightarrow> registry \<Rightarrow> unit outcome" where
  "set_global_server_enabled env i on reg =
     (case find_server reg i of
        None \<Rightarrow> (Inl (NoServer i), reg)
      | Some server \<Rightarrow>
          (case (if on \<and> s_launch server \<noteq> None then check_ready_for_enable env server else Inr ()) of
             Inl e \<Rightarrow> (Inl (NotReady e), reg)
           | Inr _ \<Rightarrow> okay (update_server_at i (\<lambda>s. s\<lparr>s_enabled := on\<rparr>) reg)))"

definition set_access_server :: "host_env \<Rightarrow> string \<Rightarrow> string \<Rightarrow> bool \<Rightarrow> registry \<Rightarrow> unit outcome" where
  "set_access_server env pid sid included reg =
     (case find_server reg sid of
        None \<Rightarrow> (Inl (NoServer sid), reg)
      | Some entry \<Rightarrow>
          if included \<and> \<not> check_enable_allowed env entry False then (Inl ReviewRequired, reg)
          else if find_profile reg pid = None then (Inl NoAccessSet, reg)
          else okay (update_profile_at pid
                 (\<lambda>p. p\<lparr>p_enabled_server_ids :=
                    (if included
                     then (if sid \<in> set (p_enabled_server_ids p) then p_enabled_server_ids p
                           else p_enabled_server_ids p @ [sid])
                     else filter (\<lambda>x. x \<noteq> sid) (p_enabled_server_ids p))\<rparr>) reg))"

definition set_default_access :: "string option \<Rightarrow> registry \<Rightarrow> unit outcome" where
  "set_default_access profile reg =
     (case (case profile of
              None \<Rightarrow> Inr None
            | Some p \<Rightarrow> if p = [] then Inr None
                        else (case canonical_profile_id reg p of Inl e \<Rightarrow> Inl e | Inr i \<Rightarrow> Inr (Some i))) of
        Inl e \<Rightarrow> (Inl e, reg)
      | Inr v \<Rightarrow> okay (reg\<lparr>r_default_access_profile_id := v, r_default_access_legacy_policy := False\<rparr>))"

definition set_server_enabled :: "host_env \<Rightarrow> string \<Rightarrow> string \<Rightarrow> bool \<Rightarrow> registry \<Rightarrow> unit outcome" where
  "set_server_enabled env pid sid on reg =
     (if 3 \<le> r_version reg then set_global_server_enabled env sid on reg
      else case find_server reg sid of
             None \<Rightarrow> (Inl (NoServer sid), reg)
           | Some server \<Rightarrow>
               (case (if on \<and> s_launch server \<noteq> None then check_ready_for_enable env server else Inr ()) of
                  Inl e \<Rightarrow> (Inl (NotReady e), reg)
                | Inr _ \<Rightarrow>
                    if find_profile reg pid = None then (Inl (NoProfile pid), reg)
                    else okay (update_profile_at pid
                           (\<lambda>p. p\<lparr>p_enabled_server_ids :=
                              (if on \<and> sid \<notin> set (p_enabled_server_ids p) then p_enabled_server_ids p @ [sid]
                               else if \<not> on then filter (\<lambda>x. x \<noteq> sid) (p_enabled_server_ids p)
                               else p_enabled_server_ids p)\<rparr>) reg)))"

text \<open>From \<open>teams.rs\<close>: a member's decision to switch off a server whose change is under review is kept
  in the review state.\<close>

definition server_change_held :: "registry \<Rightarrow> string \<Rightarrow> bool" where
  "server_change_held reg i = list_ex (\<lambda>s. s_id s = i \<and> flag_set ''teamHeldChange'' (s_unknown s)) (r_servers reg)"

definition member_review_of :: "store_env \<Rightarrow> registry \<Rightarrow> reg_error + member_review" where
  "member_review_of se reg =
     (case Option.bind (r_team reg) (\<lambda>t. map_of t ''memberReview'') of
        Some v \<Rightarrow> (case se_review_of se v of Some r \<Rightarrow> Inr r | None \<Rightarrow> Inl ReviewUnreadable)
      | None \<Rightarrow> Inr \<lparr>mr_held_access = [], mr_rest = JNull\<rparr>)"

definition save_member_review :: "store_env \<Rightarrow> member_review \<Rightarrow> registry \<Rightarrow> registry" where
  "save_member_review se review reg =
     (case r_team reg of
        None \<Rightarrow> reg
      | Some t \<Rightarrow> reg\<lparr>r_team := Some (obj_insert ''memberReview'' (se_json_of_review se review) t)\<rparr>)"

definition remember_held_disable :: "store_env \<Rightarrow> string \<Rightarrow> string \<Rightarrow> registry \<Rightarrow> unit outcome" where
  "remember_held_disable se pid sid reg =
     (if \<not> server_change_held reg sid then okay reg
      else let original = Option.bind (find_server reg sid)
                 (\<lambda>s. Option.bind (map_of (s_unknown s) ''teamOriginalId'') as_str)
           in case member_review_of se reg of
                Inl e \<Rightarrow> (Inl e, reg)
              | Inr review \<Rightarrow>
                  (let review' =
                     (case Option.bind original (\<lambda>i. map_option (Pair i) (map_of (mr_held_access review) i)) of
                        None \<Rightarrow> review
                      | Some (i, acc) \<Rightarrow>
                          let acc' = (if 3 \<le> r_version reg then acc\<lparr>ha_enabled := False\<rparr>
                                      else let ps = filter (\<lambda>x. x \<noteq> pid) (ha_profiles acc)
                                           in acc\<lparr>ha_profiles := ps, ha_enabled := (ps \<noteq> [])\<rparr>)
                          in review\<lparr>mr_held_access := AList.update i acc' (mr_held_access review)\<rparr>)
                   in okay (save_member_review se review' reg)))"

fun remember_all :: "store_env \<Rightarrow> string \<Rightarrow> string list \<Rightarrow> registry \<Rightarrow> unit outcome" where
  "remember_all se pid [] reg = okay reg"
| "remember_all se pid (i # is) reg =
     (case remember_held_disable se pid i reg of
        (Inl e, reg') \<Rightarrow> (Inl e, reg')
      | (Inr _, reg') \<Rightarrow> remember_all se pid is reg')"

definition may_enable :: "host_env \<Rightarrow> server_entry \<Rightarrow> bool" where
  "may_enable env s \<longleftrightarrow> check_enable_allowed env s False \<and>
     (s_launch s = None \<or> (case resolve_args env s of Inr _ \<Rightarrow> True | Inl _ \<Rightarrow> False))"

fun add_missing :: "string list \<Rightarrow> string list \<Rightarrow> string list" where
  "add_missing xs [] = xs"
| "add_missing xs (i # is) = add_missing (if i \<in> set xs then xs else xs @ [i]) is"

definition switch_all :: "host_env \<Rightarrow> string \<Rightarrow> bool \<Rightarrow> registry \<Rightarrow> unit outcome" where
  "switch_all env pid on reg =
     (let ids = (if on then map s_id (filter (may_enable env) (r_servers reg)) else [])
      in if 3 \<le> r_version reg
         then okay (reg\<lparr>r_servers := map (\<lambda>s. if \<not> on \<or> s_id s \<in> set ids then s\<lparr>s_enabled := on\<rparr> else s) (r_servers reg)\<rparr>)
         else if find_profile reg pid = None then (Inl (NoProfile pid), reg)
         else okay (update_profile_at pid
                (\<lambda>p. p\<lparr>p_enabled_server_ids := (if on then add_missing (p_enabled_server_ids p) ids else [])\<rparr>) reg))"

definition set_all_enabled :: "host_env \<Rightarrow> store_env \<Rightarrow> string \<Rightarrow> bool \<Rightarrow> registry \<Rightarrow> unit outcome" where
  "set_all_enabled env se pid on reg =
     (case (if on then okay reg
            else remember_all se pid
                   (map s_id (filter (\<lambda>s. server_change_held reg (s_id s)) (r_servers reg))) reg) of
        (Inl e, reg') \<Rightarrow> (Inl e, reg')
      | (Inr _, reg') \<Rightarrow> switch_all env pid on reg')"

section \<open>Tools\<close>

definition set_tool_enabled :: "string \<Rightarrow> string \<Rightarrow> bool \<Rightarrow> registry \<Rightarrow> unit outcome" where
  "set_tool_enabled sid tool on reg =
     (case find_server reg sid of
        None \<Rightarrow> (Inl (NoServer sid), reg)
      | Some _ \<Rightarrow> okay (update_server_at sid
          (\<lambda>s. s\<lparr>s_disabled_tools :=
             (if on then filter (\<lambda>t. t \<noteq> tool) (s_disabled_tools s)
              else if tool \<in> set (s_disabled_tools s) then s_disabled_tools s
              else s_disabled_tools s @ [tool])\<rparr>) reg))"

definition is_tool_enabled :: "registry \<Rightarrow> string \<Rightarrow> string \<Rightarrow> bool" where
  "is_tool_enabled reg sid tool =
     (case find_server reg sid of Some s \<Rightarrow> tool \<notin> set (s_disabled_tools s) | None \<Rightarrow> True)"

definition profile_allows_tool :: "registry \<Rightarrow> string \<Rightarrow> string \<Rightarrow> string \<Rightarrow> bool" where
  "profile_allows_tool reg ref sid tool =
     (case access_profile reg (resolve_profile_id reg ref) of
        Some p \<Rightarrow> (case map_of (p_tool_scope p) sid of Some allowed \<Rightarrow> tool \<in> set allowed | None \<Rightarrow> True)
      | None \<Rightarrow> True)"

definition set_profile_server_tools :: "string \<Rightarrow> string \<Rightarrow> string list option \<Rightarrow> registry \<Rightarrow> unit outcome" where
  "set_profile_server_tools pid sid tools reg =
     (case find_profile reg pid of
        None \<Rightarrow> (Inl (NoProfile pid), reg)
      | Some _ \<Rightarrow> okay (update_profile_at pid
          (\<lambda>p. p\<lparr>p_tool_scope := (case tools of Some l \<Rightarrow> AList.update sid l (p_tool_scope p)
                                   | None \<Rightarrow> AList.delete sid (p_tool_scope p))\<rparr>) reg))"

definition set_tool_pinned :: "string \<Rightarrow> string \<Rightarrow> bool \<Rightarrow> registry \<Rightarrow> registry" where
  "set_tool_pinned sid tool pinned reg =
     (let l = get_or [] (r_pinned_tools reg) sid;
          l' = (if pinned \<and> tool \<notin> set l then l @ [tool]
                else if \<not> pinned \<and> tool \<in> set l then filter (\<lambda>t. t \<noteq> tool) l else l)
      in reg\<lparr>r_pinned_tools := (if l' = [] then AList.delete sid (r_pinned_tools reg)
                                 else AList.update sid l' (r_pinned_tools reg))\<rparr>)"

definition is_tool_pinned :: "registry \<Rightarrow> string \<Rightarrow> string \<Rightarrow> bool" where
  "is_tool_pinned reg sid tool =
     (case map_of (r_pinned_tools reg) sid of Some l \<Rightarrow> tool \<in> set l | None \<Rightarrow> False)"

definition allow_tool :: "string \<Rightarrow> registry \<Rightarrow> registry" where
  "allow_tool k reg =
     (if k \<in> set (r_human_approval_allow reg) then reg
      else reg\<lparr>r_human_approval_allow := r_human_approval_allow reg @ [k]\<rparr>)"

definition revoke_tool :: "string \<Rightarrow> registry \<Rightarrow> registry" where
  "revoke_tool k reg = reg\<lparr>r_human_approval_allow := filter (\<lambda>x. x \<noteq> k) (r_human_approval_allow reg)\<rparr>"

definition is_tool_allowed :: "registry \<Rightarrow> string \<Rightarrow> bool" where
  "is_tool_allowed reg k \<longleftrightarrow> k \<in> set (r_human_approval_allow reg)"

definition clear_tool_override :: "string \<Rightarrow> string \<Rightarrow> registry \<Rightarrow> registry" where
  "clear_tool_override sid tool reg =
     (case map_of (r_tool_overrides reg) sid of
        None \<Rightarrow> reg
      | Some m \<Rightarrow>
          (let m' = AList.delete tool m
           in reg\<lparr>r_tool_overrides := (if m' = [] then AList.delete sid (r_tool_overrides reg)
                                        else AList.update sid m' (r_tool_overrides reg))\<rparr>))"

definition set_tool_override :: "string \<Rightarrow> string \<Rightarrow> tool_override \<Rightarrow> registry \<Rightarrow> registry" where
  "set_tool_override sid tool ov reg =
     (if to_name ov = None \<and> to_description ov = None then clear_tool_override sid tool reg
      else reg\<lparr>r_tool_overrides :=
             AList.update sid (AList.update tool ov (get_or [] (r_tool_overrides reg) sid)) (r_tool_overrides reg)\<rparr>)"

section \<open>Discovery\<close>

definition set_lazy_discovery :: "bool \<Rightarrow> registry \<Rightarrow> registry" where
  "set_lazy_discovery lazy reg = reg\<lparr>r_lazy_discovery := lazy\<rparr>"

definition set_discovery_mode :: "string \<Rightarrow> registry \<Rightarrow> registry" where
  "set_discovery_mode mode reg =
     (let m = to_ascii_lowercase (trim mode)
      in if m = ''lazy'' then reg\<lparr>r_discovery_mode := Some ''lazy'', r_lazy_discovery := True\<rparr>
         else if m = ''full'' then reg\<lparr>r_discovery_mode := Some ''full'', r_lazy_discovery := False\<rparr>
         else if m = ''grouped'' then reg\<lparr>r_discovery_mode := Some ''grouped''\<rparr>
         else reg\<lparr>r_discovery_mode := None\<rparr>)"

definition set_live_inspect :: "bool \<Rightarrow> registry \<Rightarrow> registry" where
  "set_live_inspect on reg = reg\<lparr>r_live_inspect := on\<rparr>"

definition chosen_global_discovery_mode :: "registry \<Rightarrow> string option" where
  "chosen_global_discovery_mode reg =
     (case r_discovery_mode reg of
        Some m \<Rightarrow> Some m
      | None \<Rightarrow> if \<not> r_lazy_discovery reg then Some ''full''
                else if r_legacy_lazy_discovery reg then Some ''lazy'' else None)"

definition set_client_discovery :: "string \<Rightarrow> string option \<Rightarrow> registry \<Rightarrow> registry" where
  "set_client_discovery cid mode reg =
     (case map_option (\<lambda>m. to_ascii_lowercase (trim m)) mode of
        Some m \<Rightarrow> if m \<in> {''full'', ''lazy'', ''grouped''}
                  then reg\<lparr>r_client_discovery := AList.update cid m (r_client_discovery reg)\<rparr>
                  else reg\<lparr>r_client_discovery := AList.delete cid (r_client_discovery reg)\<rparr>
      | None \<Rightarrow> reg\<lparr>r_client_discovery := AList.delete cid (r_client_discovery reg)\<rparr>)"

definition client_discovery_mode :: "registry \<Rightarrow> string \<Rightarrow> string option" where
  "client_discovery_mode reg cid = map_of (r_client_discovery reg) cid"

section \<open>Profiles, folders and clients\<close>

definition add_profile :: "string \<Rightarrow> registry \<Rightarrow> string \<times> registry" where
  "add_profile nm reg =
     (let i = unique_id (slugify nm) (profile_ids reg)
      in (i, reg\<lparr>r_profiles := r_profiles reg @ [new_profile i nm]\<rparr>))"

definition remove_profile :: "string \<Rightarrow> registry \<Rightarrow> unit outcome" where
  "remove_profile i reg =
     (if 3 \<le> r_version reg \<and> (r_default_access_profile_id reg = Some i \<or> r_default_access_context_id reg = Some i)
      then (Inl DefaultAccessInUse, reg)
      else if length (r_profiles reg) \<le> 1 then (Inl LastProfile, reg)
      else let kept = filter (\<lambda>p. p_id p \<noteq> i) (r_profiles reg)
           in if length kept = length (r_profiles reg) then (Inl (NoProfile i), reg)
              else okay (reg\<lparr>r_profiles := kept,
                r_active_profile_id :=
                  (if r_active_profile_id reg = Some i
                   then (case kept of p # _ \<Rightarrow> Some (p_id p) | [] \<Rightarrow> None)
                   else r_active_profile_id reg)\<rparr>))"

text \<open>\<open>max_by_key\<close> keeps the last of several maxima.\<close>

fun longest_match :: "(nat \<times> string) list \<Rightarrow> (nat \<times> string) option" where
  "longest_match [] = None"
| "longest_match (x # xs) =
     (case longest_match xs of None \<Rightarrow> Some x | Some y \<Rightarrow> if fst x \<le> fst y then Some y else Some x)"

definition profile_for_root :: "bool \<Rightarrow> registry \<Rightarrow> string \<Rightarrow> string option" where
  "profile_for_root windows reg root =
     (let root = normalize_path windows root
      in if root = [] then None
         else map_option (\<lambda>(_, p). resolve_profile_id reg p)
                (longest_match
                  (List.map_filter
                    (\<lambda>fp. let base = normalize_path windows (fp_path fp)
                          in if path_is_within base root then Some (length base, fp_profile fp) else None)
                    (r_folder_profiles reg))))"

definition set_folder_profiles :: "folder_profile list \<Rightarrow> registry \<Rightarrow> registry" where
  "set_folder_profiles mappings reg =
     reg\<lparr>r_folder_profiles :=
       map (\<lambda>m. m\<lparr>fp_profile := resolve_profile_id reg (fp_profile m)\<rparr>)
         (filter (\<lambda>m. trim (fp_path m) \<noteq> [] \<and> trim (fp_profile m) \<noteq> []) mappings)\<rparr>"

fun client_profile_ids :: "registry \<Rightarrow> http_client list \<Rightarrow> string list \<Rightarrow> string list" where
  "client_profile_ids reg [] ids = ids"
| "client_profile_ids reg (c # cs) ids =
     (if trim (hc_profile c) = [] then client_profile_ids reg cs ids
      else let i = resolve_profile_id reg (hc_profile c)
           in client_profile_ids reg cs (if i \<in> set ids then ids else ids @ [i]))"

definition bridge_enabled_servers :: "registry \<Rightarrow> string option \<Rightarrow> server_entry list" where
  "bridge_enabled_servers reg base =
     (let base_id = (case base of Some p \<Rightarrow> resolve_profile_id reg p | None \<Rightarrow> default_access_id reg);
          pids = client_profile_ids reg (r_http_clients reg) [base_id];
          ids = concat (map (\<lambda>pid. map s_id (filter (\<lambda>s. is_enabled reg pid (s_id s)) (r_servers reg))) pids)
      in filter (\<lambda>s. s_id s \<in> set ids) (r_servers reg))"

definition set_client_scope :: "string \<Rightarrow> string option \<Rightarrow> registry \<Rightarrow> registry" where
  "set_client_scope cid profile reg =
     (case map_option trim profile of
        Some p \<Rightarrow> if p = [] then reg\<lparr>r_client_scopes := AList.delete cid (r_client_scopes reg)\<rparr>
                  else reg\<lparr>r_client_scopes := AList.update cid (resolve_profile_id reg p) (r_client_scopes reg)\<rparr>
      | None \<Rightarrow> reg\<lparr>r_client_scopes := AList.delete cid (r_client_scopes reg)\<rparr>)"

definition set_client_unscoped :: "string \<Rightarrow> registry \<Rightarrow> registry" where
  "set_client_unscoped cid reg = reg\<lparr>r_client_scopes := AList.update cid [] (r_client_scopes reg)\<rparr>"

definition http_client_for_token :: "store_env \<Rightarrow> registry \<Rightarrow> string \<Rightarrow> http_client option" where
  "http_client_for_token se reg token =
     find (\<lambda>c. ct_eq (hc_token_sha256 c) (se_sha256_hex se token)) (r_http_clients reg)"

end
