(* ===== verification/RegistrySafety.thy ===== *)
theory RegistrySafety
  imports Registry
begin

text \<open>
  The safety level of the registry (\<open>registry.rs\<close>): the member's level, the floor a team sets, the
  protections kept from version 1, the effective policy, and the mirror of the level into the
  toggles that a version 1 process still reads. Two lemmas state what a team may rely on: policy
  is only ever tightened, and the mirror is at least as strict for a reader of version 1.
\<close>

section \<open>Levels\<close>

instantiation safety_level :: linorder
begin

fun less_eq_safety_level :: "safety_level \<Rightarrow> safety_level \<Rightarrow> bool" where
  "less_eq_safety_level Off _ = True"
| "less_eq_safety_level Ask Off = False"
| "less_eq_safety_level Ask _ = True"
| "less_eq_safety_level Strict l = (l = Strict)"

definition less_safety_level :: "safety_level \<Rightarrow> safety_level \<Rightarrow> bool" where
  "less_safety_level a b = (a \<le> b \<and> \<not> b \<le> a)"

instance
proof
  fix a b c :: safety_level
  show "(a < b) = (a \<le> b \<and> \<not> b \<le> a)" by (simp add: less_safety_level_def)
  show "a \<le> a" by (cases a) auto
  show "a \<le> b \<Longrightarrow> b \<le> c \<Longrightarrow> a \<le> c" by (cases a; cases b; cases c) auto
  show "a \<le> b \<Longrightarrow> b \<le> a \<Longrightarrow> a = b" by (cases a; cases b) auto
  show "a \<le> b \<or> b \<le> a" by (cases a; cases b) auto
qed

end

definition default_safety_level :: safety_level where
  "default_safety_level = Ask"

definition no_kept :: kept_v1_safety where
  "no_kept = \<lparr>kv_hold_untrusted = False, kv_deny_destructive = False, kv_quarantine_on_drift = False,
     kv_block_on_injection = False\<rparr>"

section \<open>The policy in force\<close>

definition safety_level_selected :: "registry \<Rightarrow> safety_level" where
  "safety_level_selected reg =
     (if 2 \<le> r_version reg
      then (case r_safety_level reg of Some l \<Rightarrow> l | None \<Rightarrow> default_safety_level)
      else case r_safety_level reg of
             Some l \<Rightarrow> l
           | None \<Rightarrow> if r_human_approval reg \<or> r_confirm_destructive reg then Ask else Off)"

definition safety_level_team_floor :: "registry \<Rightarrow> safety_level" where
  "safety_level_team_floor reg =
     max (r_team_min_safety_level reg) (if r_team_forced_human_approval reg then Ask else Off)"

definition safety_level_effective :: "registry \<Rightarrow> safety_level" where
  "safety_level_effective reg = max (safety_level_selected reg) (safety_level_team_floor reg)"

definition validate_safety_level :: "registry \<Rightarrow> safety_level \<Rightarrow> reg_error + unit" where
  "validate_safety_level reg l = (if l < safety_level_team_floor reg then Inl BelowTeamFloor else Inr ())"

definition kept :: "registry \<Rightarrow> kept_v1_safety" where
  "kept reg =
     (if r_version reg < 2 \<and> r_safety_level reg = None
      then \<lparr>kv_hold_untrusted = r_human_approval reg, kv_deny_destructive = r_deny_destructive reg,
            kv_quarantine_on_drift = r_quarantine_on_drift reg, kv_block_on_injection = r_block_on_injection reg\<rparr>
      else case r_kept_v1_safety reg of Some k \<Rightarrow> k | None \<Rightarrow> no_kept)"

definition sync_legacy_safety_mirror :: "registry \<Rightarrow> registry" where
  "sync_legacy_safety_mirror reg =
     (if r_version reg < 2 then reg
      else let level = safety_level_selected reg; strict = (level = Strict); k = kept reg
           in reg\<lparr>r_deny_destructive := strict \<or> kv_deny_destructive k,
                  r_quarantine_on_drift := strict \<or> kv_quarantine_on_drift k,
                  r_block_on_injection := strict \<or> kv_block_on_injection k,
                  r_human_approval := (Ask \<le> level),
                  r_confirm_destructive := False\<rparr>)"

definition set_safety_level :: "safety_level \<Rightarrow> registry \<Rightarrow> registry" where
  "set_safety_level l reg =
     sync_legacy_safety_mirror (reg\<lparr>r_safety_level := Some l, r_kept_v1_safety := None\<rparr>)"

definition requires_human_approval :: "registry \<Rightarrow> bool \<Rightarrow> bool \<Rightarrow> bool" where
  "requires_human_approval reg destructive untrusted =
     (let hold_untrusted = kv_hold_untrusted (kept reg) \<or> r_team_forced_human_approval reg
      in case safety_level_effective reg of
           Off \<Rightarrow> False
         | Ask \<Rightarrow> destructive \<or> untrusted \<and> hold_untrusted
         | Strict \<Rightarrow> destructive \<or> untrusted)"

definition human_approval_effective :: "registry \<Rightarrow> bool" where
  "human_approval_effective reg \<longleftrightarrow> Ask \<le> safety_level_effective reg"

definition deny_destructive_effective :: "registry \<Rightarrow> bool" where
  "deny_destructive_effective reg \<longleftrightarrow> safety_level_effective reg = Strict \<or> kv_deny_destructive (kept reg)"

definition pii_redaction_effective :: "registry \<Rightarrow> bool" where
  "pii_redaction_effective reg \<longleftrightarrow> r_pii_redaction reg \<or> r_team_forced_pii_redaction reg"

definition quarantine_on_drift_effective :: "registry \<Rightarrow> bool" where
  "quarantine_on_drift_effective reg \<longleftrightarrow> safety_level_effective reg = Strict \<or>
     r_team_forced_quarantine_on_drift reg \<or> kv_quarantine_on_drift (kept reg)"

definition block_on_injection_effective :: "registry \<Rightarrow> bool" where
  "block_on_injection_effective reg \<longleftrightarrow> safety_level_effective reg = Strict \<or>
     r_team_forced_block_on_injection reg \<or> kv_block_on_injection (kept reg)"

definition should_block_injection_for :: "registry \<Rightarrow> string \<Rightarrow> bool" where
  "should_block_injection_for reg server =
     (if \<not> block_on_injection_effective reg then False
      else \<not> (case map_of (r_injection_block_exempt reg) server of Some b \<Rightarrow> b | None \<Rightarrow> False))"

section \<open>A team only tightens\<close>

text \<open>The protections a call meets, in one record, ordered by strictness.\<close>

record protections =
  pr_level :: safety_level
  pr_deny :: bool
  pr_quarantine :: bool
  pr_block :: bool
  pr_redact :: bool
  pr_hold_destructive :: bool
  pr_hold_untrusted :: bool

definition protections_of :: "registry \<Rightarrow> protections" where
  "protections_of reg = \<lparr>pr_level = safety_level_effective reg, pr_deny = deny_destructive_effective reg,
     pr_quarantine = quarantine_on_drift_effective reg, pr_block = block_on_injection_effective reg,
     pr_redact = pii_redaction_effective reg, pr_hold_destructive = requires_human_approval reg True False,
     pr_hold_untrusted = requires_human_approval reg False True\<rparr>"

definition at_least_as_strict :: "protections \<Rightarrow> protections \<Rightarrow> bool" where
  "at_least_as_strict a b \<longleftrightarrow> pr_level b \<le> pr_level a \<and> (pr_deny b \<longrightarrow> pr_deny a) \<and>
     (pr_quarantine b \<longrightarrow> pr_quarantine a) \<and> (pr_block b \<longrightarrow> pr_block a) \<and> (pr_redact b \<longrightarrow> pr_redact a) \<and>
     (pr_hold_destructive b \<longrightarrow> pr_hold_destructive a) \<and> (pr_hold_untrusted b \<longrightarrow> pr_hold_untrusted a)"

text \<open>The policy part of \<open>apply_team_config\<close> (\<open>teams.rs\<close>) and the release of it by \<open>remove_team\<close>. Every flag is
  computed afresh from the configuration of the team.\<close>

definition policy_forces :: "json \<Rightarrow> string \<Rightarrow> bool" where
  "policy_forces cfg k = (Option.bind (jget ''screeningPolicy'' cfg) (jget_bool k) = Some True)"

definition level_of_name :: "string \<Rightarrow> safety_level option" where
  "level_of_name l =
     (if l = ''off'' then Some Off else if l = ''ask'' then Some Ask else if l = ''strict'' then Some Strict else None)"

definition team_min_level :: "json \<Rightarrow> safety_level" where
  "team_min_level cfg =
     (case Option.bind (Option.bind (jget ''screeningPolicy'' cfg) (jget_str ''minSafetyLevel'')) level_of_name of
        Some l \<Rightarrow> l
      | None \<Rightarrow> if jget_bool ''denyDestructive'' cfg = Some True then Strict
                else if policy_forces cfg ''forceHumanApproval'' then Ask else Off)"

definition apply_team_policy :: "json \<Rightarrow> registry \<Rightarrow> registry" where
  "apply_team_policy cfg reg =
     reg\<lparr>r_team_forced_deny_destructive := (jget_bool ''denyDestructive'' cfg = Some True),
         r_team_min_safety_level := team_min_level cfg,
         r_team_forced_content_defense := policy_forces cfg ''forceContentDefense'',
         r_team_forced_quarantine_on_drift := policy_forces cfg ''forceQuarantineOnDrift'',
         r_team_forced_human_approval := policy_forces cfg ''forceHumanApproval'',
         r_team_forced_block_on_injection := policy_forces cfg ''forceBlockOnInjection'',
         r_team_forced_pii_redaction := policy_forces cfg ''forcePiiRedaction''\<rparr>"

definition release_team_policy :: "registry \<Rightarrow> registry" where
  "release_team_policy reg =
     reg\<lparr>r_team_min_safety_level := Off, r_team_forced_human_approval := False,
         r_team_forced_deny_destructive := False, r_team_forced_content_defense := False,
         r_team_forced_quarantine_on_drift := False, r_team_forced_block_on_injection := False,
         r_team_forced_pii_redaction := False\<rparr>"

lemma level_cases: "Off \<le> l" "Ask \<le> l \<longleftrightarrow> l \<noteq> Off" "Strict \<le> l \<longleftrightarrow> l = Strict" "l \<le> Strict"
  for l :: safety_level
  by (cases l; simp)+

lemmas policy_defs = safety_level_effective_def safety_level_team_floor_def deny_destructive_effective_def
  quarantine_on_drift_effective_def block_on_injection_effective_def pii_redaction_effective_def
  requires_human_approval_def

lemma team_frame [simp]:
  "safety_level_selected (apply_team_policy cfg reg) = safety_level_selected reg"
  "kept (apply_team_policy cfg reg) = kept reg"
  "safety_level_selected (release_team_policy reg) = safety_level_selected reg"
  "kept (release_team_policy reg) = kept reg"
  "release_team_policy (apply_team_policy cfg reg) = release_team_policy reg"
  by (simp_all add: safety_level_selected_def kept_def apply_team_policy_def release_team_policy_def)

lemma set_level_selected [simp]:
  "safety_level_selected (set_safety_level l reg) = l"
  "safety_level_team_floor (set_safety_level l reg) = safety_level_team_floor reg"
  "kept (set_safety_level l reg) = no_kept"
  by (simp_all add: set_safety_level_def sync_legacy_safety_mirror_def safety_level_selected_def
      safety_level_team_floor_def kept_def Let_def)

lemma max_level: "max Off l = l" "max l Off = l" for l :: safety_level
  by (cases l; simp add: max_def)+

text \<open>C26: A team can only tighten what a member chose. Whatever configuration a sync applies, the
  effective level is at least the team's minimum, and every protection (deny, quarantine, injection
  block, redaction, approval of destructive calls and of calls to untrusted servers) that holds
  without the team still holds with it; leaving the team restores the member's own policy exactly.
  A level that validation accepts becomes the effective level.\<close>

theorem team_policy_tightens:
  "at_least_as_strict (protections_of (apply_team_policy cfg reg)) (protections_of (release_team_policy reg)) \<and>
   team_min_level cfg \<le> safety_level_effective (apply_team_policy cfg reg) \<and>
   protections_of (release_team_policy (apply_team_policy cfg reg)) = protections_of (release_team_policy reg) \<and>
   safety_level_effective (release_team_policy reg) = safety_level_selected reg \<and>
   (validate_safety_level reg l = Inr () \<longrightarrow> safety_level_effective (set_safety_level l reg) = l)"
proof (intro conjI impI)
  let ?with = "apply_team_policy cfg reg" and ?without = "release_team_policy reg"
  have floor: "safety_level_team_floor ?with = max (team_min_level cfg) (if policy_forces cfg ''forceHumanApproval'' then Ask else Off)"
      "safety_level_team_floor ?without = Off"
    by (simp_all add: safety_level_team_floor_def apply_team_policy_def release_team_policy_def max_level)
  show "protections_of (release_team_policy (apply_team_policy cfg reg)) = protections_of ?without" by simp
  show own: "safety_level_effective ?without = safety_level_selected reg"
    by (simp add: safety_level_effective_def floor max_level)
  have lev: "safety_level_effective ?with = max (safety_level_selected reg) (max (team_min_level cfg) (if policy_forces cfg ''forceHumanApproval'' then Ask else Off))"
    by (simp add: safety_level_effective_def floor)
  then show "team_min_level cfg \<le> safety_level_effective ?with" by (simp add: le_max_iff_disj)
  have ge: "safety_level_selected reg \<le> safety_level_effective ?with" by (simp add: lev)
  have flds: "\<not> r_team_forced_human_approval ?without"
      "\<not> r_team_forced_quarantine_on_drift ?without" "\<not> r_team_forced_block_on_injection ?without"
      "\<not> r_team_forced_pii_redaction ?without" "r_pii_redaction ?with = r_pii_redaction reg"
      "r_pii_redaction ?without = r_pii_redaction reg"
    by (simp_all add: apply_team_policy_def release_team_policy_def)
  have strict: "safety_level_selected reg = Strict \<Longrightarrow> safety_level_effective ?with = Strict"
    using ge by (simp add: level_cases)
  have hold: "requires_human_approval ?without d u \<Longrightarrow> requires_human_approval ?with d u" for d u
    using ge strict flds(1) unfolding requires_human_approval_def Let_def own team_frame
    by (cases "safety_level_selected reg"; cases "safety_level_effective ?with") auto
  show "at_least_as_strict (protections_of ?with) (protections_of ?without)"
    using ge strict hold
    by (auto simp: at_least_as_strict_def protections_of_def own deny_destructive_effective_def
        quarantine_on_drift_effective_def block_on_injection_effective_def pii_redaction_effective_def flds)
  assume "validate_safety_level reg l = Inr ()"
  then show "safety_level_effective (set_safety_level l reg) = l"
    by (simp add: validate_safety_level_def safety_level_effective_def max_def split: if_splits)
qed

theorem team_policy_tightens_witness:
  "validate_safety_level default_registry Strict = Inr () \<and>
   safety_level_effective (set_safety_level Strict default_registry) = Strict"
proof -
  have v: "validate_safety_level default_registry Strict = Inr ()"
    by (simp add: validate_safety_level_def level_cases leD)
  with team_policy_tightens [of JNull default_registry Strict] show ?thesis by blast
qed

section \<open>The mirror for version 1\<close>

text \<open>How a process of version 1 reads the registry: it does not know the level, only the toggles.\<close>

definition read_as_v1 :: "registry \<Rightarrow> registry" where
  "read_as_v1 reg = reg\<lparr>r_version := 1, r_safety_level := None, r_kept_v1_safety := None\<rparr>"

text \<open>After the toggles are mirrored from the level of a version 2 registry, a reader that follows
  the version 1 rules blocks, quarantines and holds at least what the registry itself would under
  the member's own policy. The level is not derived back: \<open>Strict\<close> reads as \<open>Ask\<close> with the blocking
  toggles set.\<close>

theorem legacy_mirror_strict:
  assumes "2 \<le> r_version reg" and "safety_level_team_floor reg = Off"
    and "\<not> r_team_forced_quarantine_on_drift reg" and "\<not> r_team_forced_block_on_injection reg"
  shows "(let old = read_as_v1 (sync_legacy_safety_mirror reg)
          in (deny_destructive_effective reg \<longrightarrow> deny_destructive_effective old) \<and>
             (quarantine_on_drift_effective reg \<longrightarrow> quarantine_on_drift_effective old) \<and>
             (block_on_injection_effective reg \<longrightarrow> block_on_injection_effective old) \<and>
             (requires_human_approval reg d u \<longrightarrow> requires_human_approval old d u) \<and>
             (safety_level_selected reg = Strict \<longrightarrow> safety_level_selected old = Ask))"
proof -
  define old where "old = read_as_v1 (sync_legacy_safety_mirror reg)"
  have eff: "safety_level_effective reg = safety_level_selected reg"
    by (simp add: safety_level_effective_def assms(2) max_level)
  have forced: "\<not> r_team_forced_human_approval reg"
    using assms(2) by (auto simp: safety_level_team_floor_def max_def split: if_splits)
  have sel: "safety_level_selected old = (if Ask \<le> safety_level_selected reg then Ask else Off)"
    using assms(1) by (simp add: old_def read_as_v1_def sync_legacy_safety_mirror_def safety_level_selected_def Let_def)
  have floor: "safety_level_team_floor old = Off"
    using assms(1,2) by (simp add: old_def read_as_v1_def sync_legacy_safety_mirror_def safety_level_team_floor_def Let_def)
  have kept: "kept old = \<lparr>kv_hold_untrusted = (Ask \<le> safety_level_selected reg),
      kv_deny_destructive = (safety_level_selected reg = Strict \<or> kv_deny_destructive (kept reg)),
      kv_quarantine_on_drift = (safety_level_selected reg = Strict \<or> kv_quarantine_on_drift (kept reg)),
      kv_block_on_injection = (safety_level_selected reg = Strict \<or> kv_block_on_injection (kept reg))\<rparr>"
    using assms(1) by (simp add: old_def read_as_v1_def sync_legacy_safety_mirror_def kept_def Let_def)
  have eff_old: "safety_level_effective old = (if Ask \<le> safety_level_selected reg then Ask else Off)"
    by (simp add: safety_level_effective_def floor sel max_level)
  show ?thesis
    unfolding Let_def old_def [symmetric] deny_destructive_effective_def quarantine_on_drift_effective_def
      block_on_injection_effective_def requires_human_approval_def eff eff_old kept sel
    using assms(3,4) forced by (cases "safety_level_selected reg") auto
qed

definition strict_registry :: registry where
  "strict_registry = set_safety_level Strict default_registry"

theorem legacy_mirror_strict_witness:
  "safety_level_selected strict_registry = Strict \<and>
   deny_destructive_effective (read_as_v1 (sync_legacy_safety_mirror strict_registry)) \<and>
   safety_level_selected (read_as_v1 (sync_legacy_safety_mirror strict_registry)) = Ask"
proof -
  have h: "2 \<le> r_version strict_registry" "safety_level_team_floor strict_registry = Off"
      "\<not> r_team_forced_quarantine_on_drift strict_registry" "\<not> r_team_forced_block_on_injection strict_registry"
      "safety_level_selected strict_registry = Strict" "deny_destructive_effective strict_registry"
    by (simp_all add: strict_registry_def set_safety_level_def sync_legacy_safety_mirror_def Let_def
        default_registry_def registry_version_def safety_level_team_floor_def safety_level_selected_def
        deny_destructive_effective_def safety_level_effective_def max_def)
  from legacy_mirror_strict [OF h(1-4)] h(5,6) show ?thesis by (simp add: Let_def)
qed

end
