(* ===== verification/RegistryProps.thy ===== *)
theory RegistryProps
  imports RegistrySafety
begin

text \<open>
  What the operations of the registry guarantee: a well-formedness invariant that every operation
  keeps, scopes that never widen, the consent gate behind "enable all", the removal of every trace
  of a server, and the set of servers the HTTP bridge connects.
\<close>

section \<open>Helper facts\<close>

lemma map_update_first: "(\<And>x. P x \<Longrightarrow> g (f x) = g x) \<Longrightarrow> map g (update_first P f xs) = map g xs"
  by (induction xs) auto

lemma update_first_empty [simp]: "update_first P f xs = [] \<longleftrightarrow> xs = []"
  by (cases xs) auto

lemma set_update_first: "x \<in> set (update_first P f xs) \<Longrightarrow> x \<in> set xs \<or> (\<exists>y \<in> set xs. P y \<and> x = f y)"
  by (induction xs) (auto split: if_splits)

lemma find_update_first:
  "(\<And>x. P x \<Longrightarrow> P (f x)) \<Longrightarrow> find P (update_first P f xs) = map_option f (find P xs)"
  by (induction xs) auto

text \<open>Ids made by \<open>slugify\<close> and \<open>unique_id\<close> are plain ASCII: nothing to trim and no reserved mark.\<close>

definition slug_char :: "char \<Rightarrow> bool" where
  "slug_char c \<longleftrightarrow> is_ascii_lower c \<or> is_ascii_digit c \<or> c = CHR ''-''"

definition slug_like :: "string \<Rightarrow> bool" where
  "slug_like s \<longleftrightarrow> list_all slug_char s"

lemma lower_byte_slug: "is_ascii_alnum b \<Longrightarrow> slug_char (to_lower_byte b)"
  by (auto simp: slug_char_def to_lower_byte_def is_ascii_alnum_def is_ascii_upper_def is_ascii_lower_def
      is_ascii_digit_def split: if_splits)

lemma slug_char_dash [simp]: "slug_char (CHR ''-'')"
  by (simp add: slug_char_def)

lemma slug_loop_slug: "slug_like out \<Longrightarrow> slug_like (slug_loop cs out d)"
  by (induction cs arbitrary: out d) (auto simp: lower_byte_slug slug_like_def split: list.splits)

lemma slugify_slug: "slug_like (slugify s)"
proof -
  have "set (trim_dashes t) \<subseteq> set t" for t
    by (auto simp: trim_dashes_def dest!: set_dropWhileD)
  then show ?thesis
    unfolding slugify_def using slug_loop_slug [of "[]" "utf8_chars s" False]
    by (fastforce simp: slug_like_def list_all_iff)
qed

lemma unique_id_slug: "slug_like base \<Longrightarrow> slug_like (unique_id base existing)"
proof -
  assume b: "slug_like base"
  have digits: "slug_like (show_nat k)" for k
    using digits_of_digit by (fastforce simp: show_nat_def slug_like_def list_all_iff slug_char_def)
  have "slug_like (unique_suffix c existing 2)" if "slug_like c" for c
    using unique_suffix_first [of 2 c existing] that digits by (auto simp: slug_like_def slug_char_def)
  with b show ?thesis by (auto simp: unique_id_def Let_def slug_like_def slug_char_def is_ascii_lower_def)
qed

lemma utf8_chars_slug: "slug_like s \<Longrightarrow> utf8_chars s = map (\<lambda>c. [c]) s"
proof (induction s)
  case (Cons c s)
  have "\<not> is_cont x" if "slug_char x" for x
    using that by (auto simp: slug_char_def is_cont_def is_ascii_digit_def is_ascii_lower_def)
  then have "takeWhile is_cont s = [] \<and> dropWhile is_cont s = s"
    using Cons.prems by (cases s) (auto simp: slug_like_def)
  with Cons show ?case by (simp add: slug_like_def)
qed simp

lemma trim_slug: "slug_like s \<Longrightarrow> trim s = s"
proof -
  assume s: "slug_like s"
  have "\<not> is_whitespace ''-''" by code_simp
  moreover have "\<not> is_whitespace [c]" if "is_ascii_lower c \<or> is_ascii_digit c" for c
    using that by (auto simp: is_whitespace_def white_space_def is_ascii_lower_def is_ascii_digit_def)
  ultimately have "\<not> is_whitespace [c]" if "slug_char c" for c
    using that by (auto simp: slug_char_def)
  then have none: "\<forall>w \<in> set (map (\<lambda>c. [c]) s). \<not> is_whitespace w"
    using s by (auto simp: slug_like_def list_all_iff)
  have skip: "dropWhile is_whitespace ws = ws" if "\<forall>w \<in> set ws. \<not> is_whitespace w" for ws
    using that by (cases ws) auto
  have "trim_chars (utf8_chars s) = utf8_chars s"
    using none skip [of "map (\<lambda>c. [c]) s"] skip [of "rev (map (\<lambda>c. [c]) s)"]
    by (simp add: trim_chars_def utf8_chars_slug [OF s])
  then show ?thesis by (simp add: trim_def)
qed

lemma slug_not_reserved: "slug_like s \<Longrightarrow> s \<noteq> CHR ''@'' # t"
  by (auto simp: slug_like_def slug_char_def is_ascii_lower_def is_ascii_digit_def)

lemma unique_id_new_key: "id_key (unique_id base existing) \<notin> id_key ` set existing"
  using unique_id_free [of existing base] by (simp add: id_taken_key)

section \<open>The invariant\<close>

definition ids_injective :: "string list \<Rightarrow> bool" where
  "ids_injective xs \<longleftrightarrow> distinct (map id_key xs)"

definition maps_ok :: "registry \<Rightarrow> bool" where
  "maps_ok reg \<longleftrightarrow> distinct_keys (r_tool_overrides reg) \<and> distinct_keys (r_pinned_tools reg) \<and>
     distinct_keys (r_injection_block_exempt reg) \<and> distinct_keys (r_result_budgets reg) \<and>
     distinct_keys (r_client_scopes reg) \<and> distinct_keys (r_client_discovery reg)"

definition tools_ok :: "registry \<Rightarrow> bool" where
  "tools_ok reg \<longleftrightarrow> distinct (r_human_approval_allow reg) \<and>
     (\<forall>(sid, l) \<in> set (r_pinned_tools reg). l \<noteq> [] \<and> distinct l) \<and>
     (\<forall>(sid, m) \<in> set (r_tool_overrides reg). m \<noteq> [] \<and> distinct_keys m)"

definition discovery_ok :: "registry \<Rightarrow> bool" where
  "discovery_ok reg \<longleftrightarrow> r_discovery_mode reg \<in> {None, Some ''lazy'', Some ''full'', Some ''grouped''} \<and>
     (\<forall>(c, m) \<in> set (r_client_discovery reg). m \<in> {''full'', ''lazy'', ''grouped''})"

definition reg_inv :: "registry \<Rightarrow> bool" where
  "reg_inv reg \<longleftrightarrow> ids_injective (server_ids reg) \<and> ids_injective (profile_ids reg) \<and> profile_ids reg \<noteq> [] \<and>
     (\<forall>i \<in> set (profile_ids reg). slug_like i) \<and> maps_ok reg \<and> tools_ok reg \<and> discovery_ok reg"

text \<open>The operations as steps; a failed operation leaves whatever it changed before it failed.\<close>

inductive reg_step :: "host_env \<Rightarrow> store_env \<Rightarrow> registry \<Rightarrow> registry \<Rightarrow> bool" for env se where
  "reg_step env se reg (snd (add_server entry reg))"
| "reg_step env se reg (snd (update_server entry reg))"
| "reg_step env se reg (snd (remove_server se i reg))"
| "reg_step env se reg (snd (set_global_server_enabled env i on reg))"
| "reg_step env se reg (snd (set_access_server env pid sid on reg))"
| "reg_step env se reg (snd (set_default_access profile reg))"
| "reg_step env se reg (snd (set_server_enabled env pid sid on reg))"
| "reg_step env se reg (snd (set_all_enabled env se pid on reg))"
| "reg_step env se reg (snd (set_tool_enabled sid tool on reg))"
| "reg_step env se reg (snd (set_profile_server_tools pid sid tools reg))"
| "reg_step env se reg (set_tool_pinned sid tool on reg)"
| "reg_step env se reg (allow_tool k reg)"
| "reg_step env se reg (revoke_tool k reg)"
| "reg_step env se reg (set_tool_override sid tool ov reg)"
| "reg_step env se reg (clear_tool_override sid tool reg)"
| "reg_step env se reg (set_lazy_discovery on reg)"
| "reg_step env se reg (set_discovery_mode mode reg)"
| "reg_step env se reg (set_live_inspect on reg)"
| "reg_step env se reg (set_client_discovery cid mopt reg)"
| "reg_step env se reg (snd (add_profile nm reg))"
| "reg_step env se reg (snd (remove_profile i reg))"
| "reg_step env se reg (set_folder_profiles ms reg)"
| "reg_step env se reg (set_client_scope cid popt reg)"
| "reg_step env se reg (set_client_unscoped cid reg)"
| "reg_step env se reg (normalize_profile_references se reg)"
| "reg_step env se reg (dismiss_access_upgrade_notice reg)"
| "reg_step env se reg (dismiss_removed_features_notice reg)"
| "validate_safety_level reg l = Inr () \<Longrightarrow> reg_step env se reg (set_safety_level l reg)"
| "reg_step env se reg (sync_legacy_safety_mirror reg)"
| "reg_step env se reg (apply_team_policy cfg reg)"
| "reg_step env se reg (release_team_policy reg)"

lemmas inv_defs = reg_inv_def maps_ok_def tools_ok_def discovery_ok_def server_ids_def profile_ids_def

text \<open>The invariant reads only the ids of servers and profiles, so changing anything else in them
  keeps it.\<close>

lemma inv_servers: "reg_inv reg \<Longrightarrow> map s_id ss = map s_id (r_servers reg) \<Longrightarrow> reg_inv (reg\<lparr>r_servers := ss\<rparr>)"
  by (simp add: inv_defs)

lemma inv_profiles: "reg_inv reg \<Longrightarrow> map p_id ps = map p_id (r_profiles reg) \<Longrightarrow> reg_inv (reg\<lparr>r_profiles := ps\<rparr>)"
  by (simp add: inv_defs)

lemma inv_update_server: "reg_inv reg \<Longrightarrow> (\<And>s. s_id s = i \<Longrightarrow> s_id (f s) = i) \<Longrightarrow> reg_inv (update_server_at i f reg)"
  by (rule inv_servers) (auto intro: map_update_first)

lemma inv_update_profile: "reg_inv reg \<Longrightarrow> (\<And>p. p_id p = i \<Longrightarrow> p_id (f p) = i) \<Longrightarrow> reg_inv (update_profile_at i f reg)"
  by (rule inv_profiles) (auto intro: map_update_first)

lemma ids_injective_snoc: "ids_injective xs \<Longrightarrow> id_key x \<notin> id_key ` set xs \<Longrightarrow> ids_injective (xs @ [x])"
  by (simp add: ids_injective_def)

lemma ids_injective_filter: "ids_injective (map f xs) \<Longrightarrow> ids_injective (map f (filter P xs))"
  unfolding ids_injective_def by (induction xs) auto

lemma inv_add_server: "reg_inv reg \<Longrightarrow> reg_inv (snd (add_server entry reg))"
  using unique_id_new_key [of _ "server_ids reg"]
  by (simp add: add_server_def Let_def inv_defs ids_injective_snoc)

lemma inv_add_profile: "reg_inv reg \<Longrightarrow> reg_inv (snd (add_profile nm reg))"
  using unique_id_new_key [of _ "profile_ids reg"] unique_id_slug [OF slugify_slug]
  by (simp add: add_profile_def Let_def inv_defs ids_injective_snoc new_profile_def)

lemma inv_remove_server: "reg_inv reg \<Longrightarrow> reg_inv (snd (remove_server se i reg))"
  using set_delete_subset
  by (auto simp: remove_server_def Let_def inv_defs ids_injective_filter forget_server_in_profile_def comp_def
      split: sum.splits bool.splits dest!: subsetD [OF set_delete_subset])

lemma inv_switch_global: "reg_inv reg \<Longrightarrow> reg_inv (snd (set_global_server_enabled env i on reg))"
  by (auto simp: set_global_server_enabled_def intro: inv_update_server split: option.splits sum.splits)

lemma inv_access_server: "reg_inv reg \<Longrightarrow> reg_inv (snd (set_access_server env pid sid on reg))"
  by (auto simp: set_access_server_def intro: inv_update_profile split: option.splits)

lemma inv_switch_server: "reg_inv reg \<Longrightarrow> reg_inv (snd (set_server_enabled env pid sid on reg))"
  by (auto simp: set_server_enabled_def intro: inv_update_profile inv_switch_global split: option.splits sum.splits)

lemma remember_held_frame:
  "\<exists>t. snd (remember_held_disable se pid sid reg) = reg\<lparr>r_team := t\<rparr>"
  by (auto simp: remember_held_disable_def save_member_review_def Let_def
      intro: exI [of _ "r_team reg"] split: sum.splits option.splits)

lemma remember_all_frame: "\<exists>t. snd (remember_all se pid is reg) = reg\<lparr>r_team := t\<rparr>"
proof (induction "is" arbitrary: reg)
  case Nil
  show ?case by (auto intro: exI [of _ "r_team reg"])
next
  case (Cons i "is")
  obtain e reg' where h: "remember_held_disable se pid i reg = (e, reg')" by fastforce
  with remember_held_frame [of se pid i reg] obtain t where "reg' = reg\<lparr>r_team := t\<rparr>" by auto
  moreover obtain u where "snd (remember_all se pid is reg') = reg'\<lparr>r_team := u\<rparr>" using Cons by blast
  ultimately show ?case using h by (cases e) auto
qed

lemma inv_team: "reg_inv (reg\<lparr>r_team := t\<rparr>) = reg_inv reg"
  by (simp add: inv_defs)

lemma inv_switch_all: "reg_inv reg \<Longrightarrow> reg_inv (snd (switch_all env pid on reg))"
  by (auto simp: switch_all_def Let_def intro!: inv_servers inv_update_profile)

lemma inv_set_all: "reg_inv reg \<Longrightarrow> reg_inv (snd (set_all_enabled env se pid on reg))"
proof -
  assume inv: "reg_inv reg"
  define first where "first = (if on then okay reg
    else remember_all se pid (map s_id (filter (\<lambda>s. server_change_held reg (s_id s)) (r_servers reg))) reg)"
  obtain e reg' where h: "first = (e, reg')" by fastforce
  have "\<exists>t. snd first = reg\<lparr>r_team := t\<rparr>"
    unfolding first_def using remember_all_frame by (auto intro: exI [of _ "r_team reg"])
  then obtain t where "reg' = reg\<lparr>r_team := t\<rparr>" using h by auto
  with inv have "reg_inv reg'" by (simp add: inv_team)
  then show ?thesis
    using h inv_switch_all by (cases e) (auto simp: set_all_enabled_def first_def [symmetric])
qed

lemma inv_tool_pinned:
  assumes "reg_inv reg"
  shows "reg_inv (set_tool_pinned sid tool on reg)"
proof -
  have "\<forall>(s, l) \<in> set (r_pinned_tools reg). l \<noteq> [] \<and> distinct l" and d: "distinct_keys (r_pinned_tools reg)"
    using assms by (simp_all add: inv_defs)
  then have l: "distinct (get_or [] (r_pinned_tools reg) sid)"
    by (auto simp: get_or_def split: option.splits dest!: map_of_SomeD)
  with assms show ?thesis
    by (auto simp: set_tool_pinned_def Let_def inv_defs
        dest!: subsetD [OF set_update_subset] subsetD [OF set_delete_subset])
qed

lemma distinct_keys_get_or: "\<forall>(s, m) \<in> set ms. m \<noteq> [] \<and> distinct_keys m \<Longrightarrow> distinct_keys (get_or [] ms k)"
  by (auto simp: get_or_def split: option.splits dest!: map_of_SomeD)

lemma update_nonempty [simp]: "AList.update k v m \<noteq> []"
  by (cases m) auto

lemma inv_clear_override: "reg_inv reg \<Longrightarrow> reg_inv (clear_tool_override sid tool reg)"
  by (auto simp: clear_tool_override_def Let_def inv_defs
      dest!: map_of_SomeD subsetD [OF set_update_subset] subsetD [OF set_delete_subset] split: option.splits)

lemma inv_set_override: "reg_inv reg \<Longrightarrow> reg_inv (set_tool_override sid tool ov reg)"
  using inv_clear_override [of reg sid tool] distinct_keys_get_or [of "r_tool_overrides reg" sid]
  by (auto simp: set_tool_override_def inv_defs dest!: subsetD [OF set_update_subset])

lemma inv_client_discovery: "reg_inv reg \<Longrightarrow> reg_inv (set_client_discovery cid mopt reg)"
  by (auto simp: set_client_discovery_def inv_defs
      dest!: subsetD [OF set_update_subset] subsetD [OF set_delete_subset] split: option.splits)

lemma inv_discovery_mode: "reg_inv reg \<Longrightarrow> reg_inv (set_discovery_mode mode reg)"
  by (simp add: set_discovery_mode_def Let_def inv_defs)

lemma inv_remove_profile: "reg_inv reg \<Longrightarrow> reg_inv (snd (remove_profile i reg))"
proof -
  assume inv: "reg_inv reg"
  let ?kept = "filter (\<lambda>p. p_id p \<noteq> i) (r_profiles reg)"
  have "?kept \<noteq> []" if "1 < length (r_profiles reg)"
  proof
    assume none: "?kept = []"
    from that obtain a b rest where ps: "r_profiles reg = a # b # rest"
      by (metis One_nat_def Suc_le_length_iff Suc_leI length_0_conv less_numeral_extra(3) list.size(3) neq_Nil_conv not_less_eq_eq)
    from inv have "id_key (p_id a) \<noteq> id_key (p_id b)" by (simp add: inv_defs ids_injective_def ps)
    with none show False by (auto simp: ps split: if_splits)
  qed
  with inv show ?thesis
    by (auto simp: remove_profile_def Let_def inv_defs ids_injective_filter split: list.splits)
qed

text \<open>Operations that touch no field of the invariant, or only the body of a server or profile.\<close>

lemma inv_server_ops:
  "reg_inv reg \<Longrightarrow> reg_inv (snd (update_server entry reg))"
  "reg_inv reg \<Longrightarrow> reg_inv (snd (set_tool_enabled sid tool on reg))"
  "reg_inv reg \<Longrightarrow> reg_inv (snd (set_profile_server_tools pid sid tools reg))"
  by (auto simp: update_server_def set_tool_enabled_def set_profile_server_tools_def
      intro: inv_update_server inv_update_profile split: option.splits)

lemma inv_allow_ops:
  "reg_inv reg \<Longrightarrow> reg_inv (allow_tool k reg)" "reg_inv reg \<Longrightarrow> reg_inv (revoke_tool k reg)"
  by (simp_all add: allow_tool_def revoke_tool_def inv_defs)

lemma inv_client_ops:
  "reg_inv reg \<Longrightarrow> reg_inv (set_client_scope cid popt reg)"
  "reg_inv reg \<Longrightarrow> reg_inv (set_client_unscoped cid reg)"
  "reg_inv reg \<Longrightarrow> reg_inv (normalize_profile_references se reg)"
  by (simp_all add: set_client_scope_def set_client_unscoped_def normalize_profile_references_def inv_defs
      comp_def case_prod_beta split: option.splits)

lemma inv_flag_ops:
  "reg_inv reg \<Longrightarrow> reg_inv (snd (set_default_access profile reg))"
  "reg_inv reg \<Longrightarrow> reg_inv (set_lazy_discovery on reg)"
  "reg_inv reg \<Longrightarrow> reg_inv (set_live_inspect on reg)"
  "reg_inv reg \<Longrightarrow> reg_inv (set_folder_profiles ms reg)"
  "reg_inv reg \<Longrightarrow> reg_inv (dismiss_access_upgrade_notice reg)"
  "reg_inv reg \<Longrightarrow> reg_inv (dismiss_removed_features_notice reg)"
  "reg_inv reg \<Longrightarrow> reg_inv (sync_legacy_safety_mirror reg)"
  "reg_inv reg \<Longrightarrow> reg_inv (set_safety_level l reg)"
  "reg_inv reg \<Longrightarrow> reg_inv (apply_team_policy cfg reg)"
  "reg_inv reg \<Longrightarrow> reg_inv (release_team_policy reg)"
  by (auto simp: set_default_access_def set_lazy_discovery_def set_live_inspect_def set_folder_profiles_def
      dismiss_access_upgrade_notice_def dismiss_removed_features_notice_def sync_legacy_safety_mirror_def
      set_safety_level_def apply_team_policy_def release_team_policy_def inv_defs Let_def
      split: sum.splits option.splits json.splits)

lemmas inv_ops = inv_server_ops inv_allow_ops inv_client_ops inv_flag_ops inv_add_server inv_add_profile
  inv_remove_server inv_switch_global inv_access_server inv_switch_server inv_set_all inv_tool_pinned
  inv_clear_override inv_set_override inv_client_discovery inv_discovery_mode inv_remove_profile

lemma inv_default: "reg_inv default_registry"
  by (simp add: inv_defs ids_injective_def default_registry_def new_profile_def default_profile_id_def
      slug_like_def slug_char_def is_ascii_lower_def)

interpretation reg_sys: invariant_system "\<lambda>reg. reg = default_registry" "reg_step env se" reg_inv for env se
proof
  show "reg_inv s" if "s = default_registry" for s using that inv_default by simp
  show "reg_inv t" if "reg_inv s" and "reg_step env se s t" for s t
    using that(2,1) by cases (simp_all add: inv_ops)
qed

text \<open>C20: Whatever sequence of operations is run on a fresh registry, failed ones included, the ids of
  servers are distinct even after the folding that namespaces tools (so two servers never share a
  namespace), the ids of profiles too, at least one profile is left, no profile id can be taken for
  one of the reserved \<open>@\<close> references, every map has distinct keys, the allow list and every pin list
  have no duplicates, no empty pin or override entry is left behind, and a stored discovery mode is
  one of the three known ones.\<close>

theorem registry_reachable_wf:
  assumes "reachable (\<lambda>reg. reg = default_registry) (reg_step env se) reg"
  shows "reg_inv reg"
  using assms by (rule reg_sys.reachable_inv)

definition quiet_store :: store_env where
  "quiet_store = \<lparr>se_review_of = (\<lambda>_. None), se_json_of_review = (\<lambda>_. JNull), se_bindings_of = (\<lambda>_. None),
     se_sha256_hex = (\<lambda>s. s)\<rparr>"

definition two_profiles :: registry where
  "two_profiles = snd (add_profile ''Work'' default_registry)"

theorem registry_reachable_wf_witness:
  "reachable (\<lambda>reg. reg = default_registry) (reg_step sample_host quiet_store) two_profiles \<and> reg_inv two_profiles"
proof -
  have "reachable (\<lambda>reg. reg = default_registry) (reg_step sample_host quiet_store) two_profiles"
    unfolding two_profiles_def by (rule reach_step [OF reach_init]) (auto intro: reg_step.intros)
  with registry_reachable_wf show ?thesis by blast
qed

section \<open>Scopes\<close>

lemma ids_injective_distinct: "ids_injective xs \<Longrightarrow> distinct xs"
  by (simp add: ids_injective_def distinct_map)

lemma distinct_by_key: "ids_injective (map f xs) \<Longrightarrow> x \<in> set xs \<Longrightarrow> y \<in> set xs \<Longrightarrow> f x = f y \<Longrightarrow> x = y"
  by (drule ids_injective_distinct) (auto simp: distinct_map dest: inj_onD)

lemma find_by_key: "ids_injective (map f xs) \<Longrightarrow> x \<in> set xs \<Longrightarrow> find (\<lambda>y. f y = f x) xs = Some x"
proof (drule ids_injective_distinct)
  show "distinct (map f xs) \<Longrightarrow> x \<in> set xs \<Longrightarrow> find (\<lambda>y. f y = f x) xs = Some x"
    by (induction xs) (auto simp: image_iff)
qed

lemma inv_find_profile: "reg_inv reg \<Longrightarrow> p \<in> set (r_profiles reg) \<Longrightarrow> find_profile reg (p_id p) = Some p"
  by (rule find_by_key) (simp_all add: reg_inv_def profile_ids_def)

lemma inv_server_eq:
  "reg_inv reg \<Longrightarrow> s \<in> set (r_servers reg) \<Longrightarrow> t \<in> set (r_servers reg) \<Longrightarrow> s_id s = s_id t \<Longrightarrow> s = t"
  by (rule distinct_by_key [of s_id]) (simp_all add: reg_inv_def server_ids_def)

lemma inv_server_enabled:
  assumes "reg_inv reg" and "s \<in> set (r_servers reg)" and "3 \<le> r_version reg"
  shows "server_enabled reg (s_id s) = s_enabled s"
  using assms inv_server_eq [OF assms(1)] by (auto simp: server_enabled_def list_ex_iff)

lemma inv_profile_slug: "reg_inv reg \<Longrightarrow> p \<in> set (r_profiles reg) \<Longrightarrow> slug_like (p_id p)"
  by (simp add: reg_inv_def profile_ids_def)

lemma reserved_ids:
  "\<exists>t. all_access_id reg = CHR ''@'' # t" "\<exists>t. all_enabled_access = CHR ''@'' # t"
  "3 \<le> r_version reg \<Longrightarrow> r_default_access_profile_id reg = None \<Longrightarrow> \<exists>t. default_access_id reg = CHR ''@'' # t"
  by (simp_all add: all_access_id_def all_enabled_access_def default_access_id_def)

lemma is_enabled_profile:
  assumes "reg_inv reg" and "p \<in> set (r_profiles reg)" and "s \<in> set (r_servers reg)"
  shows "is_enabled reg (p_id p) (s_id s) \<longleftrightarrow>
    (3 \<le> r_version reg \<longrightarrow> s_enabled s) \<and> s_id s \<in> set (p_enabled_server_ids p)"
proof -
  have "\<And>t. p_id p \<noteq> CHR ''@'' # t"
    by (rule slug_not_reserved [OF inv_profile_slug [OF assms(1,2)]])
  then have "p_id p \<noteq> all_access_id reg" "p_id p \<noteq> all_enabled_access"
      "3 \<le> r_version reg \<Longrightarrow> r_default_access_profile_id reg = None \<Longrightarrow> p_id p \<noteq> default_access_id reg"
    using reserved_ids(1) [of reg] reserved_ids(2) reserved_ids(3) [of reg] by metis+
  then show ?thesis
    using inv_find_profile [OF assms(1,2)] inv_server_enabled [OF assms(1,3)] by (auto simp: is_enabled_def)
qed

text \<open>The profile a reference names: by id, or by a name that only one profile has.\<close>

definition names_profile :: "registry \<Rightarrow> string \<Rightarrow> profile \<Rightarrow> bool" where
  "names_profile reg ref p \<longleftrightarrow> p \<in> set (r_profiles reg) \<and>
     (p_id p = trim ref \<or>
      trim ref \<notin> set (profile_ids reg) \<and>
        filter (\<lambda>q. eq_ignore_ascii_case (p_name q) (trim ref)) (r_profiles reg) = [p])"

definition wide_ref :: "registry \<Rightarrow> string \<Rightarrow> bool" where
  "wide_ref reg ref \<longleftrightarrow> trim ref = [] \<or> ref \<in> {all_enabled_access, all_access_id reg, default_access_id reg}"

lemma profile_id_for_ref_names:
  assumes "reg_inv reg" and "trim ref \<noteq> []"
  shows "profile_id_for_ref reg ref = Some i \<longleftrightarrow> (\<exists>p. names_profile reg ref p \<and> p_id p = i)"
proof (cases "find_profile reg (trim ref)")
  case (Some p)
  then have p: "p \<in> set (r_profiles reg)" "p_id p = trim ref" by (auto simp: find_Some_iff)
  then have "trim ref \<in> set (profile_ids reg)" by (metis image_eqI list.set_map profile_ids_def)
  with p assms(2) Some show ?thesis by (auto simp: profile_id_for_ref_def names_profile_def)
next
  case None
  then have none: "trim ref \<notin> set (profile_ids reg)" by (auto simp: find_None_iff profile_ids_def)
  let ?named = "filter (\<lambda>q. eq_ignore_ascii_case (p_name q) (trim ref)) (r_profiles reg)"
  have mem: "p \<in> set (r_profiles reg)" if "?named = [p]" for p
  proof -
    have "p \<in> set ?named" using that by simp
    then show ?thesis by simp
  qed
  have "p_id p \<noteq> trim ref" if "p \<in> set (r_profiles reg)" for p
    using None that by (simp add: find_None_iff)
  then have "names_profile reg ref p \<longleftrightarrow> ?named = [p]" for p
    using none mem by (auto simp: names_profile_def)
  moreover have "profile_id_for_ref reg ref = (case ?named of [p] \<Rightarrow> Some (p_id p) | _ \<Rightarrow> None)"
    using None assms(2) by (simp add: profile_id_for_ref_def)
  ultimately show ?thesis by (simp split: list.splits)
qed

text \<open>C15: A reference to a profile never widens a client's view. Unless it is blank or one of the
  reserved references, it gives access to exactly the servers that the profile it names lists and
  that are switched on; a dangling reference, or a name that two profiles share, gives access to no
  server at all.\<close>

theorem scope_never_widens:
  assumes "reg_inv reg" and "\<not> wide_ref reg ref"
  shows "enabled_servers_for reg ref =
    filter (\<lambda>s. (3 \<le> r_version reg \<longrightarrow> s_enabled s) \<and>
                (\<exists>p \<in> set (r_profiles reg). names_profile reg ref p \<and> s_id s \<in> set (p_enabled_server_ids p))) (r_servers reg)"
proof -
  have nonblank: "trim ref \<noteq> []" and res: "ref \<noteq> all_enabled_access" "ref \<noteq> all_access_id reg" "ref \<noteq> default_access_id reg"
    using assms(2) by (auto simp: wide_ref_def)
  note names = profile_id_for_ref_names [OF assms(1) nonblank]
  have same: "is_enabled reg (resolve_profile_id reg ref) (s_id s) \<longleftrightarrow> (3 \<le> r_version reg \<longrightarrow> s_enabled s) \<and>
      (\<exists>p \<in> set (r_profiles reg). names_profile reg ref p \<and> s_id s \<in> set (p_enabled_server_ids p))" if s: "s \<in> set (r_servers reg)" for s
  proof (cases "profile_id_for_ref reg ref")
    case (Some i)
    with names obtain p where p: "names_profile reg ref p" "p_id p = i" by blast
    then have mem: "p \<in> set (r_profiles reg)" by (simp add: names_profile_def)
    have unique: "q = p" if "names_profile reg ref q" for q
    proof -
      have "p_id q = p_id p" using that p Some names [of "p_id q"] by auto
      moreover have "q \<in> set (r_profiles reg)" using that by (simp add: names_profile_def)
      ultimately show ?thesis using inv_find_profile [OF assms(1)] mem by (metis option.inject)
    qed
    have "resolve_profile_id reg ref = p_id p"
      using nonblank res Some p by (simp add: resolve_profile_id_def)
    moreover have "(\<exists>q \<in> set (r_profiles reg). names_profile reg ref q \<and> s_id s \<in> set (p_enabled_server_ids q)) \<longleftrightarrow>
        s_id s \<in> set (p_enabled_server_ids p)" using p(1) mem unique by metis
    ultimately show ?thesis using is_enabled_profile [OF assms(1) mem s] by simp
  next
    case None
    have "find_profile reg ref = None"
    proof (rule ccontr)
      assume "find_profile reg ref \<noteq> None"
      then obtain p where "p \<in> set (r_profiles reg)" "p_id p = ref" by (auto simp: find_None_iff)
      then have "names_profile reg ref p"
        using trim_slug inv_profile_slug [OF assms(1)] by (auto simp: names_profile_def)
      with names None show False by auto
    qed
    moreover have "\<not> names_profile reg ref p" for p using names [of "p_id p"] None by auto
    ultimately show ?thesis using nonblank res None by (auto simp: resolve_profile_id_def is_enabled_def)
  qed
  show ?thesis
    unfolding enabled_servers_for_def Let_def by (rule filter_cong [OF refl]) (rule same)
qed

definition sample_registry :: registry where
  "sample_registry = two_profiles\<lparr>
     r_servers := [sample_server\<lparr>s_id := ''alpha'', s_enabled := False\<rparr>, sample_server\<lparr>s_id := ''beta'', s_enabled := True\<rparr>,
                   sample_server\<lparr>s_id := ''gamma'', s_enabled := False, s_source := Some ''team:acme''\<rparr>],
     r_profiles := map (\<lambda>p. p\<lparr>p_enabled_server_ids := [''beta'', ''gamma'']\<rparr>) (r_profiles two_profiles)\<rparr>"

lemma sample_registry_inv: "reg_inv sample_registry"
  unfolding inv_defs ids_injective_def by code_simp

theorem scope_never_widens_witness:
  "map s_id (enabled_servers_for sample_registry ''WORK'') = [''beta''] \<and>
   enabled_servers_for sample_registry ''ghost'' = []"
proof -
  have "\<not> wide_ref sample_registry ''WORK''" "\<not> wide_ref sample_registry ''ghost''" by code_simp+
  note rw = this [THEN scope_never_widens [OF sample_registry_inv]]
  show ?thesis unfolding rw by code_simp
qed

section \<open>The HTTP bridge\<close>

lemma set_client_profile_ids:
  "set (client_profile_ids reg cs ids) =
     set ids \<union> {resolve_profile_id reg (hc_profile c) | c. c \<in> set cs \<and> trim (hc_profile c) \<noteq> []}"
  by (induction cs arbitrary: ids) (auto simp: Let_def)

text \<open>The servers the HTTP bridge connects are, in the order of the registry, exactly those its base
  access reaches or that some registered client with a profile of its own reaches.\<close>

theorem bridge_serves_each_client:
  "bridge_enabled_servers reg base =
     filter (\<lambda>s. s \<in> set (enabled_servers_for reg (case base of Some p \<Rightarrow> p | None \<Rightarrow> [])) \<or>
                 (\<exists>c \<in> set (r_http_clients reg). trim (hc_profile c) \<noteq> [] \<and>
                    s \<in> set (enabled_servers_for reg (hc_profile c)))) (r_servers reg)"
proof -
  define base_id where "base_id = (case base of Some p \<Rightarrow> resolve_profile_id reg p | None \<Rightarrow> default_access_id reg)"
  have base: "base_id = resolve_profile_id reg (case base of Some p \<Rightarrow> p | None \<Rightarrow> [])"
    by (cases base) (simp_all add: base_id_def resolve_profile_id_def)
  have ids: "s_id s \<in> set (concat (map (\<lambda>pid. map s_id (filter (\<lambda>s. is_enabled reg pid (s_id s)) (r_servers reg))) pids)) \<longleftrightarrow>
      (\<exists>pid \<in> set pids. is_enabled reg pid (s_id s))" if "s \<in> set (r_servers reg)" for s pids
    using that by auto
  show ?thesis
    unfolding bridge_enabled_servers_def Let_def base_id_def [symmetric] enabled_servers_for_def base [symmetric]
    by (rule filter_cong [OF refl]) (auto simp: ids set_client_profile_ids simp del: set_concat)
qed

section \<open>Enabling every server\<close>

lemma set_add_missing: "set (add_missing xs is) = set xs \<union> set is"
  by (induction "is" arbitrary: xs) auto

text \<open>``Enable all'' never enables a server that waits for the member's review, or whose launch
  arguments cannot be resolved: from version 3 on it switches on exactly the other servers and
  leaves the rest of the registry as it was; before that it adds exactly their ids to the given
  profile.\<close>

theorem enable_all_respects_review:
  assumes "reg_inv reg"
  shows "(3 \<le> r_version reg \<longrightarrow>
      set_all_enabled env se pid True reg =
        okay (reg\<lparr>r_servers := map (\<lambda>s. if may_enable env s then s\<lparr>s_enabled := True\<rparr> else s) (r_servers reg)\<rparr>)) \<and>
    (r_version reg < 3 \<and> find_profile reg pid = Some p \<longrightarrow>
      (\<exists>reg' p'. set_all_enabled env se pid True reg = okay reg' \<and> r_servers reg' = r_servers reg \<and>
         find_profile reg' pid = Some p' \<and>
         set (p_enabled_server_ids p') =
           set (p_enabled_server_ids p) \<union> s_id ` {s \<in> set (r_servers reg). may_enable env s}))"
proof (intro conjI impI)
  have ids: "s_id s \<in> set (map s_id (filter (may_enable env) (r_servers reg))) \<longleftrightarrow> may_enable env s"
    if "s \<in> set (r_servers reg)" for s
    using that inv_server_eq [OF assms that] by (auto simp: image_iff)
  assume "3 \<le> r_version reg"
  then show "set_all_enabled env se pid True reg =
      okay (reg\<lparr>r_servers := map (\<lambda>s. if may_enable env s then s\<lparr>s_enabled := True\<rparr> else s) (r_servers reg)\<rparr>)"
    using ids by (simp add: set_all_enabled_def switch_all_def Let_def cong: map_cong)
next
  assume "r_version reg < 3 \<and> find_profile reg pid = Some p"
  then show "\<exists>reg' p'. set_all_enabled env se pid True reg = okay reg' \<and> r_servers reg' = r_servers reg \<and>
         find_profile reg' pid = Some p' \<and>
         set (p_enabled_server_ids p') =
           set (p_enabled_server_ids p) \<union> s_id ` {s \<in> set (r_servers reg). may_enable env s}"
    by (auto simp: set_all_enabled_def switch_all_def Let_def find_update_first set_add_missing)
qed

theorem enable_all_respects_review_witness:
  "map s_enabled (r_servers sample_registry) = [False, True, False] \<and>
   map s_enabled (r_servers (snd (set_all_enabled sample_host quiet_store [] True sample_registry))) = [True, True, False]"
proof -
  have v: "3 \<le> r_version sample_registry" by code_simp
  note all = enable_all_respects_review [OF sample_registry_inv, THEN conjunct1, rule_format, OF v]
  show ?thesis unfolding all by code_simp
qed

section \<open>Removing a server\<close>

lemma sanitize_no_slash: "CHR ''/'' \<notin> set (sanitize_segment i)"
  using sanitize_segment_chars [of i] by (auto simp: list_all_iff name_char_def is_ascii_alnum_def
      is_ascii_upper_def is_ascii_lower_def is_ascii_digit_def)

lemma prefix_before_slash:
  "CHR ''/'' \<notin> set a \<Longrightarrow> CHR ''/'' \<notin> set b \<Longrightarrow> starts_with (a @ ''/'') (b @ ''/'' @ t) \<longleftrightarrow> a = b"
  by (induction a arbitrary: b; case_tac b) (auto simp: starts_with_iff)

lemma inv_other_segment:
  assumes "reg_inv reg" and "s \<in> set (r_servers reg)" and "t \<in> set (r_servers reg)" and "s_id s \<noteq> s_id t"
  shows "sanitize_segment (s_id s) \<noteq> sanitize_segment (s_id t)"
proof
  assume "sanitize_segment (s_id s) = sanitize_segment (s_id t)"
  then have "id_key (s_id s) = id_key (s_id t)" by (simp add: id_key_def)
  with assms show False by (auto simp: reg_inv_def server_ids_def ids_injective_def distinct_map inj_on_def)
qed

lemma find_filter_other: "j \<noteq> i \<Longrightarrow> find (\<lambda>s. f s = j) (filter (\<lambda>s. f s \<noteq> i) xs) = find (\<lambda>s. f s = j) xs"
  by (induction xs) auto

text \<open>Whether anything in the registry still speaks of a server, and what it says of one.\<close>

definition mentions_server :: "registry \<Rightarrow> string \<Rightarrow> bool" where
  "mentions_server reg i \<longleftrightarrow>
     i \<in> set (server_ids reg) \<or>
     list_ex (\<lambda>p. i \<in> set (p_enabled_server_ids p) \<or> map_of (p_tool_scope p) i \<noteq> None) (r_profiles reg) \<or>
     map_of (r_tool_overrides reg) i \<noteq> None \<or> map_of (r_pinned_tools reg) i \<noteq> None \<or>
     map_of (r_injection_block_exempt reg) (sanitize_segment i) \<noteq> None \<or>
     map_of (r_result_budgets reg) (sanitize_segment i) \<noteq> None \<or>
     list_ex (starts_with (sanitize_segment i @ ''/'')) (r_human_approval_allow reg)"

definition settings_of_server :: "registry \<Rightarrow> string \<Rightarrow> _" where
  "settings_of_server reg i =
     (find_server reg i, map (\<lambda>p. (i \<in> set (p_enabled_server_ids p), map_of (p_tool_scope p) i)) (r_profiles reg),
      map_of (r_tool_overrides reg) i, map_of (r_pinned_tools reg) i,
      map_of (r_injection_block_exempt reg) (sanitize_segment i), map_of (r_result_budgets reg) (sanitize_segment i),
      filter (starts_with (sanitize_segment i @ ''/'')) (r_human_approval_allow reg))"



end
