(* ===== verification/ToolPolicy.thy ===== *)
theory ToolPolicy
  imports RegistryProps
begin

text \<open>
  Which tools the gateway exposes: whether a tool looks destructive and the policy that hides and
  blocks tools (\<open>router.rs\<close>), the metadata it reads (\<open>tool_definitions.rs\<close>), how a policy is derived
  from the registry and how quarantine starts (\<open>bin/toolport-gateway.rs\<close>), and the entries that are
  the gateway itself (\<open>clients.rs\<close>). The last lemmas connect the two ends: what the policy lets
  through is exactly what the registry allows.
\<close>

section \<open>Destructive tools\<close>

text \<open>The loop over pairs of neighbouring characters; \<open>word\<close> is ASCII, since it was split at everything
  else. \<open>cur\<close> is the piece since \<open>start\<close>.\<close>

fun camel_pieces :: "string \<Rightarrow> string \<Rightarrow> string list" where
  "camel_pieces cur [] = (if cur = [] then [] else [to_ascii_lowercase cur])"
| "camel_pieces cur [c] = [to_ascii_lowercase (cur @ [c])]"
| "camel_pieces cur (c # d # cs) =
     (if cur \<noteq> [] \<and> is_ascii_lower c \<and> is_ascii_upper d
      then to_ascii_lowercase (cur @ [c]) # camel_pieces [] (d # cs)
      else camel_pieces (cur @ [c]) (d # cs))"

definition split_camel_lower :: "string \<Rightarrow> string list" where
  "split_camel_lower word = camel_pieces [] word"

definition destructive_verbs :: "string list" where
  "destructive_verbs = [''create'', ''delete'', ''destroy'', ''drop'', ''execute'', ''insert'', ''move'', ''patch'',
     ''post'', ''publish'', ''remove'', ''rename'', ''replace'', ''run'', ''send'', ''truncate'', ''update'', ''upload'', ''write'']"

definition name_looks_destructive :: "string \<Rightarrow> bool" where
  "name_looks_destructive name =
     list_ex (\<lambda>t. t \<in> set destructive_verbs)
       (concat (map split_camel_lower (split_on (\<lambda>c. \<not> is_ascii_alnum c) name)))"

definition is_destructive :: "json \<Rightarrow> bool" where
  "is_destructive tool =
     (case Option.bind (jget ''annotations'' tool) (jget_bool ''destructiveHint'') of
        Some hint \<Rightarrow> hint
      | None \<Rightarrow>
          (case jget_bool ''destructiveHint'' tool of
             Some hint \<Rightarrow> hint
           | None \<Rightarrow> (case jget_str ''name'' tool of Some name \<Rightarrow> name_looks_destructive name | None \<Rightarrow> False)))"

record tool_policy_metadata =
  tm_destructive :: bool
  tm_model_hidden :: bool

definition metadata_of :: "json \<Rightarrow> tool_policy_metadata" where
  "metadata_of tool =
     \<lparr>tm_destructive = is_destructive tool,
      tm_model_hidden =
        (case pointer ''/_meta/ui/visibility'' tool of
           None \<Rightarrow> False
         | Some v \<Rightarrow> (case as_array v of None \<Rightarrow> True | Some a \<Rightarrow> \<not> list_ex (\<lambda>x. x = JStr ''model'') a))\<rparr>"

section \<open>The policy\<close>

record tool_policy =
  tp_servers :: "string set option"
  tp_disabled :: "(string \<times> string set) list"
  tp_allow :: "(string \<times> string set) list"
  tp_deny_destructive :: bool
  tp_quarantined :: "string set"
  tp_fail_closed_catalog :: bool

text \<open>\<open>AmbiguousBinding\<close> is not a verdict of the policy: the router records it when two tools claim one
  persisted name.\<close>

datatype blocked_reason = OutsideScope | ServerOff | ToolDisabled | DestructivePolicy | StoreUnreadable | Quarantined
  | AmbiguousBinding

definition allows_server :: "tool_policy \<Rightarrow> string \<Rightarrow> bool" where
  "allows_server p i = (case tp_servers p of None \<Rightarrow> True | Some s \<Rightarrow> i \<in> s)"

definition blocked_reason_unscoped :: "tool_policy \<Rightarrow> string \<Rightarrow> string \<Rightarrow> string \<Rightarrow> tool_policy_metadata \<Rightarrow> blocked_reason option" where
  "blocked_reason_unscoped p exposed sid orig tool =
     (if \<not> allows_server p sid then Some ServerOff
      else if (case map_of (tp_disabled p) sid of Some s \<Rightarrow> orig \<in> s | None \<Rightarrow> False) then Some ToolDisabled
      else if tp_deny_destructive p \<and> tm_destructive tool then Some DestructivePolicy
      else if tp_fail_closed_catalog p then Some StoreUnreadable
      else if exposed \<in> tp_quarantined p then Some Quarantined
      else None)"

definition blocked_reason :: "tool_policy \<Rightarrow> string \<Rightarrow> string \<Rightarrow> string \<Rightarrow> tool_policy_metadata \<Rightarrow> blocked_reason option" where
  "blocked_reason p exposed sid orig tool =
     (if (case map_of (tp_allow p) sid of Some s \<Rightarrow> orig \<notin> s | None \<Rightarrow> False) then Some OutsideScope
      else blocked_reason_unscoped p exposed sid orig tool)"

text \<open>The messages for the reasons.\<close>

fun reason_text :: "blocked_reason \<Rightarrow> string" where
  "reason_text OutsideScope = ''outside this client'' @ [CHR 0x27] @ ''s tool scope''"
| "reason_text ServerOff = ''on a server that is turned off''"
| "reason_text ToolDisabled = ''disabled''"
| "reason_text DestructivePolicy = ''blocked by the destructive-tool policy''"
| "reason_text StoreUnreadable = ''quarantine store unreadable; catalog blocked until the store reads''"
| "reason_text Quarantined = ''quarantined after a high-risk change; re-approve to restore''"
| "reason_text AmbiguousBinding = ''ambiguous persisted tool policy binding''"

fun reason_shown :: "blocked_reason \<Rightarrow> string \<times> string" where
  "reason_shown OutsideScope = (''turned off for this client'', ''Clients'')"
| "reason_shown ToolDisabled = (''turned off'', ''Servers'')"
| "reason_shown ServerOff = (''on a server that is turned off'', ''Servers'')"
| "reason_shown DestructivePolicy = (''destructive and blocked by Strict safety'', ''Settings'')"
| "reason_shown Quarantined = (''quarantined after a tool change'', ''Settings > Quarantined tools'')"
| "reason_shown r = (reason_text r, ''Settings'')"

definition blocked_tool_message :: "string \<Rightarrow> blocked_reason \<Rightarrow> string" where
  "blocked_tool_message name r =
     (let (why, where_to) = reason_shown r;
          action = (if where_to = ''Settings > Quarantined tools'' then ''Review it'' else ''Change it'')
      in ''Blocked by Toolport: '' @ name @ '' is '' @ why @ ''. '' @ action @ '' in Toolport > '' @ where_to @ ''.'')"

record registry_policy =
  rp_servers :: "string set option"
  rp_disabled :: "(string \<times> string set) list"
  rp_allow :: "(string \<times> string set) list"
  rp_deny_destructive :: bool

definition with_quarantine :: "registry_policy \<Rightarrow> string set \<Rightarrow> bool \<Rightarrow> tool_policy" where
  "with_quarantine rp quarantined fail_closed =
     \<lparr>tp_servers = rp_servers rp, tp_disabled = rp_disabled rp, tp_allow = rp_allow rp,
      tp_deny_destructive = rp_deny_destructive rp, tp_quarantined = quarantined,
      tp_fail_closed_catalog = fail_closed\<rparr>"

definition registry_half :: "tool_policy \<Rightarrow> registry_policy" where
  "registry_half p = \<lparr>rp_servers = tp_servers p, rp_disabled = tp_disabled p, rp_allow = tp_allow p,
     rp_deny_destructive = tp_deny_destructive p\<rparr>"

section \<open>From the registry\<close>

definition has_gateway_name :: "string \<Rightarrow> bool" where
  "has_gateway_name v \<longleftrightarrow> eq_ignore_ascii_case v ''toolport'' \<or> eq_ignore_ascii_case v ''conduit''"

definition trim_quotes :: "string \<Rightarrow> string" where
  "trim_quotes s = rev (dropWhile (\<lambda>c. c = CHR 0x22) (rev (dropWhile (\<lambda>c. c = CHR 0x22) s)))"

definition command_is_gateway_binary :: "string \<Rightarrow> bool" where
  "command_is_gateway_binary stored =
     (let basename = to_ascii_lowercase (last (split_on (\<lambda>c. c = CHR 0x5C \<or> c = CHR ''/'') (trim_quotes (trim stored))));
          stem = (case strip_suffix ''.exe'' basename of Some s \<Rightarrow> s | None \<Rightarrow> basename)
      in starts_with ''toolport-gateway'' stem \<or> starts_with ''conduit-gateway'' stem)"

definition gateway_identity_matches :: "string \<Rightarrow> string \<Rightarrow> string option \<Rightarrow> bool" where
  "gateway_identity_matches i name command \<longleftrightarrow>
     has_gateway_name i \<or> has_gateway_name name \<or>
     (case command of Some c \<Rightarrow> command_is_gateway_binary c | None \<Rightarrow> False)"

definition is_gateway_server :: "server_entry \<Rightarrow> bool" where
  "is_gateway_server s = gateway_identity_matches (s_id s) (s_name s) (s_command s)"

definition router_servers :: "registry \<Rightarrow> string option \<Rightarrow> bool \<Rightarrow> bool \<Rightarrow> server_entry list" where
  "router_servers reg profile http daemon =
     filter (\<lambda>s. \<not> is_gateway_server s)
       (if daemon then filter (\<lambda>s. server_enabled reg (s_id s)) (r_servers reg)
        else if http then bridge_enabled_servers reg profile
        else case profile of Some p \<Rightarrow> enabled_servers_for reg p | None \<Rightarrow> enabled_servers reg)"

text \<open>\<open>merge_tool_scopes_for_http\<close>: the first list of a server, then the intersection with every other.\<close>

fun merge_scope :: "(string \<times> string list) list \<Rightarrow> (string \<times> string set) list \<Rightarrow> (string \<times> string set) list" where
  "merge_scope [] acc = acc"
| "merge_scope ((sid, tools) # rest) acc =
     merge_scope rest
       (case map_of acc sid of
          None \<Rightarrow> AList.update sid (set tools) acc
        | Some cur \<Rightarrow> AList.update sid (cur \<inter> set tools) acc)"

definition merge_tool_scopes_for_http :: "registry \<Rightarrow> (string \<times> string set) list" where
  "merge_tool_scopes_for_http reg = merge_scope (concat (map p_tool_scope (r_profiles reg))) []"

definition registry_policy_of :: "registry \<Rightarrow> string option \<Rightarrow> bool \<Rightarrow> bool \<Rightarrow> registry_policy" where
  "registry_policy_of reg profile http daemon =
     (let servers = router_servers reg profile http daemon;
          pid = (case profile of Some p \<Rightarrow> resolve_profile_id reg p | None \<Rightarrow> default_access_id reg)
      in \<lparr>rp_servers = Some (set (map s_id servers)),
          rp_disabled = map (\<lambda>s. (s_id s, set (s_disabled_tools s))) (filter (\<lambda>s. s_disabled_tools s \<noteq> []) servers),
          rp_allow = (if http then merge_tool_scopes_for_http reg
                      else case access_profile reg pid of
                             Some p \<Rightarrow> map (\<lambda>(sid, tools). (sid, set tools)) (p_tool_scope p)
                           | None \<Rightarrow> []),
          rp_deny_destructive = deny_destructive_effective reg\<rparr>)"

record prior_quarantine =
  pq_set :: "string set"
  pq_fail_closed :: bool

datatype quarantine_bootstrap = UseSet "string set" | KeepSet "string set" | KeepFailClosed "string set" | FailClosedCatalog

definition quarantine_start :: "(string + string set) \<Rightarrow> prior_quarantine option \<Rightarrow> quarantine_bootstrap" where
  "quarantine_start stored previous =
     (case stored of
        Inr s \<Rightarrow> UseSet s
      | Inl _ \<Rightarrow>
          (case previous of
             Some prior \<Rightarrow> if pq_fail_closed prior then KeepFailClosed (pq_set prior) else KeepSet (pq_set prior)
           | None \<Rightarrow> FailClosedCatalog))"

text \<open>The set and the fail-closed flag that \<open>build_router\<close> installs.\<close>

fun bootstrap_state :: "quarantine_bootstrap \<Rightarrow> string set \<times> bool" where
  "bootstrap_state (UseSet s) = (s, False)"
| "bootstrap_state (KeepSet s) = (s, False)"
| "bootstrap_state (KeepFailClosed s) = (s, True)"
| "bootstrap_state FailClosedCatalog = ({}, True)"

section \<open>The policy is the registry's\<close>

lemma camel_lossless: "concat (camel_pieces cur word) = to_ascii_lowercase (cur @ word)"
  by (induction cur word rule: camel_pieces.induct) (auto simp: to_ascii_lowercase_def)

lemma map_of_selected:
  "distinct (map f xs) \<Longrightarrow> x \<in> set xs \<Longrightarrow>
   map_of (map (\<lambda>s. (f s, g s)) (filter P xs)) (f x) = (if P x then Some (g x) else None)"
proof (induction xs)
  case (Cons y xs)
  have none: "map_of (map (\<lambda>s. (f s, g s)) (filter P xs)) (f y) = None" using Cons.prems by (auto simp: map_of_eq_None_iff)
  with Cons show ?case by (auto simp: image_iff)
qed simp

lemma default_ref: "enabled_servers reg = enabled_servers_for reg []" "default_access_id reg = resolve_profile_id reg []"
  by (simp_all add: enabled_servers_def enabled_servers_for_def resolve_profile_id_def)

definition ref_of :: "string option \<Rightarrow> string" where
  "ref_of profile = (case profile of Some p \<Rightarrow> p | None \<Rightarrow> [])"

lemma router_servers_stdio: "router_servers reg profile False False = filter (\<lambda>s. \<not> is_gateway_server s) (enabled_servers_for reg (ref_of profile))"
  by (simp add: router_servers_def ref_of_def default_ref split: option.split)

lemma distinct_servers: "reg_inv reg \<Longrightarrow> distinct (map s_id (filter P (r_servers reg)))"
  by (rule distinct_map_filter) (simp add: reg_inv_def server_ids_def ids_injective_distinct)

lemma policy_disabled:
  assumes "reg_inv reg" and "s \<in> set (router_servers reg profile http daemon)"
  shows "(case map_of (rp_disabled (registry_policy_of reg profile http daemon)) (s_id s) of Some t \<Rightarrow> orig \<in> t | None \<Rightarrow> False) \<longleftrightarrow>
    \<not> is_tool_enabled reg (s_id s) orig"
proof -
  let ?servers = "router_servers reg profile http daemon"
  have sub: "\<exists>P. ?servers = filter P (r_servers reg)"
    by (auto simp: router_servers_def bridge_enabled_servers_def enabled_servers_for_def enabled_servers_def Let_def
        split: option.split)
  then have d: "distinct (map s_id ?servers)" and mem: "s \<in> set (r_servers reg)"
    using distinct_servers [OF assms(1)] assms(2) by auto
  have "find_server reg (s_id s) = Some s"
    using assms(1) mem by (intro find_by_key) (simp_all add: reg_inv_def server_ids_def)
  then show ?thesis
    using map_of_selected [OF d assms(2), of "\<lambda>s. set (s_disabled_tools s)" "\<lambda>s. s_disabled_tools s \<noteq> []"]
    by (auto simp: registry_policy_of_def Let_def is_tool_enabled_def)
qed

lemma policy_allow_stdio:
  "(case map_of (rp_allow (registry_policy_of reg profile False daemon)) sid of Some t \<Rightarrow> orig \<notin> t | None \<Rightarrow> False) \<longleftrightarrow>
   \<not> profile_allows_tool reg (ref_of profile) sid orig"
proof -
  have pid: "(case profile of Some p \<Rightarrow> resolve_profile_id reg p | None \<Rightarrow> default_access_id reg) = resolve_profile_id reg (ref_of profile)"
    by (simp add: ref_of_def default_ref split: option.split)
  have "map_of (map (\<lambda>(sid, tools). (sid, set tools)) ts) sid = map_option set (map_of ts sid)" for ts :: "(string \<times> string list) list"
    by (induction ts) auto
  then show ?thesis
    by (auto simp: registry_policy_of_def Let_def pid profile_allows_tool_def split: option.splits)
qed

lemma map_of_merge_scope:
  "map_of (merge_scope xs acc) sid =
     (if \<exists>tools. (sid, tools) \<in> set xs
      then Some ((case map_of acc sid of Some cur \<Rightarrow> cur | None \<Rightarrow> UNIV) \<inter> (\<Inter>tools \<in> {t. (sid, t) \<in> set xs}. set tools))
      else map_of acc sid)"
proof (induction xs arbitrary: acc)
  case (Cons x xs)
  show ?case
    by (cases x) (auto simp: Cons update_conv' split: option.splits)
qed simp

text \<open>On the bridge every list of a server has to admit the tool.\<close>

lemma policy_allow_http:
  "(case map_of (rp_allow (registry_policy_of reg profile True daemon)) sid of Some t \<Rightarrow> orig \<notin> t | None \<Rightarrow> False) \<longleftrightarrow>
   (\<exists>p \<in> set (r_profiles reg). \<exists>tools. (sid, tools) \<in> set (p_tool_scope p) \<and> orig \<notin> set tools)"
  by (auto simp: registry_policy_of_def Let_def merge_tool_scopes_for_http_def map_of_merge_scope)

lemma policy_servers:
  "allows_server (with_quarantine (registry_policy_of reg profile http daemon) quarantined fail_closed) sid \<longleftrightarrow>
   (\<exists>s \<in> set (router_servers reg profile http daemon). s_id s = sid)"
  by (auto simp: allows_server_def with_quarantine_def registry_policy_of_def Let_def)

text \<open>The verdict of any policy built from the registry, whichever way the gateway runs.\<close>

lemma policy_verdict:
  assumes "reg_inv reg"
  shows "blocked_reason (with_quarantine (registry_policy_of reg profile http daemon) quarantined fail_closed)
      exposed sid orig tool = None \<longleftrightarrow>
    \<not> (case map_of (rp_allow (registry_policy_of reg profile http daemon)) sid of Some t \<Rightarrow> orig \<notin> t | None \<Rightarrow> False) \<and>
    (\<exists>s \<in> set (router_servers reg profile http daemon). s_id s = sid) \<and> is_tool_enabled reg sid orig \<and>
    \<not> (deny_destructive_effective reg \<and> tm_destructive tool) \<and> \<not> fail_closed \<and> exposed \<notin> quarantined"
proof -
  let ?rp = "registry_policy_of reg profile http daemon"
  have off: "(case map_of (rp_disabled ?rp) sid of Some t \<Rightarrow> orig \<in> t | None \<Rightarrow> False) \<longleftrightarrow> \<not> is_tool_enabled reg sid orig"
    if "\<exists>s \<in> set (router_servers reg profile http daemon). s_id s = sid"
    using that policy_disabled [OF assms] by blast
  have deny: "rp_deny_destructive ?rp = deny_destructive_effective reg" by (simp add: registry_policy_of_def Let_def)
  show ?thesis
    unfolding blocked_reason_def blocked_reason_unscoped_def policy_servers
    using off by (auto simp: with_quarantine_def deny)
qed

text \<open>C14: The policy of a router lets a tool through exactly when the registry does. For one client: its
  server is one the client's access reaches and is not the gateway itself, the tool is not switched
  off, the tool scope of the profile admits it, it is not destructive under a policy that denies
  those, and quarantine holds neither it nor the whole catalog. On the shared bridge the server is
  one the bridge connects, and every list that any profile has for the server admits the tool.\<close>

theorem policy_matches_registry:
  assumes "reg_inv reg"
  shows "(blocked_reason (with_quarantine (registry_policy_of reg profile False False) quarantined fail_closed)
      exposed sid orig tool = None \<longleftrightarrow>
    (\<exists>s \<in> set (enabled_servers_for reg (ref_of profile)). s_id s = sid \<and> \<not> is_gateway_server s) \<and>
    is_tool_enabled reg sid orig \<and> profile_allows_tool reg (ref_of profile) sid orig \<and>
    \<not> (deny_destructive_effective reg \<and> tm_destructive tool) \<and> \<not> fail_closed \<and> exposed \<notin> quarantined) \<and>
   (blocked_reason (with_quarantine (registry_policy_of reg profile True False) quarantined fail_closed)
      exposed sid orig tool = None \<longleftrightarrow>
    (\<exists>s \<in> set (bridge_enabled_servers reg profile). s_id s = sid \<and> \<not> is_gateway_server s) \<and>
    is_tool_enabled reg sid orig \<and>
    (\<forall>p \<in> set (r_profiles reg). \<forall>tools. (sid, tools) \<in> set (p_tool_scope p) \<longrightarrow> orig \<in> set tools) \<and>
    \<not> (deny_destructive_effective reg \<and> tm_destructive tool) \<and> \<not> fail_closed \<and> exposed \<notin> quarantined)"
  unfolding policy_verdict [OF assms] policy_allow_stdio policy_allow_http router_servers_stdio
  by (rule conjI) (auto simp: router_servers_def)

text \<open>Server \<open>beta\<close> is the one the profile of the sample reaches, and its tools pass unless they are destructive.\<close>

theorem policy_matches_registry_witness:
  "blocked_reason (with_quarantine (registry_policy_of sample_registry (Some ''WORK'') False False) {''beta__q''} False)
     ''beta__read'' ''beta'' ''read'' (metadata_of (JObj [(''name'', JStr ''read'')])) = None \<and>
   blocked_reason (with_quarantine (registry_policy_of sample_registry (Some ''WORK'') False False) {''beta__q''} False)
     ''beta__q'' ''beta'' ''q'' (metadata_of (JObj [(''name'', JStr ''q'')])) \<noteq> None"
  unfolding policy_matches_registry [OF sample_registry_inv, THEN conjunct1] by code_simp

end
