(* ===== verification/SchemaRefs.thy ===== *)
theory SchemaRefs
  imports Json
begin

text \<open>
  Local references in tool schemas (\<open>inline_refs\<close> and its helpers in \<open>router.rs\<close>): every
  \<open>$ref\<close> is replaced by what it points to, a cycle or a reference that does not resolve by \<open>{}\<close>. The
  references in expansion are the argument \<open>active\<close>; the code removes what it inserted before it
  returns, so the set is the same for every sibling.
\<close>

section \<open>Operations\<close>

fun has_ref :: "json \<Rightarrow> bool" where
  "has_ref (JObj m) = (map_of m ''$ref'' \<noteq> None \<or> list_ex (\<lambda>(k, v). has_ref v) m)"
| "has_ref (JArr a) = list_ex has_ref a"
| "has_ref _ = False"

text \<open>The strings under a key \<open>$ref\<close>, the references a value holds.\<close>

fun str_refs :: "json \<Rightarrow> string set" where
  "str_refs (JObj m) =
     (case Option.bind (map_of m ''$ref'') as_str of Some r \<Rightarrow> {r} | None \<Rightarrow> {}) \<union> (\<Union>(k, v) \<in> set m. str_refs v)"
| "str_refs (JArr a) = (\<Union>v \<in> set a. str_refs v)"
| "str_refs _ = {}"

definition ref_target :: "json \<Rightarrow> string \<Rightarrow> json option" where
  "ref_target root r = Option.bind (strip_prefix ''#'' r) (\<lambda>ptr. pointer ptr root)"

function inline_node :: "json \<Rightarrow> string set \<Rightarrow> json \<Rightarrow> json" where
  "inline_node root active node =
     (case jget_str ''$ref'' node of
        Some r \<Rightarrow>
          if r \<in> active then JObj []
          else (case ref_target root r of
                  Some target \<Rightarrow> inline_node root (insert r active) target
                | None \<Rightarrow> JObj [])
      | None \<Rightarrow>
          (case node of
             JObj m \<Rightarrow> JObj (map (\<lambda>(k, v). (k, inline_node root active v)) m)
           | JArr a \<Rightarrow> JArr (map (inline_node root active) a)
           | v \<Rightarrow> v))"
  by pat_completeness auto

section \<open>Termination\<close>

lemma finite_str_refs [simp]: "finite (str_refs v)"
  by (induction v rule: str_refs.induct) (auto split: option.split)

lemma str_refs_child: "(k, v) \<in> set m \<Longrightarrow> str_refs v \<subseteq> str_refs (JObj m)"
  by (force split: option.split)

lemma pointer_step_refs: "pointer_step t v = Some w \<Longrightarrow> str_refs w \<subseteq> str_refs v"
  using str_refs_child
  by (fastforce simp: pointer_step_def bind_eq_Some_conv dest: map_of_SomeD split: json.splits if_splits)

lemma pointer_steps_refs: "pointer_steps ts v = Some w \<Longrightarrow> str_refs w \<subseteq> str_refs v"
  by (induction ts arbitrary: v) (auto simp: bind_eq_Some_conv dest: pointer_step_refs)

lemma ref_target_refs: "ref_target root r = Some t \<Longrightarrow> str_refs t \<subseteq> str_refs root"
  by (auto simp: ref_target_def pointer_def bind_eq_Some_conv dest: pointer_steps_refs split: if_splits)

lemma jget_str_ref: "jget_str ''$ref'' v = Some r \<Longrightarrow> r \<in> str_refs v"
  by (cases v) (auto simp: jget_str_def bind_eq_Some_conv)

text \<open>A step into a target takes one more reference of the schema out of play; a step into a child keeps them
  and makes the value smaller.\<close>

definition open_refs :: "json \<Rightarrow> string set \<Rightarrow> json \<Rightarrow> string set" where
  "open_refs root active v = (str_refs root \<union> str_refs v) - active"

lemma open_refs_target:
  assumes "jget_str ''$ref'' v = Some r" and "r \<notin> active" and "ref_target root r = Some t"
  shows "card (open_refs root (insert r active) t) < card (open_refs root active v)"
  using ref_target_refs [OF assms(3)] jget_str_ref [OF assms(1)] assms(2)
  by (intro psubset_card_mono) (auto simp: open_refs_def)

lemma open_refs_child: "str_refs w \<subseteq> str_refs v \<Longrightarrow> card (open_refs root active w) \<le> card (open_refs root active v)"
  by (intro card_mono) (auto simp: open_refs_def)

lemma size_arr_value: "v \<in> set a \<Longrightarrow> size v < Suc (size_list size a)"
  by (induction a) auto

termination inline_node
proof (relation "(\<lambda>(root, active, v). card (open_refs root active v)) <*mlex*> measure (\<lambda>(root, active, v). size v)",
    goal_cases)
  case 1
  show ?case by (intro wf_mlex wf_measure)
next
  case 2
  then show ?case by (auto intro!: mlex_leq open_refs_child simp: size_arr_value)
next
  case 3
  then show ?case by (auto intro!: mlex_leq open_refs_child str_refs_child simp: size_obj_value simp del: str_refs.simps)
next
  case 4
  then show ?case by (auto intro!: mlex_less open_refs_target)
qed

declare inline_node.simps [simp del]

definition inline_refs :: "json \<Rightarrow> json" where
  "inline_refs schema =
     (if \<not> has_ref schema then schema
      else case inline_node schema {} schema of
             JObj m \<Rightarrow> JObj (obj_remove ''definitions'' (obj_remove ''$defs'' m))
           | v \<Rightarrow> v)"

section \<open>No reference is left\<close>

lemma no_ref_no_str: "\<not> has_ref v \<Longrightarrow> str_refs v = {}"
  by (induction v rule: has_ref.induct) (auto simp: list_ex_iff)

lemma map_of_inlined: "map_of (map (\<lambda>(k, v). (k, f v)) m) k = map_option f (map_of m k)"
  by (induction m) auto

lemma inline_ref:
  "jget_str ''$ref'' v = Some r \<Longrightarrow> inline_node root active v =
     (if r \<in> active then JObj []
      else case ref_target root r of Some t \<Rightarrow> inline_node root (insert r active) t | None \<Rightarrow> JObj [])"
  by (simp add: inline_node.simps)

lemma inline_plain:
  "jget_str ''$ref'' (JObj m) = None \<Longrightarrow>
     inline_node root active (JObj m) = JObj (map (\<lambda>(k, v). (k, inline_node root active v)) m)"
  "inline_node root active (JArr a) = JArr (map (inline_node root active) a)"
  "inline_node root active (JStr s) = JStr s" "inline_node root active JNull = JNull"
  "inline_node root active (JBool b) = JBool b" "inline_node root active (JNum n) = JNum n"
  by (simp_all add: inline_node.simps jget_str_def)

text \<open>No reference of the schema points at a string.\<close>

definition no_string_target :: "json \<Rightarrow> bool" where
  "no_string_target root \<longleftrightarrow>
     (\<forall>r \<in> str_refs root. case ref_target root r of Some t \<Rightarrow> as_str t = None | None \<Rightarrow> True)"

text \<open>Inlining makes a string only of the string itself or of a reference to one.\<close>

lemma inline_string:
  "no_string_target root \<Longrightarrow> str_refs v \<subseteq> str_refs root \<Longrightarrow> as_str (inline_node root active v) = as_str v"
proof (induction root active v rule: inline_node.induct)
  case (1 root active v)
  show ?case
  proof (cases "jget_str ''$ref'' v")
    case (Some r)
    have v: "as_str v = None" using Some by (cases v) (auto simp: jget_str_def)
    have "as_str (inline_node root (insert r active) t) = None" if "ref_target root r = Some t" "r \<notin> active" for t
      using 1(3) [OF Some that(2,1) 1(4) ref_target_refs [OF that(1)]] 1(4,5) jget_str_ref [OF Some] that(1)
      by (auto simp: no_string_target_def split: option.splits)
    then show ?thesis using v by (auto simp: inline_ref [OF Some] split: option.split)
  next
    case None
    then show ?thesis by (cases v) (simp_all add: inline_plain)
  qed
qed

lemma inline_node_ref_free:
  "no_string_target root \<Longrightarrow> str_refs v \<subseteq> str_refs root \<Longrightarrow> str_refs (inline_node root active v) = {}"
proof (induction root active v rule: inline_node.induct)
  case (1 root active v)
  show ?case
  proof (cases "jget_str ''$ref'' v")
    case (Some r)
    then show ?thesis
      using 1(3) [OF Some _ _ 1(4) ref_target_refs] by (simp add: inline_ref [OF Some] split: option.split)
  next
    case None
    show ?thesis
    proof (cases v)
      case (JObj m)
      have child: "str_refs w \<subseteq> str_refs root" if "(k, w) \<in> set m" for k w
        by (rule subset_trans [OF str_refs_child [OF that] 1(5) [unfolded JObj]])
      have "as_str (inline_node root active w) = None" if "map_of m ''$ref'' = Some w" for w
        using inline_string [OF 1(4) child [OF map_of_SomeD [OF that]]] that None JObj by (simp add: jget_str_def)
      moreover have "str_refs (inline_node root active w) = {}" if "(k, w) \<in> set m" for k w
        using 1(2) [OF None JObj that refl 1(4) child [OF that]] .
      ultimately show ?thesis using None JObj
        by (cases "map_of m ''$ref''") (auto simp: inline_plain map_of_inlined)
    next
      case (JArr a)
      then show ?thesis using 1(1) [OF None JArr _ 1(4)] 1(5) by (auto simp: inline_plain)
    qed (simp_all add: inline_plain)
  qed
qed

lemma refs_remove: "str_refs (JObj m) = {} \<Longrightarrow> k \<noteq> ''$ref'' \<Longrightarrow> str_refs (JObj (obj_remove k m)) = {}"
  using set_delete_subset [of k m] by (fastforce simp: obj_remove_def alist_simps split: option.splits)

section \<open>Schemas without cycles\<close>

text \<open>The rank of a reference is above the ranks of the references in its target, so no chain of targets
  comes back; then the references in expansion make no difference.\<close>

definition ranked :: "json \<Rightarrow> (string \<Rightarrow> nat) \<Rightarrow> bool" where
  "ranked root rank \<longleftrightarrow> (\<forall>r t. ref_target root r = Some t \<longrightarrow> (\<forall>r' \<in> str_refs t. rank r' < rank r))"

definition above :: "(string \<Rightarrow> nat) \<Rightarrow> string set \<Rightarrow> json \<Rightarrow> bool" where
  "above rank active v \<longleftrightarrow> (\<forall>a \<in> active. \<forall>r \<in> str_refs v. rank r < rank a)"

lemma above_target:
  "ranked root rank \<Longrightarrow> above rank active v \<Longrightarrow> jget_str ''$ref'' v = Some r \<Longrightarrow> ref_target root r = Some t \<Longrightarrow>
   above rank (insert r active) t"
  unfolding ranked_def above_def using jget_str_ref by (metis insert_iff less_trans)

lemma above_fresh: "above rank active v \<Longrightarrow> jget_str ''$ref'' v = Some r \<Longrightarrow> r \<notin> active"
  unfolding above_def using jget_str_ref by blast

lemma above_mono: "above rank active v \<Longrightarrow> str_refs w \<subseteq> str_refs v \<Longrightarrow> above rank active w"
  by (auto simp: above_def)

lemma inline_active_irrelevant:
  "ranked root rank \<Longrightarrow> above rank active v \<Longrightarrow> above rank active' v \<Longrightarrow>
   inline_node root active v = inline_node root active' v"
proof (induction root active v arbitrary: active' rule: inline_node.induct)
  case (1 root active v)
  show ?case
  proof (cases "jget_str ''$ref'' v")
    case (Some r)
    have fresh: "r \<notin> active" "r \<notin> active'" using above_fresh Some 1(5,6) by blast+
    then show ?thesis
      using 1(3) [OF Some fresh(1) _ 1(4) above_target [OF 1(4,5) Some] above_target [OF 1(4,6) Some]]
      by (simp add: inline_ref [OF Some] split: option.split)
  next
    case None
    show ?thesis
    proof (cases v)
      case (JObj m)
      have "inline_node root active w = inline_node root active' w" if "(k, w) \<in> set m" for k w
        using 1(2) [OF None JObj that refl 1(4)] above_mono [OF _ str_refs_child [OF that]] 1(5,6) JObj by blast
      then show ?thesis using None JObj by (auto simp: inline_plain)
    next
      case (JArr a)
      have "inline_node root active w = inline_node root active' w" if "w \<in> set a" for w
        using 1(1) [OF None JArr that 1(4)] above_mono [where w = w] 1(5,6) JArr that by (metis UN_upper str_refs.simps(2))
      then show ?thesis using JArr by (auto simp: inline_plain)
    qed (simp_all add: inline_plain)
  qed
qed

section \<open>Properties\<close>

text \<open>C37: Inlining always ends. When no reference of the schema points at a string, the schema it returns
  holds no reference; a schema that holds none is returned as it is; and in a schema without cycles
  every reference gives its whole inlined target, or \<open>{}\<close> when it does not resolve.\<close>

theorem inline_refs_correct:
  "(no_string_target schema \<longrightarrow> str_refs (inline_refs schema) = {}) \<and>
   (\<not> has_ref schema \<longrightarrow> inline_refs schema = schema) \<and>
   (ranked schema rank \<and> jget_str ''$ref'' v = Some r \<longrightarrow>
      inline_node schema {} v =
        (case ref_target schema r of Some t \<Rightarrow> inline_node schema {} t | None \<Rightarrow> JObj []))"
proof (intro conjI impI)
  assume "no_string_target schema"
  then have "str_refs (inline_node schema {} schema) = {}" by (rule inline_node_ref_free) simp
  then show "str_refs (inline_refs schema) = {}"
    using no_ref_no_str [of schema] unfolding inline_refs_def by (auto split: json.split intro!: refs_remove simp del: str_refs.simps)
next
  assume a: "ranked schema rank \<and> jget_str ''$ref'' v = Some r"
  then have "inline_node schema {r} t = inline_node schema {} t" if "ref_target schema r = Some t" for t
    using that by (intro inline_active_irrelevant [where rank = rank]) (auto simp: above_def ranked_def)
  then show "inline_node schema {} v =
      (case ref_target schema r of Some t \<Rightarrow> inline_node schema {} t | None \<Rightarrow> JObj [])"
    using a by (auto simp: inline_ref split: option.split)
qed (simp add: inline_refs_def)

definition sample_schema :: json where
  "sample_schema = JObj [(''$defs'', JObj [(''A'', JObj [(''type'', JStr ''string'')])]),
     (''properties'', JObj [(''a'', JObj [(''$ref'', JStr ''#/$defs/A'')])])]"

theorem inline_refs_correct_witness:
  "str_refs (inline_refs sample_schema) = {} \<and>
   inline_node sample_schema {} (JObj [(''$ref'', JStr ''#/$defs/A'')]) = JObj [(''type'', JStr ''string'')]"
proof -
  let ?rank = "\<lambda>r. if r = ''#/$defs/A'' then 0 else 1 :: nat"
  have refs: "str_refs sample_schema = {''#/$defs/A''}" and
    target: "ref_target sample_schema ''#/$defs/A'' = Some (JObj [(''type'', JStr ''string'')])" by code_simp+
  have rank: "ranked sample_schema ?rank"
    unfolding ranked_def
  proof (intro allI impI ballI)
    fix r t r'
    assume t: "ref_target sample_schema r = Some t" and r': "r' \<in> str_refs t"
    then have "r' = ''#/$defs/A''" using ref_target_refs [OF t] refs by blast
    moreover have "r \<noteq> ''#/$defs/A''" using t r' target by auto
    ultimately show "?rank r' < ?rank r" by simp
  qed
  have no_string: "no_string_target sample_schema" unfolding no_string_target_def refs using target by simp
  have "inline_node sample_schema {} (JObj [(''type'', JStr ''string'')]) = JObj [(''type'', JStr ''string'')]" by code_simp
  then show ?thesis
    using inline_refs_correct [of sample_schema ?rank "JObj [(''$ref'', JStr ''#/$defs/A'')]" "''#/$defs/A''"]
      rank no_string target by (simp add: jget_str_def)
qed

text \<open>The hypothesis is needed: a value under a key \<open>$ref\<close> that is itself a reference to a string becomes
  that string, and so a reference of the result.\<close>

lemma string_target_leaks:
  "str_refs (inline_refs (JObj [(''$ref'', JObj [(''$ref'', JStr ''#/title'')]), (''title'', JStr ''#/gone'')])) = {''#/gone''}"
  by code_simp

end
