(* ===== verification/RouterCatalog.thy ===== *)
theory RouterCatalog
  imports NameAllocation ToolPolicy SchemaRefs
begin

text \<open>
  The catalog of the router (\<open>router.rs\<close>): indexing what the servers advertise under exposed names and
  under the policy, the persisted names that policies are bound to, routes restored after a server
  lost most of its tools, and every operation that changes the policy or rebuilds the catalog.

  The router is a record of its fields, hash maps as association lists. Of a server's slot it holds
  what indexing reads: the lists, the revision of the tools and whether the catalog is complete; launch
  specifications and the order servers are shown in are left out. The
  cache of compiled definitions is left out, since it only saves work. Parameters, gathered in
  \<open>catalog_env\<close>: SHA-256 over JSON, and the rewriting of input schemas of \<open>schema_compat.rs\<close> with its
  argument map, which the router stores and does not look into. A slice that would panic in an
  alias is \<open>None\<close>, as in the allocation of names.
\<close>

section \<open>State\<close>

record 'a catalog_env =
  ce_digest :: "json \<Rightarrow> nat list"
  ce_compile :: "json \<Rightarrow> json \<times> 'a option"

record server_catalog =
  sc_id :: string
  sc_tools :: "json list"
  sc_resources :: "json list"
  sc_templates :: "json list"
  sc_prompts :: "json list"
  sc_extensions :: jobj
  sc_revision :: nat
  sc_complete :: bool

record 'a restored_tool =
  re_definition :: json
  re_exposed :: string
  re_server :: string
  re_original :: string
  re_policy_name :: "string option"
  re_revision :: nat
  re_arguments :: "'a option"

type_synonym tool_names = "(string \<times> (string \<times> string) list) list"

record 'a router =
  rt_servers :: "server_catalog list"
  rt_catalog_servers :: "string set"
  rt_by_id :: "(string \<times> nat) list"
  rt_tools :: "json list"
  rt_routes :: "(string \<times> string \<times> string) list"
  rt_arguments :: "(string \<times> 'a) list"
  rt_restored :: "'a restored_tool list"
  rt_names :: names_state
  rt_owners :: "(string \<times> string) list"
  rt_model_hidden :: "string set"
  rt_rule :: alias_rule
  rt_policy :: tool_policy
  rt_overrides :: "(string \<times> (string \<times> tool_override) list) list"
  rt_policy_names :: "(string \<times> string) list"
  rt_policy_by_original :: tool_names
  rt_canonical :: tool_names
  rt_blocked :: "(string \<times> blocked_reason) list"
  rt_resources :: "json list"
  rt_resource_routes :: "(string \<times> string) list"
  rt_templates :: "json list"
  rt_template_routes :: "(string \<times> string) list"
  rt_prompts :: "json list"
  rt_prompt_routes :: "(string \<times> string \<times> string) list"

definition with_policy :: "tool_policy \<Rightarrow> 'a router" where
  "with_policy p =
     \<lparr>rt_servers = [], rt_catalog_servers = {}, rt_by_id = [], rt_tools = [], rt_routes = [], rt_arguments = [],
      rt_restored = [], rt_names = \<lparr>seen = [], legacy_seen = [], legacy_names = []\<rparr>, rt_owners = [],
      rt_model_hidden = {}, rt_rule = default_alias_rule, rt_policy = p, rt_overrides = [], rt_policy_names = [],
      rt_policy_by_original = [], rt_canonical = [], rt_blocked = [], rt_resources = [], rt_resource_routes = [],
      rt_templates = [], rt_template_routes = [], rt_prompts = [], rt_prompt_routes = []\<rparr>"

definition default_tool_policy :: tool_policy where
  "default_tool_policy = \<lparr>tp_servers = None, tp_disabled = [], tp_allow = [], tp_deny_destructive = False,
     tp_quarantined = {}, tp_fail_closed_catalog = False\<rparr>"

definition set_overrides :: "(string \<times> (string \<times> tool_override) list) list \<Rightarrow> 'a router \<Rightarrow> 'a router" where
  "set_overrides ovs rt = rt\<lparr>rt_overrides := ovs\<rparr>"

section \<open>Persisted names\<close>

definition reserved :: "string \<Rightarrow> bool" where
  "reserved name \<longleftrightarrow> starts_with ''toolport_'' name"

definition override_of :: "'a router \<Rightarrow> string \<Rightarrow> string \<Rightarrow> tool_override option" where
  "override_of rt server orig = Option.bind (map_of (rt_overrides rt) server) (\<lambda>m. map_of m orig)"

definition reserved_policy_name :: "'a router \<Rightarrow> string \<Rightarrow> string \<Rightarrow> string option" where
  "reserved_policy_name rt server orig =
     (case Option.bind (override_of rt server orig) to_name of
        Some new \<Rightarrow> (let name = sanitize_segment new in if reserved name then Some name else None)
      | None \<Rightarrow> None)"

definition canonical_name :: "'a router \<Rightarrow> string \<Rightarrow> string \<Rightarrow> string option" where
  "canonical_name rt server orig = Option.bind (map_of (rt_canonical rt) server) (\<lambda>m. map_of m orig)"

definition has_canonical_policy :: "'a router \<Rightarrow> string \<Rightarrow> string \<Rightarrow> bool" where
  "has_canonical_policy rt server orig \<longleftrightarrow> canonical_name rt server orig \<noteq> None"

definition unscoped_policy_name :: "'a router \<Rightarrow> string \<Rightarrow> string \<Rightarrow> string \<Rightarrow> string" where
  "unscoped_policy_name rt exposed server orig =
     (case canonical_name rt server orig of
        Some name \<Rightarrow> name
      | None \<Rightarrow>
          (case reserved_policy_name rt server orig of
             Some name \<Rightarrow> name
           | None \<Rightarrow>
               (case map_of (legacy_names (rt_names rt)) exposed of Some name \<Rightarrow> name | None \<Rightarrow> exposed)))"

definition policy_name :: "'a router \<Rightarrow> string \<Rightarrow> string" where
  "policy_name rt exposed = (case map_of (rt_policy_names rt) exposed of Some name \<Rightarrow> name | None \<Rightarrow> exposed)"

text \<open>Refusing a name: no route, no definition, and the reason.\<close>

definition refuse_alias :: "string \<Rightarrow> 'a router \<Rightarrow> 'a router" where
  "refuse_alias alias rt =
     rt\<lparr>rt_routes := AList.delete alias (rt_routes rt), rt_arguments := AList.delete alias (rt_arguments rt),
        rt_tools := filter (\<lambda>t. jget ''name'' t \<noteq> Some (JStr alias)) (rt_tools rt),
        rt_blocked := AList.update alias AmbiguousBinding (rt_blocked rt)\<rparr>"

definition in_view :: "tool_policy \<Rightarrow> string \<Rightarrow> string \<Rightarrow> bool" where
  "in_view p server orig \<longleftrightarrow>
     allows_server p server \<and> (case map_of (tp_allow p) server of Some s \<Rightarrow> orig \<in> s | None \<Rightarrow> True)"

definition bind_policy_name :: "string \<Rightarrow> string \<Rightarrow> string \<Rightarrow> 'a router \<Rightarrow> 'a router" where
  "bind_policy_name exposed server orig rt =
     (if \<not> in_view (rt_policy rt) server orig then rt
      else let name = unscoped_policy_name rt exposed server orig
           in if name = exposed \<and> \<not> reserved name then rt
              else let collisions = map fst (filter (\<lambda>(alias, p). alias \<noteq> exposed \<and> p = name) (rt_policy_names rt));
                       rt = rt\<lparr>rt_policy_names := AList.update exposed name (rt_policy_names rt)\<rparr>
                   in if collisions = [] then rt else fold refuse_alias (collisions @ [exposed]) rt)"

definition policy_blocked_reason :: "'a router \<Rightarrow> string \<Rightarrow> string \<Rightarrow> string \<Rightarrow> tool_policy_metadata \<Rightarrow> blocked_reason option" where
  "policy_blocked_reason rt exposed server orig m =
     (let name = policy_name rt exposed
      in if has_canonical_policy rt server orig then blocked_reason (rt_policy rt) name server orig m
         else case blocked_reason (rt_policy rt) exposed server orig m of
                Some r \<Rightarrow> Some r
              | None \<Rightarrow> blocked_reason (rt_policy rt) name server orig m)"

section \<open>Indexing one server\<close>

text \<open>\<open>value[key] = v\<close>; the values it is applied to are objects.\<close>

fun set_key :: "string \<Rightarrow> json \<Rightarrow> json \<Rightarrow> json" where
  "set_key k v (JObj m) = JObj (obj_insert k v m)"
| "set_key k v t = t"

definition override_name ::
  "'a catalog_env \<Rightarrow> 'a router \<Rightarrow> string \<Rightarrow> string \<Rightarrow> string \<Rightarrow> (string \<times> names_state) option" where
  "override_name env rt server orig base =
     (case Option.bind (override_of rt server orig) to_name of
        None \<Rightarrow> Some (base, rt_names rt)
      | Some new \<Rightarrow>
          (let legacy = sanitize_segment new; st = rt_names rt
           in Option.bind (bounded_alias (ce_digest env) legacy (JArr [JStr server, JStr orig, JStr new]) None (rt_rule rt))
                (\<lambda>cand. Some
                  (if cand \<noteq> [] \<and> \<not> reserved cand \<and> \<not> reserved legacy \<and> legacy \<notin> set (legacy_seen st) \<and> cand \<notin> set (seen st)
                   then (cand, st\<lparr>seen := cand # seen st, legacy_seen := legacy # legacy_seen st,
                           legacy_names := (if cand \<noteq> legacy then AList.update cand legacy (legacy_names st)
                                            else legacy_names st)\<rparr>)
                   else (base, st)))))"

definition define_tool :: "'a catalog_env \<Rightarrow> string option \<Rightarrow> string \<Rightarrow> json \<Rightarrow> json \<times> 'a option" where
  "define_tool env description exposed t =
     (let t = (case description of Some d \<Rightarrow> set_key ''description'' (JStr d) t | None \<Rightarrow> t);
          t = set_key ''name'' (JStr exposed) t
      in case jget ''inputSchema'' t of
           None \<Rightarrow> (t, None)
         | Some schema \<Rightarrow>
             let (schema, arguments) = ce_compile env schema
             in (set_key ''inputSchema'' (inline_refs schema) t, arguments))"

definition app_uri :: "json \<Rightarrow> string option" where
  "app_uri t =
     (case Option.bind (case pointer ''/_meta/ui/resourceUri'' t of
                          Some v \<Rightarrow> Some v
                        | None \<Rightarrow> pointer ''/_meta/ui~1resourceUri'' t) as_str of
        Some uri \<Rightarrow> if starts_with ''ui://'' uri then Some uri else None
      | None \<Rightarrow> None)"

definition supports_mcp_app_html :: "jobj \<Rightarrow> bool" where
  "supports_mcp_app_html extensions =
     (case Option.bind (map_of extensions ''io.modelcontextprotocol/ui'') (jget_array ''mimeTypes'') of
        Some a \<Rightarrow> list_ex (\<lambda>m. m = JStr ''text/html;profile=mcp-app'') a
      | None \<Rightarrow> False)"

definition claim_uri :: "string \<Rightarrow> string \<Rightarrow> (string \<times> string) list \<Rightarrow> (string \<times> string) list" where
  "claim_uri uri server routes = (if map_of routes uri = None then AList.update uri server routes else routes)"

definition publish_tool :: "'a catalog_env \<Rightarrow> string \<Rightarrow> bool \<Rightarrow> string \<Rightarrow> string \<Rightarrow> json \<Rightarrow> 'a router \<Rightarrow> 'a router" where
  "publish_tool env server apps exposed orig t rt =
     (let (d, arguments) = define_tool env (Option.bind (override_of rt server orig) to_description) exposed t
      in rt\<lparr>rt_arguments := (case arguments of Some a \<Rightarrow> AList.update exposed a (rt_arguments rt) | None \<Rightarrow> rt_arguments rt),
            rt_tools := rt_tools rt @ [d],
            rt_routes := AList.update exposed (server, orig) (rt_routes rt),
            rt_resource_routes := (case (apps, app_uri t) of
                                     (True, Some uri) \<Rightarrow> claim_uri uri server (rt_resource_routes rt)
                                   | _ \<Rightarrow> rt_resource_routes rt)\<rparr>)"

text \<open>What the router notes of a tool before the policy is asked.\<close>

definition note_tool :: "string \<Rightarrow> string \<Rightarrow> string \<Rightarrow> bool \<Rightarrow> 'a router \<Rightarrow> 'a router" where
  "note_tool server exposed orig hidden rt =
     rt\<lparr>rt_owners := AList.update exposed server (rt_owners rt),
        rt_policy_by_original := AList.update server
          (AList.update orig (unscoped_policy_name rt exposed server orig) (get_or [] (rt_policy_by_original rt) server))
          (rt_policy_by_original rt),
        rt_model_hidden := (if hidden then insert exposed (rt_model_hidden rt) else rt_model_hidden rt)\<rparr>"

definition admit_tool :: "'a catalog_env \<Rightarrow> string \<Rightarrow> bool \<Rightarrow> string \<Rightarrow> string \<Rightarrow> json \<Rightarrow> 'a router \<Rightarrow> 'a router" where
  "admit_tool env server apps exposed orig t rt =
     (let m = metadata_of t; rt = bind_policy_name exposed server orig (note_tool server exposed orig (tm_model_hidden m) rt)
      in if map_of (rt_blocked rt) exposed \<noteq> None then rt
         else case policy_blocked_reason rt exposed server orig m of
                Some r \<Rightarrow> rt\<lparr>rt_blocked := AList.update exposed r (rt_blocked rt)\<rparr>
              | None \<Rightarrow> publish_tool env server apps exposed orig t rt)"

fun index_tools :: "'a catalog_env \<Rightarrow> string \<Rightarrow> bool \<Rightarrow> (json \<times> string option) list \<Rightarrow> 'a router \<Rightarrow> 'a router option" where
  "index_tools env server apps [] rt = Some rt"
| "index_tools env server apps ((t, base) # rest) rt =
     (case (jget_str ''name'' t, base) of
        (Some orig, Some base) \<Rightarrow>
          Option.bind (override_name env rt server orig base) (\<lambda>(exposed, names).
            index_tools env server apps rest (admit_tool env server apps exposed orig t (rt\<lparr>rt_names := names\<rparr>)))
      | _ \<Rightarrow> index_tools env server apps rest rt)"

definition index_resource :: "string \<Rightarrow> json \<Rightarrow> 'a router \<Rightarrow> 'a router" where
  "index_resource server r rt =
     (case jget_str ''uri'' r of
        None \<Rightarrow> rt
      | Some uri \<Rightarrow>
          (case map_of (rt_resource_routes rt) uri of
             None \<Rightarrow> rt\<lparr>rt_resources := rt_resources rt @ [r],
                        rt_resource_routes := AList.update uri server (rt_resource_routes rt)\<rparr>
           | Some owner \<Rightarrow>
               if owner \<noteq> server \<or> list_ex (\<lambda>x. jget_str ''uri'' x = Some uri) (rt_resources rt) then rt
               else rt\<lparr>rt_resources := rt_resources rt @ [r]\<rparr>))"

definition index_template :: "string \<Rightarrow> json \<Rightarrow> 'a router \<Rightarrow> 'a router" where
  "index_template server t rt =
     (case jget_str ''uriTemplate'' t of
        None \<Rightarrow> rt
      | Some uri \<Rightarrow>
          if map_of (rt_template_routes rt) uri = None
          then rt\<lparr>rt_templates := rt_templates rt @ [t],
                  rt_template_routes := AList.update uri server (rt_template_routes rt)\<rparr>
          else rt)"

definition index_prompt :: "string \<Rightarrow> json \<times> string option \<Rightarrow> 'a router \<Rightarrow> 'a router" where
  "index_prompt server = (\<lambda>(p, exposed) rt.
     (case (jget_str ''name'' p, exposed) of
        (Some orig, Some exposed) \<Rightarrow>
          rt\<lparr>rt_prompts := rt_prompts rt @ [set_key ''name'' (JStr exposed) p],
             rt_prompt_routes := AList.update exposed (server, orig) (rt_prompt_routes rt)\<rparr>
      | _ \<Rightarrow> rt))"

text \<open>Resources, templates and prompts; the first server that claims a URI keeps it.\<close>

definition index_lists :: "'a catalog_env \<Rightarrow> server_catalog \<Rightarrow> 'a router \<Rightarrow> 'a router option" where
  "index_lists env sc rt =
     (let server = sc_id sc; prompts = sc_prompts sc;
          rt = fold (index_template server) (sc_templates sc) (fold (index_resource server) (sc_resources sc) rt)
      in map_option (\<lambda>(exposed, names). fold (index_prompt server) (zip prompts exposed) (rt\<lparr>rt_names := names\<rparr>))
           (allocate_exposed_names (ce_digest env) (rt_rule rt) server prompts (rt_names rt)))"

definition note_catalog :: "bool \<Rightarrow> string \<Rightarrow> 'a router \<Rightarrow> 'a router" where
  "note_catalog known server rt =
     (if known then rt\<lparr>rt_catalog_servers := insert server (rt_catalog_servers rt)\<rparr> else rt)"

text \<open>The code expects every tool with a name to get one; a tool without is skipped.\<close>

definition index_server :: "'a catalog_env \<Rightarrow> server_catalog \<Rightarrow> 'a router \<Rightarrow> 'a router option" where
  "index_server env sc rt =
     (let server = sc_id sc; tools = sc_tools sc; rt = note_catalog (tools \<noteq> []) server rt
      in Option.bind (allocate_names (ce_digest env) (rt_rule rt) server (map (jget_str ''name'') tools) (rt_names rt))
           (\<lambda>(bases, names).
         Option.bind (index_tools env server (supports_mcp_app_html (sc_extensions sc)) (zip tools bases) (rt\<lparr>rt_names := names\<rparr>))
           (index_lists env sc)))"

section \<open>Rebuilding\<close>

definition slot_of :: "'a router \<Rightarrow> string \<Rightarrow> server_catalog option" where
  "slot_of rt i = Option.bind (map_of (rt_by_id rt) i)
     (\<lambda>n. if n < length (rt_servers rt) then Some (rt_servers rt ! n) else None)"

definition tool_revision :: "'a router \<Rightarrow> string \<Rightarrow> nat option" where
  "tool_revision rt i = map_option sc_revision (slot_of rt i)"

definition still_advertised :: "'a router \<Rightarrow> 'a restored_tool \<Rightarrow> bool" where
  "still_advertised rt c =
     (case slot_of rt (re_server c) of
        Some sc \<Rightarrow> list_ex (\<lambda>t. jget_str ''name'' t = Some (re_original c)) (sc_tools sc)
      | None \<Rightarrow> False)"

definition clear_catalog :: "'a restored_tool list \<Rightarrow> 'a router \<Rightarrow> 'a router" where
  "clear_catalog restored rt =
     (let kept = map re_exposed (filter (\<lambda>c. \<not> still_advertised rt c) restored)
      in rt\<lparr>rt_restored := [], rt_tools := [], rt_catalog_servers := {}, rt_routes := [], rt_policy_names := [],
            rt_policy_by_original := [], rt_arguments := [],
            rt_names := \<lparr>seen = kept, legacy_seen = kept, legacy_names = []\<rparr>, rt_owners := [], rt_model_hidden := {},
            rt_blocked := [], rt_resources := [], rt_resource_routes := [], rt_templates := [],
            rt_template_routes := [], rt_prompts := [], rt_prompt_routes := []\<rparr>)"

fun index_servers :: "'a catalog_env \<Rightarrow> server_catalog list \<Rightarrow> 'a router \<Rightarrow> 'a router option" where
  "index_servers env [] rt = Some rt"
| "index_servers env (sc # scs) rt =
     Option.bind (index_server env sc (note_catalog (sc_complete sc) (sc_id sc) rt)) (index_servers env scs)"

definition rebuild_aggregation_with_reserved :: "'a catalog_env \<Rightarrow> 'a restored_tool list \<Rightarrow> 'a router \<Rightarrow> 'a router option" where
  "rebuild_aggregation_with_reserved env restored rt = index_servers env (rt_servers rt) (clear_catalog restored rt)"

definition rebuild_aggregation :: "'a catalog_env \<Rightarrow> 'a router \<Rightarrow> 'a router option" where
  "rebuild_aggregation env rt = rebuild_aggregation_with_reserved env [] rt"

definition apply_restored :: "'a restored_tool \<Rightarrow> 'a router \<Rightarrow> 'a router" where
  "apply_restored c rt =
     (let e = re_exposed c; s = re_server c; orig = re_original c
      in if map_of (rt_routes rt) e \<noteq> None \<or> map_of (rt_blocked rt) e \<noteq> None \<or> map_of (rt_by_id rt) s = None then rt
         else
           let rt = rt\<lparr>rt_owners := AList.update e s (rt_owners rt),
                      rt_model_hidden := (if tm_model_hidden (metadata_of (re_definition c))
                                          then insert e (rt_model_hidden rt) else rt_model_hidden rt),
                      rt_names := (case re_policy_name c of
                          Some legacy \<Rightarrow> (rt_names rt)\<lparr>legacy_names := AList.update e legacy (legacy_names (rt_names rt))\<rparr>
                        | None \<Rightarrow> rt_names rt)\<rparr>;
               rt = bind_policy_name e s orig rt
           in if map_of (rt_blocked rt) e \<noteq> None then rt
              else case policy_blocked_reason rt e s orig (metadata_of (set_key ''name'' (JStr orig) (re_definition c))) of
                     Some r \<Rightarrow> rt\<lparr>rt_blocked := AList.update e r (rt_blocked rt)\<rparr>
                   | None \<Rightarrow>
                       rt\<lparr>rt_routes := AList.update e (s, orig) (rt_routes rt),
                          rt_arguments := (case re_arguments c of Some a \<Rightarrow> AList.update e a (rt_arguments rt)
                                                               | None \<Rightarrow> rt_arguments rt),
                          rt_tools := rt_tools rt @ [re_definition c],
                          rt_names := (rt_names rt)\<lparr>seen := e # seen (rt_names rt)\<rparr>\<rparr>)"

definition apply_restored_candidates :: "'a router \<Rightarrow> 'a router" where
  "apply_restored_candidates rt = fold apply_restored (rt_restored rt) rt"

definition rebuild_preserving_restored :: "'a catalog_env \<Rightarrow> 'a router \<Rightarrow> 'a router option" where
  "rebuild_preserving_restored env rt =
     (let restored = filter (\<lambda>c. tool_revision rt (re_server c) = Some (re_revision c)) (rt_restored rt)
      in map_option (\<lambda>rt. apply_restored_candidates (rt\<lparr>rt_restored := restored\<rparr>))
           (rebuild_aggregation_with_reserved env restored rt))"

section \<open>Operations\<close>

definition add_with_reconnect :: "'a catalog_env \<Rightarrow> server_catalog \<Rightarrow> 'a router \<Rightarrow> 'a router option" where
  "add_with_reconnect env sc rt =
     map_option (\<lambda>rt.
         rt\<lparr>rt_catalog_servers := insert (sc_id sc) (rt_catalog_servers rt),
            rt_by_id := AList.update (sc_id sc) (length (rt_servers rt)) (rt_by_id rt),
            rt_servers := rt_servers rt @ [sc]\<rparr>)
       (index_server env sc rt)"

definition add_supervised :: "'a catalog_env \<Rightarrow> server_catalog \<Rightarrow> 'a router \<Rightarrow> 'a router option" where
  "add_supervised env sc rt =
     rebuild_preserving_restored env
       (rt\<lparr>rt_by_id := AList.update (sc_id sc) (length (rt_servers rt)) (rt_by_id rt),
           rt_servers := rt_servers rt @ [sc]\<rparr>)"

definition requarantine :: "'a catalog_env \<Rightarrow> string set \<Rightarrow> 'a router \<Rightarrow> 'a router option" where
  "requarantine env quarantined rt =
     rebuild_preserving_restored env (rt\<lparr>rt_policy := (rt_policy rt)\<lparr>tp_quarantined := quarantined\<rparr>\<rparr>)"

definition requarantine_from_store :: "'a catalog_env \<Rightarrow> string set \<Rightarrow> 'a router \<Rightarrow> 'a router option" where
  "requarantine_from_store env quarantined rt =
     requarantine env quarantined (rt\<lparr>rt_policy := (rt_policy rt)\<lparr>tp_fail_closed_catalog := False\<rparr>\<rparr>)"

definition fail_closed_catalog :: "'a catalog_env \<Rightarrow> 'a router \<Rightarrow> 'a router option" where
  "fail_closed_catalog env rt =
     rebuild_preserving_restored env (rt\<lparr>rt_policy := (rt_policy rt)\<lparr>tp_fail_closed_catalog := True\<rparr>\<rparr>)"

definition apply_registry_policy :: "'a catalog_env \<Rightarrow> registry_policy \<Rightarrow> 'a router \<Rightarrow> (bool \<times> 'a router) option" where
  "apply_registry_policy env rp rt =
     (if registry_half (rt_policy rt) = rp then Some (False, rt)
      else map_option (Pair True) (rebuild_preserving_restored env
             (rt\<lparr>rt_policy := with_quarantine rp (tp_quarantined (rt_policy rt)) (tp_fail_closed_catalog (rt_policy rt))\<rparr>)))"

definition with_tool_allow :: "'a catalog_env \<Rightarrow> (string \<times> string set) list \<Rightarrow> 'a router \<Rightarrow> 'a router option" where
  "with_tool_allow env allow rt =
     rebuild_preserving_restored env (rt\<lparr>rt_policy := (rt_policy rt)\<lparr>tp_allow := allow\<rparr>\<rparr>)"

definition respell_restored :: "'a catalog_env \<Rightarrow> 'a router \<Rightarrow> 'a restored_tool \<Rightarrow> 'a restored_tool option" where
  "respell_restored env view c =
     (let canonical = (case re_policy_name c of Some n \<Rightarrow> n | None \<Rightarrow> re_exposed c);
          new = (case Option.bind (override_of view (re_server c) (re_original c)) to_name of
                   Some n \<Rightarrow> if reserved (sanitize_segment n) then None else Some n
                 | None \<Rightarrow> None)
      in map_option (\<lambda>e. c\<lparr>re_exposed := e, re_policy_name := Some canonical,
                           re_definition := set_key ''name'' (JStr e) (re_definition c)\<rparr>)
           (case new of
              Some n \<Rightarrow> bounded_alias (ce_digest env) canonical (JArr [JStr (re_server c), JStr (re_original c), JStr n]) None (rt_rule view)
            | None \<Rightarrow> bounded_alias (ce_digest env) (if reserved canonical then re_exposed c else canonical)
                        (JArr [JStr (re_server c), JStr (re_original c)]) (Some (re_server c)) (rt_rule view)))"

fun each_restored :: "('a restored_tool \<Rightarrow> 'a restored_tool option) \<Rightarrow> 'a restored_tool list \<Rightarrow> 'a restored_tool list option" where
  "each_restored f [] = Some []"
| "each_restored f (c # cs) = Option.bind (f c) (\<lambda>c. map_option ((#) c) (each_restored f cs))"

definition with_client_tool_view ::
  "'a catalog_env \<Rightarrow> (string \<times> string set) list \<Rightarrow> alias_rule \<Rightarrow> 'a router \<Rightarrow> 'a router option" where
  "with_client_tool_view env allow rule rt =
     (let view = rt\<lparr>rt_policy := (rt_policy rt)\<lparr>tp_allow := allow\<rparr>,
                    rt_rule := rule\<lparr>limit := max 16 (min 64 (limit rule))\<rparr>\<rparr>
      in if rt_rule rt = rt_rule view then rebuild_preserving_restored env view
         else let view = view\<lparr>rt_canonical := rt_policy_by_original rt\<rparr>
              in Option.bind (each_restored (respell_restored env view) (rt_restored view))
                   (\<lambda>cs. rebuild_preserving_restored env (view\<lparr>rt_restored := cs\<rparr>)))"

text \<open>The slots are shared with other views and their lists change when a server is queried again. A refresh
  reads the lists as they are then.\<close>

definition refresh_tools :: "'a catalog_env \<Rightarrow> server_catalog list \<Rightarrow> 'a router \<Rightarrow> 'a router option" where
  "refresh_tools env slots rt = rebuild_aggregation env (rt\<lparr>rt_servers := slots\<rparr>)"

definition refresh_lists :: "'a catalog_env \<Rightarrow> server_catalog list \<Rightarrow> 'a router \<Rightarrow> 'a router option" where
  "refresh_lists env slots rt = rebuild_preserving_restored env (rt\<lparr>rt_servers := slots\<rparr>)"

definition with_shared_server_slot :: "'a catalog_env \<Rightarrow> bool \<Rightarrow> server_catalog \<Rightarrow> 'a router \<Rightarrow> 'a router option" where
  "with_shared_server_slot env same sc rt =
     rebuild_preserving_restored env
       (case map_of (rt_by_id rt) (sc_id sc) of
          Some n \<Rightarrow>
            rt\<lparr>rt_restored := (if same then rt_restored rt else filter (\<lambda>c. re_server c \<noteq> sc_id sc) (rt_restored rt)),
               rt_servers := (rt_servers rt)[n := sc]\<rparr>
        | None \<Rightarrow>
            rt\<lparr>rt_by_id := AList.update (sc_id sc) (length (rt_servers rt)) (rt_by_id rt),
               rt_servers := rt_servers rt @ [sc]\<rparr>)"

definition is_implausible_shrink :: "nat \<Rightarrow> nat \<Rightarrow> bool" where
  "is_implausible_shrink previous new \<longleftrightarrow> new * 2 < previous"

definition collapsed_servers :: "'a router \<Rightarrow> 'a router \<Rightarrow> string list" where
  "collapsed_servers previous rt =
     map sc_id (filter (\<lambda>sc. case slot_of previous (sc_id sc) of
         Some old \<Rightarrow> sc_tools sc \<noteq> [] \<and> is_implausible_shrink (length (sc_tools old)) (length (sc_tools sc))
       | None \<Rightarrow> False) (rt_servers rt))"

text \<open>One round of either loop of \<open>adopt_restored_routes\<close>; \<open>wanted\<close> is the extra condition of the second.\<close>

definition adopt_tool ::
  "'a router \<Rightarrow> 'a router \<Rightarrow> (string \<Rightarrow> bool) \<Rightarrow> json \<Rightarrow> string set \<times> 'a restored_tool list \<Rightarrow> string set \<times> 'a restored_tool list" where
  "adopt_tool rt source wanted t = (\<lambda>(known, candidates).
     case jget_str ''name'' t of
       None \<Rightarrow> (known, candidates)
     | Some e \<Rightarrow>
         (case map_of (rt_routes source) e of
            None \<Rightarrow> (known, candidates)
          | Some (server, orig) \<Rightarrow>
              if \<not> wanted server \<or> map_of (rt_routes rt) e \<noteq> None \<or> e \<in> known then (known, candidates)
              else (insert e known,
                candidates @ [\<lparr>re_definition = t, re_exposed = e, re_server = server, re_original = orig,
                  re_policy_name = map_of (rt_policy_names source) e,
                  re_revision = (case tool_revision rt server of Some n \<Rightarrow> n | None \<Rightarrow> 0),
                  re_arguments = map_of (rt_arguments source) e\<rparr>])))"

definition shared_tools :: "'a router \<Rightarrow> json list" where
  "shared_tools rt = sort_key (jget_str ''name'') (rt_tools rt)"

definition adopt_restored_routes :: "'a catalog_env \<Rightarrow> 'a router \<Rightarrow> json list \<Rightarrow> 'a router \<Rightarrow> 'a router option" where
  "adopt_restored_routes env previous catalog rt =
     (let start = (set (map re_exposed (rt_restored rt)), rt_restored rt);
          acc = fold (adopt_tool rt previous (\<lambda>_. True)) catalog start;
          collapsed = collapsed_servers previous rt
      in map_option (\<lambda>(_, candidates). apply_restored_candidates (rt\<lparr>rt_restored := candidates\<rparr>))
           (if collapsed = [] then Some acc
            else map_option (\<lambda>un. fold (adopt_tool rt un (\<lambda>s. s \<in> set collapsed)) (shared_tools un) acc)
                   (with_tool_allow env [] previous)))"

end
