(* ===== verification/CatalogProps.thy ===== *)
theory CatalogProps
  imports RouterCatalog
begin

text \<open>
  What holds of the router's catalog in every state: the tools it lists are exactly the names it
  routes, none of them is blocked, each passes the policy in force, and every known name is either
  routed or blocked with a reason.
\<close>

section \<open>The invariant\<close>

definition listed_ok :: "'a router \<Rightarrow> json \<Rightarrow> bool" where
  "listed_ok rt d \<longleftrightarrow>
     (\<exists>e s orig. jget_str ''name'' d = Some e \<and> map_of (rt_routes rt) e = Some (s, orig) \<and>
        policy_blocked_reason rt e s orig (metadata_of (set_key ''name'' (JStr orig) d)) = None)"

text \<open>Names in \<open>X\<close> are being indexed: they may have an owner and no verdict yet.\<close>

definition catalog_but :: "string set \<Rightarrow> 'a router \<Rightarrow> bool" where
  "catalog_but X rt \<longleftrightarrow>
     (\<forall>d \<in> set (rt_tools rt). listed_ok rt d) \<and> distinct (map (jget_str ''name'') (rt_tools rt)) \<and>
     (\<forall>e. map_of (rt_routes rt) e \<noteq> None \<longrightarrow>
        (\<exists>d \<in> set (rt_tools rt). jget_str ''name'' d = Some e) \<and> e \<in> set (seen (rt_names rt)) \<and>
        map_of (rt_blocked rt) e = None) \<and>
     (\<forall>e. map_of (rt_owners rt) e \<noteq> None \<longrightarrow> e \<in> X \<or> map_of (rt_routes rt) e \<noteq> None \<or> map_of (rt_blocked rt) e \<noteq> None)"

abbreviation catalog_ok :: "'a router \<Rightarrow> bool" where
  "catalog_ok \<equiv> catalog_but {}"

definition restored_ok :: "'a restored_tool list \<Rightarrow> bool" where
  "restored_ok cs \<longleftrightarrow> (\<forall>c \<in> set cs. jget_str ''name'' (re_definition c) = Some (re_exposed c))"

lemma catalog_butD:
  assumes "catalog_but X rt"
  shows "d \<in> set (rt_tools rt) \<Longrightarrow> listed_ok rt d" "distinct (map (jget_str ''name'') (rt_tools rt))"
    "map_of (rt_routes rt) e = Some p \<Longrightarrow> \<exists>d \<in> set (rt_tools rt). jget_str ''name'' d = Some e"
    "map_of (rt_routes rt) e = Some p \<Longrightarrow> e \<in> set (seen (rt_names rt))"
    "map_of (rt_routes rt) e = Some p \<Longrightarrow> map_of (rt_blocked rt) e = None"
    "map_of (rt_owners rt) e = Some s \<Longrightarrow> e \<in> X \<or> map_of (rt_routes rt) e \<noteq> None \<or> map_of (rt_blocked rt) e \<noteq> None"
  using assms unfolding catalog_but_def by (metis option.distinct(1))+

lemma reason_frame:
  assumes "rt_policy rt' = rt_policy rt" and "rt_canonical rt' = rt_canonical rt"
    and "map_of (rt_policy_names rt') e = map_of (rt_policy_names rt) e"
  shows "policy_blocked_reason rt' e = policy_blocked_reason rt e"
  using assms by (intro ext) (simp add: policy_blocked_reason_def policy_name_def has_canonical_policy_def canonical_name_def Let_def
      split: option.split)

text \<open>The fields the invariant reads, apart from the owners.\<close>

abbreviation same_catalog :: "'a router \<Rightarrow> 'a router \<Rightarrow> bool" where
  "same_catalog rt rt' \<equiv>
     rt_tools rt' = rt_tools rt \<and> rt_routes rt' = rt_routes rt \<and> rt_blocked rt' = rt_blocked rt \<and>
     rt_policy rt' = rt_policy rt \<and> rt_canonical rt' = rt_canonical rt \<and> rt_policy_names rt' = rt_policy_names rt"

lemma listed_cong:
  "rt_routes rt' = rt_routes rt \<Longrightarrow> rt_policy rt' = rt_policy rt \<Longrightarrow> rt_canonical rt' = rt_canonical rt \<Longrightarrow>
   rt_policy_names rt' = rt_policy_names rt \<Longrightarrow> listed_ok rt' d = listed_ok rt d"
  unfolding listed_ok_def by (subst reason_frame) auto

lemma catalog_frame:
  "catalog_but X rt \<Longrightarrow> same_catalog rt rt' \<Longrightarrow> (\<And>e. e \<notin> X' \<Longrightarrow> map_of (rt_owners rt') e = map_of (rt_owners rt) e) \<Longrightarrow>
   X \<subseteq> X' \<Longrightarrow> set (seen (rt_names rt)) \<subseteq> set (seen (rt_names rt')) \<Longrightarrow> catalog_but X' rt'"
  unfolding catalog_but_def using listed_cong [of rt' rt] by (auto 4 3)

section \<open>Binding\<close>

lemma jget_str_name: "jget_str k d = Some e \<Longrightarrow> jget k d = Some (JStr e)"
  by (cases d) (auto simp: jget_str_def bind_eq_Some_conv elim: as_str.elims)

lemma refuse_frame [simp]:
  "rt_policy (refuse_alias a rt) = rt_policy rt" "rt_names (refuse_alias a rt) = rt_names rt"
  "rt_owners (refuse_alias a rt) = rt_owners rt" "rt_policy_names (refuse_alias a rt) = rt_policy_names rt"
  "rt_canonical (refuse_alias a rt) = rt_canonical rt" "rt_restored (refuse_alias a rt) = rt_restored rt"
  "map_of (rt_routes (refuse_alias a rt)) = (map_of (rt_routes rt))(a := None)"
  "map_of (rt_blocked (refuse_alias a rt)) = (map_of (rt_blocked rt))(a \<mapsto> AmbiguousBinding)"
  "rt_tools (refuse_alias a rt) = filter (\<lambda>t. jget ''name'' t \<noteq> Some (JStr a)) (rt_tools rt)"
  by (simp_all add: refuse_alias_def alist_simps)

lemma refuse_listed: "listed_ok rt d \<Longrightarrow> jget ''name'' d \<noteq> Some (JStr a) \<Longrightarrow> listed_ok (refuse_alias a rt) d"
  unfolding listed_ok_def by (subst reason_frame) (auto dest: jget_str_name)

lemma refuse_ok:
  assumes "catalog_but X rt"
  shows "catalog_but X (refuse_alias a rt)"
proof -
  have "\<exists>d \<in> set (rt_tools (refuse_alias a rt)). jget_str ''name'' d = Some e"
    if "map_of (rt_routes rt) e = Some p" "e \<noteq> a" for e p
    using catalog_butD(3) [OF assms that(1)] that(2) by (fastforce dest: jget_str_name)
  then show ?thesis
    using catalog_butD [OF assms] refuse_listed [of rt _ a]
    by (fastforce simp: catalog_but_def distinct_map_filter)
qed

lemma fold_refuse:
  "catalog_but X rt \<Longrightarrow> catalog_but X (fold refuse_alias as rt)"
  "rt_policy (fold refuse_alias as rt) = rt_policy rt" "rt_names (fold refuse_alias as rt) = rt_names rt"
  "rt_owners (fold refuse_alias as rt) = rt_owners rt" "rt_policy_names (fold refuse_alias as rt) = rt_policy_names rt"
  "rt_canonical (fold refuse_alias as rt) = rt_canonical rt" "rt_restored (fold refuse_alias as rt) = rt_restored rt"
  "map_of (rt_routes rt) e = None \<Longrightarrow> map_of (rt_routes (fold refuse_alias as rt)) e = None"
  by (induction as arbitrary: rt) (simp_all add: refuse_ok)

lemma bind_frame [simp]:
  "rt_policy (bind_policy_name e s orig rt) = rt_policy rt" "rt_names (bind_policy_name e s orig rt) = rt_names rt"
  "rt_owners (bind_policy_name e s orig rt) = rt_owners rt" "rt_canonical (bind_policy_name e s orig rt) = rt_canonical rt"
  "rt_restored (bind_policy_name e s orig rt) = rt_restored rt"
  by (simp_all add: bind_policy_name_def Let_def fold_refuse)

lemma bind_routes: "map_of (rt_routes rt) e' = None \<Longrightarrow> map_of (rt_routes (bind_policy_name e s orig rt)) e' = None"
  by (simp add: bind_policy_name_def Let_def fold_refuse(8) del: fold_append)

text \<open>A name without a route can be bound anew.\<close>

lemma bind_names_ok:
  assumes "catalog_but X rt" and "map_of (rt_routes rt) e = None"
  shows "catalog_but X (rt\<lparr>rt_policy_names := AList.update e n (rt_policy_names rt)\<rparr>)"
proof -
  let ?rt = "rt\<lparr>rt_policy_names := AList.update e n (rt_policy_names rt)\<rparr>"
  have "listed_ok ?rt d" if "listed_ok rt d" for d
  proof -
    from that obtain e' s orig where d: "jget_str ''name'' d = Some e'" "map_of (rt_routes rt) e' = Some (s, orig)"
        "policy_blocked_reason rt e' s orig (metadata_of (set_key ''name'' (JStr orig) d)) = None"
      by (auto simp: listed_ok_def)
    with assms(2) have "policy_blocked_reason ?rt e' = policy_blocked_reason rt e'"
      by (intro reason_frame) (auto simp: map_of_update)
    with d show ?thesis by (auto simp: listed_ok_def)
  qed
  with assms(1) show ?thesis unfolding catalog_but_def by simp
qed

lemma bind_ok:
  "catalog_but X rt \<Longrightarrow> map_of (rt_routes rt) e = None \<Longrightarrow> catalog_but X (bind_policy_name e s orig rt)"
  by (simp add: bind_policy_name_def Let_def fold_refuse(1) bind_names_ok del: fold_append)

section \<open>Indexing\<close>

lemma visibility_pointer:
  "pointer ''/_meta/ui/visibility'' (JObj m) = Option.bind (map_of m ''_meta'') (pointer_steps [''ui'', ''visibility''])"
  by (simp add: pointer_def starts_with_def pointer_step_def unescape_token_def)

lemma metadata_cong:
  "map_of m' ''name'' = map_of m ''name'' \<Longrightarrow> map_of m' ''annotations'' = map_of m ''annotations'' \<Longrightarrow>
   map_of m' ''destructiveHint'' = map_of m ''destructiveHint'' \<Longrightarrow> map_of m' ''_meta'' = map_of m ''_meta'' \<Longrightarrow>
   metadata_of (JObj m') = metadata_of (JObj m)"
  by (simp add: metadata_of_def is_destructive_def visibility_pointer jget_str_def jget_bool_def cong: option.case_cong)

lemma named_object: "jget_str ''name'' t = Some orig \<Longrightarrow> \<exists>m. t = JObj m \<and> map_of m ''name'' = Some (JStr orig)"
  using jget_str_name [of "''name''" t orig] by (cases t) auto

text \<open>The published definition carries the exposed name and, judged under the downstream name, the same
  hints as the original.\<close>

lemma define_tool_ok:
  assumes "jget_str ''name'' t = Some orig" and "define_tool env desc e t = (d, arguments)"
  shows "jget_str ''name'' d = Some e" and "metadata_of (set_key ''name'' (JStr orig) d) = metadata_of t"
proof -
  obtain m where t: "t = JObj m" and m: "map_of m ''name'' = Some (JStr orig)" using named_object [OF assms(1)] by blast
  obtain m' where d: "d = JObj m'" and name: "map_of m' ''name'' = Some (JStr e)"
    and rest: "map_of m' ''annotations'' = map_of m ''annotations''" "map_of m' ''_meta'' = map_of m ''_meta''"
      "map_of m' ''destructiveHint'' = map_of m ''destructiveHint''"
    using assms(2) unfolding define_tool_def t Let_def
    by (auto simp: map_of_obj_insert split: option.splits prod.splits if_splits)
  show "jget_str ''name'' d = Some e" using d name by (simp add: jget_str_def)
  show "metadata_of (set_key ''name'' (JStr orig) d) = metadata_of t"
    unfolding d t set_key.simps by (rule metadata_cong) (use rest m in \<open>auto simp: map_of_obj_insert\<close>)
qed

text \<open>What admission does to the fields that later steps rely on.\<close>

lemma note_frame [simp]:
  "rt_names (note_tool s e orig h rt) = rt_names rt" "rt_routes (note_tool s e orig h rt) = rt_routes rt"
  "rt_restored (note_tool s e orig h rt) = rt_restored rt" "rt_by_id (note_tool s e orig h rt) = rt_by_id rt"
  by (simp_all add: note_tool_def)

lemma note_ok: "catalog_ok rt \<Longrightarrow> catalog_but {e} (note_tool s e orig h rt)"
  by (erule catalog_frame) (auto simp: note_tool_def alist_simps)

text \<open>The two ends of an indexed name: blocked for a reason, or listed and routed.\<close>

lemma block_ok:
  "catalog_but {e} rt \<Longrightarrow> map_of (rt_routes rt) e = None \<Longrightarrow> catalog_ok (rt\<lparr>rt_blocked := AList.update e r (rt_blocked rt)\<rparr>)"
  using listed_cong [of "rt\<lparr>rt_blocked := AList.update e r (rt_blocked rt)\<rparr>" rt]
  unfolding catalog_but_def by (auto simp: map_of_update)

lemma settled_ok: "catalog_but {e} rt \<Longrightarrow> map_of (rt_blocked rt) e \<noteq> None \<Longrightarrow> catalog_ok rt"
  unfolding catalog_but_def by auto

lemma list_ok:
  assumes rt: "catalog_but {e} rt" and e: "map_of (rt_routes rt) e = None" "map_of (rt_blocked rt) e = None"
    and d: "jget_str ''name'' d = Some e"
    and pass: "policy_blocked_reason rt e s orig (metadata_of (set_key ''name'' (JStr orig) d)) = None"
    and rt': "rt_tools rt' = rt_tools rt @ [d]" "rt_routes rt' = AList.update e (s, orig) (rt_routes rt)"
      "rt_blocked rt' = rt_blocked rt" "rt_policy rt' = rt_policy rt" "rt_canonical rt' = rt_canonical rt"
      "rt_policy_names rt' = rt_policy_names rt" "rt_owners rt' = rt_owners rt"
      "insert e (set (seen (rt_names rt))) \<subseteq> set (seen (rt_names rt'))"
  shows "catalog_ok rt'"
proof -
  have reason: "policy_blocked_reason rt' = policy_blocked_reason rt"
    by (rule ext, rule reason_frame) (simp_all add: rt')
  have old: "listed_ok rt' t" "jget_str ''name'' t \<noteq> Some e" if mem: "t \<in> set (rt_tools rt)" for t
  proof -
    obtain e' s' orig' where t: "jget_str ''name'' t = Some e'" "map_of (rt_routes rt) e' = Some (s', orig')"
        "policy_blocked_reason rt e' s' orig' (metadata_of (set_key ''name'' (JStr orig') t)) = None"
      using catalog_butD(1) [OF rt mem] unfolding listed_ok_def by blast
    with e(1) have "e' \<noteq> e" by auto
    with t show "listed_ok rt' t" "jget_str ''name'' t \<noteq> Some e"
      unfolding listed_ok_def reason by (simp_all add: rt'(2) map_of_update)
  qed
  have "listed_ok rt' d" using d pass unfolding listed_ok_def reason by (simp add: rt'(2) map_of_update)
  moreover have "\<exists>t \<in> set (rt_tools rt'). jget_str ''name'' t = Some e'" if "map_of (rt_routes rt') e' \<noteq> None" for e'
    using that catalog_butD(3) [OF rt, of e'] d by (cases "e' = e") (auto simp: rt' map_of_update)
  moreover have "distinct (map (jget_str ''name'') (rt_tools rt'))"
    using catalog_butD(2) [OF rt] old(2) d by (force simp: rt')
  moreover have "e' \<in> set (seen (rt_names rt'))" "map_of (rt_blocked rt') e' = None" if "map_of (rt_routes rt') e' \<noteq> None" for e'
    using that catalog_butD(4,5) [OF rt, of e'] e(2) rt'(8) by (auto simp: rt' map_of_update split: if_splits)
  moreover have "map_of (rt_routes rt') e' \<noteq> None \<or> map_of (rt_blocked rt') e' \<noteq> None" if "map_of (rt_owners rt') e' \<noteq> None" for e'
    using that catalog_butD(6) [OF rt, of e'] by (cases "e' = e") (auto simp: rt' map_of_update)
  ultimately show ?thesis using old(1) by (auto simp: catalog_but_def rt'(1))
qed

lemma publish_frame:
  "rt_routes (publish_tool env s apps e orig t rt) = AList.update e (s, orig) (rt_routes rt)"
  "rt_tools (publish_tool env s apps e orig t rt) =
     rt_tools rt @ [fst (define_tool env (Option.bind (override_of rt s orig) to_description) e t)]"
  "rt_blocked (publish_tool env s apps e orig t rt) = rt_blocked rt"
  "rt_policy (publish_tool env s apps e orig t rt) = rt_policy rt"
  "rt_canonical (publish_tool env s apps e orig t rt) = rt_canonical rt"
  "rt_policy_names (publish_tool env s apps e orig t rt) = rt_policy_names rt"
  "rt_owners (publish_tool env s apps e orig t rt) = rt_owners rt"
  "rt_names (publish_tool env s apps e orig t rt) = rt_names rt"
  "rt_restored (publish_tool env s apps e orig t rt) = rt_restored rt"
  by (simp_all add: publish_tool_def split: prod.split)

lemma admit_ok:
  assumes "catalog_ok rt" and "map_of (rt_routes rt) e = None" and "e \<in> set (seen (rt_names rt))"
    and "jget_str ''name'' t = Some orig"
  shows "catalog_ok (admit_tool env s apps e orig t rt)"
proof -
  let ?rt = "bind_policy_name e s orig (note_tool s e orig (tm_model_hidden (metadata_of t)) rt)"
  let ?d = "define_tool env (Option.bind (override_of ?rt s orig) to_description) e t"
  have ok: "catalog_but {e} ?rt" and new: "map_of (rt_routes ?rt) e = None"
    using bind_ok [OF note_ok [OF assms(1)]] assms(2) by (simp_all add: bind_routes)
  show ?thesis
  proof (cases "map_of (rt_blocked ?rt) e = None \<and> policy_blocked_reason ?rt e s orig (metadata_of t) = None")
    case True
    have "jget_str ''name'' (fst ?d) = Some e" "metadata_of (set_key ''name'' (JStr orig) (fst ?d)) = metadata_of t"
      using define_tool_ok [OF assms(4) prod.collapse [symmetric]] by auto
    then have "catalog_ok (publish_tool env s apps e orig t ?rt)"
      using True assms(3) by (intro list_ok [OF ok new]) (simp_all add: publish_frame)
    with True show ?thesis by (simp add: admit_tool_def Let_def)
  next
    case False
    then show ?thesis
      using settled_ok [OF ok] block_ok [OF ok new] by (auto simp: admit_tool_def Let_def split: option.split)
  qed
qed

lemma admit_frame:
  "rt_names (admit_tool env s apps e orig t rt) = rt_names rt"
  "rt_restored (admit_tool env s apps e orig t rt) = rt_restored rt"
  "map_of (rt_routes rt) e' = None \<Longrightarrow> e' \<noteq> e \<Longrightarrow> map_of (rt_routes (admit_tool env s apps e orig t rt)) e' = None"
  by (auto simp: admit_tool_def Let_def publish_frame map_of_update bind_routes split: option.split)

lemma override_names:
  assumes "override_name env rt s orig base = Some (e, names)"
  shows "set (seen (rt_names rt)) \<subseteq> set (seen names)"
    and "e = base \<or> e \<notin> set (seen (rt_names rt)) \<and> e \<in> set (seen names)"
  using assms by (auto simp: override_name_def Let_def bind_eq_Some_conv split: option.splits if_splits)

abbreviation bases :: "(json \<times> string option) list \<Rightarrow> string list" where
  "bases ts \<equiv> List.map_filter snd ts"

lemma index_tools_ok:
  "index_tools env s apps ts rt = Some rt' \<Longrightarrow> catalog_ok rt \<Longrightarrow> distinct (bases ts) \<Longrightarrow>
   (\<forall>b \<in> set (bases ts). b \<in> set (seen (rt_names rt)) \<and> map_of (rt_routes rt) b = None) \<Longrightarrow>
   catalog_ok rt' \<and> rt_restored rt' = rt_restored rt"
proof (induction env s apps ts rt rule: index_tools.induct)
  case (2 env s apps t base rest rt)
  show ?case
  proof (cases "\<exists>orig b. jget_str ''name'' t = Some orig \<and> base = Some b")
    case False
    with 2 show ?thesis by (auto simp: map_filter_simps split: option.splits)
  next
    case True
    then obtain orig b where t: "jget_str ''name'' t = Some orig" and b: "base = Some b" by blast
    with "2.prems"(1) obtain e names where ov: "override_name env rt s orig b = Some (e, names)"
        and run: "index_tools env s apps rest (admit_tool env s apps e orig t (rt\<lparr>rt_names := names\<rparr>)) = Some rt'"
      by (auto simp: bind_eq_Some_conv)
    let ?rt = "rt\<lparr>rt_names := names\<rparr>"
    have base: "b \<in> set (seen (rt_names rt))" "map_of (rt_routes rt) b = None" "b \<notin> set (bases rest)"
        "distinct (bases rest)"
        "\<forall>c \<in> set (bases rest). c \<in> set (seen (rt_names rt)) \<and> map_of (rt_routes rt) c = None"
      using "2.prems"(3,4) b by (auto simp: map_filter_simps)
    have e: "e \<in> set (seen names)" "map_of (rt_routes rt) e = None" "e \<notin> set (bases rest)"
      using override_names [OF ov] base catalog_butD(4) [OF "2.prems"(2), of e]
      by (cases "map_of (rt_routes rt) e"; auto)+
    have "catalog_ok ?rt" using "2.prems"(2) by (rule catalog_frame) (use override_names(1) [OF ov] in auto)
    let ?a = "admit_tool env s apps e orig t ?rt"
    from admit_ok [OF \<open>catalog_ok ?rt\<close> _ _ t] e have ok: "catalog_ok ?a" by simp
    have "\<forall>c \<in> set (bases rest). c \<in> set (seen (rt_names ?a)) \<and> map_of (rt_routes ?a) c = None"
    proof
      fix c assume c: "c \<in> set (bases rest)"
      with base(5) e(3) have "map_of (rt_routes ?rt) c = None" "c \<noteq> e" by auto
      with c base(5) override_names(1) [OF ov] show "c \<in> set (seen (rt_names ?a)) \<and> map_of (rt_routes ?a) c = None"
        using admit_frame(3) [of ?rt c e] by (auto simp: admit_frame(1))
    qed
    from "2.IH"(3) [OF refl t b ov refl run ok base(4) this] show ?thesis by (simp add: admit_frame(2))
  qed
qed auto

text \<open>A step that keeps the invariant and the candidates, and so does a fold of it.\<close>

abbreviation keeps :: "('a router \<Rightarrow> 'a router) \<Rightarrow> bool" where
  "keeps f \<equiv> \<forall>rt. catalog_ok rt \<longrightarrow> catalog_ok (f rt) \<and> rt_restored (f rt) = rt_restored rt"

lemma keeps_fold: "(\<And>x. keeps (f x)) \<Longrightarrow> keeps (fold f xs)"
  by (induction xs) auto

lemma keepsD:
  "keeps f \<Longrightarrow> catalog_ok rt \<Longrightarrow> catalog_ok (f rt)" "keeps f \<Longrightarrow> catalog_ok rt \<Longrightarrow> rt_restored (f rt) = rt_restored rt"
  by blast+

lemma keepsI:
  assumes "\<And>rt. same_catalog rt (f rt)" and "\<And>rt. rt_owners (f rt) = rt_owners rt"
    and "\<And>rt. rt_names (f rt) = rt_names rt" and "\<And>rt. rt_restored (f rt) = rt_restored rt"
  shows "keeps f"
proof (intro allI impI conjI)
  fix rt :: "'a router"
  assume "catalog_ok rt"
  then show "catalog_ok (f rt)" by (rule catalog_frame) (simp_all add: assms)
qed (rule assms(4))

lemma keeps_lists: "keeps (index_resource s r)" "keeps (index_template s t)" "keeps (index_prompt s p)" "keeps (note_catalog b s)"
  by (rule keepsI; simp add: index_resource_def index_template_def index_prompt_def note_catalog_def split: option.split prod.split)+

lemma distinct_some:
  "(\<forall>i j v. i < length xs \<longrightarrow> j < length xs \<longrightarrow> xs ! i = Some v \<longrightarrow> xs ! j = Some v \<longrightarrow> i = j) \<Longrightarrow>
   distinct (List.map_filter (\<lambda>v. v) xs)"
proof (induction xs)
  case (Cons x xs)
  have "distinct (List.map_filter (\<lambda>v. v) xs)"
    using Cons.prems by (intro Cons.IH) (metis Suc_less_eq length_Cons nat.inject nth_Cons_Suc)
  moreover have "v \<notin> set (List.map_filter (\<lambda>v. v) xs)" if "x = Some v" for v
    using Cons.prems that
    by (auto simp: map_filter_def in_set_conv_nth) (metis Suc_less_eq length_Cons nat.distinct(1) nth_Cons_0 nth_Cons_Suc zero_less_Suc)
  ultimately show ?case by (cases x) (simp_all add: map_filter_simps)
qed (simp add: map_filter_simps)

lemma bases_zip: "length xs = length ys \<Longrightarrow> bases (zip xs ys) = List.map_filter (\<lambda>v. v) ys"
  by (induction xs ys rule: list_induct2) (auto simp: map_filter_simps split: option.split)

lemma index_lists_ok: "index_lists env sc rt = Some rt' \<Longrightarrow> catalog_ok rt \<Longrightarrow> catalog_ok rt' \<and> rt_restored rt' = rt_restored rt"
proof -
  assume run: "index_lists env sc rt = Some rt'" and ok: "catalog_ok rt"
  let ?rt1 = "fold (index_template (sc_id sc)) (sc_templates sc) (fold (index_resource (sc_id sc)) (sc_resources sc) rt)"
  note resources = keeps_fold [of "index_resource (sc_id sc)" "sc_resources sc", OF keeps_lists(1)]
  note templates = keeps_fold [of "index_template (sc_id sc)" "sc_templates sc", OF keeps_lists(2)]
  have one: "catalog_ok ?rt1" using keepsD(1) [OF templates keepsD(1) [OF resources ok]] .
  have two: "rt_restored ?rt1 = rt_restored rt"
    using keepsD(2) [OF templates keepsD(1) [OF resources ok]] keepsD(2) [OF resources ok] by (rule trans)
  obtain exposed names where al: "allocate_names (ce_digest env) (rt_rule ?rt1) (sc_id sc) (map (jget_str ''name'') (sc_prompts sc)) (rt_names ?rt1) = Some (exposed, names)"
    and rt': "rt' = fold (index_prompt (sc_id sc)) (zip (sc_prompts sc) exposed) (?rt1\<lparr>rt_names := names\<rparr>)"
    using run unfolding index_lists_def Let_def allocate_exposed_names_def by auto
  have "catalog_ok (?rt1\<lparr>rt_names := names\<rparr>)"
    using one by (rule catalog_frame) (use allocate_names_fresh [OF al] in auto)
  note prompts = keepsD [OF keeps_fold [of "index_prompt (sc_id sc)" "zip (sc_prompts sc) exposed", OF keeps_lists(3)] this]
  show "catalog_ok rt' \<and> rt_restored rt' = rt_restored rt"
    unfolding rt' using prompts two by simp
qed

lemma index_server_ok:
  assumes "index_server env sc rt = Some rt'" and "catalog_ok rt"
  shows "catalog_ok rt' \<and> rt_restored rt' = rt_restored rt"
proof -
  let ?rt0 = "note_catalog (sc_tools sc \<noteq> []) (sc_id sc) rt"
  have ok0: "catalog_ok ?rt0" "rt_restored ?rt0 = rt_restored rt" using assms(2) keeps_lists(4) by blast+
  obtain bs names rt1 where
      al: "allocate_names (ce_digest env) (rt_rule ?rt0) (sc_id sc) (map (jget_str ''name'') (sc_tools sc)) (rt_names ?rt0) = Some (bs, names)"
    and run: "index_tools env (sc_id sc) (supports_mcp_app_html (sc_extensions sc)) (zip (sc_tools sc) bs) (?rt0\<lparr>rt_names := names\<rparr>) = Some rt1"
    and lists: "index_lists env sc rt1 = Some rt'"
    using assms(1) unfolding index_server_def Let_def by (auto simp: bind_eq_Some_conv)
  note fresh = allocate_names_fresh [OF al]
  have bases: "bases (zip (sc_tools sc) bs) = List.map_filter (\<lambda>v. v) bs" using fresh by (intro bases_zip) simp
  have "catalog_ok (?rt0\<lparr>rt_names := names\<rparr>)"
    using ok0(1) by (rule catalog_frame) (use fresh in auto)
  moreover have "\<forall>b \<in> set (List.map_filter (\<lambda>v. v) bs). b \<in> set (seen names) \<and> map_of (rt_routes ?rt0) b = None"
  proof
    fix b assume "b \<in> set (List.map_filter (\<lambda>v. v) bs)"
    then have "Some b \<in> set bs" by (force simp: map_filter_def)
    then have "b \<in> set (seen names)" "b \<notin> set (seen (rt_names ?rt0))" using fresh by auto
    then show "b \<in> set (seen names) \<and> map_of (rt_routes ?rt0) b = None"
      using catalog_butD(4) [OF ok0(1), of b] by (cases "map_of (rt_routes ?rt0) b") auto
  qed
  ultimately have "catalog_ok rt1 \<and> rt_restored rt1 = rt_restored rt"
    using index_tools_ok [OF run] distinct_some [of bs] fresh ok0(2) by (simp add: bases)
  then show ?thesis using index_lists_ok [OF lists] by simp
qed

section \<open>Rebuilding\<close>

lemma index_servers_ok: "index_servers env scs rt = Some rt' \<Longrightarrow> catalog_ok rt \<Longrightarrow> catalog_ok rt' \<and> rt_restored rt' = rt_restored rt"
proof (induction env scs rt rule: index_servers.induct)
  case (2 env sc scs rt)
  then obtain rt1 where "index_server env sc (note_catalog (sc_complete sc) (sc_id sc) rt) = Some rt1"
      "index_servers env scs rt1 = Some rt'" by (auto simp: bind_eq_Some_conv)
  moreover have "catalog_ok (note_catalog (sc_complete sc) (sc_id sc) rt)"
      "rt_restored (note_catalog (sc_complete sc) (sc_id sc) rt) = rt_restored rt"
    using "2.prems"(2) keeps_lists(4) [of "sc_complete sc" "sc_id sc"] by blast+
  ultimately show ?case using index_server_ok "2.IH" by metis
qed auto

lemma clear_ok: "catalog_ok (clear_catalog restored rt)"
  by (simp add: catalog_but_def clear_catalog_def Let_def)

lemma rebuild_with_ok: "rebuild_aggregation_with_reserved env restored rt = Some rt' \<Longrightarrow> catalog_ok rt'"
  using index_servers_ok clear_ok unfolding rebuild_aggregation_with_reserved_def by metis

lemma rebuild_with_restored: "rebuild_aggregation_with_reserved env restored rt = Some rt' \<Longrightarrow> rt_restored rt' = []"
proof -
  assume "rebuild_aggregation_with_reserved env restored rt = Some rt'"
  then have "rt_restored rt' = rt_restored (clear_catalog restored rt)"
    using index_servers_ok clear_ok unfolding rebuild_aggregation_with_reserved_def by metis
  then show ?thesis by (simp add: clear_catalog_def Let_def)
qed

lemma restore_settle:
  assumes "catalog_but {e} rt" and "map_of (rt_routes rt) e = None" and "jget_str ''name'' d = Some e"
  shows "catalog_ok
     (if map_of (rt_blocked rt) e \<noteq> None then rt
      else case policy_blocked_reason rt e s orig (metadata_of (set_key ''name'' (JStr orig) d)) of
             Some r \<Rightarrow> rt\<lparr>rt_blocked := AList.update e r (rt_blocked rt)\<rparr>
           | None \<Rightarrow> rt\<lparr>rt_routes := AList.update e (s, orig) (rt_routes rt), rt_arguments := args,
               rt_tools := rt_tools rt @ [d], rt_names := (rt_names rt)\<lparr>seen := e # seen (rt_names rt)\<rparr>\<rparr>)"
  using settled_ok [OF assms(1)] block_ok [OF assms(1,2)]
  by (auto split: option.split intro: list_ok [OF assms(1,2) _ assms(3)])

lemma apply_restored_ok:
  assumes "catalog_ok rt" and "jget_str ''name'' (re_definition c) = Some (re_exposed c)"
  shows "catalog_ok (apply_restored c rt)"
proof (cases "map_of (rt_routes rt) (re_exposed c) \<noteq> None \<or> map_of (rt_blocked rt) (re_exposed c) \<noteq> None \<or>
    map_of (rt_by_id rt) (re_server c) = None")
  case True
  then show ?thesis using assms(1) by (auto simp: apply_restored_def Let_def)
next
  case False
  let ?e = "re_exposed c" and ?s = "re_server c" and ?orig = "re_original c"
  let ?noted = "rt\<lparr>rt_owners := AList.update ?e ?s (rt_owners rt),
      rt_model_hidden := (if tm_model_hidden (metadata_of (re_definition c)) then insert ?e (rt_model_hidden rt) else rt_model_hidden rt),
      rt_names := (case re_policy_name c of
          Some legacy \<Rightarrow> (rt_names rt)\<lparr>legacy_names := AList.update ?e legacy (legacy_names (rt_names rt))\<rparr>
        | None \<Rightarrow> rt_names rt)\<rparr>"
  let ?rt = "bind_policy_name ?e ?s ?orig ?noted"
  have "catalog_but {?e} ?noted"
    using assms(1) by (rule catalog_frame) (auto simp: map_of_update split: option.split)
  moreover have none: "map_of (rt_routes ?noted) ?e = None" using False by (cases "map_of (rt_routes rt) ?e") auto
  ultimately have ok: "catalog_but {?e} ?rt" by (rule bind_ok)
  have new: "map_of (rt_routes ?rt) ?e = None" using none by (rule bind_routes)
  have run: "apply_restored c rt =
      (if map_of (rt_blocked ?rt) ?e \<noteq> None then ?rt
       else case policy_blocked_reason ?rt ?e ?s ?orig (metadata_of (set_key ''name'' (JStr ?orig) (re_definition c))) of
              Some r \<Rightarrow> ?rt\<lparr>rt_blocked := AList.update ?e r (rt_blocked ?rt)\<rparr>
            | None \<Rightarrow> ?rt\<lparr>rt_routes := AList.update ?e (?s, ?orig) (rt_routes ?rt),
                rt_arguments := (case re_arguments c of Some a \<Rightarrow> AList.update ?e a (rt_arguments ?rt) | None \<Rightarrow> rt_arguments ?rt),
                rt_tools := rt_tools ?rt @ [re_definition c],
                rt_names := (rt_names ?rt)\<lparr>seen := ?e # seen (rt_names ?rt)\<rparr>\<rparr>)"
    unfolding apply_restored_def Let_def using False by (simp only: if_False)
  show ?thesis unfolding run using ok new assms(2) by (rule restore_settle)
qed

lemma apply_restored_restored [simp]: "rt_restored (apply_restored c rt) = rt_restored rt"
  by (simp add: apply_restored_def Let_def split: option.split)

lemma apply_candidates_ok:
  assumes "catalog_ok rt" and "restored_ok (rt_restored rt)"
  shows "catalog_ok (apply_restored_candidates rt) \<and> rt_restored (apply_restored_candidates rt) = rt_restored rt"
proof -
  have "catalog_ok (fold apply_restored cs rt) \<and> rt_restored (fold apply_restored cs rt) = rt_restored rt"
    if "catalog_ok rt" "restored_ok cs" for cs and rt :: "'a router"
    using that by (induction cs arbitrary: rt) (auto simp: restored_ok_def apply_restored_ok)
  with assms show ?thesis by (simp add: apply_restored_candidates_def)
qed

text \<open>The invariant of a router between operations.\<close>

definition router_ok :: "'a router \<Rightarrow> bool" where
  "router_ok rt \<longleftrightarrow> catalog_ok rt \<and> restored_ok (rt_restored rt)"

lemma restored_ok_subset: "restored_ok cs \<Longrightarrow> set cs' \<subseteq> set cs \<Longrightarrow> restored_ok cs'"
  by (auto simp: restored_ok_def)

text \<open>A rebuild needs nothing of the catalog it replaces.\<close>

lemma rebuild_preserving_ok:
  assumes "rebuild_preserving_restored env rt = Some rt'" and "restored_ok (rt_restored rt)"
  shows "router_ok rt'"
proof -
  let ?cs = "filter (\<lambda>c. tool_revision rt (re_server c) = Some (re_revision c)) (rt_restored rt)"
  obtain rt1 where "rebuild_aggregation_with_reserved env ?cs rt = Some rt1"
    and rt': "rt' = apply_restored_candidates (rt1\<lparr>rt_restored := ?cs\<rparr>)"
    using assms(1) by (auto simp: rebuild_preserving_restored_def Let_def)
  then have "catalog_ok rt1" by (intro rebuild_with_ok)
  then have "catalog_ok (rt1\<lparr>rt_restored := ?cs\<rparr>)" by (rule catalog_frame) simp_all
  moreover have "restored_ok ?cs" using assms(2) by (rule restored_ok_subset) auto
  ultimately show ?thesis using apply_candidates_ok [of "rt1\<lparr>rt_restored := ?cs\<rparr>"] by (simp add: router_ok_def rt')
qed

section \<open>Operations\<close>

lemma set_name: "jget_str ''name'' d = Some e \<Longrightarrow> jget_str ''name'' (set_key ''name'' (JStr e') d) = Some e'"
  using named_object [of d e] by (auto simp: jget_str_def map_of_obj_insert)

lemma respell_ok: "respell_restored env view c = Some c' \<Longrightarrow> restored_ok [c] \<Longrightarrow> restored_ok [c']"
  by (auto simp: respell_restored_def restored_ok_def Let_def set_name)

lemma each_restored_ok:
  "each_restored (respell_restored env view) cs = Some cs' \<Longrightarrow> restored_ok cs \<Longrightarrow> restored_ok cs'"
proof (induction cs arbitrary: cs')
  case (Cons c cs)
  then obtain c1 cs1 where "respell_restored env view c = Some c1" "each_restored (respell_restored env view) cs = Some cs1"
      "cs' = c1 # cs1" by (auto simp: bind_eq_Some_conv)
  with Cons respell_ok [of env view c c1] show ?case by (auto simp: restored_ok_def)
qed (simp add: restored_ok_def)

lemma adopt_ok: "restored_ok (snd acc) \<Longrightarrow> restored_ok (snd (fold (adopt_tool rt source wanted) ts acc))"
proof (induction ts arbitrary: acc)
  case (Cons t ts)
  from Cons.prems have "restored_ok (snd (adopt_tool rt source wanted t acc))"
    by (auto simp: adopt_tool_def restored_ok_def split: option.split prod.split)
  with Cons.IH show ?case by simp
qed simp

inductive catalog_step :: "'a catalog_env \<Rightarrow> 'a router \<Rightarrow> 'a router \<Rightarrow> bool" for env where
  "catalog_step env rt (set_overrides ovs rt)"
| "add_with_reconnect env sc rt = Some rt' \<Longrightarrow> catalog_step env rt rt'"
| "add_supervised env sc rt = Some rt' \<Longrightarrow> catalog_step env rt rt'"
| "requarantine env q rt = Some rt' \<Longrightarrow> catalog_step env rt rt'"
| "requarantine_from_store env q rt = Some rt' \<Longrightarrow> catalog_step env rt rt'"
| "fail_closed_catalog env rt = Some rt' \<Longrightarrow> catalog_step env rt rt'"
| "apply_registry_policy env rp rt = Some (changed, rt') \<Longrightarrow> catalog_step env rt rt'"
| "with_tool_allow env allow rt = Some rt' \<Longrightarrow> catalog_step env rt rt'"
| "with_client_tool_view env allow rule rt = Some rt' \<Longrightarrow> catalog_step env rt rt'"
| "refresh_tools env slots rt = Some rt' \<Longrightarrow> catalog_step env rt rt'"
| "refresh_lists env slots rt = Some rt' \<Longrightarrow> catalog_step env rt rt'"
| "with_shared_server_slot env same sc rt = Some rt' \<Longrightarrow> catalog_step env rt rt'"
| "adopt_restored_routes env previous catalog rt = Some rt' \<Longrightarrow> catalog_step env rt rt'"

lemma overrides_ok: "router_ok rt \<Longrightarrow> router_ok (set_overrides ovs rt)"
  unfolding router_ok_def by (auto simp: set_overrides_def elim!: catalog_frame)

lemma add_ok:
  assumes "add_with_reconnect env sc rt = Some rt'" and "router_ok rt"
  shows "router_ok rt'"
proof -
  obtain rt1 where rt1: "index_server env sc rt = Some rt1" and rt': "same_catalog rt1 rt'" "rt_owners rt' = rt_owners rt1"
      "rt_names rt' = rt_names rt1" "rt_restored rt' = rt_restored rt1"
    using assms(1) by (auto simp: add_with_reconnect_def)
  have "catalog_ok rt1 \<and> rt_restored rt1 = rt_restored rt"
    using index_server_ok [OF rt1] assms(2) by (simp add: router_ok_def)
  moreover have "catalog_ok rt1 \<Longrightarrow> catalog_ok rt'" by (erule catalog_frame) (simp_all add: rt')
  ultimately show ?thesis using assms(2) rt'(4) by (simp add: router_ok_def)
qed

lemma rebuilt_ok:
  "router_ok rt \<Longrightarrow> add_supervised env sc rt = Some rt' \<Longrightarrow> router_ok rt'"
  "router_ok rt \<Longrightarrow> requarantine env q rt = Some rt' \<Longrightarrow> router_ok rt'"
  "router_ok rt \<Longrightarrow> requarantine_from_store env q rt = Some rt' \<Longrightarrow> router_ok rt'"
  "router_ok rt \<Longrightarrow> fail_closed_catalog env rt = Some rt' \<Longrightarrow> router_ok rt'"
  "router_ok rt \<Longrightarrow> with_tool_allow env allow rt = Some rt' \<Longrightarrow> router_ok rt'"
  "router_ok rt \<Longrightarrow> refresh_lists env slots rt = Some rt' \<Longrightarrow> router_ok rt'"
  by (auto simp: router_ok_def add_supervised_def requarantine_def requarantine_from_store_def fail_closed_catalog_def
      with_tool_allow_def refresh_lists_def dest!: rebuild_preserving_ok)

lemma registry_policy_ok: "apply_registry_policy env rp rt = Some (changed, rt') \<Longrightarrow> router_ok rt \<Longrightarrow> router_ok rt'"
  by (auto simp: apply_registry_policy_def router_ok_def split: if_splits dest!: rebuild_preserving_ok)

lemma refresh_tools_ok: "refresh_tools env slots rt = Some rt' \<Longrightarrow> router_ok rt'"
  unfolding refresh_tools_def rebuild_aggregation_def router_ok_def
  using rebuild_with_ok rebuild_with_restored by (metis empty_iff empty_set restored_ok_def)

lemma client_view_ok: "with_client_tool_view env allow rule rt = Some rt' \<Longrightarrow> router_ok rt \<Longrightarrow> router_ok rt'"
  by (auto simp: with_client_tool_view_def router_ok_def Let_def bind_eq_Some_conv split: if_splits
      dest!: each_restored_ok rebuild_preserving_ok)

lemma shared_slot_ok: "with_shared_server_slot env same sc rt = Some rt' \<Longrightarrow> router_ok rt \<Longrightarrow> router_ok rt'"
  unfolding with_shared_server_slot_def router_ok_def
  by (drule rebuild_preserving_ok) (auto simp: router_ok_def split: option.split intro: restored_ok_subset)

lemma adopt_routes_ok:
  assumes "adopt_restored_routes env previous catalog rt = Some rt'" and "router_ok rt"
  shows "router_ok rt'"
proof -
  let ?acc = "fold (adopt_tool rt previous (\<lambda>_. True)) catalog (set (map re_exposed (rt_restored rt)), rt_restored rt)"
  have first: "restored_ok (snd ?acc)" using assms(2) by (intro adopt_ok) (simp add: router_ok_def)
  have "\<exists>cs. restored_ok cs \<and> rt' = apply_restored_candidates (rt\<lparr>rt_restored := cs\<rparr>)"
  proof (cases "collapsed_servers previous rt = []")
    case True
    with assms(1) first show ?thesis by (auto simp: adopt_restored_routes_def Let_def split: prod.splits)
  next
    case False
    with assms(1) obtain un where
      "rt' = apply_restored_candidates (rt\<lparr>rt_restored :=
         snd (fold (adopt_tool rt un (\<lambda>s. s \<in> set (collapsed_servers previous rt))) (shared_tools un) ?acc)\<rparr>)"
      by (auto simp: adopt_restored_routes_def Let_def split_beta prod_eq_iff)
    then show ?thesis using adopt_ok [OF first] by blast
  qed
  then obtain cs where cs: "restored_ok cs" and rt': "rt' = apply_restored_candidates (rt\<lparr>rt_restored := cs\<rparr>)" by blast
  have "catalog_ok (rt\<lparr>rt_restored := cs\<rparr>)"
    using assms(2) unfolding router_ok_def by (auto elim!: catalog_frame)
  with apply_candidates_ok [of "rt\<lparr>rt_restored := cs\<rparr>"] cs show ?thesis by (simp add: router_ok_def rt')
qed

lemma with_policy_ok: "router_ok (with_policy p)"
  by (simp add: router_ok_def catalog_but_def restored_ok_def with_policy_def)

interpretation catalog_sys: invariant_system "\<lambda>rt. \<exists>p. rt = with_policy p" "catalog_step env" router_ok for env
proof
  show "router_ok t" if "router_ok s" and "catalog_step env s t" for s t :: "'a router"
    using that(2,1)
    by cases (auto intro: overrides_ok add_ok rebuilt_ok registry_policy_ok refresh_tools_ok client_view_ok shared_slot_ok adopt_routes_ok)
qed (auto simp: with_policy_ok)

text \<open>C3: In every state the router can reach, the tools it lists have distinct names and these are exactly the
  names it routes; every listed tool passes the policy in force, judged under its downstream name;
  no blocked name is routed; and a name that has an owner is either routed or blocked. The states
  are those reached from an empty router by adding servers, overrides, quarantine, registry policies,
  client views, refreshed lists, replaced slots and routes restored after a server lost its tools.\<close>

theorem catalog_reachable_ok:
  assumes "reachable (\<lambda>rt. \<exists>p. rt = with_policy p) (catalog_step env) rt"
  shows "distinct (map (jget_str ''name'') (rt_tools rt)) \<and>
    jget_str ''name'' ` set (rt_tools rt) = Some ` dom (map_of (rt_routes rt)) \<and>
    (\<forall>d \<in> set (rt_tools rt). \<exists>e s orig. jget_str ''name'' d = Some e \<and> map_of (rt_routes rt) e = Some (s, orig) \<and>
       policy_blocked_reason rt e s orig (metadata_of (set_key ''name'' (JStr orig) d)) = None) \<and>
    dom (map_of (rt_routes rt)) \<inter> dom (map_of (rt_blocked rt)) = {} \<and>
    dom (map_of (rt_owners rt)) \<subseteq> dom (map_of (rt_routes rt)) \<union> dom (map_of (rt_blocked rt))"
proof -
  have ok: "catalog_ok rt" using catalog_sys.reachable_inv [OF assms] by (simp add: router_ok_def)
  have "jget_str ''name'' ` set (rt_tools rt) = Some ` dom (map_of (rt_routes rt))"
  proof (intro equalityI subsetI)
    fix n assume "n \<in> jget_str ''name'' ` set (rt_tools rt)"
    then obtain d where d: "d \<in> set (rt_tools rt)" "n = jget_str ''name'' d" by blast
    from catalog_butD(1) [OF ok d(1)] d(2) show "n \<in> Some ` dom (map_of (rt_routes rt))"
      unfolding listed_ok_def by blast
  next
    fix n assume "n \<in> Some ` dom (map_of (rt_routes rt))"
    then obtain e p where "n = Some e" "map_of (rt_routes rt) e = Some p" by blast
    with catalog_butD(3) [OF ok, of e p] show "n \<in> jget_str ''name'' ` set (rt_tools rt)" by force
  qed
  with ok show ?thesis unfolding catalog_but_def listed_ok_def by auto
qed

text \<open>A server with one harmless and one destructive tool, under a policy that denies the latter.\<close>

definition sample_env :: "nat catalog_env" where
  "sample_env = \<lparr>ce_digest = (\<lambda>_. replicate 32 0), ce_compile = (\<lambda>s. (s, None))\<rparr>"

definition sample_server :: server_catalog where
  "sample_server = \<lparr>sc_id = ''db'', sc_tools = [JObj [(''name'', JStr ''list'')], JObj [(''name'', JStr ''drop_table'')]],
     sc_resources = [], sc_templates = [], sc_prompts = [], sc_extensions = [], sc_revision = 0, sc_complete = True\<rparr>"

definition sample_router :: "nat router" where
  "sample_router = the (add_with_reconnect sample_env sample_server (with_policy (default_tool_policy\<lparr>tp_deny_destructive := True\<rparr>)))"

lemma sample_router_reachable: "reachable (\<lambda>rt. \<exists>p. rt = with_policy p) (catalog_step sample_env) sample_router"
proof -
  let ?rt = "with_policy (default_tool_policy\<lparr>tp_deny_destructive := True\<rparr>)"
  have "add_with_reconnect sample_env sample_server ?rt \<noteq> None" by code_simp
  then have "catalog_step sample_env ?rt sample_router"
    by (auto simp: sample_router_def intro: catalog_step.intros)
  then show ?thesis by (rule reach_step [OF reach_init, rotated]) blast
qed

theorem catalog_reachable_ok_witness:
  "map (jget_str ''name'') (rt_tools sample_router) = [Some ''db__list''] \<and>
   map_of (rt_blocked sample_router) ''db__drop_table'' = Some DestructivePolicy \<and>
   dom (map_of (rt_routes sample_router)) \<inter> dom (map_of (rt_blocked sample_router)) = {}"
proof -
  have "map (jget_str ''name'') (rt_tools sample_router) = [Some ''db__list'']" by code_simp
  moreover have "map_of (rt_blocked sample_router) ''db__drop_table'' = Some DestructivePolicy" by code_simp
  moreover note catalog_reachable_ok [OF sample_router_reachable]
  ultimately show ?thesis by blast
qed

end
