(* ===== verification/UriTemplate.thy ===== *)
theory UriTemplate
  imports Prelude
begin

text \<open>
  Routing of expanded resource URIs (\<open>router.rs\<close>): the code compiles a URI template to a small
  pattern language with escapes and matches it by backtracking. Patterns and texts are lists of
  characters, as the code walks them; a character is its UTF-8 bytes. The matcher is proved equal
  to the declarative meaning of the template.
\<close>

section \<open>The matcher of the code\<close>

definition max_uri_match_len :: nat where
  "max_uri_match_len = 8192"

definition max_template_match_len :: nat where
  "max_template_match_len = 1024"

abbreviation ch :: "char \<Rightarrow> string" where
  "ch c \<equiv> [c]"

definition chars_of :: "string \<Rightarrow> string list" where
  "chars_of s = map (\<lambda>c. [c]) s"

definition special_chars :: "string list" where
  "special_chars = chars_of ''.+*?^$()[]{}|'' @ [[CHR 0x5C]]"

definition seg_pattern :: "string list" where
  "seg_pattern = chars_of ''[^/]+''"

definition rest_pattern :: "string list" where
  "rest_pattern = chars_of ''.+''"

fun strip_chars :: "string list \<Rightarrow> string list \<Rightarrow> string list option" where
  "strip_chars [] s = Some s"
| "strip_chars (p # ps) [] = None"
| "strip_chars (p # ps) (c # cs) = (if p = c then strip_chars ps cs else None)"

lemma strip_chars_Some: "strip_chars p s = Some r \<longleftrightarrow> s = p @ r"
  by (induction p s rule: strip_chars.induct) auto

lemma next_char_shorter:
  "pat \<noteq> [] \<Longrightarrow> (if hd pat = b then tl pat else pat) = c # r \<Longrightarrow> length r < length pat"
  by (cases pat) (auto split: if_splits)

text \<open>\<open>char_end_offsets\<close>: the numbers of characters a variable may take, longest first.\<close>

definition char_end_offsets :: "string list \<Rightarrow> nat list" where
  "char_end_offsets s = rev [1 ..< length s + 1]"

function match_simple_pattern :: "string list \<Rightarrow> string list \<Rightarrow> bool" where
  "match_simple_pattern pat t =
     (if pat = [] then t = []
      else case strip_chars seg_pattern pat of
        Some rest \<Rightarrow>
          if t = [] \<or> hd t = ''/'' then False
          else list_ex (\<lambda>n. match_simple_pattern rest (drop n t))
                 (char_end_offsets (takeWhile (\<lambda>c. c \<noteq> ''/'') t))
      | None \<Rightarrow>
          (case strip_chars rest_pattern pat of
             Some rest \<Rightarrow>
               if t = [] then False
               else list_ex (\<lambda>n. match_simple_pattern rest (drop n t)) (char_end_offsets t)
           | None \<Rightarrow>
               (case (if hd pat = [CHR 0x5C] then tl pat else pat) of
                  [] \<Rightarrow> False
                | pat_ch # pat_rest \<Rightarrow>
                    (case t of
                       c # t_rest \<Rightarrow> if c = pat_ch then match_simple_pattern pat_rest t_rest else False
                     | [] \<Rightarrow> False))))"
  by pat_completeness auto
termination
  by (relation "measure (\<lambda>(p, t). length p)")
     (auto dest: next_char_shorter simp: strip_chars_Some seg_pattern_def rest_pattern_def chars_of_def)

declare match_simple_pattern.simps [simp del]

definition regex_is_match :: "string list \<Rightarrow> string list \<Rightarrow> bool" where
  "regex_is_match pat t =
     match_simple_pattern
       (if pat \<noteq> [] \<and> hd pat = ''^'' \<and> tl pat \<noteq> [] \<and> last (tl pat) = ''$'' then butlast (tl pat) else pat) t"

definition escape_char :: "string \<Rightarrow> string list" where
  "escape_char c = (if c \<in> set special_chars then [[CHR 0x5C], c] else [c])"

definition placeholder :: "string list \<Rightarrow> string list" where
  "placeholder expr =
     (if expr \<noteq> [] \<and> (hd expr = ''+'' \<or> hd expr = ''#'') then rest_pattern else seg_pattern)"

text \<open>The loop that compiles the template; \<open>None\<close> for a brace that is never closed.\<close>

lemma after_placeholder_shorter:
  assumes "dropWhile P (tl (dropWhile Q rest)) \<noteq> []"
  shows "length (tl (dropWhile P (tl (dropWhile Q rest)))) < length rest"
proof -
  let ?b = "dropWhile P (tl (dropWhile Q rest))"
  have "length (tl ?b) < length ?b" using assms by (cases ?b) auto
  also have "length ?b \<le> length (tl (dropWhile Q rest))" by (rule length_dropWhile_le)
  also have "\<dots> \<le> length (dropWhile Q rest)" by simp
  also have "\<dots> \<le> length rest" by (rule length_dropWhile_le)
  finally show ?thesis .
qed

function template_pattern :: "string list \<Rightarrow> string list option" where
  "template_pattern rest =
     (let literal = takeWhile (\<lambda>c. c \<noteq> ''{'') rest;
          after_open = dropWhile (\<lambda>c. c \<noteq> ''{'') rest;
          after = dropWhile (\<lambda>c. c \<noteq> ''}'') (tl after_open)
      in if after_open = [] then Some (concat (map escape_char literal))
         else if after = [] then None
         else map_option (\<lambda>p. concat (map escape_char literal) @
                placeholder (takeWhile (\<lambda>c. c \<noteq> ''}'') (tl after_open)) @ p)
                (template_pattern (tl after)))"
  by pat_completeness auto
termination
proof (relation "measure length", goal_cases)
  case (2 rest literal after_open after)
  then show ?case
    using after_placeholder_shorter [of "\<lambda>c. c \<noteq> ''}''" "\<lambda>c. c \<noteq> ''{''" rest] by auto
qed simp

declare template_pattern.simps [simp del]

definition uri_matches_template :: "string \<Rightarrow> string \<Rightarrow> bool" where
  "uri_matches_template uri template =
     (if max_uri_match_len < length uri \<or> max_template_match_len < length template then False
      else if CHR ''{'' \<notin> set template then uri = template
      else case template_pattern (utf8_chars template) of
             None \<Rightarrow> False
           | Some p \<Rightarrow> regex_is_match ([''^''] @ p @ [''$'']) (utf8_chars uri))"

section \<open>What a template means\<close>

datatype piece = Lit string | Seg | Rest

text \<open>A template is a list of pieces: a literal character, a variable of one path segment, a
  variable that takes anything. A brace that is never closed has no meaning.\<close>

function pieces :: "string list \<Rightarrow> piece list option" where
  "pieces [] = Some []"
| "pieces (c # cs) =
     (if c = ''{''
      then case dropWhile (\<lambda>c. c \<noteq> ''}'') cs of
             [] \<Rightarrow> None
           | _ # after \<Rightarrow>
               map_option ((#) (if cs \<noteq> [] \<and> hd cs \<in> {''+'', ''#''} then Rest else Seg)) (pieces after)
      else map_option ((#) (Lit c)) (pieces cs))"
  by pat_completeness auto
termination
proof (relation "measure length", goal_cases)
  case (2 c cs b after)
  then show ?case using length_dropWhile_le [of "\<lambda>c. c \<noteq> ''}''" cs] by simp
qed auto

inductive expands :: "piece list \<Rightarrow> string list \<Rightarrow> bool" where
  expands_Nil: "expands [] []"
| expands_Lit: "expands ps t \<Longrightarrow> expands (Lit c # ps) (c # t)"
| expands_Seg: "v \<noteq> [] \<Longrightarrow> ''/'' \<notin> set v \<Longrightarrow> expands ps t \<Longrightarrow> expands (Seg # ps) (v @ t)"
| expands_Rest: "v \<noteq> [] \<Longrightarrow> expands ps t \<Longrightarrow> expands (Rest # ps) (v @ t)"

inductive_cases expands_NilE [elim!]: "expands [] t"
inductive_cases expands_LitE [elim!]: "expands (Lit c # ps) t"
inductive_cases expands_SegE [elim!]: "expands (Seg # ps) t"
inductive_cases expands_RestE [elim!]: "expands (Rest # ps) t"

fun encode :: "piece \<Rightarrow> string list" where
  "encode (Lit c) = escape_char c"
| "encode Seg = seg_pattern"
| "encode Rest = rest_pattern"

section \<open>The matcher decides the meaning\<close>

lemma strip_special:
  "strip_chars seg_pattern (escape_char c @ p) = None"
  "strip_chars rest_pattern (escape_char c @ p) = None"
  by (auto simp: escape_char_def special_chars_def seg_pattern_def rest_pattern_def chars_of_def)

lemma strip_own [simp]: "strip_chars p (p @ r) = Some r"
  by (simp add: strip_chars_Some)

lemma match_Lit:
  "match_simple_pattern (escape_char c @ p) t =
     (case t of [] \<Rightarrow> False | d # u \<Rightarrow> d = c \<and> match_simple_pattern p u)"
proof -
  have "(if hd (escape_char c @ p) = [CHR 0x5C] then tl (escape_char c @ p) else escape_char c @ p) = c # p"
    by (auto simp: escape_char_def special_chars_def)
  moreover have "escape_char c @ p \<noteq> []"
    by (simp add: escape_char_def)
  ultimately show ?thesis
    by (subst match_simple_pattern.simps) (auto simp: strip_special split: list.splits)
qed

lemma char_end_offsets_iff: "n \<in> set (char_end_offsets s) \<longleftrightarrow> 0 < n \<and> n \<le> length s"
  by (auto simp: char_end_offsets_def)

lemma match_Seg:
  "match_simple_pattern (seg_pattern @ p) t \<longleftrightarrow>
     (\<exists>n. 0 < n \<and> n \<le> length (takeWhile (\<lambda>c. c \<noteq> ''/'') t) \<and> match_simple_pattern p (drop n t))"
proof -
  have ne: "seg_pattern @ p \<noteq> []" by (simp add: seg_pattern_def chars_of_def)
  show ?thesis
    by (subst match_simple_pattern.simps)
       (use ne in \<open>cases t; auto simp: list_ex_iff char_end_offsets_iff\<close>)
qed

lemma match_Rest:
  "match_simple_pattern (rest_pattern @ p) t \<longleftrightarrow>
     (\<exists>n. 0 < n \<and> n \<le> length t \<and> match_simple_pattern p (drop n t))"
proof -
  have ne: "rest_pattern @ p \<noteq> []" and no: "strip_chars seg_pattern (rest_pattern @ p) = None"
    by (auto simp: seg_pattern_def rest_pattern_def chars_of_def)
  show ?thesis
    by (subst match_simple_pattern.simps)
       (use ne no in \<open>cases t; auto simp: list_ex_iff char_end_offsets_iff\<close>)
qed

lemma expands_Seg_iff:
  "expands (Seg # ps) t \<longleftrightarrow>
     (\<exists>n. 0 < n \<and> n \<le> length (takeWhile (\<lambda>c. c \<noteq> ''/'') t) \<and> expands ps (drop n t))"
proof
  assume "expands (Seg # ps) t"
  then obtain v u where t: "t = v @ u" and v: "v \<noteq> []" "''/'' \<notin> set v" and u: "expands ps u"
    by blast
  have "length v \<le> length (takeWhile (\<lambda>c. c \<noteq> ''/'') t)"
    using v(2) by (auto simp: t takeWhile_append)
  with v(1) u show "\<exists>n. 0 < n \<and> n \<le> length (takeWhile (\<lambda>c. c \<noteq> ''/'') t) \<and> expands ps (drop n t)"
    by (intro exI [of _ "length v"]) (auto simp: t)
next
  assume "\<exists>n. 0 < n \<and> n \<le> length (takeWhile (\<lambda>c. c \<noteq> ''/'') t) \<and> expands ps (drop n t)"
  then obtain n where n: "0 < n" "n \<le> length (takeWhile (\<lambda>c. c \<noteq> ''/'') t)" "expands ps (drop n t)"
    by blast
  have pre: "take n t = take n (takeWhile (\<lambda>c. c \<noteq> ''/'') t)"
    using n(2) by (metis takeWhile_eq_take take_take min.absorb1)
  have "''/'' \<notin> set (take n t)"
    unfolding pre using set_take_subset set_takeWhileD by fastforce
  moreover have "take n t \<noteq> []"
    using n(1,2) by (auto simp: pre)
  ultimately have "expands (Seg # ps) (take n t @ drop n t)"
    using n(3) by (intro expands_Seg)
  then show "expands (Seg # ps) t" by simp
qed

lemma expands_Rest_iff:
  "expands (Rest # ps) t \<longleftrightarrow> (\<exists>n. 0 < n \<and> n \<le> length t \<and> expands ps (drop n t))"
proof
  assume "expands (Rest # ps) t"
  then obtain v u where "t = v @ u" "v \<noteq> []" "expands ps u" by blast
  then show "\<exists>n. 0 < n \<and> n \<le> length t \<and> expands ps (drop n t)"
    by (intro exI [of _ "length v"]) auto
next
  assume "\<exists>n. 0 < n \<and> n \<le> length t \<and> expands ps (drop n t)"
  then obtain n where "0 < n" "n \<le> length t" "expands ps (drop n t)" by blast
  then have "expands (Rest # ps) (take n t @ drop n t)"
    by (intro expands_Rest) auto
  then show "expands (Rest # ps) t" by simp
qed

lemma expands_Lit_iff:
  "expands (Lit c # ps) t \<longleftrightarrow> (case t of [] \<Rightarrow> False | d # u \<Rightarrow> d = c \<and> expands ps u)"
  by (auto intro: expands_Lit split: list.splits)

lemma match_encode: "match_simple_pattern (concat (map encode ps)) t \<longleftrightarrow> expands ps t"
proof (induction ps arbitrary: t)
  case Nil
  show ?case by (subst match_simple_pattern.simps) (auto intro: expands_Nil)
next
  case (Cons p ps)
  then show ?case
    by (cases p)
       (auto simp: match_Lit match_Seg match_Rest expands_Lit_iff expands_Seg_iff expands_Rest_iff
          simp del: match_simple_pattern.simps split: list.splits)
qed

lemma template_pattern_Cons:
  "c \<noteq> ''{'' \<Longrightarrow> template_pattern (c # cs) = map_option ((@) (escape_char c)) (template_pattern cs)"
  by (subst (1 2) template_pattern.simps) (auto simp: Let_def option.map_comp comp_def)

lemma template_pattern_pieces: "template_pattern cs = map_option (\<lambda>ps. concat (map encode ps)) (pieces cs)"
proof (induction cs rule: pieces.induct)
  case 1
  show ?case by (subst template_pattern.simps) simp
next
  case (2 c cs)
  show ?case
  proof (cases "c = ''{''")
    case False
    with 2 show ?thesis
      by (simp add: template_pattern_Cons option.map_comp comp_def)
  next
    case open_brace: True
    have hd_take: "(let e = takeWhile (\<lambda>c. c \<noteq> ''}'') cs in e \<noteq> [] \<and> (hd e = ''+'' \<or> hd e = ''#'')) \<longleftrightarrow>
        cs \<noteq> [] \<and> hd cs \<in> {''+'', ''#''}"
      by (cases cs) auto
    show ?thesis
    proof (cases "dropWhile (\<lambda>c. c \<noteq> ''}'') cs")
      case Nil
      with open_brace show ?thesis
        by (subst template_pattern.simps) (simp del: dropWhile_eq_Nil_conv)
    next
      case (Cons b after)
      with 2(1) open_brace
      have "template_pattern after = map_option (\<lambda>ps. concat (map encode ps)) (pieces after)" by simp
      with Cons open_brace hd_take show ?thesis
        by (subst template_pattern.simps)
           (auto simp: Let_def placeholder_def option.map_comp comp_def)
    qed
  qed
qed

section \<open>Correctness\<close>

lemma utf8_chars_inj: "utf8_chars a = utf8_chars b \<longleftrightarrow> a = b"
  by (metis concat_utf8_chars)

lemma pieces_no_brace: "''{'' \<notin> set cs \<Longrightarrow> pieces cs = Some (map Lit cs)"
  by (induction cs) auto

lemma expands_literal: "expands (map Lit cs) t \<longleftrightarrow> t = cs"
proof (induction cs arbitrary: t)
  case Nil
  show ?case by (auto intro: expands_Nil)
next
  case (Cons c cs)
  then show ?case by (auto simp: expands_Lit_iff split: list.splits)
qed

lemma brace_of_utf8_chars: "CHR ''{'' \<notin> set s \<Longrightarrow> ''{'' \<notin> set (utf8_chars s)"
  using concat_utf8_chars [of s] by (metis set_concat UN_I list.set_intros(1))

text \<open>C32: The matcher that routes a read of a resource URI decides exactly the meaning of the
  template. Within the length bounds a URI matches iff the template splits into literal
  characters and variables, every brace is closed, and the URI is an expansion: each literal
  character in place, each \<open>{var}\<close> a non-empty run without a slash, each \<open>{+var}\<close> or \<open>{#var}\<close> a
  non-empty run; the compiler's escapes and the backtracking neither lose nor add a match. Over
  a bound nothing matches.\<close>

theorem uri_matches_template_correct:
  "uri_matches_template uri template \<longleftrightarrow>
     length uri \<le> 8192 \<and> length template \<le> 1024 \<and>
     (\<exists>ps. pieces (utf8_chars template) = Some ps \<and> expands ps (utf8_chars uri))"
proof (cases "CHR ''{'' \<in> set template")
  case False
  then have "pieces (utf8_chars template) = Some (map Lit (utf8_chars template))"
    by (simp add: pieces_no_brace brace_of_utf8_chars)
  with False show ?thesis
    by (auto simp: uri_matches_template_def max_uri_match_len_def max_template_match_len_def
        expands_literal utf8_chars_inj)
next
  case True
  then show ?thesis
    by (auto simp: uri_matches_template_def max_uri_match_len_def max_template_match_len_def
        regex_is_match_def butlast_append template_pattern_pieces match_encode split: option.splits)
qed

end
