(* ===== verification/CircuitBreaker.thy ===== *)
theory CircuitBreaker
  imports Prelude
begin

text \<open>
  The circuit breaker of a downstream server (\<open>router.rs\<close>); the limit on its calls in flight and the
  backoff of reconnection are in \<open>Supervisor\<close>. Times and durations are milliseconds. The breaker keeps a count, a
  deadline that is cleared lazily, and the time of the last failure; its specification is only the
  log of the failures since the last success, and the breaker refines it.
\<close>

section \<open>The breaker\<close>

definition breaker_failure_threshold :: nat where
  "breaker_failure_threshold = 3"

definition breaker_cooldown :: nat where
  "breaker_cooldown = 20000"

record breaker =
  consecutive_failures :: nat
  open_until :: "nat option"
  last_failure :: "nat option"

definition new_breaker :: breaker where
  "new_breaker = \<lparr>consecutive_failures = 0, open_until = None, last_failure = None\<rparr>"

definition open_remaining :: "nat \<Rightarrow> breaker \<Rightarrow> nat option \<times> breaker" where
  "open_remaining now b =
     (case open_until b of
        Some t \<Rightarrow> if now < t then (Some (t - now), b) else (None, b\<lparr>open_until := None\<rparr>)
      | None \<Rightarrow> (None, b))"

definition record_success :: "breaker \<Rightarrow> breaker" where
  "record_success b = b\<lparr>consecutive_failures := 0, open_until := None, last_failure := None\<rparr>"

definition record_failure :: "nat \<Rightarrow> breaker \<Rightarrow> breaker" where
  "record_failure now b =
     (let n = sat_add32 (consecutive_failures b) 1;
          b = b\<lparr>consecutive_failures := n, last_failure := Some now\<rparr>
      in if breaker_failure_threshold \<le> n then b\<lparr>open_until := Some (now + breaker_cooldown)\<rparr> else b)"

definition record_concurrent_failure :: "nat option \<Rightarrow> nat \<Rightarrow> breaker \<Rightarrow> breaker" where
  "record_concurrent_failure started now b =
     (case (started, last_failure b) of
        (Some s, Some l) \<Rightarrow> if s < l then b else record_failure now b
      | _ \<Rightarrow> record_failure now b)"

text \<open>The gate at the head of a dispatch: fast failure while the circuit is open, otherwise the call
  passes and knows whether it is the probe of a tripped breaker.\<close>

datatype admission = Refused nat | Admitted bool

definition admit :: "nat \<Rightarrow> breaker \<Rightarrow> admission \<times> breaker" where
  "admit now b =
     (case open_remaining now b of
        (Some r, b') \<Rightarrow> (Refused r, b')
      | (None, b') \<Rightarrow> (Admitted (breaker_failure_threshold \<le> consecutive_failures b'), b'))"

section \<open>Specification\<close>

datatype breaker_op = Admit nat | Succeed | Fail nat | FailTogether "nat option" nat

fun op_time :: "breaker_op \<Rightarrow> nat option" where
  "op_time (Admit now) = Some now"
| "op_time Succeed = None"
| "op_time (Fail now) = Some now"
| "op_time (FailTogether _ now) = Some now"

fun breaker_do :: "breaker_op \<Rightarrow> breaker \<Rightarrow> admission option \<times> breaker" where
  "breaker_do (Admit now) b = (let (a, b') = admit now b in (Some a, b'))"
| "breaker_do Succeed b = (None, record_success b)"
| "breaker_do (Fail now) b = (None, record_failure now b)"
| "breaker_do (FailTogether started now) b = (None, record_concurrent_failure started now b)"

text \<open>The log: the times of the failures since the last success, newest first, with the time of the
  latest operation. A failure of a call that was already in flight when the previous failure was
  logged is the same event.\<close>

type_synonym failure_log = "nat \<times> nat list"

definition tripped :: "nat list \<Rightarrow> bool" where
  "tripped fs \<longleftrightarrow> breaker_failure_threshold \<le> length fs"

fun log_do :: "breaker_op \<Rightarrow> failure_log \<Rightarrow> admission option \<times> failure_log" where
  "log_do (Admit now) (clock, fs) =
     (Some (if tripped fs \<and> now < hd fs + breaker_cooldown then Refused (hd fs + breaker_cooldown - now)
            else Admitted (tripped fs)),
      (now, fs))"
| "log_do Succeed (clock, fs) = (None, (clock, []))"
| "log_do (Fail now) (clock, fs) = (None, (now, now # fs))"
| "log_do (FailTogether started now) (clock, fs) =
     (None, (now, case started of Some s \<Rightarrow> if fs \<noteq> [] \<and> s < hd fs then fs else now # fs | None \<Rightarrow> now # fs))"

definition in_time :: "breaker_op \<Rightarrow> failure_log \<Rightarrow> bool" where
  "in_time p a = (case op_time p of Some now \<Rightarrow> fst a \<le> now | None \<Rightarrow> True)"

text \<open>The deadline the breaker holds is the one the log implies, or it was cleared after it passed.\<close>

definition breaker_rel :: "breaker \<Rightarrow> failure_log \<Rightarrow> bool" where
  "breaker_rel b a =
     (case a of (clock, fs) \<Rightarrow>
        consecutive_failures b = min (length fs) u32_max \<and>
        last_failure b = (case fs of [] \<Rightarrow> None | f # _ \<Rightarrow> Some f) \<and>
        (\<forall>t. open_until b = Some t \<longrightarrow> tripped fs \<and> t = hd fs + breaker_cooldown) \<and>
        (tripped fs \<and> clock < hd fs + breaker_cooldown \<longrightarrow> open_until b \<noteq> None))"

lemma rel_tripped: "breaker_rel b (clock, fs) \<Longrightarrow> breaker_failure_threshold \<le> consecutive_failures b \<longleftrightarrow> tripped fs"
  by (auto simp: breaker_rel_def tripped_def breaker_failure_threshold_def u32_max_def)

lemma rel_failure:
  assumes "breaker_rel b (clock, fs)" and "clock \<le> now"
  shows "breaker_rel (record_failure now b) (now, now # fs)"
proof -
  have "sat_add32 (consecutive_failures b) 1 = min (Suc (length fs)) u32_max"
    using assms(1) by (auto simp: breaker_rel_def sat_add32_def)
  moreover have "\<not> tripped (now # fs) \<Longrightarrow> open_until b = None"
    using assms(1) by (cases "open_until b") (auto simp: breaker_rel_def tripped_def)
  ultimately show ?thesis
    using assms(1)
    by (auto simp: breaker_rel_def record_failure_def Let_def tripped_def breaker_failure_threshold_def u32_max_def)
qed

interpretation breaker_log: refinement breaker_rel breaker_do log_do in_time
proof
  fix b a p
  assume rel: "breaker_rel b a" and time: "in_time p a"
  obtain clock fs where a: "a = (clock, fs)" by fastforce
  note rel = rel [unfolded a]
  have adm: "Some (fst (admit now b)) = fst (log_do (Admit now) a) \<and> breaker_rel (snd (admit now b)) (now, fs)"
    if "clock \<le> now" for now
    using rel that rel_tripped [OF rel] unfolding a
    by (cases "open_until b") (auto simp: admit_def open_remaining_def breaker_rel_def)
  show "fst (breaker_do p b) = fst (log_do p a)"
    using adm time by (cases p) (auto simp: a in_time_def case_prod_beta Let_def)
  show "breaker_rel (snd (breaker_do p b)) (snd (log_do p a))"
  proof (cases p)
    case (Admit now)
    then show ?thesis using adm time by (auto simp: a in_time_def case_prod_beta Let_def)
  next
    case Succeed
    then show ?thesis
      by (simp add: a breaker_rel_def record_success_def tripped_def breaker_failure_threshold_def)
  next
    case (Fail now)
    then show ?thesis using rel_failure [OF rel] time by (simp add: a in_time_def)
  next
    case (FailTogether started now)
    have "breaker_rel b (now, fs)" if "clock \<le> now" using rel that by (auto simp: breaker_rel_def)
    moreover have "last_failure b = (case fs of [] \<Rightarrow> None | f # _ \<Rightarrow> Some f)" using rel by (simp add: breaker_rel_def)
    ultimately show ?thesis
      using FailTogether rel_failure [OF rel] time
      by (auto simp: a in_time_def record_concurrent_failure_def split: option.splits list.splits)
  qed
qed

lemma admissible_log: "sorted (clock # List.map_filter op_time ops) \<Longrightarrow> admissible in_time log_do ops (clock, fs)"
proof (induction ops arbitrary: clock fs)
  case (Cons p ops)
  then show ?case
    by (cases p) (auto simp: in_time_def map_filter_simps)
qed simp

text \<open>C23: On every sequence of admissions, successes and failures in the order of time, the breaker gives
  exactly the answers that the log of failures since the last success determines: a call is refused,
  for the exact remaining time, while at least three failures are logged and the newest is less than
  the cooldown old, and otherwise passes, as a probe when the log is tripped. Failures of calls that
  were in flight together count once, and the counter that saturates and the deadline that is cleared
  lazily are never observable.\<close>

theorem breaker_refines_log:
  assumes "sorted (List.map_filter op_time ops)"
  shows "answers breaker_do ops new_breaker = answers log_do ops (0, [])"
proof (rule breaker_log.answers_agree)
  show "breaker_rel new_breaker (0, [])"
    by (simp add: breaker_rel_def new_breaker_def tripped_def breaker_failure_threshold_def)
  show "admissible in_time log_do ops (0, [])" using assms by (intro admissible_log) simp
qed

theorem breaker_refines_log_witness:
  "answers breaker_do [Fail 1, FailTogether (Some 0) 2, Fail 3, FailTogether (Some 4) 5, Admit 6, Admit 20005, Succeed, Admit 20006] new_breaker
     = [None, None, None, None, Some (Refused 19999), Some (Admitted True), None, Some (Admitted False)]"
proof -
  let ?ops = "[Fail 1, FailTogether (Some 0) 2, Fail 3, FailTogether (Some 4) 5, Admit 6, Admit 20005, Succeed, Admit 20006]"
  have "sorted (List.map_filter op_time ?ops)" by (simp add: map_filter_simps)
  from breaker_refines_log [OF this] show ?thesis
    by (simp add: tripped_def breaker_failure_threshold_def breaker_cooldown_def)
qed

end
