(* ===== verification/CallFailure.thy ===== *)
theory CallFailure
  imports Json "HOL-Library.Sublist"
begin

text \<open>
  Failure categories of a call (\<open>call_failure.rs\<close>) and the errors of the transports that carry
  them (\<open>TransportError\<close> in \<open>downstream.rs\<close>): classification of HTTP status, of JSON-RPC errors and of
  tool results, the enrichment of input errors from the published schema, and the guidance shown
  to the agent. Parsing JSON text is a parameter.
\<close>

section \<open>Kinds of failure\<close>

datatype auth_target = Endpoint | ServiceCredential | Scope | OAuthRefresh

datatype call_failure_kind =
    InvalidInput "string list" "string list"
  | NotFound
  | Auth auth_target
  | Quota
  | Conflict
  | Timeout bool
  | Unavailable bool
  | ServerError bool
  | Cancelled
  | Internal

record call_failure =
  cf_kind :: call_failure_kind
  cf_detail :: string

definition http_status :: "nat \<Rightarrow> bool \<Rightarrow> call_failure_kind" where
  "http_status status endpoint =
     (if status \<in> {400, 404} \<and> endpoint then Unavailable True
      else if status \<in> {400, 422} then InvalidInput [] []
      else if status = 401 then Auth (if endpoint then Endpoint else ServiceCredential)
      else if status = 403 then Auth Scope
      else if status = 404 then NotFound
      else if status \<in> {402, 429} then Quota
      else if status \<in> {409, 412} then Conflict
      else if status = 408 then ServerError True
      else if status = 504 then Unavailable True
      else if status \<in> {502, 503} then Unavailable True
      else if 500 \<le> status \<and> status \<le> 599 then ServerError True
      else Internal)"

definition field_byte :: "char \<Rightarrow> bool" where
  "field_byte b \<longleftrightarrow> is_ascii_alnum b \<or> b \<in> set ''_.-'' \<or> b = CHR 0x27"

definition safe_field :: "string \<Rightarrow> bool" where
  "safe_field field \<longleftrightarrow> field \<noteq> [] \<and> length field \<le> 48 \<and> list_all field_byte field"

definition error_fields :: "json option \<Rightarrow> string list" where
  "error_fields v =
     (case Option.bind v as_array of
        None \<Rightarrow> []
      | Some a \<Rightarrow> filter safe_field (List.map_filter as_str (take 6 a)))"

definition rpc_kind :: "json \<Rightarrow> call_failure_kind" where
  "rpc_kind e =
     (case Option.bind (jget ''code'' e) as_i64 of
        None \<Rightarrow> Internal
      | Some c \<Rightarrow>
          if c = -32602 then
            (let data = (case jget ''data'' e of Some d \<Rightarrow> d | None \<Rightarrow> JNull);
                 missing = error_fields (jget ''missing'' data);
                 invalid = error_fields (jget ''invalid'' data)
             in case jget_str ''field'' data of
                  Some f \<Rightarrow> InvalidInput missing (if safe_field f then invalid @ [f] else invalid)
                | None \<Rightarrow> InvalidInput missing invalid)
          else if c = -32601 then NotFound
          else if 400 \<le> c \<and> c \<le> 599 then http_status (nat c) False
          else Internal)"

definition status_kind :: "json \<Rightarrow> call_failure_kind option" where
  "status_kind data =
     (case jget_u64 ''status'' data of
        Some n \<Rightarrow> if 400 \<le> n \<and> n \<le> 599 then Some (http_status n False) else None
      | None \<Rightarrow> None)"

text \<open>The provider's symbolic error codes.\<close>

definition code_kind :: "string \<Rightarrow> call_failure_kind option" where
  "code_kind code =
     (if code \<in> {''invalid_api_key'', ''authentication_error'', ''UNAUTHENTICATED'', ''AUTHENTICATION_ERROR'',
                  ''missing_token'', ''invalid_token''} then Some (Auth ServiceCredential)
      else if code \<in> {''insufficient_scope'', ''insufficient_permissions'', ''FORBIDDEN''} then Some (Auth Scope)
      else if code \<in> {''rate_limit_exceeded'', ''quota_exceeded'', ''insufficient_quota'', ''plan_limit_exceeded''} then Some Quota
      else if code \<in> {''resource_missing'', ''not_found'', ''NOT_FOUND''} then Some NotFound
      else if code \<in> {''conflict'', ''CONFLICT''} then Some Conflict
      else None)"

definition service_error :: "json \<Rightarrow> call_failure_kind option" where
  "service_error data =
     (case status_kind data of
        Some k \<Rightarrow> Some k
      | None \<Rightarrow>
          Option.bind
            (Option.bind (case pointer ''/error/code'' data of Some c \<Rightarrow> Some c
                            | None \<Rightarrow> pointer ''/errors/0/extensions/code'' data) as_str)
            code_kind)"

fun content_failure :: "(string \<Rightarrow> json option) \<Rightarrow> json list \<Rightarrow> call_failure_kind option" where
  "content_failure from_str [] = None"
| "content_failure from_str (b # bs) =
     (case Option.bind (Option.bind (jget_str ''text'' b) (\<lambda>t. if length t \<le> 16 * 1024 then from_str t else None))
             service_error of
        Some k \<Rightarrow> Some k
      | None \<Rightarrow> content_failure from_str bs)"

definition tool_result_kind :: "(string \<Rightarrow> json option) \<Rightarrow> json \<Rightarrow> call_failure_kind" where
  "tool_result_kind from_str result =
     (case Option.bind (jget ''structuredContent'' result) service_error of
        Some k \<Rightarrow> k
      | None \<Rightarrow>
          (case Option.bind (jget_array ''content'' result) (\<lambda>a. content_failure from_str (take 4 a)) of
             Some k \<Rightarrow> k
           | None \<Rightarrow> Internal))"

fun kind_health_failure :: "call_failure_kind \<Rightarrow> bool" where
  "kind_health_failure (Timeout _) = True"
| "kind_health_failure (Unavailable _) = True"
| "kind_health_failure _ = False"

fun uncertain :: "call_failure_kind \<Rightarrow> bool" where
  "uncertain (Timeout after_send) = after_send"
| "uncertain (Unavailable after_send) = after_send"
| "uncertain (ServerError after_send) = after_send"
| "uncertain _ = False"

section \<open>Errors of the transports\<close>

datatype transport_error =
    Classified call_failure_kind string
  | Fatal string
  | FrameRejected string
  | Rpc json
  | TUnavailable string
  | Retry "nat option" string
  | RateLimited "nat option" string
  | TCancelled string
  | Busy string

fun is_health_failure :: "transport_error \<Rightarrow> bool" where
  "is_health_failure (TUnavailable _) = True"
| "is_health_failure (Classified (Timeout _) _) = True"
| "is_health_failure (Classified (Unavailable _) _) = True"
| "is_health_failure (FrameRejected _) = True"
| "is_health_failure (Retry _ _) = True"
| "is_health_failure (RateLimited _ _) = True"
| "is_health_failure _ = False"

fun failure_kind :: "transport_error \<Rightarrow> call_failure_kind" where
  "failure_kind (Classified k _) = k"
| "failure_kind (Rpc e) = rpc_kind e"
| "failure_kind (TUnavailable _) = Unavailable True"
| "failure_kind (FrameRejected _) = Unavailable True"
| "failure_kind (RateLimited _ _) = Quota"
| "failure_kind (Retry _ _) = Unavailable False"
| "failure_kind (TCancelled _) = Cancelled"
| "failure_kind (Busy _) = Unavailable False"
| "failure_kind (Fatal _) = Internal"

section \<open>Enrichment from the schema\<close>

text \<open>Descending into a value makes it smaller.\<close>

lemma jget_size: "jget k v = Some w \<Longrightarrow> size w < size v"
proof (cases v)
  case (JObj m)
  then show "jget k v = Some w \<Longrightarrow> size w < size v"
    using size_obj_value by (auto dest!: map_of_SomeD)
qed auto

function known_field :: "json \<Rightarrow> string \<Rightarrow> bool" where
  "known_field schema field =
     (if \<not> safe_field field then False
      else case jget ''properties'' schema of
             None \<Rightarrow> False
           | Some properties \<Rightarrow>
               if jget field properties \<noteq> None then True
               else (case find_str ''.'' field of
                       None \<Rightarrow> False
                     | Some i \<Rightarrow>
                         (case jget (take i field) properties of
                            Some child \<Rightarrow> known_field child (drop (i + 1) field)
                          | None \<Rightarrow> False)))"
  by pat_completeness auto
termination
  by (relation "measure (\<lambda>(schema, _). size schema)") (auto dest!: jget_size)

declare known_field.simps [simp del]

definition wrong_type :: "string \<Rightarrow> json \<Rightarrow> bool" where
  "wrong_type ty v =
     (if ty = ''string'' then as_str v = None
      else if ty = ''object'' then as_object v = None
      else if ty = ''array'' then as_array v = None
      else if ty = ''boolean'' then as_bool v = None
      else if ty = ''integer'' then as_i64 v = None \<and> as_u64 v = None
      else if ty = ''number'' then \<not> is_number v
      else if ty = ''null'' then v \<noteq> JNull
      else False)"

definition field_invalid :: "json \<Rightarrow> json \<Rightarrow> bool" where
  "field_invalid child v \<longleftrightarrow>
     (case jget_str ''type'' child of Some ty \<Rightarrow> wrong_type ty v | None \<Rightarrow> False) \<or>
     (case jget_array ''enum'' child of Some vs \<Rightarrow> \<not> list_ex (\<lambda>w. json_eq w v) vs | None \<Rightarrow> False)"

definition is_required :: "json \<Rightarrow> string \<Rightarrow> bool" where
  "is_required schema name =
     (case jget_array ''required'' schema of Some r \<Rightarrow> list_ex (\<lambda>v. as_str v = Some name) r | None \<Rightarrow> False)"

type_synonym fields_found = "string list \<times> string list"

abbreviation found_count :: "fields_found \<Rightarrow> nat" where
  "found_count acc \<equiv> length (fst acc) + length (snd acc)"

function (sequential) collect_fields :: "json \<Rightarrow> json \<Rightarrow> string \<Rightarrow> nat \<Rightarrow> fields_found \<Rightarrow> fields_found"
  and collect_props :: "json \<Rightarrow> json \<Rightarrow> string \<Rightarrow> nat \<Rightarrow> jobj \<Rightarrow> fields_found \<Rightarrow> fields_found" where
  "collect_fields schema args pre depth acc =
     (if 4 < depth \<or> 12 \<le> found_count acc then acc
      else case jget ''properties'' schema of
             Some (JObj ps) \<Rightarrow> collect_props schema args pre depth ps acc
           | _ \<Rightarrow> acc)"
| "collect_props schema args pre depth [] acc = acc"
| "collect_props schema args pre depth ((name, child) # ps) acc =
     (if name = [] \<or> 40 < length name \<or> \<not> list_all field_byte name then collect_props schema args pre depth ps acc
      else let path = pre @ name
           in if 48 < length path then collect_props schema args pre depth ps acc
              else let acc' =
                     (case jget name args of
                        None \<Rightarrow> if is_required schema name then (fst acc @ [path], snd acc) else acc
                      | Some v \<Rightarrow>
                          if field_invalid child v then (fst acc, snd acc @ [path])
                          else if as_object v \<noteq> None
                               then collect_fields child v (path @ ''.'') (depth + 1) acc
                               else acc)
                   in if 12 \<le> found_count acc' then acc' else collect_props schema args pre depth ps acc')"
  by pat_completeness auto
termination
proof (relation "measure (\<lambda>x. case x of
      Inl (schema, _) \<Rightarrow> 2 * size schema
    | Inr (_, _, _, _, ps, _) \<Rightarrow> 2 * size_list (size_prod (\<lambda>_. 0) size) ps + 1)", goal_cases)
  case (2 schema args pre depth acc p ps)
  from jget_size [OF 2(2)] 2(3) show ?case by simp
qed auto

declare collect_fields.simps [simp del]

fun fit_fields :: "nat \<Rightarrow> string list \<Rightarrow> string list \<times> nat" where
  "fit_fields budget [] = ([], budget)"
| "fit_fields budget (f # fs) =
     (if length f + 2 \<le> budget
      then let (kept, rest) = fit_fields (budget - (length f + 2)) fs in (f # kept, rest)
      else fit_fields budget fs)"

definition with_schema :: "json \<Rightarrow> json \<Rightarrow> call_failure_kind \<Rightarrow> call_failure_kind" where
  "with_schema schema args k =
     (case k of
        InvalidInput missing invalid \<Rightarrow>
          (let (missing, invalid) =
                 collect_fields schema args [] 0 (filter (known_field schema) missing, filter (known_field schema) invalid);
               tidy = (\<lambda>fs. take 6 (remdups_adj (sort fs)));
               (missing, budget) = fit_fields 128 (tidy missing);
               (invalid, _) = fit_fields budget (tidy invalid)
           in InvalidInput missing invalid)
      | _ \<Rightarrow> k)"

definition identifier_field :: "string \<Rightarrow> bool" where
  "identifier_field field =
     (let f = last (split_on (\<lambda>c. c = CHR ''.'') field)
      in eq_ignore_ascii_case f ''id'' \<or> ends_with ''_id'' f \<or> ends_with ''Id'' f \<or> ends_with ''ID'' f \<or>
         f = ''slug'' \<or> ends_with ''_slug'' f \<or> ends_with ''Slug'' f)"

fun identifier_failure :: "call_failure_kind \<Rightarrow> bool" where
  "identifier_failure (InvalidInput missing invalid) = list_ex identifier_field (missing @ invalid)"
| "identifier_failure _ = False"

section \<open>Guidance\<close>

definition check_input_text :: "string list \<Rightarrow> string list \<Rightarrow> string" where
  "check_input_text missing invalid =
     ''Check tool input.'' @
     (if missing = [] then [] else '' Missing: '' @ join '', '' missing @ ''.'') @
     (if invalid = [] then [] else '' Invalid: '' @ join '', '' invalid @ ''.'')"

fun guidance :: "call_failure_kind \<Rightarrow> bool \<Rightarrow> string" where
  "guidance (InvalidInput missing invalid) read_only = check_input_text missing invalid"
| "guidance NotFound read_only = ''Resource or tool not found. Check its identifier.''"
| "guidance (Auth Endpoint) read_only = ''Toolport cannot authenticate the MCP endpoint. Check its connection auth.''"
| "guidance (Auth ServiceCredential) read_only = ''The server reports its API credential was rejected. Check the service key.''"
| "guidance (Auth Scope) read_only = ''The server reports access was denied. Check scopes and permissions.''"
| "guidance (Auth OAuthRefresh) read_only = ''MCP OAuth refresh failed. Reconnect in Toolport.''"
| "guidance Quota read_only = ''Quota or rate limit reached. Check limits before retrying.''"
| "guidance Conflict read_only = ''State conflict. Check current state before retrying.''"
| "guidance (Timeout after_send) read_only =
     (if \<not> after_send then ''Timed out before send. Retry when the endpoint is reachable.''
      else if \<not> read_only then ''Timed out after send; may have completed, check before retrying.''
      else ''Timed out waiting for the endpoint. Retry the read later.'')"
| "guidance (Unavailable after_send) read_only =
     (if after_send \<and> \<not> read_only then ''Downstream failed after send; may have completed, check before retrying.''
      else ''Downstream unavailable. Check its connection or service status.'')"
| "guidance (ServerError after_send) read_only =
     (if after_send \<and> \<not> read_only then ''Server error after send; may have completed, check before retrying.''
      else ''Server returned an error. Check the error details.'')"
| "guidance Cancelled read_only = ''Call cancelled. Check state before repeating a write.''"
| "guidance Internal read_only = []"

section \<open>What reaches the agent\<close>

text \<open>The fields a schema publishes, nested ones with their path.\<close>

inductive schema_field :: "json \<Rightarrow> string \<Rightarrow> bool" where
  top_field: "jget ''properties'' schema = Some (JObj ps) \<Longrightarrow> (name, child) \<in> set ps \<Longrightarrow> schema_field schema name"
| sub_field: "jget ''properties'' schema = Some (JObj ps) \<Longrightarrow> (name, child) \<in> set ps \<Longrightarrow> schema_field child sub \<Longrightarrow>
    schema_field schema (name @ ''.'' @ sub)"

lemma jget_member: "jget k v = Some w \<Longrightarrow> \<exists>m. v = JObj m \<and> (k, w) \<in> set m"
  by (cases v) (auto dest: map_of_SomeD)

lemma known_field_published: "known_field schema field \<Longrightarrow> safe_field field \<and> schema_field schema field"
proof (induction schema field rule: known_field.induct)
  case (1 schema field)
  from 1(2) have safe: "safe_field field" by (subst (asm) known_field.simps) (simp split: if_splits)
  from 1(2) obtain properties where p: "jget ''properties'' schema = Some properties"
    by (subst (asm) known_field.simps) (auto split: option.splits if_splits)
  show ?case
  proof (cases "jget field properties")
    case (Some c)
    with p safe show ?thesis using jget_member [OF Some] top_field by blast
  next
    case None
    with 1(2) safe p obtain i child where i: "find_str ''.'' field = Some i" "jget (take i field) properties = Some child"
      and sub: "known_field child (drop (i + 1) field)"
      by (subst (asm) known_field.simps) (auto split: option.splits)
    have "schema_field child (drop (i + 1) field)" using 1(1) safe p None i sub by simp
    moreover have "field = take i field @ ''.'' @ drop (i + 1) field"
    proof -
      obtain r where r: "drop i field = ''.'' @ r" using find_str_Some [OF i(1)] by blast
      then have "drop (i + 1) field = r" by (metis add.commute append_Cons append_Nil drop_drop drop0 drop_Suc_Cons plus_1_eq_Suc)
      with r show ?thesis by (metis append_take_drop_id)
    qed
    ultimately show ?thesis using safe p jget_member [OF i(2)] sub_field by metis
  qed
qed

text \<open>What the walk over the schema adds.\<close>

definition published_at :: "string \<Rightarrow> json \<Rightarrow> string \<Rightarrow> bool" where
  "published_at pre schema f \<longleftrightarrow> (\<exists>p. f = pre @ p \<and> schema_field schema p) \<and> safe_field f"

abbreviation found_set :: "fields_found \<Rightarrow> string set" where
  "found_set acc \<equiv> set (fst acc) \<union> set (snd acc)"

lemma collect_published:
  "list_all field_byte pre \<Longrightarrow> f \<in> found_set (collect_fields schema args pre depth acc) \<Longrightarrow>
     f \<in> found_set acc \<or> published_at pre schema f"
  "list_all field_byte pre \<Longrightarrow> jget ''properties'' schema = Some (JObj qs) \<Longrightarrow> set ps \<subseteq> set qs \<Longrightarrow>
     f \<in> found_set (collect_props schema args pre depth ps acc) \<Longrightarrow>
     f \<in> found_set acc \<or> published_at pre schema f"
proof (induction schema args pre depth acc and schema args pre depth ps acc arbitrary: f and f qs
    rule: collect_fields_collect_props.induct)
  case (1 schema args pre depth acc)
  then show ?case by (auto simp: collect_fields.simps split: if_splits option.splits json.splits)
next
  case (2 schema args pre depth acc)
  then show ?case by simp
next
  case (3 schema args pre depth name child ps acc)
  let ?path = "pre @ name"
  let ?bad = "name = [] \<or> 40 < length name \<or> \<not> list_all field_byte name"
  define acc' where "acc' = (case jget name args of
      None \<Rightarrow> if is_required schema name then (fst acc @ [?path], snd acc) else acc
    | Some v \<Rightarrow> if field_invalid child v then (fst acc, snd acc @ [?path])
        else if as_object v \<noteq> None then collect_fields child v (?path @ ''.'') (depth + 1) acc else acc)"
  have tail: "set ps \<subseteq> set qs" using 3(7) by simp
  show ?case
  proof (cases "?bad \<or> 48 < length ?path")
    case True
    with 3(8) have "f \<in> found_set (collect_props schema args pre depth ps acc)"
      by (auto simp: Let_def split: if_splits)
    then show ?thesis
      using 3(1) [OF _ 3(5,6) tail] 3(2) [OF _ refl _ 3(5,6) tail] True by metis
  next
    case False
    then have good: "\<not> ?bad" "\<not> 48 < length ?path" by simp_all
    have path: "published_at pre schema ?path"
      using good 3(5,7) top_field [OF 3(6), of name child] by (auto simp: published_at_def safe_field_def)
    have below: "published_at pre schema g" if "published_at (?path @ ''.'') child g" for g
      using that sub_field [OF 3(6), of name child] 3(7) by (auto simp: published_at_def)
    have dot: "field_byte (CHR ''.'')" by (simp add: field_byte_def)
    have step: "g \<in> found_set acc \<or> published_at pre schema g" if "g \<in> found_set acc'" for g
    proof (cases "jget name args")
      case None
      with that path show ?thesis by (auto simp: acc'_def split: if_splits)
    next
      case (Some v)
      show ?thesis
      proof (cases "\<not> field_invalid child v \<and> as_object v \<noteq> None")
        case True
        with that Some have "g \<in> found_set (collect_fields child v (?path @ ''.'') (depth + 1) acc)"
          by (simp add: acc'_def)
        with 3(3) [OF good(1) refl good(2) Some] True 3(5) good dot below show ?thesis by fastforce
      next
        case False
        with that Some path show ?thesis by (auto simp: acc'_def split: if_splits)
      qed
    qed
    have "collect_props schema args pre depth ((name, child) # ps) acc =
        (if 12 \<le> found_count acc' then acc' else collect_props schema args pre depth ps acc')"
      using good by (simp add: acc'_def Let_def)
    with 3(8) consider "f \<in> found_set acc'" | "\<not> 12 \<le> found_count acc'" "f \<in> found_set (collect_props schema args pre depth ps acc')"
      by (metis (full_types))
    then show ?thesis
    proof cases
      case 2
      with 3(4) [OF good(1) refl good(2) acc'_def] 3(5,6) tail step show ?thesis by blast
    qed (rule step)
  qed
qed

lemma fit_fields_sound:
  "fit_fields budget fs = (kept, rest) \<Longrightarrow> subseq kept fs \<and> sum_list (map (\<lambda>f. length f + 2) kept) + rest = budget"
proof (induction budget fs arbitrary: kept rest rule: fit_fields.induct)
  case (2 budget f fs)
  show ?case
  proof (cases "length f + 2 \<le> budget")
    case True
    obtain k r where kr: "fit_fields (budget - (length f + 2)) fs = (k, r)" by fastforce
    with 2(1) [OF True kr] 2(3) True show ?thesis by auto
  next
    case False
    with 2(2) [OF False, of kept rest] 2(3) show ?thesis by auto
  qed
qed simp

lemma subseq_sorted_distinct: "subseq xs ys \<Longrightarrow> sorted_wrt P ys \<Longrightarrow> sorted_wrt P xs"
  by (induction rule: list_emb.induct) (auto dest: list_emb_set)

lemma strict_sorted_tidy: "sorted_wrt (<) (take n (remdups_adj (sort fs)))" for fs :: "string list"
proof -
  have "sorted xs \<Longrightarrow> sorted_wrt (<) (remdups_adj xs)" for xs :: "string list"
    by (induction xs rule: remdups_adj.induct) (auto simp: less_le)
  then show ?thesis by (simp add: sorted_wrt_take)
qed

definition fields_fit :: "json \<Rightarrow> string list \<Rightarrow> string list \<Rightarrow> bool" where
  "fields_fit schema missing invalid \<longleftrightarrow>
     length missing \<le> 6 \<and> length invalid \<le> 6 \<and> sorted_wrt (<) missing \<and> sorted_wrt (<) invalid \<and>
     sum_list (map (\<lambda>f. length f + 2) (missing @ invalid)) \<le> 128 \<and>
     (\<forall>f \<in> set (missing @ invalid). safe_field f \<and> schema_field schema f)"

lemma with_schema_fits:
  assumes "with_schema schema args (InvalidInput missing invalid) = InvalidInput m i"
  shows "fields_fit schema m i"
proof -
  let ?tidy = "\<lambda>fs :: string list. take 6 (remdups_adj (sort fs))"
  define found where "found = collect_fields schema args [] 0
    (filter (known_field schema) missing, filter (known_field schema) invalid)"
  obtain b r where fit: "fit_fields 128 (?tidy (fst found)) = (m, b)" "fit_fields b (?tidy (snd found)) = (i, r)"
    using assms by (auto simp: with_schema_def found_def Let_def split: prod.splits)
  note sound = fit_fields_sound [OF fit(1)] fit_fields_sound [OF fit(2)]
  have ok: "safe_field f \<and> schema_field schema f" if "f \<in> found_set found" for f
    using collect_published(1) [of "[]" f schema args 0] that known_field_published
    unfolding found_def by (fastforce simp: published_at_def)
  have "set (?tidy fs) \<subseteq> set fs" for fs using set_take_subset [of 6 "remdups_adj (sort fs)"] by auto
  then have sub: "set m \<subseteq> set (fst found)" "set i \<subseteq> set (snd found)"
    using sound by (fastforce elim: list_emb_set)+
  have len: "length m \<le> 6" "length i \<le> 6" using sound list_emb_length by fastforce+
  have "sorted_wrt (<) m" "sorted_wrt (<) i"
    using sound subseq_sorted_distinct strict_sorted_tidy by blast+
  moreover have "sum_list (map (\<lambda>f. length f + 2) (m @ i)) \<le> 128" using sound by simp
  moreover have "\<forall>f \<in> set (m @ i). safe_field f \<and> schema_field schema f" using sub ok by auto
  ultimately show ?thesis unfolding fields_fit_def using len by blast
qed

lemma with_schema_input: "\<exists>m i. with_schema schema args (InvalidInput missing invalid) = InvalidInput m i"
  by (simp add: with_schema_def Let_def split: prod.splits)

lemma join_length: "fs \<noteq> [] \<Longrightarrow> length (join '', '' fs) + 2 = sum_list (map (\<lambda>f. length f + 2) fs)"
  by (induction fs rule: induct_list012) auto

lemma join_lacks: "c \<notin> set sep \<Longrightarrow> \<forall>f \<in> set fs. c \<notin> set f \<Longrightarrow> c \<notin> set (join sep fs)"
  by (induction fs rule: induct_list012) auto

text \<open>An agent is told only what the published schema supports. Whatever fields a server's error names,
  an input error reported after the enrichment lists at most six missing and six invalid fields, each
  a bounded plain name that the schema itself publishes, within a total of 128 bytes; other kinds
  pass unchanged. The guidance is at most 163 bytes.\<close>

theorem guidance_from_schema:
  "(case with_schema schema args k of
      InvalidInput missing invalid \<Rightarrow> fields_fit schema missing invalid
    | k' \<Rightarrow> k' = k) \<and>
   length (guidance (with_schema schema args k) read_only) \<le> 163"
proof (cases k)
  case (InvalidInput missing invalid)
  obtain m i where w: "with_schema schema args k = InvalidInput m i"
    using with_schema_input InvalidInput by blast
  with InvalidInput have fit: "fields_fit schema m i" using with_schema_fits by simp
  then have "sum_list (map (\<lambda>f. length f + 2) m) + sum_list (map (\<lambda>f. length f + 2) i) \<le> 128"
    by (simp add: fields_fit_def)
  then have "length (check_input_text m i) \<le> 163"
    using join_length [of m] join_length [of i] by (auto simp: check_input_text_def)
  with w fit show ?thesis by simp
next
  case (Auth t)
  then show ?thesis by (cases t) (simp_all add: with_schema_def)
qed (simp_all add: with_schema_def)

lemma safe_no_semicolon: "safe_field f \<Longrightarrow> CHR '';'' \<notin> set f"
  by (auto simp: safe_field_def list_all_iff field_byte_def is_ascii_alnum_def is_ascii_upper_def is_ascii_lower_def
      is_ascii_digit_def)

text \<open>The guidance for a call that may change state warns that it may have completed exactly when the
  failure leaves that open: a timeout, a lost connection or a server error after the request was
  sent, and nothing else.\<close>

theorem guidance_warns_iff_uncertain:
  "(\<exists>t. guidance (with_schema schema args k) False = t @ ''; may have completed, check before retrying.'') \<longleftrightarrow> uncertain k"
proof (cases "uncertain k")
  case True
  then show ?thesis by (cases k) (auto simp: with_schema_def)
next
  case False
  have "CHR '';'' \<notin> set (guidance (with_schema schema args k) False)"
  proof (cases k)
    case (InvalidInput missing invalid)
    obtain m i where w: "with_schema schema args k = InvalidInput m i"
      using with_schema_input InvalidInput by blast
    with InvalidInput have "\<forall>f \<in> set (m @ i). CHR '';'' \<notin> set f"
      using with_schema_fits safe_no_semicolon by (fastforce simp: fields_fit_def)
    then have "CHR '';'' \<notin> set (join '', '' m)" "CHR '';'' \<notin> set (join '', '' i)"
      by (simp_all add: join_lacks)
    with w show ?thesis by (simp add: check_input_text_def)
  next
    case (Auth t)
    then show ?thesis by (cases t) (simp_all add: with_schema_def)
  qed (use False in \<open>simp_all add: with_schema_def\<close>)
  moreover have "CHR '';'' \<in> set (t @ ''; may have completed, check before retrying.'')" for t by simp
  ultimately show ?thesis using False by metis
qed

end
