(* ===== verification/ClientErrors.thy ===== *)
theory ClientErrors
  imports SecretRefs
begin

text \<open>
  What an MCP client may see about a failed connection (\<open>client_safe_error\<close> in \<open>router.rs\<close>). The raw
  error can hold the output of a child process or the body of a response, either of which may echo
  an injected secret, so it is reduced to a category with a status code.
\<close>

definition code_after :: "string \<Rightarrow> string \<Rightarrow> string option" where
  "code_after marker lower =
     Option.bind (find_str marker lower)
       (\<lambda>i. let code = takeWhile is_ascii_digit (drop (i + length marker) lower)
            in if code = [] then None else Some code)"

definition mentions :: "string \<Rightarrow> string \<Rightarrow> bool" where
  "mentions lower word \<longleftrightarrow> find_str word lower \<noteq> None"

definition error_summary :: "string \<Rightarrow> string" where
  "error_summary lower =
     (if mentions lower ''blocked: private or local address'' then ''blocked: private or local address''
      else case code_after ''http '' lower of
        Some code \<Rightarrow> ''the server answered HTTP '' @ code
      | None \<Rightarrow>
          if mentions lower ''exited'' then
            (case code_after ''status '' lower of
               Some code \<Rightarrow> ''the server process exited (status '' @ code @ '')''
             | None \<Rightarrow> ''the server process exited'')
          else if mentions lower ''failed to spawn'' then ''the server command could not be started''
          else if list_ex (mentions lower) [''broken pipe'', ''eof'', ''closed''] then ''the server closed the connection''
          else if list_ex (mentions lower) [''vault'', ''keychain'', ''keyring''] then ''its stored credentials could not be read''
          else if list_ex (mentions lower) [''name resolution'', ''dns'', ''resolve'', ''host not found'']
            then ''the server'' @ [CHR 0x27] @ ''s address could not be resolved''
          else if mentions lower ''connection refused'' then ''the connection was refused''
          else if list_ex (mentions lower) [''certificate'', ''tls''] then ''the TLS connection failed''
          else if list_ex (mentions lower) [''timed out'', ''timeout''] then ''the server did not answer in time''
          else ''the connection failed'')"

definition client_safe_error :: "string \<Rightarrow> string" where
  "client_safe_error e =
     (case safe_status e of
        Some message \<Rightarrow> message
      | None \<Rightarrow> error_summary (to_ascii_lowercase e) @ ''; details are in the Toolport log'')"

section \<open>Nothing else is shown\<close>

text \<open>The texts written in the code itself.\<close>

definition fixed_statuses :: "string list" where
  "fixed_statuses = env_sync_blocked # concat (map (\<lambda>p. map (error_message (Some p)) safe_status_states) providers)"

definition fixed_summaries :: "string list" where
  "fixed_summaries = [''blocked: private or local address'', ''the server process exited'',
     ''the server command could not be started'', ''the server closed the connection'',
     ''its stored credentials could not be read'', ''the server'' @ [CHR 0x27] @ ''s address could not be resolved'',
     ''the connection was refused'', ''the TLS connection failed'', ''the server did not answer in time'',
     ''the connection failed'']"

lemma code_after_digits: "code_after marker lower = Some code \<Longrightarrow> code \<noteq> [] \<and> list_all is_ascii_digit code"
  by (auto simp: code_after_def Let_def list_all_iff bind_eq_Some_conv dest: set_takeWhileD split: if_splits)

definition plain_summary :: "string \<Rightarrow> bool" where
  "plain_summary summary \<longleftrightarrow> summary \<in> set fixed_summaries \<or>
     (\<exists>code. list_all is_ascii_digit code \<and>
        (summary = ''the server answered HTTP '' @ code \<or> summary = ''the server process exited (status '' @ code @ '')''))"

lemma plain_fixed: "summary \<in> set fixed_summaries \<Longrightarrow> plain_summary summary"
  by (simp add: plain_summary_def)

lemma plain_if: "plain_summary a \<Longrightarrow> plain_summary b \<Longrightarrow> plain_summary (if c then a else b)"
  by simp

lemma plain_code:
  "(\<And>code. list_all is_ascii_digit code \<Longrightarrow> plain_summary (f code)) \<Longrightarrow> plain_summary b \<Longrightarrow>
   plain_summary (case code_after marker lower of Some code \<Rightarrow> f code | None \<Rightarrow> b)"
  using code_after_digits by (auto split: option.split)

lemma plain_http: "list_all is_ascii_digit code \<Longrightarrow> plain_summary (''the server answered HTTP '' @ code)"
  unfolding plain_summary_def by blast

lemma plain_exit: "list_all is_ascii_digit code \<Longrightarrow> plain_summary (''the server process exited (status '' @ code @ '')'')"
  unfolding plain_summary_def by blast

lemma error_summary_plain: "plain_summary (error_summary lower)"
  unfolding error_summary_def
  by (intro plain_if plain_code plain_http plain_exit; (assumption | rule plain_fixed, simp add: fixed_summaries_def)?)

lemma find_member: "find P xs = Some x \<Longrightarrow> x \<in> set xs"
  by (induction xs) (auto split: if_splits)

lemma safe_status_fixed: "safe_status e = Some m \<Longrightarrow> m \<in> set fixed_statuses"
  unfolding safe_status_def fixed_statuses_def by (auto dest: find_member simp del: set_concat split: if_splits)

text \<open>C39: Whatever a failed connection reports, the client sees one of the fixed texts of the code, at
  most with a number of decimal digits in place of a status: no other part of the error, and so no
  secret that a child process or a server echoed, can reach it.\<close>

theorem client_error_reveals_only_digits:
  "client_safe_error e \<in> set fixed_statuses \<or>
   (\<exists>summary. client_safe_error e = summary @ ''; details are in the Toolport log'' \<and>
      (summary \<in> set fixed_summaries \<or>
       (\<exists>code. list_all is_ascii_digit code \<and>
          (summary = ''the server answered HTTP '' @ code \<or>
           summary = ''the server process exited (status '' @ code @ '')''))))"
proof (cases "safe_status e")
  case (Some m)
  with safe_status_fixed show ?thesis by (simp add: client_safe_error_def)
next
  case None
  then show ?thesis
    using error_summary_plain [of "to_ascii_lowercase e"] unfolding plain_summary_def client_safe_error_def
    by (simp only: option.case) blast
qed

end
