(* ===== verification/Supervisor.thy ===== *)
theory Supervisor
  imports CircuitBreaker CallFailure ClientErrors
begin

text \<open>
  Connecting downstream servers in the background (\<open>router.rs\<close>): the capped backoff, the limit on
  calls in flight, the retry state of a server that never connected, and the supervisor of a slot
  with its states from stopped to ready. Every definition that reads the clock takes the reading as
  an argument, in milliseconds; the jittered delay \<open>mul_f64(reconnect_jitter())\<close> is a parameter on
  durations. A connection is a number. Each operation is a critical section of the supervisor's lock
  with the counters it updates alongside, and the step relation lets watchers, callers and connecting
  threads run these in any order.
\<close>

section \<open>Backoff\<close>

record reconnect_backoff =
  rb_base :: nat
  rb_cap :: nat

definition default_backoff :: reconnect_backoff where
  "default_backoff = \<lparr>rb_base = 2000, rb_cap = 300000\<rparr>"

text \<open>The product saturates at the largest duration, which the minimum with the cap hides.\<close>

definition backoff_after :: "reconnect_backoff \<Rightarrow> nat \<Rightarrow> nat" where
  "backoff_after b failures = min (rb_base b * 2 ^ min (failures - 1) 16) (rb_cap b)"

definition jittered :: "(nat \<Rightarrow> nat) \<Rightarrow> reconnect_backoff \<Rightarrow> nat \<Rightarrow> nat" where
  "jittered jit b failures = min (jit (backoff_after b failures)) (rb_cap b)"

lemma backoff_mono: "m \<le> n \<Longrightarrow> backoff_after b m \<le> backoff_after b n"
proof -
  assume "m \<le> n"
  then have "(2 :: nat) ^ min (m - 1) 16 \<le> 2 ^ min (n - 1) 16" by (intro power_increasing) auto
  then show ?thesis unfolding backoff_after_def by (intro min.mono mult_le_mono2) auto
qed

section \<open>Calls in flight\<close>

definition max_in_flight_per_server :: nat where
  "max_in_flight_per_server = 64"

datatype acquired = Permit nat | WaitCancelled | ServerBusy | WaitFor nat

definition acquire_poll :: "nat \<Rightarrow> bool \<Rightarrow> nat \<Rightarrow> nat \<Rightarrow> acquired" where
  "acquire_poll count cancelled now deadline =
     (if max_in_flight_per_server \<le> count
      then (if cancelled then WaitCancelled
            else if deadline \<le> now then ServerBusy
            else WaitFor (min (deadline - now) 250))
      else Permit (count + 1))"

section \<open>A server that never connected\<close>

record connect_failure =
  cn_message :: string
  cn_needs_auth :: bool
  cn_auth_target :: "auth_target option"

record pending_state =
  pd_auth_target :: "auth_target option"
  pd_failures :: nat
  pd_last_error :: string
  pd_needs_auth :: bool
  pd_last_attempt :: nat
  pd_next_attempt :: nat
  pd_in_flight :: bool
  pd_ready :: "nat option"

definition pending_record_failure ::
  "connect_failure \<Rightarrow> reconnect_backoff \<Rightarrow> nat \<Rightarrow> (nat \<Rightarrow> nat) \<Rightarrow> pending_state \<Rightarrow> pending_state" where
  "pending_record_failure failure backoff now jit st =
     (let n = sat_add32 (pd_failures st) 1
      in st\<lparr>pd_in_flight := False, pd_failures := n, pd_last_error := cn_message failure,
            pd_needs_auth := cn_needs_auth failure, pd_auth_target := cn_auth_target failure,
            pd_next_attempt := now + jittered jit backoff n\<rparr>)"

definition new_pending :: "connect_failure \<Rightarrow> reconnect_backoff \<Rightarrow> nat \<Rightarrow> (nat \<Rightarrow> nat) \<Rightarrow> pending_state" where
  "new_pending failure backoff now jit =
     pending_record_failure failure backoff now jit
       \<lparr>pd_auth_target = None, pd_failures = 0, pd_last_error = [], pd_needs_auth = False,
        pd_last_attempt = now, pd_next_attempt = now, pd_in_flight = False, pd_ready = None\<rparr>"

definition pending_idle :: "pending_state \<Rightarrow> bool" where
  "pending_idle st \<longleftrightarrow> \<not> pd_needs_auth st \<and> \<not> pd_in_flight st \<and> pd_ready st = None"

definition pending_due :: "nat \<Rightarrow> pending_state \<Rightarrow> bool" where
  "pending_due now st \<longleftrightarrow> pending_idle st \<and> pd_next_attempt st \<le> now"

definition kick_max_interval :: nat where
  "kick_max_interval = 30000"

definition pending_kickable :: "reconnect_backoff \<Rightarrow> nat \<Rightarrow> pending_state \<Rightarrow> bool" where
  "pending_kickable backoff now st \<longleftrightarrow>
     pending_idle st \<and> min (backoff_after backoff (pd_failures st)) kick_max_interval \<le> now - pd_last_attempt st"

definition pending_begin :: "nat \<Rightarrow> pending_state \<Rightarrow> pending_state" where
  "pending_begin now st = st\<lparr>pd_in_flight := True, pd_last_attempt := now\<rparr>"

text \<open>\<open>PendingServer\<close>: the state and the flag that ends the retries. \<open>try_start\<close> is told whether the
  thread could be spawned.\<close>

record pending_server =
  ps_id :: string
  ps_backoff :: reconnect_backoff
  ps_state :: pending_state
  ps_cancelled :: bool

definition try_start :: "(pending_state \<Rightarrow> bool) \<Rightarrow> nat \<Rightarrow> bool \<Rightarrow> pending_server \<Rightarrow> bool \<times> pending_server" where
  "try_start ready_to_start now spawned p =
     (if ps_cancelled p \<or> \<not> ready_to_start (ps_state p) then (False, p)
      else let st = pending_begin now (ps_state p)
           in if spawned then (True, p\<lparr>ps_state := st\<rparr>) else (False, p\<lparr>ps_state := st\<lparr>pd_in_flight := False\<rparr>\<rparr>))"

definition pending_finish :: "(connect_failure + nat) \<Rightarrow> nat \<Rightarrow> (nat \<Rightarrow> nat) \<Rightarrow> pending_server \<Rightarrow> pending_server" where
  "pending_finish result now jit p =
     (if ps_cancelled p then p\<lparr>ps_state := (ps_state p)\<lparr>pd_in_flight := False\<rparr>\<rparr>
      else case result of
             Inr conn \<Rightarrow> p\<lparr>ps_state := (ps_state p)\<lparr>pd_in_flight := False, pd_ready := Some conn\<rparr>\<rparr>
           | Inl failure \<Rightarrow> p\<lparr>ps_state := pending_record_failure failure (ps_backoff p) now jit (ps_state p)\<rparr>)"

definition cancel_pending :: "pending_server \<Rightarrow> pending_server" where
  "cancel_pending p = p\<lparr>ps_cancelled := True, ps_state := (ps_state p)\<lparr>pd_ready := None\<rparr>\<rparr>"

text \<open>The part of \<open>adopt_ready_reconnects_for\<close> that takes a connection out of a pending entry.\<close>

definition adopt_pending :: "bool \<Rightarrow> pending_server \<Rightarrow> nat option \<times> pending_server" where
  "adopt_pending owned p =
     (if ps_cancelled p \<or> \<not> owned then (None, p)
      else case pd_ready (ps_state p) of
             None \<Rightarrow> (None, p)
           | Some conn \<Rightarrow> (Some conn, p\<lparr>ps_cancelled := True, ps_state := (ps_state p)\<lparr>pd_ready := None\<rparr>\<rparr>))"

record pending_status =
  st_id :: string
  st_needs_auth :: bool
  st_auth_target :: "auth_target option"
  st_connecting :: bool
  st_failures :: nat
  st_last_error :: string
  st_retry_in :: "nat option"

definition pending_status_of :: "nat \<Rightarrow> pending_server \<Rightarrow> pending_status" where
  "pending_status_of now p =
     (let st = ps_state p
      in \<lparr>st_id = ps_id p, st_needs_auth = pd_needs_auth st, st_auth_target = pd_auth_target st,
          st_connecting = (pd_in_flight st \<or> pd_ready st \<noteq> None), st_failures = pd_failures st,
          st_last_error = pd_last_error st,
          st_retry_in = (if pd_needs_auth st then None else Some (pd_next_attempt st - now))\<rparr>)"

definition describe :: "pending_status \<Rightarrow> string" where
  "describe s =
     (let e = client_safe_error (st_last_error s)
      in if st_needs_auth s then
           (case st_auth_target s of
              Some Endpoint \<Rightarrow> ''MCP endpoint needs sign-in in Toolport''
            | Some ServiceCredential \<Rightarrow> ''service API credential required''
            | _ \<Rightarrow> ''needs sign-in in Toolport'') @ '' (last error: '' @ e @ '')''
         else if st_connecting s \<and> st_last_error s = [] then ''connecting''
         else if st_connecting s then ''connecting (last error: '' @ e @ '')''
         else ''retrying in '' @ show_nat (case st_retry_in s of Some d \<Rightarrow> d div 1000 + 1 | None \<Rightarrow> 0) @ ''s after '' @
              show_nat (st_failures s) @ '' failed attempt(s) (last error: '' @ e @ '')'')"

section \<open>The supervisor of a slot\<close>

datatype supervisor_state = Stopped | Starting | Ready | Degraded | Backoff | NeedsAuth | Stopping

record supervisor =
  sv_auth_target :: "auth_target option"
  sv_state :: supervisor_state
  sv_backoff :: reconnect_backoff
  sv_failures :: nat
  sv_ever_ready :: bool
  sv_last_error :: string
  sv_next_attempt :: nat
  sv_last_use :: nat
  sv_last_attempt :: nat
  sv_ready :: "nat option"
  sv_publishing :: bool

text \<open>The slot: the connection installed in it (\<open>None\<close> when stopped), its counters, and, as ghost state, the
  number of connecting threads and of calls ever admitted. \<open>handle_calls\<close> counts the calls admitted and not yet finished.\<close>

record server_slot =
  sl_inner :: "nat option"
  sl_breaker :: breaker
  sl_generation :: nat
  sl_tool_revision :: nat
  sl_successes :: nat
  sl_responses :: nat
  sl_handle_calls :: nat
  sl_sup :: supervisor
  sl_retired :: bool
  sl_connecting :: nat
  sl_admitted :: nat

abbreviation map_sup :: "(supervisor \<Rightarrow> supervisor) \<Rightarrow> server_slot \<Rightarrow> server_slot" where
  "map_sup f sl \<equiv> sl\<lparr>sl_sup := f (sl_sup sl)\<rparr>"

definition new_slot :: "reconnect_backoff \<Rightarrow> nat \<Rightarrow> server_slot" where
  "new_slot backoff now =
     \<lparr>sl_inner = None, sl_breaker = new_breaker, sl_generation = 0, sl_tool_revision = 0, sl_successes = 0,
      sl_responses = 0, sl_handle_calls = 0,
      sl_sup = \<lparr>sv_auth_target = None, sv_state = Stopped, sv_backoff = backoff, sv_failures = 0,
        sv_ever_ready = False, sv_last_error = [], sv_next_attempt = now, sv_last_use = now,
        sv_last_attempt = now, sv_ready = None, sv_publishing = False\<rparr>,
      sl_retired = False, sl_connecting = 0, sl_admitted = 0\<rparr>"

text \<open>\<open>with_supervised_launch\<close>: a connection made elsewhere waits for its catalog to be published.\<close>

definition launched_slot :: "reconnect_backoff \<Rightarrow> nat \<Rightarrow> nat \<Rightarrow> server_slot" where
  "launched_slot backoff now conn =
     map_sup (\<lambda>sv. sv\<lparr>sv_publishing := True, sv_state := Starting\<rparr>) ((new_slot backoff now)\<lparr>sl_inner := Some conn\<rparr>)"

definition may_start :: "bool \<Rightarrow> nat \<Rightarrow> supervisor \<Rightarrow> bool" where
  "may_start demand now sv \<longleftrightarrow>
     \<not> sv_publishing sv \<and>
     (demand \<and> sv_state sv = Stopped \<or>
      (sv_state sv = Backoff \<or>
       sv_state sv = NeedsAuth \<and> sv_auth_target sv = Some Endpoint \<and> \<not> sv_ever_ready sv) \<and>
      (sv_next_attempt sv \<le> now \<or> demand \<and> 15000 \<le> now - sv_last_attempt sv))"

definition start_at :: "bool \<Rightarrow> nat \<Rightarrow> (string + unit) \<Rightarrow> nat \<Rightarrow> server_slot \<Rightarrow> bool \<times> server_slot" where
  "start_at demand now spawned later sl =
     (if sl_retired sl \<or> \<not> may_start demand now (sl_sup sl) then (False, sl)
      else let sl = map_sup (\<lambda>sv. sv\<lparr>sv_state := Starting, sv_last_attempt := now\<rparr>) sl
           in case spawned of
                Inr _ \<Rightarrow> (True, sl\<lparr>sl_connecting := sl_connecting sl + 1\<rparr>)
              | Inl e \<Rightarrow> (False, map_sup (\<lambda>sv. sv\<lparr>sv_state := Backoff, sv_last_error := e,
                           sv_next_attempt := later + rb_base (sv_backoff sv)\<rparr>) sl))"

definition finish_start :: "(connect_failure + nat) \<Rightarrow> nat \<Rightarrow> (nat \<Rightarrow> nat) \<Rightarrow> server_slot \<Rightarrow> server_slot" where
  "finish_start result now jit sl =
     (let sl = sl\<lparr>sl_connecting := sl_connecting sl - 1\<rparr>
      in if sl_retired sl then map_sup (\<lambda>sv. sv\<lparr>sv_state := Stopped\<rparr>) sl
         else case result of
                Inr conn \<Rightarrow> map_sup (\<lambda>sv. sv\<lparr>sv_ready := Some conn\<rparr>) sl
              | Inl failure \<Rightarrow>
                  map_sup (\<lambda>sv. let n = sat_add32 (sv_failures sv) 1
                    in sv\<lparr>sv_failures := n, sv_auth_target := cn_auth_target failure,
                          sv_last_error := cn_message failure,
                          sv_next_attempt := now + jittered jit (sv_backoff sv) n,
                          sv_state := (if cn_needs_auth failure then NeedsAuth else Backoff)\<rparr>) sl)"

text \<open>Adoption installs the connection; the slot serves calls only after the catalog passed the integrity
  gate and \<open>activate\<close> ran.\<close>

definition adopt :: "nat \<Rightarrow> server_slot \<Rightarrow> server_slot" where
  "adopt now sl =
     (case sv_ready (sl_sup sl) of
        None \<Rightarrow> sl
      | Some conn \<Rightarrow>
          (map_sup (\<lambda>sv. sv\<lparr>sv_ready := None, sv_publishing := True, sv_last_use := now\<rparr>) sl)\<lparr>
             sl_inner := Some conn, sl_generation := sl_generation sl + 1,
             sl_tool_revision := sl_tool_revision sl + 1, sl_breaker := record_success (sl_breaker sl)\<rparr>)"

definition activate :: "server_slot \<Rightarrow> server_slot" where
  "activate sl =
     (if sv_publishing (sl_sup sl)
      then (map_sup (\<lambda>sv. sv\<lparr>sv_publishing := False, sv_state := Ready, sv_ever_ready := True, sv_failures := 0,
              sv_last_error := [], sv_auth_target := None\<rparr>) sl)\<lparr>sl_breaker := record_success (sl_breaker sl)\<rparr>
      else sl)"

definition retire :: "server_slot \<Rightarrow> server_slot" where
  "retire sl = sl\<lparr>sl_retired := True\<rparr>"

text \<open>\<open>suspended\<close> is \<open>suspended_calls()\<close> of the installed connection.\<close>

definition quiescent_since :: "nat \<Rightarrow> nat \<Rightarrow> server_slot \<Rightarrow> bool" where
  "quiescent_since suspended successes sl \<longleftrightarrow>
     sl_successes sl = successes \<and> sl_handle_calls sl = 0 \<and> suspended = 0"

text \<open>Losing the connection: one transition through \<open>Degraded\<close> to \<open>Backoff\<close>, shared by \<open>degrade\<close> and
  \<open>maintain\<close>.\<close>

definition fall_back :: "string \<Rightarrow> nat \<Rightarrow> (nat \<Rightarrow> nat) \<Rightarrow> server_slot \<Rightarrow> server_slot" where
  "fall_back e now jit sl =
     (map_sup (\<lambda>sv. let n = sat_add32 (sv_failures sv) 1
        in sv\<lparr>sv_last_error := e, sv_failures := n, sv_next_attempt := now + jittered jit (sv_backoff sv) n,
              sv_state := Backoff\<rparr>) sl)\<lparr>sl_inner := None\<rparr>"

text \<open>\<open>inner_free\<close>: \<open>try_lock\<close> got the connection; \<open>closed\<close>: it says it was closed.\<close>

definition degrade ::
  "nat \<Rightarrow> nat \<Rightarrow> string \<Rightarrow> bool \<Rightarrow> bool \<Rightarrow> bool \<Rightarrow> nat \<Rightarrow> nat \<Rightarrow> (nat \<Rightarrow> nat) \<Rightarrow> server_slot \<Rightarrow> bool \<times> server_slot" where
  "degrade generation successes e probe inner_free closed suspended now jit sl =
     (if sv_state (sl_sup sl) \<notin> {Ready, NeedsAuth} \<or> sl_generation sl \<noteq> generation
      then (sv_state (sl_sup sl) \<noteq> Ready, sl)
      else if \<not> inner_free then (False, sl)
      else if \<not> closed \<and> \<not> (probe \<and> quiescent_since suspended successes sl) then (False, sl)
      else (True, fall_back e now jit sl))"

definition server_idle_timeout :: nat where
  "server_idle_timeout = 300000"

text \<open>\<open>maintain\<close> before its final \<open>start(false)\<close>; \<open>subscribed\<close> is the answer of \<open>subscription_use\<close>.\<close>

definition maintain_step :: "nat \<Rightarrow> bool \<Rightarrow> bool \<Rightarrow> nat \<Rightarrow> bool \<Rightarrow> (nat \<Rightarrow> nat) \<Rightarrow> server_slot \<Rightarrow> server_slot" where
  "maintain_step now inner_free closed suspended subscribed jit sl =
     (if sv_state (sl_sup sl) = Ready \<and> inner_free
      then if closed then fall_back ''the server closed the connection'' now jit sl
           else if server_idle_timeout \<le> now - sv_last_use (sl_sup sl) \<and> sl_handle_calls sl = 0 \<and> suspended = 0 \<and>
                   \<not> subscribed
                then (map_sup (\<lambda>sv. sv\<lparr>sv_state := Stopped, sv_failures := 0\<rparr>) sl)\<lparr>sl_inner := None\<rparr>
                else sl
      else sl)"

definition maintain ::
  "nat \<Rightarrow> bool \<Rightarrow> bool \<Rightarrow> nat \<Rightarrow> bool \<Rightarrow> (nat \<Rightarrow> nat) \<Rightarrow> (string + unit) \<Rightarrow> nat \<Rightarrow> server_slot \<Rightarrow> server_slot" where
  "maintain now inner_free closed suspended subscribed jit spawned later sl =
     snd (start_at False later spawned later (maintain_step now inner_free closed suspended subscribed jit sl))"

text \<open>The gate of \<open>Router::attempt\<close> and the guard \<open>HandleCall\<close> that ends a call.\<close>

definition serves_calls :: "supervisor \<Rightarrow> bool" where
  "serves_calls sv \<longleftrightarrow> sv_state sv = Ready \<or> sv_state sv = NeedsAuth \<and> sv_ever_ready sv"

definition begin_call :: "nat \<Rightarrow> server_slot \<Rightarrow> bool \<times> server_slot" where
  "begin_call now sl =
     (if serves_calls (sl_sup sl)
      then (True, (map_sup (\<lambda>sv. sv\<lparr>sv_last_use := now\<rparr>) sl)\<lparr>sl_handle_calls := sl_handle_calls sl + 1,
                                                                   sl_admitted := sl_admitted sl + 1\<rparr>)
      else (False, sl))"

definition end_call :: "nat \<Rightarrow> server_slot \<Rightarrow> server_slot" where
  "end_call now sl = (map_sup (\<lambda>sv. sv\<lparr>sv_last_use := now\<rparr>) sl)\<lparr>sl_handle_calls := sl_handle_calls sl - 1\<rparr>"

datatype wait_result = GoAhead | WaitFails string | KeepWaiting

text \<open>One round of the loop of \<open>wait_for_start\<close>; \<open>unavailable\<close> is its text for a server that is not there.\<close>

definition unavailable :: "string \<Rightarrow> nat \<Rightarrow> server_slot \<Rightarrow> string" where
  "unavailable i now sl =
     (let sv = sl_sup sl;
          st = \<lparr>st_id = i, st_needs_auth = (sv_state sv = NeedsAuth), st_auth_target = sv_auth_target sv,
                st_connecting = (sv_state sv = Starting), st_failures = sv_failures sv,
                st_last_error = sv_last_error sv, st_retry_in = Some (sv_next_attempt sv - now)\<rparr>
      in if st_needs_auth st then ''server '' @ [CHR 0x27] @ i @ [CHR 0x27] @ '' '' @ describe st
         else ''server '' @ [CHR 0x27] @ i @ [CHR 0x27] @ '' '' @
              (if \<not> sv_ever_ready sv \<and> sv_state sv = Backoff then ''has not connected yet'' else ''is restarting'') @
              '', retry in '' @ show_nat ((min (sv_next_attempt sv) (sv_last_attempt sv + 15000) - now) div 1000 + 1) @
              ''s ('' @ client_safe_error (sv_last_error sv) @ '')'')"

definition wait_poll :: "string \<Rightarrow> bool \<Rightarrow> nat \<Rightarrow> nat \<Rightarrow> server_slot \<Rightarrow> wait_result \<times> server_slot" where
  "wait_poll i cancelled now deadline sl =
     (if cancelled then (WaitFails ''request cancelled while the server was starting'', sl)
      else if serves_calls (sl_sup sl) then (GoAhead, map_sup (\<lambda>sv. sv\<lparr>sv_last_use := now\<rparr>) sl)
      else if sl_retired sl
           then (WaitFails (''server '' @ [CHR 0x27] @ i @ [CHR 0x27] @ '' was reconfigured while starting; send the request again''), sl)
      else if sv_state (sl_sup sl) \<noteq> Starting \<or> deadline \<le> now then (WaitFails (unavailable i now sl), sl)
      else (KeepWaiting, sl))"

text \<open>What a finished call tells the supervisor: a success clears the failures and, on the same
  connection, the need to sign in; a rejected sign-in on the same, otherwise silent connection sets
  it.\<close>

definition note_success :: "nat \<Rightarrow> server_slot \<Rightarrow> server_slot" where
  "note_success generation sl =
     (map_sup (\<lambda>sv. let sv = sv\<lparr>sv_failures := 0\<rparr>
        in if sv_state sv = NeedsAuth \<and> sl_generation sl = generation
           then sv\<lparr>sv_state := Ready, sv_auth_target := None, sv_last_error := []\<rparr> else sv) sl)\<lparr>
       sl_successes := sl_successes sl + 1, sl_breaker := record_success (sl_breaker sl)\<rparr>"

definition note_auth_failure :: "nat \<Rightarrow> nat \<Rightarrow> string \<Rightarrow> server_slot \<Rightarrow> server_slot" where
  "note_auth_failure generation successes e sl =
     (if sv_state (sl_sup sl) \<in> {Ready, NeedsAuth} \<and> sl_generation sl = generation \<and> sl_successes sl = successes
      then map_sup (\<lambda>sv. sv\<lparr>sv_state := NeedsAuth, sv_auth_target := Some Endpoint, sv_last_error := e\<rparr>) sl
      else sl)"

section \<open>Every interleaving\<close>

inductive slot_step :: "server_slot \<Rightarrow> server_slot \<Rightarrow> bool" where
  step_start: "slot_step sl (snd (start_at demand now spawned later sl))"
| step_finish: "0 < sl_connecting sl \<Longrightarrow> slot_step sl (finish_start result now jit sl)"
| step_adopt: "slot_step sl (adopt now sl)"
| step_activate: "slot_step sl (activate sl)"
| step_retire: "slot_step sl (retire sl)"
| step_degrade: "slot_step sl (snd (degrade g s e probe inner_free closed suspended now jit sl))"
| step_maintain: "slot_step sl (maintain now inner_free closed suspended subscribed jit spawned later sl)"
| step_wait: "slot_step sl (snd (wait_poll i cancelled now deadline sl))"
| step_begin: "slot_step sl (snd (begin_call now sl))"
| step_end: "0 < sl_handle_calls sl \<Longrightarrow> slot_step sl (end_call now sl)"
| step_success: "0 < sl_admitted sl \<Longrightarrow> slot_step sl (note_success g sl)"
| step_auth: "0 < sl_admitted sl \<Longrightarrow> slot_step sl (note_auth_failure g s e sl)"

definition slot_init :: "server_slot \<Rightarrow> bool" where
  "slot_init sl \<longleftrightarrow> (\<exists>backoff now. sl = new_slot backoff now \<or> (\<exists>conn. sl = launched_slot backoff now conn))"

definition awaiting_connect :: "supervisor \<Rightarrow> bool" where
  "awaiting_connect sv \<longleftrightarrow> sv_state sv = Starting \<and> sv_ready sv = None \<and> \<not> sv_publishing sv"

definition slot_inv :: "server_slot \<Rightarrow> bool" where
  "slot_inv sl \<longleftrightarrow>
     (let sv = sl_sup sl
      in sv_state sv \<notin> {Degraded, Stopping} \<and>
         sl_connecting sl = (if awaiting_connect sv then 1 else 0) \<and>
         (sv_ready sv \<noteq> None \<longrightarrow> sv_state sv = Starting \<and> \<not> sv_publishing sv) \<and>
         (sv_publishing sv \<longrightarrow> sv_state sv = Starting \<and> sl_inner sl \<noteq> None) \<and>
         (sv_state sv = Ready \<longrightarrow> sv_ever_ready sv) \<and>
         (0 < sl_admitted sl \<longrightarrow> sv_ever_ready sv))"

lemmas slot_defs = slot_inv_def Let_def awaiting_connect_def serves_calls_def

lemma inv_init: "slot_init sl \<Longrightarrow> slot_inv sl"
  by (auto simp: slot_init_def new_slot_def launched_slot_def slot_defs)

lemma inv_start: "slot_inv sl \<Longrightarrow> slot_inv (snd (start_at demand now spawned later sl))"
proof (cases "sl_retired sl \<or> \<not> may_start demand now (sl_sup sl)")
  case False
  then have "\<not> sv_publishing (sl_sup sl)" "sv_state (sl_sup sl) \<notin> {Starting, Ready, Degraded, Stopping}"
    by (auto simp: may_start_def)
  then show "slot_inv sl \<Longrightarrow> ?thesis"
    using False by (cases spawned) (simp_all add: start_at_def slot_defs)
qed (simp add: start_at_def)

lemma inv_finish_start: "slot_inv sl \<Longrightarrow> 0 < sl_connecting sl \<Longrightarrow> slot_inv (finish_start result now jit sl)"
  by (auto simp: finish_start_def slot_defs split: sum.splits if_splits)

lemma inv_adopt: "slot_inv sl \<Longrightarrow> slot_inv (adopt now sl)"
  by (auto simp: adopt_def slot_defs split: option.splits if_splits)

lemma inv_activate: "slot_inv sl \<Longrightarrow> slot_inv (activate sl)"
  by (cases "sv_publishing (sl_sup sl)"; cases "sv_ready (sl_sup sl)") (simp_all add: activate_def slot_defs)

lemma inv_fall_back: "slot_inv sl \<Longrightarrow> sv_state (sl_sup sl) \<in> {Ready, NeedsAuth} \<Longrightarrow> slot_inv (fall_back e now jit sl)"
  by (auto simp: fall_back_def slot_defs split: if_splits)

lemma inv_degrade: "slot_inv sl \<Longrightarrow> slot_inv (snd (degrade g s e probe inner_free closed suspended now jit sl))"
  by (auto simp: degrade_def intro: inv_fall_back)

lemma inv_maintain_step: "slot_inv sl \<Longrightarrow> slot_inv (maintain_step now inner_free closed suspended subscribed jit sl)"
  by (auto simp: maintain_step_def intro: inv_fall_back) (auto simp: slot_defs split: if_splits)

lemma inv_wait: "slot_inv sl \<Longrightarrow> slot_inv (snd (wait_poll i cancelled now deadline sl))"
  by (auto simp: wait_poll_def) (auto simp: slot_defs split: if_splits)

lemma inv_calls:
  "slot_inv sl \<Longrightarrow> slot_inv (snd (begin_call now sl))" "slot_inv sl \<Longrightarrow> slot_inv (end_call now sl)"
  "slot_inv sl \<Longrightarrow> slot_inv (retire sl)"
  by (auto simp: begin_call_def end_call_def retire_def slot_defs split: if_splits)

lemma inv_notes:
  "slot_inv sl \<Longrightarrow> 0 < sl_admitted sl \<Longrightarrow> slot_inv (note_success g sl)"
  "slot_inv sl \<Longrightarrow> 0 < sl_admitted sl \<Longrightarrow> slot_inv (note_auth_failure g s e sl)"
  by (auto simp: note_success_def note_auth_failure_def slot_defs split: if_splits)

interpretation slot_sys: invariant_system slot_init slot_step slot_inv
proof
  show "slot_inv s" if "slot_init s" for s using that by (rule inv_init)
  show "slot_inv t" if "slot_inv s" and "slot_step s t" for s t
    using that(2,1)
    by cases (auto simp: maintain_def
        intro: inv_start inv_finish_start inv_adopt inv_activate inv_degrade inv_maintain_step inv_wait inv_calls inv_notes)
qed

text \<open>C24: In every state a supervised slot reaches, whatever the order of demands, watcher rounds, finished
  connection attempts, adoptions, failures and calls: at most one attempt to connect runs, and one
  runs exactly while the slot is starting without a result; a finished connection or one being
  published exists only while the slot is starting; the transient states are never left visible; and
  a slot that is ready, or ever admitted a call, had its catalog published.\<close>

theorem supervisor_reachable_wf:
  assumes "reachable slot_init slot_step sl"
  shows "slot_inv sl"
  using assms by (rule slot_sys.reachable_inv)

lemmas reach_slot =
  reach_step [where step = slot_step, OF _ step_start] reach_step [where step = slot_step, OF _ step_finish]
  reach_step [where step = slot_step, OF _ step_adopt] reach_step [where step = slot_step, OF _ step_activate]
  reach_step [where step = slot_step, OF _ step_maintain]

text \<open>A slot that started on demand and whose connection was adopted.\<close>

definition sample_slot :: server_slot where
  "sample_slot = activate (adopt 20 (finish_start (Inr 7) 10 id
     (snd (start_at True 5 (Inr ()) 5 (new_slot default_backoff 0)))))"

lemma sample_slot_reachable: "reachable slot_init slot_step sample_slot"
proof -
  have "reachable slot_init slot_step (new_slot default_backoff 0)"
    by (intro reach_init) (auto simp: slot_init_def)
  moreover have "0 < sl_connecting (snd (start_at True 5 (Inr ()) 5 (new_slot default_backoff 0)))" by code_simp
  ultimately show ?thesis
    unfolding sample_slot_def by (intro reach_slot)
qed

theorem supervisor_reachable_wf_witness:
  "slot_inv sample_slot \<and> sv_state (sl_sup sample_slot) = Ready \<and> sl_inner sample_slot = Some 7"
proof -
  have "sv_state (sl_sup sample_slot) = Ready" "sl_inner sample_slot = Some 7" by code_simp+
  with supervisor_reachable_wf [OF sample_slot_reachable] show ?thesis by blast
qed

text \<open>A live connection is given up only when nothing depends on it: if the connection does not report
  itself closed, a failed call ends it only as the probe of a tripped breaker, on the same
  connection, with no call in flight or suspended and no success since; and the watcher ends it only
  after five idle minutes with no call in flight or suspended and no subscription in use. A retired
  slot never starts connecting again.\<close>

theorem live_connection_kept:
  "(snd (degrade g s e probe inner_free False suspended now jit sl) \<noteq> sl \<longrightarrow>
       probe \<and> sl_generation sl = g \<and> sl_handle_calls sl = 0 \<and> suspended = 0 \<and> sl_successes sl = s) \<and>
     (maintain_step now inner_free False suspended subscribed jit sl \<noteq> sl \<longrightarrow>
       300000 \<le> now - sv_last_use (sl_sup sl) \<and> sl_handle_calls sl = 0 \<and> suspended = 0 \<and> \<not> subscribed) \<and>
     (sl_retired sl \<and> slot_step sl sl' \<longrightarrow> sl_retired sl' \<and> sl_connecting sl' \<le> sl_connecting sl)"
proof (intro conjI impI)
  assume "snd (degrade g s e probe inner_free False suspended now jit sl) \<noteq> sl"
  then show "probe" "sl_generation sl = g" "sl_handle_calls sl = 0" "suspended = 0" "sl_successes sl = s"
    by (auto simp: degrade_def quiescent_since_def split: if_splits)
next
  assume "maintain_step now inner_free False suspended subscribed jit sl \<noteq> sl"
  then show "300000 \<le> now - sv_last_use (sl_sup sl)" "sl_handle_calls sl = 0" "suspended = 0" "\<not> subscribed"
    by (auto simp: maintain_step_def server_idle_timeout_def split: if_splits)
next
  assume retired: "sl_retired sl \<and> slot_step sl sl'"
  then have "slot_step sl sl'" "sl_retired sl" by auto
  then have "sl_retired sl' \<and> sl_connecting sl' \<le> sl_connecting sl"
    by cases (auto simp: start_at_def finish_start_def adopt_def activate_def retire_def degrade_def fall_back_def
        maintain_def maintain_step_def wait_poll_def begin_call_def end_call_def note_success_def
        note_auth_failure_def Let_def split: option.splits)
  then show "sl_retired sl'" "sl_connecting sl' \<le> sl_connecting sl" by auto
qed

theorem live_connection_kept_witness:
  "slot_inv sample_slot \<and> maintain_step 400000 True False 0 False id sample_slot \<noteq> sample_slot \<and>
   sl_handle_calls sample_slot = 0"
proof -
  have inv: "slot_inv sample_slot" by (rule slot_sys.reachable_inv) (rule sample_slot_reachable)
  have changed: "maintain_step 400000 True False 0 False id sample_slot \<noteq> sample_slot" by code_simp
  from live_connection_kept [where sl = sample_slot and now = 400000 and inner_free = True and suspended = 0
        and subscribed = False and jit = id] changed inv show ?thesis by blast
qed

text \<open>A slot can reach a state in which it admits calls although its connection is gone: once its
  catalog was published, a restart that fails for lack of sign-in leaves it in \<open>NeedsAuth\<close> with the
  stopped connection of before. Calls are then sent to that connection instead of being told to sign
  in, and neither a demand nor the watcher starts a new connection from this state.\<close>

theorem needs_auth_serves_stopped:
  "\<exists>sl. reachable slot_init slot_step sl \<and> sv_state (sl_sup sl) = NeedsAuth \<and> serves_calls (sl_sup sl) \<and>
     sl_inner sl = None \<and> (\<forall>demand now spawned later. snd (start_at demand now spawned later sl) = sl)"
proof -
  let ?idle = "maintain 400000 True False 0 False id (Inr ()) 400000 sample_slot"
  let ?failed = "finish_start (Inl \<lparr>cn_message = ''http 401'', cn_needs_auth = True, cn_auth_target = Some Endpoint\<rparr>) 400002 id
     (snd (start_at True 400001 (Inr ()) 400001 ?idle))"
  have "0 < sl_connecting (snd (start_at True 400001 (Inr ()) 400001 ?idle))" by code_simp
  then have "reachable slot_init slot_step ?failed"
    by (intro reach_slot sample_slot_reachable)
  moreover have "sv_state (sl_sup ?failed) = NeedsAuth" "serves_calls (sl_sup ?failed)" "sl_inner ?failed = None"
      "sv_ever_ready (sl_sup ?failed)"
    by code_simp+
  moreover have "\<not> may_start demand now (sl_sup sl)" if "sv_state (sl_sup sl) = NeedsAuth" "sv_ever_ready (sl_sup sl)"
    for demand now and sl :: server_slot
    using that by (simp add: may_start_def)
  ultimately show ?thesis by (intro exI [of _ ?failed]) (simp add: start_at_def)
qed

end
