(* ===== verification/RouterAuth.thy ===== *)
theory RouterAuth
  imports CatalogProps UriTemplate Supervisor
begin

text \<open>
  What the router answers about names (\<open>router.rs\<close>): the policy's view of the catalog, the decision
  every dispatch goes through, its recheck against a newer router, owners of resources and prompts,
  and the message for a name that has no route. The message may wake a server that has not connected,
  so it is a step on the supervised slots and the servers still pending.

  A hash map that is searched is searched in the order of its association list. Lower-casing by
  Unicode tables is a parameter; the clock readings and whether a thread could be spawned are
  arguments, as in the supervisor.
\<close>

section \<open>Names under the policy\<close>

definition route_of :: "'a router \<Rightarrow> string \<Rightarrow> (string \<times> string) option" where
  "route_of rt exposed = map_of (rt_routes rt) exposed"

definition policy_definition :: "'a router \<Rightarrow> json \<Rightarrow> json" where
  "policy_definition rt t =
     (case jget_str ''name'' t of
        None \<Rightarrow> t
      | Some exposed \<Rightarrow> (let name = policy_name rt exposed in if name = exposed then t else set_key ''name'' (JStr name) t))"

definition safety_definition :: "'a router \<Rightarrow> json \<Rightarrow> json" where
  "safety_definition rt t =
     (case Option.bind (jget_str ''name'' t) (route_of rt) of
        Some (_, orig) \<Rightarrow> set_key ''name'' (JStr orig) t
      | None \<Rightarrow> policy_definition rt t)"

definition indexed_policy_names_for :: "(string \<Rightarrow> bool) \<Rightarrow> 'a router \<Rightarrow> string set" where
  "indexed_policy_names_for visible rt =
     set (concat (map (\<lambda>(server, tools). map (\<lambda>(orig, name). case canonical_name rt server orig of Some n \<Rightarrow> n | None \<Rightarrow> name) tools)
       (filter (\<lambda>(server, _). visible server) (rt_policy_by_original rt)))) \<union>
     set (map (\<lambda>c. case re_policy_name c of Some n \<Rightarrow> n | None \<Rightarrow> re_exposed c)
       (filter (\<lambda>c. visible (re_server c)) (rt_restored rt)))"

definition integrity_candidate_names_for :: "(string \<Rightarrow> bool) \<Rightarrow> 'a router \<Rightarrow> string set" where
  "integrity_candidate_names_for visible rt =
     set (map (\<lambda>(name, _). policy_name rt name)
       (filter (\<lambda>(name, server). visible server \<and>
          (case map_of (rt_blocked rt) name of None \<Rightarrow> True | Some r \<Rightarrow> r = Quarantined \<or> r = StoreUnreadable))
        (rt_owners rt)))"

definition tool_owner :: "'a router \<Rightarrow> string \<Rightarrow> string option" where
  "tool_owner rt name = (case map_of (rt_owners rt) name of Some s \<Rightarrow> Some s | None \<Rightarrow> map_option fst (route_of rt name))"

text \<open>\<open>str::split_once\<close> with a string.\<close>

definition split_once_str :: "string \<Rightarrow> string \<Rightarrow> (string \<times> string) option" where
  "split_once_str d s = map_option (\<lambda>i. (take i s, drop (i + length d) s)) (find_str d s)"

definition known_alias :: "'a router \<Rightarrow> string \<Rightarrow> bool" where
  "known_alias rt alias \<longleftrightarrow> map_of (rt_routes rt) alias \<noteq> None \<or> map_of (rt_blocked rt) alias \<noteq> None"

definition resolve_spelling :: "'a router \<Rightarrow> string \<Rightarrow> string option" where
  "resolve_spelling rt name =
     (if known_alias rt name then Some name
      else map_option fst (find (\<lambda>(_, policy). policy = name) (rt_policy_names rt)))"

definition client_spelling :: "'a router \<Rightarrow> string \<Rightarrow> string option" where
  "client_spelling rt name =
     (if \<not> dashed (rt_rule rt) \<or> known_alias rt name then None
      else case resolve_spelling rt name of
             Some alias \<Rightarrow> Some alias
           | None \<Rightarrow> Option.bind (split_once_str ''__'' name) (\<lambda>(_, rest). resolve_spelling rt rest))"

section \<open>Owners of resources and prompts\<close>

fun template_owner :: "string \<Rightarrow> (string \<times> string) list \<Rightarrow> json list \<Rightarrow> string option" where
  "template_owner uri routes [] = None"
| "template_owner uri routes (t # ts) =
     (case jget_str ''uriTemplate'' t of
        None \<Rightarrow> template_owner uri routes ts
      | Some template \<Rightarrow> if uri_matches_template uri template then map_of routes template else template_owner uri routes ts)"

definition template_owner_for_uri :: "'a router \<Rightarrow> string \<Rightarrow> string option" where
  "template_owner_for_uri rt uri = template_owner uri (rt_template_routes rt) (rt_templates rt)"

definition resource_server :: "'a router \<Rightarrow> string \<Rightarrow> string option" where
  "resource_server rt uri =
     (case map_of (rt_resource_routes rt) uri of Some s \<Rightarrow> Some s | None \<Rightarrow> template_owner_for_uri rt uri)"

definition resource_template_server :: "'a router \<Rightarrow> string \<Rightarrow> string option" where
  "resource_template_server rt template = map_of (rt_template_routes rt) template"

definition prompt_server :: "'a router \<Rightarrow> string \<Rightarrow> string option" where
  "prompt_server rt exposed = map_option fst (map_of (rt_prompt_routes rt) exposed)"

definition prompt_downstream_name :: "'a router \<Rightarrow> string \<Rightarrow> string option" where
  "prompt_downstream_name rt exposed = map_option snd (map_of (rt_prompt_routes rt) exposed)"

section \<open>A name without a route\<close>

text \<open>The slots and the servers that never connected. A slot without a supervisor is \<open>None\<close>.\<close>

record fleet =
  fl_slots :: "(string \<times> server_slot option) list"
  fl_pending :: "pending_server list"

record kick_env =
  kx_lower :: "string \<Rightarrow> string"
  kx_now :: nat
  kx_later :: nat
  kx_slot_spawned :: "string + unit"
  kx_pending_spawned :: bool

definition slot_status :: "nat \<Rightarrow> string \<Rightarrow> server_slot \<Rightarrow> pending_status" where
  "slot_status now i sl =
     (let sv = sl_sup sl
      in \<lparr>st_id = i, st_needs_auth = (sv_state sv = NeedsAuth), st_auth_target = sv_auth_target sv,
          st_connecting = (sv_state sv = Starting), st_failures = sv_failures sv, st_last_error = sv_last_error sv,
          st_retry_in = Some (sv_next_attempt sv - now)\<rparr>)"

definition names_server :: "(string \<Rightarrow> string) \<Rightarrow> string \<Rightarrow> string \<Rightarrow> bool" where
  "names_server lower wanted i \<longleftrightarrow>
     (let prefix = lower (sanitize_segment i)
      in lower i = wanted \<or> prefix = wanted \<or> starts_with (prefix @ ''__'') wanted)"

definition kick_slot :: "kick_env \<Rightarrow> server_slot \<Rightarrow> server_slot" where
  "kick_slot kx sl = snd (start_at True (kx_now kx) (kx_slot_spawned kx) (kx_later kx) sl)"

definition kick_server :: "kick_env \<Rightarrow> pending_server \<Rightarrow> pending_server" where
  "kick_server kx p = snd (try_start (pending_kickable (ps_backoff p) (kx_now kx)) (kx_later kx) (kx_pending_spawned kx) p)"

definition kick_unconnected :: "kick_env \<Rightarrow> (string \<Rightarrow> bool) \<Rightarrow> fleet \<Rightarrow> pending_status option \<times> fleet" where
  "kick_unconnected kx mine fl =
     (let wanted = (\<lambda>p. \<not> ps_cancelled p \<and> mine (ps_id p))
      in (map_option (\<lambda>p. pending_status_of (kx_later kx) (kick_server kx p)) (find wanted (fl_pending fl)),
          fl\<lparr>fl_pending := update_first wanted (kick_server kx) (fl_pending fl)\<rparr>))"

definition kick_pending :: "kick_env \<Rightarrow> (string \<Rightarrow> bool) \<Rightarrow> string \<Rightarrow> fleet \<Rightarrow> pending_status option \<times> fleet" where
  "kick_pending kx visible name fl =
     (let wanted = kx_lower kx (trim name)
      in if wanted = [] then (None, fl)
         else
           let mine = (\<lambda>i. visible i \<and> names_server (kx_lower kx) wanted i);
               slots = update_first (\<lambda>(i, _). mine i) (map_prod id (map_option (kick_slot kx))) (fl_slots fl);
               fl = fl\<lparr>fl_slots := slots\<rparr>
           in case find (\<lambda>(i, _). mine i) slots of
                Some (i, Some sl) \<Rightarrow>
                  if sv_state (sl_sup sl) \<noteq> Ready then (Some (slot_status (kx_later kx) i sl), fl)
                  else kick_unconnected kx mine fl
              | _ \<Rightarrow> kick_unconnected kx mine fl)"

definition model_visible :: "json \<Rightarrow> bool" where
  "model_visible t =
     (case pointer ''/_meta/ui/visibility'' t of
        None \<Rightarrow> True
      | Some (JArr audiences) \<Rightarrow> list_ex (\<lambda>a. a = JStr ''model'') audiences
      | Some _ \<Rightarrow> False)"

definition client_prefixed :: "'a router \<Rightarrow> (string \<Rightarrow> bool) \<Rightarrow> string \<Rightarrow> string option" where
  "client_prefixed rt visible name =
     (case Option.bind (strip_prefix ''mcp__'' name) (split_once_str ''__'') of
        None \<Rightarrow> None
      | Some (_, cand) \<Rightarrow>
          if (case map_of (rt_routes rt) cand of Some (server, _) \<Rightarrow> visible server | None \<Rightarrow> False) \<and>
             (case find (\<lambda>t. jget ''name'' t = Some (JStr cand)) (rt_tools rt) of None \<Rightarrow> True | Some t \<Rightarrow> model_visible t)
          then Some cand else None)"

definition name_distance :: "string \<Rightarrow> string \<Rightarrow> nat" where
  "name_distance wanted name =
     (if (case strip_suffix wanted name of Some pre \<Rightarrow> ends_with ''__'' pre | None \<Rightarrow> False) then 0
      else alias_distance wanted name)"

definition close_match :: "'a router \<Rightarrow> (string \<Rightarrow> bool) \<Rightarrow> string \<Rightarrow> json \<Rightarrow> (nat \<times> string) option" where
  "close_match rt visible wanted t =
     (case jget_str ''name'' t of
        None \<Rightarrow> None
      | Some name \<Rightarrow>
          (case route_of rt name of
             None \<Rightarrow> None
           | Some (server, _) \<Rightarrow>
               if \<not> visible server \<or> \<not> model_visible t then None
               else let distance = name_distance wanted name in if distance \<le> 3 then Some (distance, name) else None))"

definition close_matches :: "'a router \<Rightarrow> (string \<Rightarrow> bool) \<Rightarrow> string \<Rightarrow> string list" where
  "close_matches rt visible wanted = map snd (take 3 (sort (List.map_filter (close_match rt visible wanted) (rt_tools rt))))"

abbreviation quote :: "string \<Rightarrow> string" where
  "quote s \<equiv> [CHR 0x27] @ s @ [CHR 0x27]"

definition unknown_tool_message :: "'a router \<Rightarrow> (string \<Rightarrow> bool) \<Rightarrow> string \<Rightarrow> string" where
  "unknown_tool_message rt visible name =
     (let matches = close_matches rt visible name
      in ''Unknown tool: '' @ name @ (if matches = [] then [] else [CHR 0x0A] @ ''Close matches: '' @ join '', '' matches) @
         [CHR 0x0A] @ ''Use toolport_search_tools to find tools.'')"

definition pending_message :: "string \<Rightarrow> pending_status \<Rightarrow> string" where
  "pending_message name status =
     ''no route for tool '' @ quote name @ '': server '' @ quote (st_id status) @
     (if st_needs_auth status then '' '' @ describe status @ ''. Sign in, then try again.''
      else '' has not connected yet and is '' @ describe status @ ''. Try again shortly.'')"

definition shown_block :: "'a router \<Rightarrow> (string \<Rightarrow> bool) \<Rightarrow> string \<Rightarrow> blocked_reason option" where
  "shown_block rt visible name =
     (if (case tool_owner rt name of Some s \<Rightarrow> visible s | None \<Rightarrow> False)
      then case map_of (rt_blocked rt) name of
             Some r \<Rightarrow> if r \<noteq> OutsideScope \<and> name \<notin> rt_model_hidden rt then Some r else None
           | None \<Rightarrow> None
      else None)"

definition no_route_message_within ::
  "kick_env \<Rightarrow> 'a router \<Rightarrow> (string \<Rightarrow> bool) \<Rightarrow> string \<Rightarrow> fleet \<Rightarrow> string \<times> fleet" where
  "no_route_message_within kx rt visible name fl =
     (case shown_block rt visible name of
        Some r \<Rightarrow> (blocked_tool_message name r, fl)
      | None \<Rightarrow>
          (case client_prefixed rt visible name of
             Some real \<Rightarrow> (''Unknown tool: '' @ name @ [CHR 0x0A] @ ''This client-side alias is named '' @ quote real @
                 '' inside Toolport.'' @ [CHR 0x0A] @ ''Use toolport_search_tools to find tools.'', fl)
           | None \<Rightarrow>
               (case kick_pending kx visible name fl of
                  (Some status, fl) \<Rightarrow> (pending_message name status, fl)
                | (None, fl) \<Rightarrow> (unknown_tool_message rt visible name, fl))))"

definition no_route_message :: "kick_env \<Rightarrow> 'a router \<Rightarrow> string \<Rightarrow> fleet \<Rightarrow> string \<times> fleet" where
  "no_route_message kx rt name = no_route_message_within kx rt (\<lambda>_. True) name"

section \<open>The decision\<close>

datatype dispatch_target = ToolTarget string | ServerTarget string

definition authorize_server :: "'a router \<Rightarrow> string \<Rightarrow> string + unit" where
  "authorize_server rt server =
     (if allows_server (rt_policy rt) server then Inr () else Inl (''server '' @ quote server @ '' is turned off''))"

definition authorize :: "kick_env \<Rightarrow> 'a router \<Rightarrow> dispatch_target \<Rightarrow> fleet \<Rightarrow> (string + unit) \<times> fleet" where
  "authorize kx rt target fl =
     (case target of
        ToolTarget exposed \<Rightarrow>
          (case map_of (rt_blocked rt) exposed of
             Some r \<Rightarrow>
               if r = OutsideScope then map_prod Inl id (no_route_message kx rt exposed fl)
               else (Inl (blocked_tool_message exposed r), fl)
           | None \<Rightarrow>
               (case map_of (rt_routes rt) exposed of
                  Some (server, _) \<Rightarrow> (authorize_server rt server, fl)
                | None \<Rightarrow> (Inr (), fl)))
      | ServerTarget server \<Rightarrow> (authorize_server rt server, fl))"

definition live_reason ::
  "'a router \<Rightarrow> 'a router \<Rightarrow> string \<Rightarrow> string \<Rightarrow> string \<Rightarrow> tool_policy_metadata \<Rightarrow> blocked_reason option" where
  "live_reason rt live exposed server orig m =
     (let name = policy_name rt exposed
      in if has_canonical_policy rt server orig then blocked_reason_unscoped (rt_policy live) name server orig m
         else case blocked_reason_unscoped (rt_policy live) exposed server orig m of
                Some r \<Rightarrow> Some r
              | None \<Rightarrow> blocked_reason_unscoped (rt_policy live) name server orig m)"

definition recheck_live_policy :: "kick_env \<Rightarrow> 'a router \<Rightarrow> 'a router \<Rightarrow> dispatch_target \<Rightarrow> fleet \<Rightarrow> (string + unit) \<times> fleet" where
  "recheck_live_policy kx rt live target fl =
     (case target of
        ServerTarget _ \<Rightarrow> authorize kx live target fl
      | ToolTarget exposed \<Rightarrow>
          (case map_of (rt_routes rt) exposed of
             None \<Rightarrow> (Inr (), fl)
           | Some (server, orig) \<Rightarrow>
               if map_of (rt_blocked live) exposed = Some AmbiguousBinding
               then (Inl (blocked_tool_message exposed AmbiguousBinding), fl)
               else
                 let d = (if tp_deny_destructive (rt_policy live)
                          then case find (\<lambda>t. jget_str ''name'' t = Some exposed) (rt_tools rt) of Some t \<Rightarrow> t | None \<Rightarrow> JNull
                          else JNull)
                 in case live_reason rt live exposed server orig (metadata_of (safety_definition rt d)) of
                      Some r \<Rightarrow> (Inl (blocked_tool_message exposed r), fl)
                    | None \<Rightarrow> (Inr (), fl)))"

section \<open>Messages within a scope\<close>

text \<open>Two routers that a scoped caller cannot tell apart: they agree on whatever belongs to a visible server.\<close>

definition visible_owner :: "(string \<Rightarrow> bool) \<Rightarrow> 'a router \<Rightarrow> string \<Rightarrow> bool" where
  "visible_owner visible rt name = (case tool_owner rt name of Some s \<Rightarrow> visible s | None \<Rightarrow> False)"

definition visible_route :: "(string \<Rightarrow> bool) \<Rightarrow> 'a router \<Rightarrow> string \<Rightarrow> bool" where
  "visible_route visible rt name = (case map_of (rt_routes rt) name of Some (s, _) \<Rightarrow> visible s | None \<Rightarrow> False)"

definition visible_tools :: "(string \<Rightarrow> bool) \<Rightarrow> 'a router \<Rightarrow> json list" where
  "visible_tools visible rt =
     filter (\<lambda>t. case jget_str ''name'' t of Some name \<Rightarrow> visible_route visible rt name | None \<Rightarrow> False) (rt_tools rt)"

definition same_view :: "(string \<Rightarrow> bool) \<Rightarrow> 'a router \<Rightarrow> 'a router \<Rightarrow> bool" where
  "same_view visible rt rt' \<longleftrightarrow>
     visible_owner visible rt = visible_owner visible rt' \<and> visible_route visible rt = visible_route visible rt' \<and>
     (\<forall>name. visible_owner visible rt name \<longrightarrow>
        map_of (rt_blocked rt) name = map_of (rt_blocked rt') name \<and> (name \<in> rt_model_hidden rt \<longleftrightarrow> name \<in> rt_model_hidden rt')) \<and>
     visible_tools visible rt = visible_tools visible rt'"

definition same_fleet :: "(string \<Rightarrow> bool) \<Rightarrow> fleet \<Rightarrow> fleet \<Rightarrow> bool" where
  "same_fleet visible fl fl' \<longleftrightarrow>
     filter (\<lambda>(i, _). visible i) (fl_slots fl) = filter (\<lambda>(i, _). visible i) (fl_slots fl') \<and>
     filter (\<lambda>p. visible (ps_id p)) (fl_pending fl) = filter (\<lambda>p. visible (ps_id p)) (fl_pending fl')"

lemma find_visible: "(\<And>x. P x \<Longrightarrow> Q x) \<Longrightarrow> find P xs = find P (filter Q xs)"
  by (induction xs) auto

lemma update_visible:
  "(\<And>x. P x \<Longrightarrow> Q x) \<Longrightarrow> (\<And>x. Q (f x) = Q x) \<Longrightarrow> filter Q (update_first P f xs) = update_first P f (filter Q xs)"
  by (induction xs) auto

lemma find_same: "filter Q xs = filter Q ys \<Longrightarrow> (\<And>x. P x \<Longrightarrow> Q x) \<Longrightarrow> find P xs = find P ys"
  using find_visible [of P Q xs] find_visible [of P Q ys] by simp

lemma update_same:
  "filter Q xs = filter Q ys \<Longrightarrow> (\<And>x. P x \<Longrightarrow> Q x) \<Longrightarrow> (\<And>x. Q (f x) = Q x) \<Longrightarrow>
   filter Q (update_first P f xs) = filter Q (update_first P f ys)"
  using update_visible [of P Q f xs] update_visible [of P Q f ys] by simp

lemma filtered_visible: "(\<And>x. f x \<noteq> None \<Longrightarrow> Q x) \<Longrightarrow> List.map_filter f xs = List.map_filter f (filter Q xs)"
  by (induction xs) (auto simp: map_filter_simps split: option.split)

lemma kick_keeps [simp]: "ps_id (kick_server kx p) = ps_id p"
  by (simp add: kick_server_def try_start_def Let_def)

lemma unconnected_scoped:
  assumes "same_fleet visible fl fl'" and mine: "\<And>i. mine i \<Longrightarrow> visible i"
  shows "fst (kick_unconnected kx mine fl) = fst (kick_unconnected kx mine fl') \<and>
    same_fleet visible (snd (kick_unconnected kx mine fl)) (snd (kick_unconnected kx mine fl'))"
proof -
  let ?w = "\<lambda>p. \<not> ps_cancelled p \<and> mine (ps_id p)" and ?v = "\<lambda>p. visible (ps_id p)"
  from assms(1) have ps: "filter ?v (fl_pending fl) = filter ?v (fl_pending fl')" by (simp add: same_fleet_def)
  have "find ?w (fl_pending fl) = find ?w (fl_pending fl')" using ps by (rule find_same) (simp add: mine)
  moreover have "filter ?v (update_first ?w (kick_server kx) (fl_pending fl)) =
      filter ?v (update_first ?w (kick_server kx) (fl_pending fl'))"
    using ps by (rule update_same) (simp_all add: mine)
  ultimately show ?thesis using assms(1) by (simp add: kick_unconnected_def Let_def same_fleet_def)
qed

lemma kick_scoped:
  assumes "same_fleet visible fl fl'"
  shows "fst (kick_pending kx visible name fl) = fst (kick_pending kx visible name fl') \<and>
    same_fleet visible (snd (kick_pending kx visible name fl)) (snd (kick_pending kx visible name fl'))"
proof -
  let ?mine = "\<lambda>i. visible i \<and> names_server (kx_lower kx) (kx_lower kx (trim name)) i"
  let ?P = "\<lambda>(i, _). ?mine i" and ?f = "map_prod id (map_option (kick_slot kx))"
  let ?slots = "\<lambda>fl. update_first ?P ?f (fl_slots fl)"
  have slots: "filter (\<lambda>(i, _). visible i) (?slots fl) = filter (\<lambda>(i, _). visible i) (?slots fl')"
    using assms by (intro update_same) (auto simp: same_fleet_def)
  have fleet: "same_fleet visible (fl\<lparr>fl_slots := ?slots fl\<rparr>) (fl'\<lparr>fl_slots := ?slots fl'\<rparr>)"
    using assms slots by (simp add: same_fleet_def)
  have find: "find ?P (?slots fl) = find ?P (?slots fl')" using slots by (rule find_same) auto
  show ?thesis
    using assms fleet unconnected_scoped [OF fleet, of ?mine kx] unfolding kick_pending_def Let_def find
    by (auto split: option.split prod.split)
qed

lemma shown_scoped: "same_view visible rt rt' \<Longrightarrow> shown_block rt visible name = shown_block rt' visible name"
  unfolding shown_block_def same_view_def visible_owner_def [symmetric] by (auto split: option.split)

lemma prefixed_scoped:
  assumes "same_view visible rt rt'"
  shows "client_prefixed rt visible name = client_prefixed rt' visible name"
proof -
  let ?n = "\<lambda>c t. jget ''name'' t = Some (JStr c)"
  have str: "?n c t \<Longrightarrow> jget_str ''name'' t = Some c" for c t by (simp add: jget_str_def)
  have "find (?n c) (rt_tools r) = find (?n c) (visible_tools visible r)" if "visible_route visible r c" for c and r :: "'a router"
    unfolding visible_tools_def using that by (intro find_visible) (simp add: str)
  then show ?thesis
    using assms unfolding client_prefixed_def visible_route_def [symmetric] same_view_def
    by (auto split: option.split)
qed

lemma matches_scoped:
  assumes "same_view visible rt rt'"
  shows "close_matches rt visible name = close_matches rt' visible name"
proof -
  have "List.map_filter (close_match r visible name) (rt_tools r) =
      List.map_filter (close_match r visible name) (visible_tools visible r)" for r :: "'a router"
    unfolding visible_tools_def
    by (rule filtered_visible) (auto simp: close_match_def visible_route_def route_of_def split: option.splits if_splits)
  moreover have "close_match rt visible name t = close_match rt' visible name t" for t
  proof (cases "jget_str ''name'' t")
    case (Some n)
    then have "visible_route visible rt n = visible_route visible rt' n" using assms by (simp add: same_view_def)
    with Some show ?thesis by (auto simp: close_match_def visible_route_def route_of_def split: option.splits)
  qed (simp add: close_match_def)
  then have "close_match rt visible name = close_match rt' visible name" by blast
  ultimately show ?thesis using assms unfolding close_matches_def same_view_def by metis
qed

text \<open>C10: The message for a name without a route tells a scoped caller nothing about what lies outside its
  scope: two routers and fleets that agree on whatever belongs to a visible server give the same
  message for every name, and what the message wakes leaves the fleets in agreement. That covers tools,
  routes, blocked names, servers that are starting or failed, and the close matches.\<close>

theorem no_route_message_scoped:
  assumes "same_view visible rt rt'" and "same_fleet visible fl fl'"
  shows "fst (no_route_message_within kx rt visible name fl) = fst (no_route_message_within kx rt' visible name fl') \<and>
    same_fleet visible (snd (no_route_message_within kx rt visible name fl)) (snd (no_route_message_within kx rt' visible name fl'))"
proof -
  obtain status fl1 fl2 where k: "kick_pending kx visible name fl = (status, fl1)" "kick_pending kx visible name fl' = (status, fl2)"
      "same_fleet visible fl1 fl2"
    using kick_scoped [OF assms(2), of kx name] by (metis prod.collapse)
  have m: "unknown_tool_message rt visible name = unknown_tool_message rt' visible name"
    by (simp add: unknown_tool_message_def matches_scoped [OF assms(1)])
  show ?thesis
    unfolding no_route_message_within_def shown_scoped [OF assms(1)] prefixed_scoped [OF assms(1)] m k
    using assms(2) k(3) by (simp split: option.split)
qed

text \<open>A caller confined to \<open>alpha\<close> asks for a tool of \<open>beta\<close>: the answer is the one of an empty router, whose
  servers are unknown to it too.\<close>

definition sample_kick :: kick_env where
  "sample_kick = \<lparr>kx_lower = to_ascii_lowercase, kx_now = 0, kx_later = 0, kx_slot_spawned = Inr (), kx_pending_spawned = True\<rparr>"

definition sample_secret :: "nat router" where
  "sample_secret = (with_policy default_tool_policy)\<lparr>rt_routes := [(''beta__drop'', ''beta'', ''drop'')],
     rt_owners := [(''beta__drop'', ''beta'')], rt_tools := [JObj [(''name'', JStr ''beta__drop'')]]\<rparr>"

lemma sample_same: "same_view (\<lambda>s. s = ''alpha'') sample_secret (with_policy default_tool_policy)"
  by (auto simp: same_view_def visible_owner_def visible_route_def visible_tools_def tool_owner_def route_of_def
      sample_secret_def with_policy_def jget_str_def fun_eq_iff)

theorem no_route_message_scoped_witness:
  "fst (no_route_message_within sample_kick sample_secret (\<lambda>s. s = ''alpha'') ''beta__dro''
     \<lparr>fl_slots = [(''beta'', Some (new_slot default_backoff 0))], fl_pending = []\<rparr>) =
   fst (no_route_message_within sample_kick (with_policy default_tool_policy :: nat router) (\<lambda>s. s = ''alpha'') ''beta__dro''
     \<lparr>fl_slots = [], fl_pending = []\<rparr>)"
  by (rule no_route_message_scoped [OF sample_same, THEN conjunct1]) (simp add: same_fleet_def)

end
