(* ===== verification/CatalogSafety.thy ===== *)
theory CatalogSafety
  imports RouterAuth
begin

text \<open>
  What the router enforces over time: a registry policy holds for the whole catalog once it is applied
  and for every call that is rechecked against it, a catalog that failed closed stays empty until the
  quarantine store was read, and a server that is added takes over no name and no URI.
\<close>

section \<open>The policy is only changed on purpose\<close>

lemma admit_policy [simp]: "rt_policy (admit_tool env s apps e orig t rt) = rt_policy rt"
  by (simp add: admit_tool_def Let_def note_tool_def publish_frame split: option.split)

lemma index_tools_policy: "index_tools env s apps ts rt = Some rt' \<Longrightarrow> rt_policy rt' = rt_policy rt"
proof (induction env s apps ts rt rule: index_tools.induct)
  case (2 env s apps t base rest rt)
  show ?case
  proof (cases "\<exists>orig b. jget_str ''name'' t = Some orig \<and> base = Some b")
    case True
    with "2.prems" "2.IH"(3) show ?thesis by (fastforce simp: bind_eq_Some_conv)
  next
    case False
    with 2 show ?thesis by (auto split: option.splits)
  qed
qed simp

lemma lists_policy [simp]:
  "rt_policy (index_resource s r rt) = rt_policy rt" "rt_policy (index_template s t rt) = rt_policy rt"
  "rt_policy (index_prompt s p rt) = rt_policy rt" "rt_policy (note_catalog b s rt) = rt_policy rt"
  by (simp_all add: index_resource_def index_template_def index_prompt_def note_catalog_def split: option.split prod.split)

lemma fold_frame: "(\<And>x s. f (g x s) = f s) \<Longrightarrow> f (fold g xs s) = f s"
  by (induction xs arbitrary: s) simp_all

lemma index_server_policy:
  assumes "index_server env sc rt = Some rt'"
  shows "rt_policy rt' = rt_policy rt"
proof -
  have "rt_policy r' = rt_policy r" if "index_lists env sc r = Some r'" for r r' :: "'a router"
    using that by (auto simp: index_lists_def Let_def fold_frame [of rt_policy])
  with assms show ?thesis
    unfolding index_server_def Let_def by (fastforce simp: bind_eq_Some_conv dest: index_tools_policy)
qed

lemma index_servers_policy: "index_servers env scs rt = Some rt' \<Longrightarrow> rt_policy rt' = rt_policy rt"
proof (induction env scs rt rule: index_servers.induct)
  case (2 env sc scs rt)
  then obtain rt1 where "index_server env sc (note_catalog (sc_complete sc) (sc_id sc) rt) = Some rt1"
      "index_servers env scs rt1 = Some rt'" by (auto simp: bind_eq_Some_conv)
  with "2.IH" index_server_policy show ?case by fastforce
qed simp

lemma apply_restored_policy: "rt_policy (apply_restored c rt) = rt_policy rt"
  by (simp add: apply_restored_def Let_def split: option.split)

lemma rebuild_policy: "rebuild_preserving_restored env rt = Some rt' \<Longrightarrow> rt_policy rt' = rt_policy rt"
  by (auto simp: rebuild_preserving_restored_def rebuild_aggregation_with_reserved_def Let_def apply_restored_candidates_def
      fold_frame [of rt_policy, OF apply_restored_policy] clear_catalog_def dest!: index_servers_policy)

lemma rebuild_plain_policy: "rebuild_aggregation env rt = Some rt' \<Longrightarrow> rt_policy rt' = rt_policy rt"
  by (auto simp: rebuild_aggregation_def rebuild_aggregation_with_reserved_def clear_catalog_def Let_def dest!: index_servers_policy)

text \<open>Quarantine is dropped by no operation but the two that install a new set.\<close>

lemma step_fail_closed:
  assumes "catalog_step env rt rt'" and "tp_fail_closed_catalog (rt_policy rt)"
  shows "tp_fail_closed_catalog (rt_policy rt') \<or> (\<exists>q. requarantine_from_store env q rt = Some rt')"
  using assms
proof cases
  case (9 allow rule)
  then show ?thesis using assms(2)
    by (auto simp: with_client_tool_view_def Let_def bind_eq_Some_conv split: if_splits dest!: rebuild_policy)
next
  case (13 previous catalog)
  then show ?thesis using assms(2)
    by (auto simp: adopt_restored_routes_def Let_def apply_restored_candidates_def fold_frame [of rt_policy, OF apply_restored_policy] split: if_splits)
qed (auto simp: set_overrides_def add_with_reconnect_def add_supervised_def requarantine_def fail_closed_catalog_def
    apply_registry_policy_def with_quarantine_def with_tool_allow_def refresh_tools_def refresh_lists_def with_shared_server_slot_def
    split: if_splits option.splits dest!: rebuild_policy rebuild_plain_policy index_server_policy)

section \<open>Failing closed\<close>

lemma fail_closed_reason:
  "tp_fail_closed_catalog (rt_policy rt) \<Longrightarrow> policy_blocked_reason rt e s orig m \<noteq> None"
  by (auto simp: policy_blocked_reason_def blocked_reason_def blocked_reason_unscoped_def Let_def split: option.split)

lemma fail_closed_empty:
  assumes "router_ok rt" and "tp_fail_closed_catalog (rt_policy rt)"
  shows "rt_tools rt = [] \<and> dom (map_of (rt_routes rt)) = {}"
proof -
  have ok: "catalog_ok rt" using assms(1) by (simp add: router_ok_def)
  have "rt_tools rt = []"
    using catalog_butD(1) [OF ok] fail_closed_reason [OF assms(2)] unfolding listed_ok_def by (metis list.set_intros(1) neq_Nil_conv)
  moreover have "map_of (rt_routes rt) e = None" for e
    using catalog_butD(3) [OF ok, of e] calculation by (cases "map_of (rt_routes rt) e") auto
  ultimately show ?thesis unfolding dom_def by simp
qed

text \<open>The operations that may follow before the store of quarantined tools was read.\<close>

definition unread_step :: "'a catalog_env \<Rightarrow> 'a router \<Rightarrow> 'a router \<Rightarrow> bool" where
  "unread_step env rt rt' \<longleftrightarrow> catalog_step env rt rt' \<and> (\<forall>q. requarantine_from_store env q rt \<noteq> Some rt')"

lemma unread_keeps:
  assumes "(unread_step env)\<^sup>*\<^sup>* rt rt'" and "router_ok rt" and "tp_fail_closed_catalog (rt_policy rt)"
  shows "router_ok rt' \<and> tp_fail_closed_catalog (rt_policy rt')"
  using assms
proof (induction rule: rtranclp_induct)
  case (step a b)
  then have "catalog_step env a b" "\<forall>q. requarantine_from_store env q a \<noteq> Some b" by (auto simp: unread_step_def)
  with step show ?case using step_fail_closed [of env a b] catalog_sys.inv_step [of a env b] by blast
qed simp

text \<open>C6: A catalog that failed closed lists and routes no tool, whatever operations follow, until a
  quarantine set read from the store is installed: servers may be added, registry policies and client
  views change, lists be refreshed and lost tools be restored.\<close>

theorem fail_closed_until_store_read:
  assumes "reachable (\<lambda>rt. \<exists>p. rt = with_policy p) (catalog_step env) rt"
    and "fail_closed_catalog env rt = Some rt1" and "(unread_step env)\<^sup>*\<^sup>* rt1 rt2"
  shows "rt_tools rt2 = [] \<and> dom (map_of (rt_routes rt2)) = {}"
proof -
  have "router_ok rt1" using rebuilt_ok(4) [OF catalog_sys.reachable_inv [OF assms(1)] assms(2)] .
  moreover have "tp_fail_closed_catalog (rt_policy rt1)"
    using assms(2) by (auto simp: fail_closed_catalog_def dest!: rebuild_policy)
  ultimately show ?thesis using unread_keeps [OF assms(3)] fail_closed_empty by blast
qed

text \<open>The sample catalog fails closed and another server is added.\<close>

definition sample_closed :: "nat router" where
  "sample_closed = the (fail_closed_catalog sample_env sample_router)"

definition sample_closed_more :: "nat router" where
  "sample_closed_more = the (add_with_reconnect sample_env (sample_server\<lparr>sc_id := ''fs''\<rparr>) sample_closed)"

theorem fail_closed_until_store_read_witness:
  "length (rt_tools sample_router) = 1 \<and> rt_tools sample_closed_more = []"
proof -
  have "fail_closed_catalog sample_env sample_router \<noteq> None" by code_simp
  then have one: "fail_closed_catalog sample_env sample_router = Some sample_closed" by (auto simp: sample_closed_def)
  have "add_with_reconnect sample_env (sample_server\<lparr>sc_id := ''fs''\<rparr>) sample_closed \<noteq> None" by code_simp
  then have two: "catalog_step sample_env sample_closed sample_closed_more"
    by (auto simp: sample_closed_more_def intro: catalog_step.intros)
  have "tp_fail_closed_catalog (rt_policy sample_closed_more)" by code_simp
  then have "requarantine_from_store sample_env q sample_closed \<noteq> Some sample_closed_more" for q
    by (auto simp: requarantine_from_store_def requarantine_def dest!: rebuild_policy)
  with two have "(unread_step sample_env)\<^sup>*\<^sup>* sample_closed sample_closed_more" by (auto simp: unread_step_def)
  from fail_closed_until_store_read [OF sample_router_reachable one this]
  have "rt_tools sample_closed_more = []" by blast
  moreover have "length (rt_tools sample_router) = 1" by code_simp
  ultimately show ?thesis by blast
qed

section \<open>The registry's policy\<close>

lemma half_quarantine: "registry_half p = rp \<Longrightarrow> p = with_quarantine rp (tp_quarantined p) (tp_fail_closed_catalog p)"
  by (auto simp: registry_half_def with_quarantine_def)

lemma passed_reason:
  "policy_blocked_reason rt e s orig m = None \<Longrightarrow>
   blocked_reason (rt_policy rt) (policy_name rt e) s orig m = None \<and>
   (has_canonical_policy rt s orig \<or> blocked_reason (rt_policy rt) e s orig m = None)"
  by (auto simp: policy_blocked_reason_def Let_def split: if_splits option.splits)

text \<open>What a registry grants: the server is one the gateway connects for the profile, the tool is switched on
  and not destructive under a policy that denies those.\<close>

definition granted :: "registry \<Rightarrow> string option \<Rightarrow> bool \<Rightarrow> bool \<Rightarrow> string \<Rightarrow> string \<Rightarrow> json \<Rightarrow> bool" where
  "granted reg profile http daemon s orig t \<longleftrightarrow>
     (\<exists>sv \<in> set (router_servers reg profile http daemon). s_id sv = s) \<and> is_tool_enabled reg s orig \<and>
     \<not> (deny_destructive_effective reg \<and> is_destructive t)"

lemma verdict_of:
  assumes "reg_inv reg" and "registry_half p = registry_policy_of reg profile http daemon"
  shows "blocked_reason p e s orig (metadata_of t) = None \<longleftrightarrow>
     \<not> (case map_of (tp_allow p) s of Some ts \<Rightarrow> orig \<notin> ts | None \<Rightarrow> False) \<and>
     granted reg profile http daemon s orig t \<and> \<not> tp_fail_closed_catalog p \<and> e \<notin> tp_quarantined p"
proof -
  have allow: "tp_allow p = rp_allow (registry_policy_of reg profile http daemon)"
    using assms(2) by (metis registry_half_def registry_policy.select_convs(3))
  have destr: "tm_destructive (metadata_of t) = is_destructive t" by (simp add: metadata_of_def)
  show ?thesis
    by (subst half_quarantine [OF assms(2)]) (auto simp: policy_verdict [OF assms(1)] allow granted_def destr)
qed

text \<open>C4: Once a registry's policy is applied, whatever the router routes is what the registry grants: the
  server of the route is one the profile reaches, the tool is on, within the tool scope, and not
  destructive where those are denied; quarantine holds neither the catalog nor the tool's persisted
  name, nor its exposed name unless the client's view gave it another.\<close>

theorem registry_policy_enforced:
  assumes "reachable (\<lambda>rt. \<exists>p. rt = with_policy p) (catalog_step env) rt" and "reg_inv reg"
    and "apply_registry_policy env (registry_policy_of reg profile http daemon) rt = Some (changed, rt')"
    and "map_of (rt_routes rt') e = Some (s, orig)"
  shows "\<exists>d \<in> set (rt_tools rt'). jget_str ''name'' d = Some e \<and>
      granted reg profile http daemon s orig (set_key ''name'' (JStr orig) d) \<and>
      (case map_of (rp_allow (registry_policy_of reg profile http daemon)) s of Some ts \<Rightarrow> orig \<in> ts | None \<Rightarrow> True) \<and>
      \<not> tp_fail_closed_catalog (rt_policy rt') \<and> policy_name rt' e \<notin> tp_quarantined (rt_policy rt') \<and>
      (has_canonical_policy rt' s orig \<or> e \<notin> tp_quarantined (rt_policy rt'))"
proof -
  let ?rp = "registry_policy_of reg profile http daemon"
  have half: "registry_half (rt_policy rt') = ?rp"
    using assms(3) by (auto simp: apply_registry_policy_def registry_half_def with_quarantine_def split: if_splits dest!: rebuild_policy)
  have ok: "catalog_ok rt'"
    using registry_policy_ok [OF assms(3) catalog_sys.reachable_inv [OF assms(1)]] by (simp add: router_ok_def)
  obtain d where d: "d \<in> set (rt_tools rt')" "jget_str ''name'' d = Some e" using catalog_butD(3) [OF ok assms(4)] by blast
  have "policy_blocked_reason rt' e s orig (metadata_of (set_key ''name'' (JStr orig) d)) = None"
    using catalog_butD(1) [OF ok d(1)] d(2) assms(4) by (auto simp: listed_ok_def)
  note passed = passed_reason [OF this, unfolded verdict_of [OF assms(2) half]]
  have "tp_allow (rt_policy rt') = rp_allow ?rp" using half by (metis registry_half_def registry_policy.select_convs(3))
  with passed d show ?thesis by (auto split: option.splits)
qed

text \<open>The profile of the sample registry reaches server \<open>beta\<close>, and the registry does not deny reading.\<close>

definition sample_open :: "nat router" where
  "sample_open = the (add_with_reconnect sample_env (sample_server\<lparr>sc_id := ''beta''\<rparr>) (with_policy default_tool_policy))"

definition sample_policy :: registry_policy where
  "sample_policy = registry_policy_of sample_registry (Some ''WORK'') False False"

definition sample_applied :: "bool \<times> nat router" where
  "sample_applied = the (apply_registry_policy sample_env sample_policy sample_open)"

lemma sample_open_reachable: "reachable (\<lambda>rt. \<exists>p. rt = with_policy p) (catalog_step sample_env) sample_open"
proof -
  have "add_with_reconnect sample_env (sample_server\<lparr>sc_id := ''beta''\<rparr>) (with_policy default_tool_policy) \<noteq> None" by code_simp
  then have "catalog_step sample_env (with_policy default_tool_policy) sample_open"
    by (auto simp: sample_open_def intro: catalog_step.intros)
  then show ?thesis by (rule reach_step [OF reach_init, rotated]) blast
qed

theorem registry_policy_enforced_witness:
  "map_of (rt_routes (snd sample_applied)) ''beta__list'' = Some (''beta'', ''list'') \<and>
   (\<exists>d. granted sample_registry (Some ''WORK'') False False ''beta'' ''list'' (set_key ''name'' (JStr ''list'') d))"
proof -
  have route: "map_of (rt_routes (snd sample_applied)) ''beta__list'' = Some (''beta'', ''list'')" by code_simp
  have "apply_registry_policy sample_env sample_policy sample_open \<noteq> None" by code_simp
  then have "apply_registry_policy sample_env sample_policy sample_open = Some (fst sample_applied, snd sample_applied)"
    by (auto simp: sample_applied_def)
  with registry_policy_enforced [OF sample_open_reachable sample_registry_inv _ route] route
  show ?thesis unfolding sample_policy_def by blast
qed

section \<open>Rechecking a call\<close>

lemma unscoped_verdict:
  assumes "reg_inv reg" and "registry_half p = registry_policy_of reg profile http daemon"
    and "deny_destructive_effective reg \<longrightarrow> tm_destructive m = is_destructive t"
  shows "blocked_reason_unscoped p e s orig m = None \<longleftrightarrow>
     granted reg profile http daemon s orig t \<and> \<not> tp_fail_closed_catalog p \<and> e \<notin> tp_quarantined p"
proof -
  let ?rp = "registry_policy_of reg profile http daemon"
  have parts: "tp_servers p = rp_servers ?rp" "tp_disabled p = rp_disabled ?rp" "tp_deny_destructive p = rp_deny_destructive ?rp"
    using assms(2) by (metis registry_half_def registry_policy.select_convs)+
  have deny: "rp_deny_destructive ?rp = deny_destructive_effective reg" by (simp add: registry_policy_of_def Let_def)
  have "allows_server p s \<longleftrightarrow> (\<exists>sv \<in> set (router_servers reg profile http daemon). s_id sv = s)"
    by (auto simp: allows_server_def parts registry_policy_of_def Let_def)
  moreover have "(case map_of (rp_disabled ?rp) s of Some ts \<Rightarrow> orig \<in> ts | None \<Rightarrow> False) \<longleftrightarrow> \<not> is_tool_enabled reg s orig"
    if "\<exists>sv \<in> set (router_servers reg profile http daemon). s_id sv = s"
    using that policy_disabled [OF assms(1)] by blast
  ultimately show ?thesis
    unfolding blocked_reason_unscoped_def granted_def parts deny using assms(3) by auto
qed

lemma live_reason_None:
  "live_reason rt live e s orig m = None \<longleftrightarrow>
     blocked_reason_unscoped (rt_policy live) (policy_name rt e) s orig m = None \<and>
     (has_canonical_policy rt s orig \<or> blocked_reason_unscoped (rt_policy live) e s orig m = None)"
  by (auto simp: live_reason_def Let_def split: option.split)

lemma find_named:
  assumes "distinct (map (jget_str ''name'') ts)" and "d \<in> set ts" and "jget_str ''name'' d = Some e"
  shows "find (\<lambda>t. jget_str ''name'' t = Some e) ts = Some d"
  using assms by (induction ts) (auto simp: image_iff)



section \<open>Names and URIs are not taken over\<close>

text \<open>A routed name keeps its route, or is refused as ambiguous.\<close>

definition held :: "string \<Rightarrow> string \<times> string \<Rightarrow> 'a router \<Rightarrow> bool" where
  "held e p rt \<longleftrightarrow> map_of (rt_routes rt) e = Some p \<or>
     map_of (rt_routes rt) e = None \<and> map_of (rt_blocked rt) e = Some AmbiguousBinding"

lemma fold_held: "held e p rt \<Longrightarrow> held e p (fold refuse_alias as rt)"
  by (induction as arbitrary: rt) (auto simp: held_def)

lemma bind_held: "held e p rt \<Longrightarrow> held e p (bind_policy_name e' s orig rt)"
proof -
  assume "held e p rt"
  then have "held e p (rt\<lparr>rt_policy_names := ns\<rparr>)" for ns by (simp add: held_def)
  with \<open>held e p rt\<close> show ?thesis
    unfolding bind_policy_name_def Let_def by (simp add: fold_held del: fold_append)
qed

lemma admit_held:
  assumes "held e p rt" and "e' \<noteq> e"
  shows "held e p (admit_tool env s apps e' orig t rt)"
proof -
  have "held e p (bind_policy_name e' s orig (note_tool s e' orig h rt))" for h
    using assms(1) by (intro bind_held) (simp add: held_def note_tool_def)
  with assms(2) show ?thesis
    by (auto simp: admit_tool_def Let_def held_def publish_frame map_of_update split: option.split)
qed

lemma index_tools_held:
  "index_tools env s apps ts rt = Some rt' \<Longrightarrow> held e p rt \<Longrightarrow> e \<in> set (seen (rt_names rt)) \<Longrightarrow> e \<notin> set (bases ts) \<Longrightarrow> held e p rt'"
proof (induction env s apps ts rt rule: index_tools.induct)
  case (2 env s apps t base rest rt)
  show ?case
  proof (cases "\<exists>orig b. jget_str ''name'' t = Some orig \<and> base = Some b")
    case False
    with 2 show ?thesis by (auto simp: map_filter_simps split: option.splits)
  next
    case True
    then obtain orig b where t: "jget_str ''name'' t = Some orig" and b: "base = Some b" by blast
    with "2.prems"(1) obtain e' names where ov: "override_name env rt s orig b = Some (e', names)"
        and run: "index_tools env s apps rest (admit_tool env s apps e' orig t (rt\<lparr>rt_names := names\<rparr>)) = Some rt'"
      by (auto simp: bind_eq_Some_conv)
    have e: "e \<noteq> b" "e \<notin> set (bases rest)" using "2.prems"(4) b by (auto simp: map_filter_simps)
    with override_names [OF ov] "2.prems"(3) have "e' \<noteq> e" "e \<in> set (seen names)" by auto
    with "2.prems"(2) have "held e p (admit_tool env s apps e' orig t (rt\<lparr>rt_names := names\<rparr>))"
      by (intro admit_held) (simp_all add: held_def)
    from "2.IH"(3) [OF refl t b ov refl run this _ e(2)] \<open>e \<in> set (seen names)\<close> show ?thesis
      by (simp add: admit_frame(1))
  qed
qed simp

lemma claim_keeps: "map_of routes \<subseteq>\<^sub>m map_of (claim_uri uri s routes)"
  by (auto simp: claim_uri_def map_le_def map_of_update)

text \<open>A URI that has an owner keeps it.\<close>

definition uris_kept :: "'a router \<Rightarrow> 'a router \<Rightarrow> bool" where
  "uris_kept rt rt' \<longleftrightarrow> map_of (rt_resource_routes rt) \<subseteq>\<^sub>m map_of (rt_resource_routes rt') \<and>
     map_of (rt_template_routes rt) \<subseteq>\<^sub>m map_of (rt_template_routes rt')"

lemma uris_refl [simp]: "uris_kept rt rt"
  by (simp add: uris_kept_def)

lemma uris_trans: "uris_kept a b \<Longrightarrow> uris_kept b c \<Longrightarrow> uris_kept a c"
  unfolding uris_kept_def using map_le_trans by blast

lemma fold_uris: "(\<And>x rt. uris_kept rt (f x rt)) \<Longrightarrow> uris_kept rt (fold f xs rt)"
  by (induction xs arbitrary: rt) (auto intro: uris_trans)

lemma refuse_uris [simp]:
  "rt_resource_routes (fold refuse_alias as rt) = rt_resource_routes rt" "rt_template_routes (fold refuse_alias as rt) = rt_template_routes rt"
  by (induction as arbitrary: rt) (simp_all add: refuse_alias_def)

lemma bind_uris [simp]:
  "rt_resource_routes (bind_policy_name e s orig rt) = rt_resource_routes rt"
  "rt_template_routes (bind_policy_name e s orig rt) = rt_template_routes rt"
  by (simp_all add: bind_policy_name_def Let_def del: fold_append)

lemma admit_uris: "uris_kept rt (admit_tool env s apps e orig t rt)"
  by (simp add: admit_tool_def Let_def publish_tool_def note_tool_def uris_kept_def claim_keeps split: option.split prod.split bool.split)

lemma list_uris: "uris_kept rt (index_resource s r rt)" "uris_kept rt (index_template s t rt)" "uris_kept rt (index_prompt s p rt)"
    "uris_kept rt (note_catalog b s rt)"
  by (auto simp: index_resource_def index_template_def index_prompt_def note_catalog_def uris_kept_def map_le_def map_of_update
      split: option.split prod.split)

lemma names_uris: "uris_kept rt (rt\<lparr>rt_names := names\<rparr>)"
  by (simp add: uris_kept_def)

lemma index_tools_uris: "index_tools env s apps ts rt = Some rt' \<Longrightarrow> uris_kept rt rt'"
proof (induction env s apps ts rt rule: index_tools.induct)
  case (2 env s apps t base rest rt)
  show ?case
  proof (cases "\<exists>orig b. jget_str ''name'' t = Some orig \<and> base = Some b")
    case True
    then obtain orig b where t: "jget_str ''name'' t = Some orig" and b: "base = Some b" by blast
    with "2.prems" obtain e names where ov: "override_name env rt s orig b = Some (e, names)"
        and run: "index_tools env s apps rest (admit_tool env s apps e orig t (rt\<lparr>rt_names := names\<rparr>)) = Some rt'"
      by (auto simp: bind_eq_Some_conv)
    from "2.IH"(3) [OF refl t b ov refl run] show ?thesis
      using uris_trans [OF uris_trans [OF names_uris admit_uris]] by blast
  next
    case False
    with 2 show ?thesis by (auto split: option.splits)
  qed
qed simp

lemma index_lists_uris: "index_lists env sc rt = Some rt' \<Longrightarrow> uris_kept rt rt'"
  unfolding index_lists_def Let_def
  by (auto intro!: uris_trans [OF uris_trans [OF uris_trans [OF fold_uris fold_uris] names_uris] fold_uris] list_uris)

lemma index_lists_held: "index_lists env sc rt = Some rt' \<Longrightarrow> held e p rt' = held e p rt"
proof -
  have "rt_routes (fold (index_prompt s) ps r) = rt_routes r" "rt_routes (fold (index_template s) ts r) = rt_routes r"
      "rt_routes (fold (index_resource s) rs r) = rt_routes r" "rt_blocked (fold (index_prompt s) ps r) = rt_blocked r"
      "rt_blocked (fold (index_template s) ts r) = rt_blocked r" "rt_blocked (fold (index_resource s) rs r) = rt_blocked r"
    for s ps ts rs and r :: "'a router"
    by (rule fold_frame; simp add: index_resource_def index_template_def index_prompt_def split: option.split prod.split)+
  then show "index_lists env sc rt = Some rt' \<Longrightarrow> held e p rt' = held e p rt"
    by (auto simp: index_lists_def Let_def held_def)
qed

text \<open>C11: A server that is added takes over nothing: a tool name that was routed keeps its route, or is refused
  as ambiguous when the new server has a tool persisted under the same name, and every resource URI and
  template stays with the server that claimed it first.\<close>

theorem add_no_takeover:
  assumes "reachable (\<lambda>rt. \<exists>p. rt = with_policy p) (catalog_step env) rt" and "add_with_reconnect env sc rt = Some rt'"
  shows "(\<forall>e p. map_of (rt_routes rt) e = Some p \<longrightarrow>
      map_of (rt_routes rt') e = Some p \<or> map_of (rt_routes rt') e = None \<and> map_of (rt_blocked rt') e = Some AmbiguousBinding) \<and>
    map_of (rt_resource_routes rt) \<subseteq>\<^sub>m map_of (rt_resource_routes rt') \<and>
    map_of (rt_template_routes rt) \<subseteq>\<^sub>m map_of (rt_template_routes rt')"
proof -
  have ok: "catalog_ok rt" using catalog_sys.reachable_inv [OF assms(1)] by (simp add: router_ok_def)
  let ?rt0 = "note_catalog (sc_tools sc \<noteq> []) (sc_id sc) rt"
  obtain bs names rt1 rt2 where
      al: "allocate_names (ce_digest env) (rt_rule ?rt0) (sc_id sc) (map (jget_str ''name'') (sc_tools sc)) (rt_names ?rt0) = Some (bs, names)"
    and run: "index_tools env (sc_id sc) (supports_mcp_app_html (sc_extensions sc)) (zip (sc_tools sc) bs) (?rt0\<lparr>rt_names := names\<rparr>) = Some rt1"
    and lists: "index_lists env sc rt1 = Some rt2"
    and rt': "rt_routes rt' = rt_routes rt2" "rt_blocked rt' = rt_blocked rt2" "rt_resource_routes rt' = rt_resource_routes rt2"
      "rt_template_routes rt' = rt_template_routes rt2"
    using assms(2) unfolding add_with_reconnect_def index_server_def Let_def by (auto simp: bind_eq_Some_conv)
  note fresh = allocate_names_fresh [OF al]
  have frame: "rt_routes ?rt0 = rt_routes rt" "rt_blocked ?rt0 = rt_blocked rt" "rt_names ?rt0 = rt_names rt" by (simp_all add: note_catalog_def)
  have "held e p rt2" if e: "map_of (rt_routes rt) e = Some p" for e p
  proof -
    have seen: "e \<in> set (seen (rt_names rt))" using catalog_butD(4) [OF ok e] .
    have "bases (zip (sc_tools sc) bs) = List.map_filter (\<lambda>v. v) bs" using fresh by (intro bases_zip) simp
    then have "e \<notin> set (bases (zip (sc_tools sc) bs))" using seen fresh by (force simp: map_filter_def frame)
    then have "held e p rt1"
      using e seen fresh by (intro index_tools_held [OF run]) (auto simp: held_def frame)
    then show ?thesis using index_lists_held [OF lists] by simp
  qed
  moreover have "uris_kept rt rt2"
    using uris_trans [OF uris_trans [OF list_uris(4) names_uris] uris_trans [OF index_tools_uris [OF run] index_lists_uris [OF lists]]] .
  ultimately show ?thesis by (simp add: held_def uris_kept_def rt')
qed

text \<open>A second server with the same tools leaves the routes of the first.\<close>

theorem add_no_takeover_witness:
  "map_of (rt_routes (the (add_with_reconnect sample_env (sample_server\<lparr>sc_id := ''be_ta''\<rparr>) sample_open))) ''beta__list'' = Some (''beta'', ''list'')"
proof -
  let ?run = "add_with_reconnect sample_env (sample_server\<lparr>sc_id := ''be_ta''\<rparr>) sample_open"
  have "?run \<noteq> None" by code_simp
  then have run: "?run = Some (the ?run)" by auto
  have "map_of (rt_routes sample_open) ''beta__list'' = Some (''beta'', ''list'')" by code_simp
  moreover have "map_of (rt_blocked (the ?run)) ''beta__list'' = None" by code_simp
  ultimately show ?thesis using add_no_takeover [OF sample_open_reachable run] by fastforce
qed

end
