(* ===== verification/Dispatch.thy ===== *)
theory Dispatch
  imports Supervisor
begin

text \<open>
  One dispatch to a downstream server (\<open>call_with_retry_typed\<close> of \<open>router.rs\<close> with \<open>attempt\<close>,
  \<open>reconnect_and_retry\<close> and their helpers): the wait for a start, the breaker, the retries with
  backoff, the recovery of a lost connection and the decision whether the operation may be sent
  again.

  What the code observes of its surroundings is a parameter, \<open>world\<close>, read at a tick that advances
  with every observation: the clock, the caller's cancellation, the state of the connection, the
  answer of each downstream call, and what other threads did to the slot in between (any change at
  all). A waiting loop runs the number of rounds the world says its clock allows.
\<close>

section \<open>Policies and delays\<close>

datatype replay_policy = ReadOnly | NoAmbiguousReplay

definition policy_for_task :: "string \<Rightarrow> replay_policy" where
  "policy_for_task method = (if method = ''tasks/get'' then ReadOnly else NoAmbiguousReplay)"

fun uncertain_failure :: "replay_policy \<Rightarrow> transport_error \<Rightarrow> bool" where
  "uncertain_failure NoAmbiguousReplay (TUnavailable _) = True"
| "uncertain_failure _ (Classified k _) = uncertain k"
| "uncertain_failure _ _ = False"

datatype slot_access = Shared | Locked

definition http_max_retries :: nat where
  "http_max_retries = 2"

definition http_retry_base :: nat where
  "http_retry_base = 250"

definition http_retry_cap :: nat where
  "http_retry_cap = 10000"

definition backoff_delay :: "nat \<Rightarrow> nat" where
  "backoff_delay attempt = min (http_retry_base * 2 ^ min attempt 6) http_retry_cap"

definition retry_wait :: "nat option \<Rightarrow> nat \<Rightarrow> nat" where
  "retry_wait retry_after attempt =
     min (case retry_after of Some d \<Rightarrow> d | None \<Rightarrow> backoff_delay attempt) http_retry_cap"

fun error_text :: "(json \<Rightarrow> string) \<Rightarrow> transport_error \<Rightarrow> string" where
  "error_text show_json (Classified _ m) = m"
| "error_text show_json (Fatal m) = m"
| "error_text show_json (FrameRejected m) = m"
| "error_text show_json (Rpc e) = show_json e"
| "error_text show_json (TUnavailable m) = m"
| "error_text show_json (Retry _ m) = m"
| "error_text show_json (RateLimited _ m) = m"
| "error_text show_json (TCancelled m) = m"
| "error_text show_json (Busy m) = m"

section \<open>The world\<close>

record 'v world =
  w_id :: string
  w_supervised :: bool
  w_has_factory :: bool
  w_continuation :: bool
  w_now :: "nat \<Rightarrow> nat"
  w_cancelled :: "nat \<Rightarrow> bool"
  w_others :: "nat \<Rightarrow> server_slot \<Rightarrow> server_slot"
  w_rounds :: "nat \<Rightarrow> nat \<Rightarrow> nat"
  w_jit :: "nat \<Rightarrow> nat"
  w_spawned :: "nat \<Rightarrow> string + unit"
  w_reset_reason :: "nat \<Rightarrow> string option"
  w_inner_free :: "nat \<Rightarrow> bool"
  w_closed :: "nat \<Rightarrow> bool option"
  w_suspended :: "nat \<Rightarrow> nat"
  w_response_count :: "nat \<Rightarrow> nat"
  w_call_handle :: "nat \<Rightarrow> bool"
  w_permit :: "nat \<Rightarrow> transport_error option"
  w_factory :: "nat \<Rightarrow> nat option"
  w_call :: "nat \<Rightarrow> transport_error + 'v"
  w_show_json :: "json \<Rightarrow> string"

text \<open>The state of a dispatch: the tick, the shared slot, and the number of downstream calls made. Every
  observation is followed by whatever the others do.\<close>

record run =
  rn_tick :: nat
  rn_slot :: server_slot
  rn_sent :: nat

definition next_tick :: "'v world \<Rightarrow> run \<Rightarrow> run" where
  "next_tick w r = r\<lparr>rn_tick := rn_tick r + 1, rn_slot := w_others w (rn_tick r) (rn_slot r)\<rparr>"

definition on_slot :: "'v world \<Rightarrow> (server_slot \<Rightarrow> server_slot) \<Rightarrow> run \<Rightarrow> run" where
  "on_slot w f r = next_tick w (r\<lparr>rn_slot := f (rn_slot r)\<rparr>)"

abbreviation now_of :: "'v world \<Rightarrow> run \<Rightarrow> nat" where
  "now_of w r \<equiv> w_now w (rn_tick r)"

abbreviation is_cancelled :: "'v world \<Rightarrow> run \<Rightarrow> bool" where
  "is_cancelled w r \<equiv> w_cancelled w (rn_tick r)"

definition failure :: "call_failure_kind \<Rightarrow> string \<Rightarrow> call_failure" where
  "failure k m = \<lparr>cf_kind = k, cf_detail = m\<rparr>"

definition call_failure_of :: "'v world \<Rightarrow> transport_error \<Rightarrow> call_failure" where
  "call_failure_of w e = failure (failure_kind e) (error_text (w_show_json w) e)"

section \<open>Waiting\<close>

text \<open>\<open>wait_for_retry_or_cancel\<close>: true when the wait ended, false when the caller cancelled.\<close>

fun retry_sleep :: "'v world \<Rightarrow> nat \<Rightarrow> run \<Rightarrow> bool \<times> run" where
  "retry_sleep w 0 r = (\<not> is_cancelled w r, next_tick w r)"
| "retry_sleep w (Suc n) r = (if is_cancelled w r then (False, next_tick w r) else retry_sleep w n (next_tick w r))"

text \<open>\<open>wait_for_start\<close> after its first check: demand a start, then poll until the slot serves calls or the
  deadline passes.\<close>

fun start_polls :: "'v world \<Rightarrow> nat \<Rightarrow> nat \<Rightarrow> run \<Rightarrow> (string + unit) \<times> run" where
  "start_polls w deadline 0 r = (Inl (unavailable (w_id w) (now_of w r) (rn_slot r)), r)"
| "start_polls w deadline (Suc n) r =
     (case wait_poll (w_id w) (\<not> w_continuation w \<and> is_cancelled w r) (now_of w r) deadline (rn_slot r) of
        (GoAhead, sl) \<Rightarrow> (Inr (), next_tick w (r\<lparr>rn_slot := sl\<rparr>))
      | (WaitFails e, sl) \<Rightarrow> (Inl e, next_tick w (r\<lparr>rn_slot := sl\<rparr>))
      | (KeepWaiting, sl) \<Rightarrow> start_polls w deadline n (next_tick w (r\<lparr>rn_slot := sl\<rparr>)))"

definition wait_for_start :: "'v world \<Rightarrow> run \<Rightarrow> (string + unit) \<times> run" where
  "wait_for_start w r =
     (if \<not> w_supervised w then (Inr (), r)
      else if \<not> w_continuation w \<and> is_cancelled w r
           then (Inl ''request cancelled while the server was starting'', next_tick w r)
      else let r = on_slot w (\<lambda>sl. snd (start_at True (now_of w r) (w_spawned w (rn_tick r)) (now_of w r) sl)) r
           in start_polls w (now_of w r + 30000) (w_rounds w (rn_tick r) 30000 + 1) r)"

section \<open>One attempt\<close>

text \<open>\<open>Router::attempt\<close>: the gate of the supervisor, the count of calls, the permit of a shared handle and
  the downstream call. The second result is when a call on a handle began.\<close>

definition begin_attempt :: "'v world \<Rightarrow> run \<Rightarrow> bool \<times> run" where
  "begin_attempt w r =
     (if w_supervised w
      then (let (ok, sl) = begin_call (now_of w r) (rn_slot r) in (ok, next_tick w (r\<lparr>rn_slot := sl\<rparr>)))
      else (True, on_slot w (\<lambda>sl. sl\<lparr>sl_handle_calls := sl_handle_calls sl + 1\<rparr>) r))"

definition end_attempt :: "'v world \<Rightarrow> run \<Rightarrow> run" where
  "end_attempt w r =
     (if w_supervised w then on_slot w (end_call (now_of w r)) r
      else on_slot w (\<lambda>sl. sl\<lparr>sl_handle_calls := sl_handle_calls sl - 1\<rparr>) r)"

definition send :: "'v world \<Rightarrow> run \<Rightarrow> (transport_error + 'v) \<times> run" where
  "send w r = (w_call w (rn_sent r), next_tick w (r\<lparr>rn_sent := rn_sent r + 1\<rparr>))"

definition attempt :: "'v world \<Rightarrow> slot_access \<Rightarrow> run \<Rightarrow> ((transport_error + 'v) \<times> nat option) \<times> run" where
  "attempt w access r =
     (let (ok, r) = begin_attempt w r
      in if \<not> ok then ((Inl (Busy (unavailable (w_id w) (now_of w r) (rn_slot r))), None), next_tick w r)
         else if access = Shared \<and> w_call_handle w (rn_tick r)
              then (case w_permit w (rn_tick r) of
                      Some e \<Rightarrow> ((Inl e, None), end_attempt w (next_tick w r))
                    | None \<Rightarrow>
                        let started = now_of w r; (result, r) = send w (next_tick w r)
                        in ((result, Some started), end_attempt w r))
              else let (result, r) = send w (next_tick w r) in ((result, None), end_attempt w r))"

section \<open>Recovery\<close>

definition responses_of :: "'v world \<Rightarrow> run \<Rightarrow> nat" where
  "responses_of w r = sl_responses (rn_slot r) + w_response_count w (rn_tick r)"

fun is_timeout :: "call_failure_kind \<Rightarrow> bool" where
  "is_timeout (call_failure_kind.Timeout _) = True"
| "is_timeout _ = False"

definition timeout_health :: "'v world \<Rightarrow> transport_error \<Rightarrow> nat \<Rightarrow> nat \<Rightarrow> run \<Rightarrow> bool" where
  "timeout_health w e generation responses r \<longleftrightarrow>
     \<not> is_timeout (failure_kind e) \<or>
     w_inner_free w (rn_tick r) \<and> sl_generation (rn_slot r) = generation \<and> responses_of w r = responses \<and>
     w_suspended w (rn_tick r) = 0"

definition health_event :: "'v world \<Rightarrow> transport_error \<Rightarrow> nat \<Rightarrow> nat \<Rightarrow> run \<Rightarrow> bool" where
  "health_event w e generation responses r \<longleftrightarrow> is_health_failure e \<and> timeout_health w e generation responses r"

definition respawn_after_failure :: "'v world \<Rightarrow> nat \<Rightarrow> run \<Rightarrow> bool" where
  "respawn_after_failure w successes r =
     (case w_closed w (rn_tick r) of
        None \<Rightarrow> True
      | Some True \<Rightarrow> True
      | Some False \<Rightarrow> quiescent_since (w_suspended w (rn_tick r)) successes (rn_slot r))"

abbreviation on_breaker :: "'v world \<Rightarrow> (breaker \<Rightarrow> breaker) \<Rightarrow> run \<Rightarrow> run" where
  "on_breaker w f r \<equiv> on_slot w (\<lambda>sl. sl\<lparr>sl_breaker := f (sl_breaker sl)\<rparr>) r"

definition circuit_open :: "'v world \<Rightarrow> nat \<Rightarrow> call_failure" where
  "circuit_open w remaining =
     failure (Unavailable False)
       (''server '' @ [CHR 0x27] @ w_id w @ [CHR 0x27] @
        '' is temporarily unavailable (too many recent failures; retrying in '' @ show_nat (remaining div 1000 + 1) @ ''s)'')"

datatype installed = GateRefused nat | NotReplaced | CallerCancelled | Replaced

text \<open>The part of \<open>reconnect_and_retry\<close> under the reconnect gate.\<close>

definition install_fresh :: "'v world \<Rightarrow> nat \<Rightarrow> nat \<Rightarrow> run \<Rightarrow> installed \<times> run" where
  "install_fresh w generation successes r =
     (case open_remaining (now_of w r) (sl_breaker (rn_slot r)) of
        (Some remaining, b) \<Rightarrow> (GateRefused remaining, on_breaker w (\<lambda>_. b) r)
      | (None, b) \<Rightarrow>
          let r = on_breaker w (\<lambda>_. b) r
          in if sl_generation (rn_slot r) \<noteq> generation then (Replaced, r)
             else case w_factory w (rn_tick r) of
                    None \<Rightarrow> (NotReplaced, next_tick w r)
                  | Some conn \<Rightarrow>
                      let r = next_tick w r
                      in if is_cancelled w r then (CallerCancelled, next_tick w r)
                         else if w_closed w (rn_tick r) = Some False \<and>
                                 \<not> quiescent_since (w_suspended w (rn_tick r)) successes (rn_slot r)
                              then (NotReplaced, next_tick w r)
                         else (Replaced, on_slot w (\<lambda>sl. sl\<lparr>sl_inner := Some conn, sl_generation := sl_generation sl + 1,
                                sl_tool_revision := sl_tool_revision sl + 1\<rparr>) r))"

definition cancelled_after_reconnect :: call_failure where
  "cancelled_after_reconnect = failure Cancelled ''request cancelled before retrying the reconnected downstream''"

definition replay_once :: "'v world \<Rightarrow> slot_access \<Rightarrow> run \<Rightarrow> (call_failure + 'v) \<times> run" where
  "replay_once w access r =
     (let generation = sl_generation (rn_slot r); responses = responses_of w r;
          ((result, started), r) = attempt w access (next_tick w r)
      in case result of
           Inr v \<Rightarrow> (Inr v, on_breaker w record_success (on_slot w (\<lambda>sl. sl\<lparr>sl_successes := sl_successes sl + 1\<rparr>) r))
         | Inl e \<Rightarrow>
             (Inl (call_failure_of w e),
              if health_event w e generation responses r
              then on_breaker w (record_concurrent_failure started (now_of w r)) r else next_tick w r))"

definition reconnect_and_retry ::
  "'v world \<Rightarrow> slot_access \<Rightarrow> transport_error option \<Rightarrow> nat \<Rightarrow> nat \<Rightarrow> run \<Rightarrow> (call_failure + 'v) option \<times> run" where
  "reconnect_and_retry w access uncertain_error generation successes r =
     (if \<not> w_has_factory w then (None, r)
      else case install_fresh w generation successes r of
             (GateRefused remaining, r) \<Rightarrow> (Some (Inl (circuit_open w remaining)), r)
           | (NotReplaced, r) \<Rightarrow> (None, r)
           | (CallerCancelled, r) \<Rightarrow> (Some (Inl cancelled_after_reconnect), r)
           | (Replaced, r) \<Rightarrow>
               (case uncertain_error of
                  Some e \<Rightarrow> (Some (Inl (call_failure_of w e)), on_breaker w record_success r)
                | None \<Rightarrow>
                    if is_cancelled w r then (Some (Inl cancelled_after_reconnect), next_tick w r)
                    else let (res, r) = replay_once w access (next_tick w r) in (Some res, r)))"

section \<open>The whole dispatch\<close>

definition replay_hint :: "replay_policy \<Rightarrow> transport_error \<Rightarrow> string" where
  "replay_hint policy e =
     (if uncertain_failure policy e
      then (case policy of
              ReadOnly \<Rightarrow> ''. Retry the read after the endpoint recovers.''
            | NoAmbiguousReplay \<Rightarrow> ''. The previous operation may have completed; check before retrying it.'')
      else [])"

definition try_degrade :: "'v world \<Rightarrow> nat \<Rightarrow> nat \<Rightarrow> transport_error \<Rightarrow> bool \<Rightarrow> run \<Rightarrow> bool \<times> run" where
  "try_degrade w generation successes e is_probe r =
     (if w_supervised w
      then (let t = rn_tick r;
                (d, sl) = degrade generation successes (error_text (w_show_json w) e) is_probe (w_inner_free w t)
                            (w_closed w t = Some True) (w_suspended w t) (now_of w r) (w_jit w) (rn_slot r)
            in (d, next_tick w (r\<lparr>rn_slot := sl\<rparr>)))
      else (False, r))"

text \<open>The branch of the loop for an error that is not retried; \<open>is_probe\<close>, \<open>generation\<close>, \<open>successes\<close> and \<open>responses\<close>
  were read before the attempt.\<close>

definition health_failure ::
  "'v world \<Rightarrow> slot_access \<Rightarrow> replay_policy \<Rightarrow> bool \<Rightarrow> transport_error \<Rightarrow> nat option \<Rightarrow> nat \<Rightarrow> nat \<Rightarrow> run \<Rightarrow> (call_failure + 'v) \<times> run" where
  "health_failure w access policy is_probe e started generation successes r =
     (case try_degrade w generation successes e is_probe r of
        (True, r) \<Rightarrow>
          (let r = on_breaker w (record_concurrent_failure started (now_of w r)) r
           in (Inl (failure (failure_kind e) (unavailable (w_id w) (now_of w r) (rn_slot r) @ replay_hint policy e)),
               next_tick w r))
      | (False, r) \<Rightarrow>
          (let give_up = (\<lambda>r. (Inl (call_failure_of w e), on_breaker w (record_concurrent_failure started (now_of w r)) r))
           in if is_probe \<and> respawn_after_failure w successes r
              then let r = next_tick w r
                   in if is_cancelled w r
                      then (Inl (failure Cancelled ''request cancelled before downstream reconnect''), next_tick w r)
                      else (case reconnect_and_retry w access (if uncertain_failure policy e then Some e else None)
                                   generation successes (next_tick w r) of
                              (Some res, r) \<Rightarrow> (res, r)
                            | (None, r) \<Rightarrow> give_up r)
              else give_up r))"

definition handle_failure ::
  "'v world \<Rightarrow> slot_access \<Rightarrow> replay_policy \<Rightarrow> bool \<Rightarrow> transport_error \<Rightarrow> nat option \<Rightarrow> nat \<Rightarrow> nat \<Rightarrow> nat \<Rightarrow> run \<Rightarrow> (call_failure + 'v) \<times> run" where
  "handle_failure w access policy is_probe e started generation successes responses r =
     (let r = (if failure_kind e = Auth Endpoint \<and> w_supervised w
               then on_slot w (note_auth_failure generation successes (error_text (w_show_json w) e)) r else r)
      in case e of
           FrameRejected _ \<Rightarrow>
             (Inl (call_failure_of w e), on_breaker w (record_concurrent_failure started (now_of w r)) r)
         | _ \<Rightarrow>
             if health_event w e generation responses r
             then health_failure w access policy is_probe e started generation successes (next_tick w r)
             else (Inl (call_failure_of w e), next_tick w r))"

definition note_result :: "'v world \<Rightarrow> nat \<Rightarrow> (transport_error + 'v) \<Rightarrow> run \<Rightarrow> run" where
  "note_result w generation result r =
     (let r = (case result of
                 Inr _ \<Rightarrow> on_slot w (\<lambda>sl. sl\<lparr>sl_responses := sl_responses sl + 1\<rparr>) r
               | Inl (Rpc _) \<Rightarrow> on_slot w (\<lambda>sl. sl\<lparr>sl_responses := sl_responses sl + 1\<rparr>) r
               | _ \<Rightarrow> r)
      in case result of
           Inr _ \<Rightarrow>
             if w_supervised w then on_slot w (note_success generation) r
             else on_slot w (\<lambda>sl. sl\<lparr>sl_successes := sl_successes sl + 1, sl_breaker := record_success (sl_breaker sl)\<rparr>) r
         | Inl _ \<Rightarrow> r)"

fun retry_after_of :: "transport_error \<Rightarrow> nat option option" where
  "retry_after_of (Retry d _) = Some d"
| "retry_after_of (RateLimited d _) = Some d"
| "retry_after_of _ = None"

text \<open>The head of the loop's body: the counters read before the attempt, the attempt, and the counters and
  the breaker after it.\<close>

record 'v round =
  rd_result :: "transport_error + 'v"
  rd_started :: "nat option"
  rd_generation :: nat
  rd_successes :: nat
  rd_responses :: nat

definition attempt_round :: "'v world \<Rightarrow> slot_access \<Rightarrow> run \<Rightarrow> 'v round \<times> run" where
  "attempt_round w access r =
     (let generation = sl_generation (rn_slot r); successes = sl_successes (rn_slot r);
          r = next_tick w r; responses = responses_of w r;
          ((result, started), r) = attempt w access (next_tick w r)
      in (\<lparr>rd_result = result, rd_started = started, rd_generation = generation, rd_successes = successes,
           rd_responses = responses\<rparr>, note_result w generation result r))"

text \<open>The loop, by the number of retries left.\<close>

fun retry_loop :: "'v world \<Rightarrow> slot_access \<Rightarrow> replay_policy \<Rightarrow> bool \<Rightarrow> nat \<Rightarrow> run \<Rightarrow> (call_failure + 'v) \<times> run" where
  "retry_loop w access policy is_probe left r =
     (if \<not> w_continuation w \<and> is_cancelled w r
      then (Inl (failure Cancelled ''request cancelled before downstream attempt''), next_tick w r)
      else case attempt_round w access r of (rd, r) \<Rightarrow>
        (case rd_result rd of
           Inr v \<Rightarrow> (Inr v, r)
         | Inl e \<Rightarrow>
             (case (retry_after_of e, left) of
                (Some retry_after, Suc left) \<Rightarrow>
                  (case retry_sleep w (w_rounds w (rn_tick r) (retry_wait retry_after (http_max_retries - Suc left))) r of
                     (False, r) \<Rightarrow> (Inl (call_failure_of w (TCancelled ''request cancelled during downstream retry wait'')), r)
                   | (True, r) \<Rightarrow> retry_loop w access policy is_probe left r)
              | _ \<Rightarrow> handle_failure w access policy is_probe e (rd_started rd) (rd_generation rd) (rd_successes rd)
                       (rd_responses rd) r)))"

definition start_failure :: "'v world \<Rightarrow> string \<Rightarrow> run \<Rightarrow> call_failure" where
  "start_failure w detail r =
     failure
       (if \<not> w_continuation w \<and> is_cancelled w r then Cancelled
        else if sv_state (sl_sup (rn_slot r)) = NeedsAuth
             then (case sv_auth_target (sl_sup (rn_slot r)) of Some t \<Rightarrow> Auth t | None \<Rightarrow> Internal)
        else Unavailable False) detail"

definition call_with_retry :: "'v world \<Rightarrow> slot_access \<Rightarrow> replay_policy \<Rightarrow> run \<Rightarrow> (call_failure + 'v) \<times> run" where
  "call_with_retry w access policy r =
     (if \<not> w_continuation w \<and> is_cancelled w r
      then (Inl (failure Cancelled ''request cancelled before downstream attempt''), next_tick w r)
      else case wait_for_start w (next_tick w r) of
             (Inl detail, r) \<Rightarrow> (Inl (start_failure w detail r), next_tick w r)
           | (Inr _, r) \<Rightarrow>
               (case admit (now_of w r) (sl_breaker (rn_slot r)) of
                  (Admitted is_probe, b) \<Rightarrow>
                    (let r = on_breaker w (\<lambda>_. b) r;
                         generation = sl_generation (rn_slot r); successes = sl_successes (rn_slot r)
                     in case w_reset_reason w (rn_tick r) of
                          None \<Rightarrow> retry_loop w access policy is_probe http_max_retries (next_tick w r)
                        | Some reason \<Rightarrow>
                            (case reconnect_and_retry w access None generation successes (next_tick w r) of
                               (Some res, r) \<Rightarrow> (res, r)
                             | (None, r) \<Rightarrow>
                                 (Inl (failure (Unavailable False) (reason @ ''; downstream reconnect required'')),
                                  on_breaker w (record_failure (now_of w r)) r)))
                | (Refused remaining, b) \<Rightarrow> (Inl (circuit_open w remaining), on_breaker w (\<lambda>_. b) r)))"

section \<open>What is sent, and how often\<close>

lemma sent_simps [simp]:
  "rn_sent (next_tick w r) = rn_sent r" "rn_sent (on_slot w f r) = rn_sent r" "rn_sent (end_attempt w r) = rn_sent r"
  by (simp_all add: next_tick_def on_slot_def end_attempt_def)

lemma retry_sleep_sent: "retry_sleep w n r = (b, r') \<Longrightarrow> rn_sent r' = rn_sent r"
  by (induction w n r rule: retry_sleep.induct) (auto split: if_splits)

lemma start_polls_sent: "start_polls w d n r = (res, r') \<Longrightarrow> rn_sent r' = rn_sent r"
  by (induction w d n r rule: start_polls.induct) (auto split: prod.splits wait_result.splits)

lemma wait_for_start_sent: "wait_for_start w r = (res, r') \<Longrightarrow> rn_sent r' = rn_sent r"
  by (auto simp: wait_for_start_def Let_def simp del: start_polls.simps dest!: start_polls_sent split: if_splits)

lemma note_result_sent [simp]: "rn_sent (note_result w g res r) = rn_sent r"
  by (simp add: note_result_def Let_def split: sum.split transport_error.split)

text \<open>An attempt sends at most once, and what it reports of a call it sent is that call's answer.\<close>

definition sends_one :: "'v world \<Rightarrow> run \<Rightarrow> (transport_error + 'v) \<Rightarrow> run \<Rightarrow> bool" where
  "sends_one w r result r' \<longleftrightarrow>
     rn_sent r' = rn_sent r \<and> (\<exists>e. result = Inl e) \<or> rn_sent r' = Suc (rn_sent r) \<and> result = w_call w (rn_sent r)"

lemma begin_attempt_sent: "begin_attempt w r = (ok, r') \<Longrightarrow> rn_sent r' = rn_sent r"
  by (auto simp: begin_attempt_def split: if_splits prod.splits)

lemma attempt_sent: "attempt w access r = ((result, started), r') \<Longrightarrow> sends_one w r result r'"
  by (auto simp: attempt_def send_def Let_def sends_one_def dest!: begin_attempt_sent
      split: prod.splits if_splits option.splits)

lemma install_sent: "install_fresh w g s r = (out, r') \<Longrightarrow> rn_sent r' = rn_sent r"
  by (auto simp: install_fresh_def Let_def split: prod.splits option.splits if_splits)

lemma replay_once_sent:
  assumes "replay_once w access r = (res, r')"
  shows "rn_sent r' \<in> {rn_sent r, Suc (rn_sent r)}" and "res = Inr v \<Longrightarrow> rn_sent r' = Suc (rn_sent r) \<and> w_call w (rn_sent r) = Inr v"
proof -
  obtain result started r1 where a: "attempt w access (next_tick w r) = ((result, started), r1)" by (metis prod.exhaust)
  then have "sends_one w r result r1" using attempt_sent by (fastforce simp: sends_one_def)
  with a assms show "rn_sent r' \<in> {rn_sent r, Suc (rn_sent r)}" "res = Inr v \<Longrightarrow> rn_sent r' = Suc (rn_sent r) \<and> w_call w (rn_sent r) = Inr v"
    by (auto simp: replay_once_def Let_def sends_one_def split: sum.splits if_splits)
qed

lemma reconnect_sent:
  assumes "reconnect_and_retry w access u g s r = (out, r')"
  shows "rn_sent r' \<in> {rn_sent r, Suc (rn_sent r)}" and "u \<noteq> None \<Longrightarrow> rn_sent r' = rn_sent r"
    and "out = None \<Longrightarrow> rn_sent r' = rn_sent r"
    and "out = Some (Inr v) \<Longrightarrow> rn_sent r' = Suc (rn_sent r) \<and> w_call w (rn_sent r) = Inr v"
proof -
  show "rn_sent r' \<in> {rn_sent r, Suc (rn_sent r)}" "u \<noteq> None \<Longrightarrow> rn_sent r' = rn_sent r" "out = None \<Longrightarrow> rn_sent r' = rn_sent r"
    "out = Some (Inr v) \<Longrightarrow> rn_sent r' = Suc (rn_sent r) \<and> w_call w (rn_sent r) = Inr v"
    using assms
    by (auto simp: reconnect_and_retry_def dest!: install_sent dest: replay_once_sent
        split: if_splits prod.splits installed.splits option.splits)
qed

text \<open>The errors after which an operation may be sent again: the request never reached the server, or the
  server refused it before doing anything; and, for a read, the connection was lost.\<close>

fun may_resend :: "replay_policy \<Rightarrow> transport_error \<Rightarrow> bool" where
  "may_resend policy (Retry _ _) = True"
| "may_resend policy (RateLimited _ _) = True"
| "may_resend policy (Classified (call_failure_kind.Timeout after_send) _) = (\<not> after_send)"
| "may_resend policy (Classified (Unavailable after_send) _) = (\<not> after_send)"
| "may_resend policy (TUnavailable _) = (policy = ReadOnly)"
| "may_resend policy _ = False"

lemma retryable_resend: "retry_after_of e \<noteq> None \<Longrightarrow> may_resend policy e"
  by (cases e) auto

lemma certain_resend: "is_health_failure e \<Longrightarrow> \<not> uncertain_failure policy e \<Longrightarrow> \<forall>m. e \<noteq> FrameRejected m \<Longrightarrow> may_resend policy e"
  by (induction e rule: is_health_failure.induct; cases policy) auto

lemma try_degrade_sent: "try_degrade w g s e p r = (d, r') \<Longrightarrow> rn_sent r' = rn_sent r"
  by (auto simp: try_degrade_def Let_def split: if_splits prod.splits)

lemma health_failure_sent:
  assumes "health_failure w access policy p e started g s r = (res, r')"
  shows "rn_sent r' \<in> {rn_sent r, Suc (rn_sent r)}" and "uncertain_failure policy e \<Longrightarrow> rn_sent r' = rn_sent r"
    and "res = Inr v \<Longrightarrow> rn_sent r' = Suc (rn_sent r) \<and> w_call w (rn_sent r) = Inr v"
proof -
  show "rn_sent r' \<in> {rn_sent r, Suc (rn_sent r)}" "uncertain_failure policy e \<Longrightarrow> rn_sent r' = rn_sent r"
    "res = Inr v \<Longrightarrow> rn_sent r' = Suc (rn_sent r) \<and> w_call w (rn_sent r) = Inr v"
    using assms
    by (auto simp: health_failure_def Let_def dest!: try_degrade_sent dest: reconnect_sent
        split: prod.splits bool.splits if_splits option.splits)
qed

lemma handle_failure_sent:
  assumes "handle_failure w access policy p e started g s resp r = (res, r')"
  shows "rn_sent r' \<in> {rn_sent r, Suc (rn_sent r)}" and "rn_sent r' = Suc (rn_sent r) \<Longrightarrow> may_resend policy e"
    and "res = Inr v \<Longrightarrow> rn_sent r' = Suc (rn_sent r) \<and> w_call w (rn_sent r) = Inr v"
proof -
  define r0 where "r0 = (if failure_kind e = Auth Endpoint \<and> w_supervised w
    then on_slot w (note_auth_failure g s (error_text (w_show_json w) e)) r else r)"
  have r0: "rn_sent r0 = rn_sent r" by (simp add: r0_def)
  have body: "(case e of
      FrameRejected _ \<Rightarrow> (Inl (call_failure_of w e), on_breaker w (record_concurrent_failure started (now_of w r0)) r0)
    | _ \<Rightarrow> if health_event w e g resp r0 then health_failure w access policy p e started g s (next_tick w r0)
           else (Inl (call_failure_of w e), next_tick w r0)) = (res, r')"
    using assms unfolding handle_failure_def Let_def r0_def by assumption
  show "rn_sent r' \<in> {rn_sent r, Suc (rn_sent r)}" "rn_sent r' = Suc (rn_sent r) \<Longrightarrow> may_resend policy e"
    "res = Inr v \<Longrightarrow> rn_sent r' = Suc (rn_sent r) \<and> w_call w (rn_sent r) = Inr v"
  proof -
    consider (rejected) m where "e = FrameRejected m"
      | (health) "\<forall>m. e \<noteq> FrameRejected m" "health_event w e g resp r0"
      | (plain) "\<forall>m. e \<noteq> FrameRejected m" "\<not> health_event w e g resp r0" by blast
    then have "rn_sent r' \<in> {rn_sent r, Suc (rn_sent r)} \<and> (rn_sent r' = Suc (rn_sent r) \<longrightarrow> may_resend policy e) \<and>
        (res = Inr v \<longrightarrow> rn_sent r' = Suc (rn_sent r) \<and> w_call w (rn_sent r) = Inr v)"
    proof cases
      case rejected
      with body r0 show ?thesis by auto
    next
      case health
      then have "health_failure w access policy p e started g s (next_tick w r0) = (res, r')"
        using body by (cases e) auto
      note sent = health_failure_sent [OF this]
      moreover have "may_resend policy e" if "\<not> uncertain_failure policy e"
        using health that certain_resend by (auto simp: health_event_def)
      ultimately show ?thesis using r0 by (cases "uncertain_failure policy e") auto
    next
      case plain
      then have "(res, r') = (Inl (call_failure_of w e), next_tick w r0)"
        using body by (cases e) auto
      with r0 show ?thesis by auto
    qed
    then show "rn_sent r' \<in> {rn_sent r, Suc (rn_sent r)}" "rn_sent r' = Suc (rn_sent r) \<Longrightarrow> may_resend policy e"
      "res = Inr v \<Longrightarrow> rn_sent r' = Suc (rn_sent r) \<and> w_call w (rn_sent r) = Inr v" by auto
  qed
qed

text \<open>What a dispatch from \<open>r\<close> to \<open>r'\<close> with at most \<open>n\<close> calls may have sent.\<close>

definition sends_safely :: "'v world \<Rightarrow> replay_policy \<Rightarrow> nat \<Rightarrow> run \<Rightarrow> (call_failure + 'v) \<Rightarrow> run \<Rightarrow> bool" where
  "sends_safely w policy n r res r' \<longleftrightarrow>
     rn_sent r \<le> rn_sent r' \<and> rn_sent r' \<le> rn_sent r + n \<and>
     (\<forall>k. rn_sent r \<le> k \<and> Suc k < rn_sent r' \<longrightarrow> (\<exists>e. w_call w k = Inl e \<and> may_resend policy e)) \<and>
     (\<forall>v. res = Inr v \<longrightarrow> rn_sent r < rn_sent r' \<and> w_call w (rn_sent r' - 1) = Inr v)"

lemma attempt_round_sent: "attempt_round w access r = (rd, r') \<Longrightarrow> sends_one w r (rd_result rd) r'"
  by (auto simp: attempt_round_def Let_def sends_one_def dest!: attempt_sent split: prod.splits)

lemma safely_none: "rn_sent r' = rn_sent r \<Longrightarrow> sends_safely w policy n r (Inl f) r'"
  by (auto simp: sends_safely_def)

lemma safely_mono: "sends_safely w policy m r res r' \<Longrightarrow> m \<le> n \<Longrightarrow> sends_safely w policy n r res r'"
  by (auto simp: sends_safely_def)

lemma safely_once: "sends_one w r result r' \<Longrightarrow> (\<And>v. res = Inr v \<Longrightarrow> result = Inr v) \<Longrightarrow> sends_safely w policy 1 r res r'"
  by (auto simp: sends_safely_def sends_one_def)

text \<open>A call that may be sent again, followed by more of them.\<close>

lemma safely_again:
  assumes "sends_one w r (Inl e) r1" and "rn_sent r1 < rn_sent r' \<Longrightarrow> may_resend policy e"
    and "sends_safely w policy n r1 res r'"
  shows "sends_safely w policy (Suc n) r res r'"
  unfolding sends_safely_def
proof (intro conjI allI impI)
  have near: "rn_sent r1 = rn_sent r \<or> rn_sent r1 = Suc (rn_sent r) \<and> w_call w (rn_sent r) = Inl e"
    using assms(1) by (auto simp: sends_one_def)
  with assms(3) show "rn_sent r \<le> rn_sent r'" "rn_sent r' \<le> rn_sent r + Suc n" by (auto simp: sends_safely_def)
  show "\<exists>e. w_call w k = Inl e \<and> may_resend policy e" if k: "rn_sent r \<le> k \<and> Suc k < rn_sent r'" for k
  proof (cases "rn_sent r1 \<le> k")
    case True
    with k assms(3) show ?thesis by (simp add: sends_safely_def)
  next
    case False
    with k near have "k = rn_sent r" and "w_call w (rn_sent r) = Inl e" "rn_sent r1 < rn_sent r'" by auto
    with assms(2) show ?thesis by blast
  qed
  show "rn_sent r < rn_sent r'" "w_call w (rn_sent r' - 1) = Inr v" if "res = Inr v" for v
    using that near assms(3) by (auto simp: sends_safely_def)
qed

lemma handle_safely:
  assumes "handle_failure w access policy p e started g s resp r = (res, r')"
  shows "sends_safely w policy 1 r res r'" and "rn_sent r < rn_sent r' \<Longrightarrow> may_resend policy e"
  using handle_failure_sent [OF assms] by (auto simp: sends_safely_def)

lemma retry_loop_sends: "retry_loop w access policy p left r = (res, r') \<Longrightarrow> sends_safely w policy (left + 2) r res r'"
proof (induction w access policy p left r rule: retry_loop.induct)
  case (1 w access policy p left r)
  obtain rd r1 where a: "attempt_round w access r = (rd, r1)" by fastforce
  note one = attempt_round_sent [OF a]
  show ?case
  proof (cases "(\<not> w_continuation w \<and> is_cancelled w r) \<or> (\<exists>v. rd_result rd = Inr v)")
    case True
    with 1(2) a show ?thesis
      using one safely_once [OF one, of res policy] safely_mono [of w policy 1 r res r' "left + 2"]
      by (auto simp: safely_none split: if_splits)
  next
    case go: False
    then obtain e where e: "rd_result rd = Inl e" by (cases "rd_result rd") auto
    note one = one [unfolded e]
    show ?thesis
    proof (cases "\<exists>d l. retry_after_of e = Some d \<and> left = Suc l")
      case True
      then obtain d l where d: "retry_after_of e = Some d" and l: "left = Suc l" by blast
      obtain b r2 where sl: "retry_sleep w (w_rounds w (rn_tick r1) (retry_wait d (http_max_retries - Suc l))) r1 = (b, r2)"
        by fastforce
      have one2: "sends_one w r (Inl e) r2" using one retry_sleep_sent [OF sl] by (simp add: sends_one_def)
      show ?thesis
      proof (cases b)
        case True
        with 1(2) a e d l sl go have "retry_loop w access policy p l r2 = (res, r')" by auto
        moreover have "b = True" using True by simp
        note IH = 1(1) [OF _ a [symmetric] e refl d l sl [symmetric] this]
        ultimately have "sends_safely w policy (l + 2) r2 res r'" using go by blast
        from safely_again [OF one2 retryable_resend this] d l show ?thesis by simp
      next
        case False
        with 1(2) a e d l sl go have "r' = r2" "\<exists>f. res = Inl f" by auto
        with safely_once [OF one2, of res policy] safely_mono show ?thesis by fastforce
      qed
    next
      case retry: False
      with 1(2) a e go have "handle_failure w access policy p e (rd_started rd) (rd_generation rd) (rd_successes rd)
          (rd_responses rd) r1 = (res, r')"
        by (cases left; cases "retry_after_of e") auto
      note h = handle_safely [OF this]
      from safely_again [OF one h(2) h(1)] safely_mono [of w policy 2 r res r' "left + 2"] show ?thesis by (simp add: numeral_2_eq_2)
    qed
  qed
qed

lemma call_sends: "call_with_retry w access policy r = (res, r') \<Longrightarrow> sends_safely w policy 4 r res r'"
proof -
  assume call: "call_with_retry w access policy r = (res, r')"
  show ?thesis
  proof (cases "\<not> w_continuation w \<and> is_cancelled w r")
    case True
    with call show ?thesis by (auto simp: call_with_retry_def intro: safely_none)
  next
    case go: False
    obtain ok r1 where start: "wait_for_start w (next_tick w r) = (ok, r1)" by fastforce
    have r1: "rn_sent r1 = rn_sent r" using wait_for_start_sent [OF start] by simp
    have from_r1: "sends_safely w policy n r1 res r' \<Longrightarrow> sends_safely w policy n r res r'" for n
      using r1 by (simp add: sends_safely_def)
    obtain a b where adm: "admit (now_of w r1) (sl_breaker (rn_slot r1)) = (a, b)" by fastforce
    define r2 where "r2 = next_tick w (on_breaker w (\<lambda>_. b) r1)"
    have r2: "rn_sent r2 = rn_sent r1" by (simp add: r2_def)
    consider (failed) "\<exists>f. res = Inl f" "rn_sent r' = rn_sent r1"
      | (loop) is_probe where "retry_loop w access policy is_probe http_max_retries r2 = (res, r')"
      | (reset) g s out r3 where "reconnect_and_retry w access None g s r2 = (out, r3)" "rn_sent r' = rn_sent r3"
          "out = Some res \<or> out = None \<and> (\<exists>f. res = Inl f)"
      using call go start adm
      by (cases ok; cases a) (auto simp: call_with_retry_def Let_def r2_def split: option.splits prod.splits)
    then have "sends_safely w policy 4 r1 res r'"
    proof cases
      case loop
      from retry_loop_sends [OF this] r2 show ?thesis by (simp add: sends_safely_def http_max_retries_def)
    next
      case reset
      from reconnect_sent [OF reset(1)] reset(2,3) r2 show ?thesis by (auto simp: sends_safely_def)
    qed (auto intro: safely_none)
    then show ?thesis by (rule from_r1)
  qed
qed

text \<open>C13: An operation whose effect is in doubt is never sent twice. Whatever the server, the clock and the
  other threads do, every downstream call of a dispatch but its last one failed in a way that shows
  the operation was not carried out (it never left, or was refused with a rate limit), or, for a
  read only, with a lost connection.\<close>

theorem no_ambiguous_replay:
  assumes "call_with_retry w access policy r = (res, r')" and "rn_sent r \<le> k" and "Suc k < rn_sent r'"
  shows "\<exists>e. w_call w k = Inl e \<and> may_resend policy e"
  using call_sends [OF assms(1)] assms(2,3) by (simp add: sends_safely_def)

text \<open>A server that is briefly unreachable, then answers.\<close>

definition sample_world :: "nat world" where
  "sample_world = \<lparr>w_id = ''s'', w_supervised = False, w_has_factory = False, w_continuation = False,
     w_now = (\<lambda>t. t), w_cancelled = (\<lambda>_. False), w_others = (\<lambda>_ sl. sl), w_rounds = (\<lambda>_ _. 2), w_jit = id,
     w_spawned = (\<lambda>_. Inr ()), w_reset_reason = (\<lambda>_. None), w_inner_free = (\<lambda>_. True), w_closed = (\<lambda>_. None),
     w_suspended = (\<lambda>_. 0), w_response_count = (\<lambda>_. 0), w_call_handle = (\<lambda>_. True), w_permit = (\<lambda>_. None),
     w_factory = (\<lambda>_. None), w_call = (\<lambda>k. if k = 0 then Inl (Retry None ''refused'') else Inr 42),
     w_show_json = (\<lambda>_. [])\<rparr>"

definition sample_run :: run where
  "sample_run = \<lparr>rn_tick = 0, rn_slot = new_slot default_backoff 0, rn_sent = 0\<rparr>"

lemma sample_dispatch:
  "fst (call_with_retry sample_world Shared NoAmbiguousReplay sample_run) = Inr 42"
  "rn_sent (snd (call_with_retry sample_world Shared NoAmbiguousReplay sample_run)) = 2"
  by (simp_all add: call_with_retry_def wait_for_start_def admit_def open_remaining_def new_breaker_def
      breaker_failure_threshold_def http_max_retries_def sample_world_def sample_run_def attempt_round_def
      attempt_def begin_attempt_def end_attempt_def send_def next_tick_def on_slot_def Let_def note_result_def
      responses_of_def new_slot_def numeral_2_eq_2)

theorem no_ambiguous_replay_witness:
  "rn_sent (snd (call_with_retry sample_world Shared NoAmbiguousReplay sample_run)) = 2 \<and>
   (\<exists>e. w_call sample_world 0 = Inl e \<and> may_resend NoAmbiguousReplay e)"
proof -
  obtain res r' where out: "call_with_retry sample_world Shared NoAmbiguousReplay sample_run = (res, r')" by fastforce
  have "rn_sent sample_run = 0" by (simp add: sample_run_def)
  with no_ambiguous_replay [OF out, of 0] sample_dispatch out show ?thesis by simp
qed

text \<open>C25: A dispatch ends after at most four downstream calls, the first, two retries and one replay on a new
  connection, and if it returns a value, that value is the answer of its last call.\<close>

theorem dispatch_bounded:
  "\<exists>res r'. call_with_retry w access policy r = (res, r') \<and> rn_sent r' \<le> rn_sent r + 4 \<and>
     (\<forall>v. res = Inr v \<longrightarrow> rn_sent r < rn_sent r' \<and> w_call w (rn_sent r' - 1) = Inr v)"
proof -
  obtain res r' where call: "call_with_retry w access policy r = (res, r')" by fastforce
  with call_sends [OF call] show ?thesis by (auto simp: sends_safely_def)
qed

theorem dispatch_bounded_witness:
  "fst (call_with_retry sample_world Shared NoAmbiguousReplay sample_run) = Inr 42 \<and> w_call sample_world 1 = Inr 42"
proof -
  obtain res r' where "call_with_retry sample_world Shared NoAmbiguousReplay sample_run = (res, r')"
      "\<forall>v. res = Inr v \<longrightarrow> w_call sample_world (rn_sent r' - 1) = Inr v"
    using dispatch_bounded [of sample_world Shared NoAmbiguousReplay sample_run] by blast
  with sample_dispatch show ?thesis by simp
qed

end
