(* ===== verification/RouterCalls.thy ===== *)
theory RouterCalls
  imports CatalogSafety Dispatch
begin

text \<open>
  Requests through the router (\<open>router.rs\<close>): tool calls, the Tasks extension with its sealed handles,
  resources, prompts and completions. Each resolves the owner, asks the policy, and dispatches to
  that server's slot with the retries of \<open>call_with_retry\<close>.

  The downstream servers are a world for every server and request, and the state is the run of every
  slot. Parameters, in \<open>call_env\<close>: restoring the arguments that a rewritten schema renamed
  (\<open>schema_compat.rs\<close>), and for task handles the cipher, Base64, the JSON text and the key. A nonce
  that could not be drawn is \<open>None\<close>.
\<close>

section \<open>Task handles\<close>

record seal_env =
  se_key :: "string + string"
  se_encrypt :: "string \<Rightarrow> string \<Rightarrow> string \<Rightarrow> string option"
  se_decrypt :: "string \<Rightarrow> string \<Rightarrow> string \<Rightarrow> string option"
  se_encode :: "string \<Rightarrow> string"
  se_decode :: "string \<Rightarrow> string option"
  se_write :: "json \<Rightarrow> string"
  se_read :: "string \<Rightarrow> json option"

definition task_handle_prefix :: string where
  "task_handle_prefix = ''toolport-task:v1:''"

definition task_handle_nonce_len :: nat where
  "task_handle_nonce_len = 24"

definition expose_task_id :: "seal_env \<Rightarrow> (string + string) \<Rightarrow> string \<Rightarrow> string \<Rightarrow> string + string" where
  "expose_task_id se nonce server task =
     (case se_key se of
        Inl e \<Rightarrow> Inl e
      | Inr key \<Rightarrow>
          (case nonce of
             Inl e \<Rightarrow> Inl e
           | Inr nonce \<Rightarrow>
               (case se_encrypt se key nonce (se_write se (JArr [JStr server, JStr task])) of
                  None \<Rightarrow> Inl ''could not seal Toolport task id''
                | Some cipher \<Rightarrow> Inr (task_handle_prefix @ se_encode se (nonce @ cipher)))))"

definition unseal_pair :: "json \<Rightarrow> (string \<times> string) option" where
  "unseal_pair v = (case v of JArr [JStr s, JStr t] \<Rightarrow> Some (s, t) | _ \<Rightarrow> None)"

definition decode_task_id :: "seal_env \<Rightarrow> string \<Rightarrow> string + string \<times> string" where
  "decode_task_id se exposed =
     (case strip_prefix task_handle_prefix exposed of
        None \<Rightarrow> Inl ''task id was not issued by Toolport''
      | Some encoded \<Rightarrow>
          (case se_decode se encoded of
             None \<Rightarrow> Inl ''malformed Toolport task id''
           | Some blob \<Rightarrow>
               if length blob \<le> task_handle_nonce_len then Inl ''malformed Toolport task id''
               else case se_key se of
                      Inl e \<Rightarrow> Inl e
                    | Inr key \<Rightarrow>
                        (case se_decrypt se key (take task_handle_nonce_len blob) (drop task_handle_nonce_len blob) of
                           None \<Rightarrow> Inl ''task id was not issued by Toolport''
                         | Some plain \<Rightarrow>
                             (case Option.bind (se_read se plain) unseal_pair of
                                None \<Rightarrow> Inl ''malformed Toolport task id''
                              | Some (server, task) \<Rightarrow>
                                  if server = [] \<or> task = [] then Inl ''malformed Toolport task id'' else Inr (server, task)))))"

definition expose_task_result :: "seal_env \<Rightarrow> (string + string) \<Rightarrow> string \<Rightarrow> json \<Rightarrow> string + json" where
  "expose_task_result se nonce server result =
     (case jget_str ''taskId'' result of
        None \<Rightarrow> Inl ''downstream task result is missing taskId''
      | Some task \<Rightarrow> map_sum id (\<lambda>h. set_key ''taskId'' (JStr h) result) (expose_task_id se nonce server task))"

definition client_supports_tasks :: "json option \<Rightarrow> bool" where
  "client_supports_tasks meta \<longleftrightarrow>
     Option.bind (Option.bind (Option.bind meta (jget ''io.modelcontextprotocol/clientCapabilities'')) (jget ''extensions''))
       (jget ''io.modelcontextprotocol/tasks'') \<noteq> None"

definition task_server :: "seal_env \<Rightarrow> string \<Rightarrow> string option" where
  "task_server se handle = (case decode_task_id se handle of Inr (server, _) \<Rightarrow> Some server | Inl _ \<Rightarrow> None)"

section \<open>Dispatching to a slot\<close>

datatype downstream_request =
    CallTool string json
  | TaskRequest string json
  | ReadResource string
  | Subscribe string
  | Unsubscribe string
  | GetPrompt string json
  | Complete json

text \<open>The answer of a call, with whether the server advertised the Tasks extension.\<close>

record 'a call_env =
  cv_kick :: kick_env
  cv_seal :: seal_env
  cv_nonce :: "string + string"
  cv_restore :: "'a \<Rightarrow> json \<Rightarrow> string + json"
  cv_world :: "string \<Rightarrow> downstream_request \<Rightarrow> (json \<times> bool) world"

record net =
  nt_runs :: "string \<Rightarrow> run"
  nt_fleet :: fleet

definition dispatch ::
  "'a call_env \<Rightarrow> string \<Rightarrow> replay_policy \<Rightarrow> slot_access \<Rightarrow> downstream_request \<Rightarrow> net \<Rightarrow> (call_failure + json \<times> bool) \<times> net" where
  "dispatch cv server policy access req nt =
     (let (res, r) = call_with_retry (cv_world cv server req) access policy (nt_runs nt server)
      in (res, nt\<lparr>nt_runs := (nt_runs nt)(server := r)\<rparr>))"

text \<open>\<open>call_with_retry\<close>, whose failure is its text.\<close>

definition dispatch_text ::
  "'a call_env \<Rightarrow> string \<Rightarrow> replay_policy \<Rightarrow> slot_access \<Rightarrow> downstream_request \<Rightarrow> net \<Rightarrow> (string + json) \<times> net" where
  "dispatch_text cv server policy access req nt =
     map_prod (map_sum cf_detail fst) id (dispatch cv server policy access req nt)"

definition slot_for :: "'a router \<Rightarrow> string \<Rightarrow> string + server_catalog" where
  "slot_for rt server =
     (case slot_of rt server of Some sc \<Rightarrow> Inr sc | None \<Rightarrow> Inl (''no connected server '' @ quote server))"

definition authorized_slot :: "'a router \<Rightarrow> string \<Rightarrow> string + server_catalog" where
  "authorized_slot rt server = (case authorize_server rt server of Inl e \<Rightarrow> Inl e | Inr _ \<Rightarrow> slot_for rt server)"

section \<open>Tool calls and tasks\<close>

definition restore_arguments :: "'a call_env \<Rightarrow> 'a router \<Rightarrow> string \<Rightarrow> json \<Rightarrow> string + json" where
  "restore_arguments cv rt exposed arguments =
     (case map_of (rt_arguments rt) exposed of None \<Rightarrow> Inr arguments | Some plan \<Rightarrow> cv_restore cv plan arguments)"

definition finish_call :: "'a call_env \<Rightarrow> string \<Rightarrow> json option \<Rightarrow> json \<times> bool \<Rightarrow> call_failure + json" where
  "finish_call cv server meta = (\<lambda>(result, supports_tasks).
     if jget_str ''resultType'' result = Some ''task'' then
       if \<not> client_supports_tasks meta
       then Inl (failure Internal ''downstream returned a task without the required client capability'')
       else if \<not> supports_tasks
       then Inl (failure Internal ''downstream returned a task without advertising the Tasks extension'')
       else map_sum (failure Internal) id (expose_task_result (cv_seal cv) (cv_nonce cv) server result)
     else Inr result)"

definition route_call :: "'a call_env \<Rightarrow> 'a router \<Rightarrow> string \<Rightarrow> json \<Rightarrow> json option \<Rightarrow> net \<Rightarrow> (call_failure + json) \<times> net" where
  "route_call cv rt exposed arguments meta nt =
     (case authorize (cv_kick cv) rt (ToolTarget exposed) (nt_fleet nt) of
        (Inl e, fl) \<Rightarrow> (Inl (failure Internal e), nt\<lparr>nt_fleet := fl\<rparr>)
      | (Inr _, fl) \<Rightarrow>
          (case map_of (rt_routes rt) exposed of
             None \<Rightarrow>
               (let (message, fl) = no_route_message (cv_kick cv) rt exposed fl
                in (Inl (failure NotFound message), nt\<lparr>nt_fleet := fl\<rparr>))
           | Some (server, tool) \<Rightarrow>
               (let nt = nt\<lparr>nt_fleet := fl\<rparr>
                in case restore_arguments cv rt exposed arguments of
                     Inl detail \<Rightarrow> (Inl (failure (InvalidInput [] []) detail), nt)
                   | Inr arguments \<Rightarrow>
                       (case authorized_slot rt server of
                          Inl e \<Rightarrow> (Inl (failure Internal e), nt)
                        | Inr _ \<Rightarrow>
                            (case dispatch cv server NoAmbiguousReplay Shared (CallTool tool arguments) nt of
                               (Inl f, nt) \<Rightarrow> (Inl f, nt)
                             | (Inr answer, nt) \<Rightarrow> (finish_call cv server meta answer, nt))))))"

definition task_methods :: "string list" where
  "task_methods = [''tasks/get'', ''tasks/update'', ''tasks/cancel'']"

definition task_slot :: "'a router \<Rightarrow> string \<Rightarrow> string \<Rightarrow> string + server_catalog" where
  "task_slot rt meth server = (if meth = ''tasks/cancel'' then slot_for rt server else authorized_slot rt server)"

definition finish_task :: "string \<Rightarrow> string \<Rightarrow> json \<Rightarrow> string + json" where
  "finish_task meth exposed result =
     (if meth = ''tasks/get'' then
        if jget_str ''taskId'' result = None then Inl ''downstream task result is missing taskId''
        else Inr (set_key ''taskId'' (JStr exposed) result)
      else if jget ''taskId'' result \<noteq> None then Inr (set_key ''taskId'' (JStr exposed) result)
      else Inr result)"

definition route_task :: "'a call_env \<Rightarrow> 'a router \<Rightarrow> string \<Rightarrow> json \<Rightarrow> json option \<Rightarrow> net \<Rightarrow> (string + json) \<times> net" where
  "route_task cv rt meth params meta nt =
     (if meth \<notin> set task_methods then (Inl (''unsupported task method '' @ quote meth), nt)
      else if \<not> client_supports_tasks meta
      then (Inl (meth @ '' requires the io.modelcontextprotocol/tasks client capability''), nt)
      else case jget_str ''taskId'' params of
             None \<Rightarrow> (Inl (meth @ '' requires params.taskId''), nt)
           | Some exposed \<Rightarrow>
               (case decode_task_id (cv_seal cv) exposed of
                  Inl e \<Rightarrow> (Inl e, nt)
                | Inr (server, native) \<Rightarrow>
                    (case task_slot rt meth server of
                       Inl e \<Rightarrow> (Inl e, nt)
                     | Inr _ \<Rightarrow>
                         (case dispatch_text cv server (policy_for_task meth) Shared
                                 (TaskRequest meth (set_key ''taskId'' (JStr native) params)) nt of
                            (Inl e, nt) \<Rightarrow> (Inl e, nt)
                          | (Inr result, nt) \<Rightarrow> (finish_task meth exposed result, nt)))))"

section \<open>Resources, prompts and completions\<close>

definition dispatch_authorized ::
  "'a call_env \<Rightarrow> 'a router \<Rightarrow> string \<Rightarrow> replay_policy \<Rightarrow> slot_access \<Rightarrow> downstream_request \<Rightarrow> net \<Rightarrow> (string + json) \<times> net" where
  "dispatch_authorized cv rt server policy access req nt =
     (case authorized_slot rt server of Inl e \<Rightarrow> (Inl e, nt) | Inr _ \<Rightarrow> dispatch_text cv server policy access req nt)"

definition no_owner :: "string \<Rightarrow> string" where
  "no_owner uri = ''no server owns resource '' @ quote uri"

definition read_resource :: "'a call_env \<Rightarrow> 'a router \<Rightarrow> string \<Rightarrow> net \<Rightarrow> (string + json) \<times> net" where
  "read_resource cv rt uri nt =
     (case resource_server rt uri of
        None \<Rightarrow> (Inl (no_owner uri), nt)
      | Some server \<Rightarrow> dispatch_authorized cv rt server ReadOnly Shared (ReadResource uri) nt)"

definition subscribe_resource :: "'a call_env \<Rightarrow> 'a router \<Rightarrow> string \<Rightarrow> net \<Rightarrow> (string + json) \<times> net" where
  "subscribe_resource cv rt uri nt =
     (case resource_server rt uri of
        None \<Rightarrow> (Inl (no_owner uri), nt)
      | Some server \<Rightarrow> dispatch_authorized cv rt server NoAmbiguousReplay Locked (Subscribe uri) nt)"

definition unsubscribe_resource_on_server :: "'a call_env \<Rightarrow> 'a router \<Rightarrow> string \<Rightarrow> string \<Rightarrow> net \<Rightarrow> (string + json) \<times> net" where
  "unsubscribe_resource_on_server cv rt server uri nt =
     (case slot_for rt server of
        Inl e \<Rightarrow> (Inl e, nt)
      | Inr _ \<Rightarrow>
          (let w = cv_world cv server (Unsubscribe uri); r = nt_runs nt server
           in if w_supervised w then
                if sv_state (sl_sup (rn_slot r)) \<noteq> Ready then (Inr (JObj []), nt)
                else case attempt w Locked r of
                       ((res, _), r) \<Rightarrow> (map_sum (error_text (w_show_json w)) fst res, nt\<lparr>nt_runs := (nt_runs nt)(server := r)\<rparr>)
              else dispatch_text cv server NoAmbiguousReplay Locked (Unsubscribe uri) nt))"

definition unsubscribe_resource :: "'a call_env \<Rightarrow> 'a router \<Rightarrow> string \<Rightarrow> net \<Rightarrow> (string + json) \<times> net" where
  "unsubscribe_resource cv rt uri nt =
     (case resource_server rt uri of
        None \<Rightarrow> (Inl (no_owner uri), nt)
      | Some server \<Rightarrow> unsubscribe_resource_on_server cv rt server uri nt)"

definition get_prompt :: "'a call_env \<Rightarrow> 'a router \<Rightarrow> string \<Rightarrow> json \<Rightarrow> net \<Rightarrow> (string + json) \<times> net" where
  "get_prompt cv rt exposed arguments nt =
     (case map_of (rt_prompt_routes rt) exposed of
        None \<Rightarrow> (Inl (''no route for prompt '' @ quote exposed), nt)
      | Some (server, name) \<Rightarrow> dispatch_authorized cv rt server ReadOnly Shared (GetPrompt name arguments) nt)"

definition resolve_completion :: "'a router \<Rightarrow> json \<Rightarrow> string + string \<times> json" where
  "resolve_completion rt params =
     (case jget ''ref'' params of
        None \<Rightarrow> Inl ''completion/complete requires params.ref''
      | Some ref \<Rightarrow>
          (case jget_str ''type'' ref of
             None \<Rightarrow> Inl ''completion/complete ref.type is required''
           | Some kind \<Rightarrow>
               if kind = ''ref/prompt'' then
                 case jget_str ''name'' ref of
                   None \<Rightarrow> Inl ''completion/complete ref/prompt requires name''
                 | Some exposed \<Rightarrow>
                     (case map_of (rt_prompt_routes rt) exposed of
                        None \<Rightarrow> Inl (''no route for prompt '' @ quote exposed)
                      | Some (server, orig) \<Rightarrow> Inr (server, set_key ''ref'' (set_key ''name'' (JStr orig) ref) params))
               else if kind = ''ref/resource'' then
                 case jget_str ''uri'' ref of
                   None \<Rightarrow> Inl ''completion/complete ref/resource requires uri''
                 | Some uri \<Rightarrow>
                     (case (case map_of (rt_template_routes rt) uri of Some s \<Rightarrow> Some s | None \<Rightarrow> resource_server rt uri) of
                        None \<Rightarrow> Inl (''no server owns resource template or uri '' @ quote uri)
                      | Some server \<Rightarrow> Inr (server, params))
               else Inl (''unsupported completion ref type '' @ quote kind)))"

definition complete_request :: "'a call_env \<Rightarrow> 'a router \<Rightarrow> json \<Rightarrow> net \<Rightarrow> (string + json) \<times> net" where
  "complete_request cv rt params nt =
     (case resolve_completion rt params of
        Inl e \<Rightarrow> (Inl e, nt)
      | Inr (server, forwarded) \<Rightarrow> dispatch_authorized cv rt server ReadOnly Shared (Complete forwarded) nt)"

section \<open>What a request may do\<close>

text \<open>A request that contacts at most one server, with the sends \<open>sends_safely\<close> allows.\<close>

definition contacts :: "'a call_env \<Rightarrow> (string \<Rightarrow> downstream_request \<Rightarrow> replay_policy \<Rightarrow> bool) \<Rightarrow> net \<Rightarrow> net \<Rightarrow> bool" where
  "contacts cv ok nt nt' \<longleftrightarrow> nt_runs nt' = nt_runs nt \<or>
     (\<exists>server req policy. ok server req policy \<and> (\<forall>s. s \<noteq> server \<longrightarrow> nt_runs nt' s = nt_runs nt s) \<and>
        (\<exists>res. sends_safely (cv_world cv server req) policy 4 (nt_runs nt server) res (nt_runs nt' server)))"

lemma contacts_none: "nt_runs nt' = nt_runs nt \<Longrightarrow> contacts cv ok nt nt'"
  by (simp add: contacts_def)

lemma contacts_mono: "contacts cv ok nt nt' \<Longrightarrow> (\<And>server req policy. ok server req policy \<Longrightarrow> ok' server req policy) \<Longrightarrow> contacts cv ok' nt nt'"
  unfolding contacts_def by blast

lemma contacts_fleet [simp]: "contacts cv ok (nt\<lparr>nt_fleet := fl\<rparr>) nt' = contacts cv ok nt nt'"
  by (simp add: contacts_def)

lemma dispatch_contacts: "dispatch cv server policy access req nt = (res, nt') \<Longrightarrow> ok server req policy \<Longrightarrow> contacts cv ok nt nt'"
  unfolding dispatch_def contacts_def by (auto split: prod.splits dest!: call_sends intro!: exI [of _ server])

lemma dispatch_text_contacts: "dispatch_text cv server policy access req nt = (res, nt') \<Longrightarrow> ok server req policy \<Longrightarrow> contacts cv ok nt nt'"
  unfolding dispatch_text_def by (metis dispatch_contacts id_apply map_prod_simp prod.collapse snd_conv)

lemma authorized_slot_ok: "authorized_slot rt server = Inr sc \<Longrightarrow> allows_server (rt_policy rt) server \<and> slot_of rt server = Some sc"
  by (auto simp: authorized_slot_def authorize_server_def slot_for_def split: if_splits option.splits)

lemma dispatch_authorized_contacts:
  assumes "dispatch_authorized cv rt server policy access req nt = (res, nt')"
    and "allows_server (rt_policy rt) server \<Longrightarrow> ok server req policy"
  shows "contacts cv ok nt nt'"
proof (cases "authorized_slot rt server")
  case (Inl e)
  with assms(1) show ?thesis by (simp add: dispatch_authorized_def contacts_none)
next
  case (Inr sc)
  then have "dispatch_text cv server policy access req nt = (res, nt')" using assms(1) by (simp add: dispatch_authorized_def)
  with authorized_slot_ok [OF Inr] assms(2) show ?thesis by (blast intro: dispatch_text_contacts)
qed

lemma authorize_tool:
  "authorize kx rt (ToolTarget e) fl = (Inr u, fl') \<Longrightarrow> map_of (rt_blocked rt) e = None"
  by (auto simp: authorize_def map_prod_def split: option.splits if_splits prod.splits)

text \<open>What a tool call may send is settled once it is authorized, routed and its arguments are restored.\<close>

lemma route_call_contacts:
  assumes run: "route_call cv rt e arguments meta nt = (res, nt')"
    and ok: "\<And>u fl server tool args sc. authorize (cv_kick cv) rt (ToolTarget e) (nt_fleet nt) = (Inr u, fl) \<Longrightarrow>
      map_of (rt_routes rt) e = Some (server, tool) \<Longrightarrow> restore_arguments cv rt e arguments = Inr args \<Longrightarrow>
      authorized_slot rt server = Inr sc \<Longrightarrow> ok server (CallTool tool args) NoAmbiguousReplay"
  shows "contacts cv ok nt nt'"
proof -
  obtain out fl where auth: "authorize (cv_kick cv) rt (ToolTarget e) (nt_fleet nt) = (out, fl)" by fastforce
  show ?thesis
  proof (cases "\<exists>u server tool args sc. out = Inr u \<and> map_of (rt_routes rt) e = Some (server, tool) \<and>
      restore_arguments cv rt e arguments = Inr args \<and> authorized_slot rt server = Inr sc")
    case True
    then obtain u server tool args sc where out: "out = Inr u" and route: "map_of (rt_routes rt) e = Some (server, tool)"
      and args: "restore_arguments cv rt e arguments = Inr args" and slot: "authorized_slot rt server = Inr sc" by blast
    obtain r nt1 where d: "dispatch cv server NoAmbiguousReplay Shared (CallTool tool args) (nt\<lparr>nt_fleet := fl\<rparr>) = (r, nt1)" by fastforce
    with run auth out route args slot have "nt' = nt1" by (auto simp: route_call_def split: sum.splits)
    with dispatch_contacts [OF d] ok [OF _ route args slot] auth out show ?thesis by simp
  next
    case False
    with run auth show ?thesis
      by (intro contacts_none) (auto simp: route_call_def Let_def split: sum.splits option.splits prod.splits)
  qed
qed

text \<open>C1: A tool call contacts at most one server, whatever the downstream servers answer: the one the exposed
  name is routed to, under the tool's own name there, when the router lists the tool, does not block
  it and its policy allows the tool and the server. It makes at most four calls, and each but the last
  failed in a way that shows the tool did not run.\<close>

theorem tool_call_confined:
  assumes "reachable (\<lambda>rt. \<exists>p. rt = with_policy p) (catalog_step env) rt"
    and "route_call cv rt e arguments meta nt = (res, nt')"
  shows "contacts cv (\<lambda>server req policy. policy = NoAmbiguousReplay \<and>
      (\<exists>tool args d. req = CallTool tool args \<and> map_of (rt_routes rt) e = Some (server, tool) \<and>
         map_of (rt_blocked rt) e = None \<and> allows_server (rt_policy rt) server \<and>
         d \<in> set (rt_tools rt) \<and> jget_str ''name'' d = Some e \<and>
         policy_blocked_reason rt e server tool (metadata_of (set_key ''name'' (JStr tool) d)) = None)) nt nt'"
    (is "contacts cv ?ok nt nt'")
proof (rule route_call_contacts [OF assms(2)])
  fix u fl server tool args sc
  assume auth: "authorize (cv_kick cv) rt (ToolTarget e) (nt_fleet nt) = (Inr u, fl)"
    and route: "map_of (rt_routes rt) e = Some (server, tool)" and slot: "authorized_slot rt server = Inr sc"
  have ok: "catalog_ok rt" using catalog_sys.reachable_inv [OF assms(1)] by (simp add: router_ok_def)
  obtain d where "d \<in> set (rt_tools rt)" "jget_str ''name'' d = Some e"
      "policy_blocked_reason rt e server tool (metadata_of (set_key ''name'' (JStr tool) d)) = None"
    using catalog_butD(3) [OF ok route] catalog_butD(1) [OF ok] route unfolding listed_ok_def by fastforce
  then show "?ok server (CallTool tool args) NoAmbiguousReplay"
    using route authorized_slot_ok [OF slot] authorize_tool [OF auth] by auto
qed

text \<open>A task handle given out for a server and its task id leads back to exactly those, given a cipher that
  decrypts what it encrypted, a Base64 that decodes what it encoded and JSON text that reads back.\<close>

theorem task_handle_roundtrip:
  assumes "\<And>k n p c. se_encrypt se k n p = Some c \<Longrightarrow> c \<noteq> [] \<and> se_decrypt se k n c = Some p"
    and "\<And>b. se_decode se (se_encode se b) = Some b" and "\<And>s t. se_read se (se_write se (JArr [JStr s, JStr t])) = Some (JArr [JStr s, JStr t])"
    and "server \<noteq> []" and "task \<noteq> []" and "length n = task_handle_nonce_len"
    and "expose_task_id se (Inr n) server task = Inr handle"
  shows "decode_task_id se handle = Inr (server, task) \<and> task_server se handle = Some server"
proof -
  obtain key c where key: "se_key se = Inr key" and c: "se_encrypt se key n (se_write se (JArr [JStr server, JStr task])) = Some c"
    and h: "handle = task_handle_prefix @ se_encode se (n @ c)"
    using assms(7) by (auto simp: expose_task_id_def split: sum.splits option.splits)
  have "strip_prefix task_handle_prefix handle = Some (se_encode se (n @ c))" by (simp add: h strip_prefix_Some)
  with key assms(1) [OF c] assms(2-6) have "decode_task_id se handle = Inr (server, task)"
    by (simp add: decode_task_id_def unseal_pair_def)
  then show ?thesis by (simp add: task_server_def)
qed

text \<open>A cipher that marks its text, no Base64, and a text that gives the length of the first string.\<close>

definition sample_seal :: seal_env where
  "sample_seal = \<lparr>se_key = Inr ''k'', se_encrypt = (\<lambda>_ _ p. Some (CHR ''T'' # p)), se_decrypt = (\<lambda>_ _ c. Some (drop 1 c)),
     se_encode = id, se_decode = Some,
     se_write = (\<lambda>v. case unseal_pair v of Some (s, t) \<Rightarrow> replicate (length s) (CHR 0x01) @ [CHR 0x00] @ s @ t | None \<Rightarrow> []),
     se_read = (\<lambda>p. let n = length (takeWhile (\<lambda>c. c = CHR 0x01) p); rest = drop (n + 1) p
                     in Some (JArr [JStr (take n rest), JStr (drop n rest)]))\<rparr>"

lemma sample_seal_reads:
  "se_read sample_seal (se_write sample_seal (JArr [JStr s, JStr t])) = Some (JArr [JStr s, JStr t])"
proof -
  have "takeWhile (\<lambda>c. c = CHR 0x01) (replicate n (CHR 0x01) @ CHR 0x00 # r) = replicate n (CHR 0x01)" for n r
    by (induction n) auto
  then show ?thesis by (simp add: sample_seal_def unseal_pair_def Let_def)
qed

theorem task_handle_roundtrip_witness:
  "\<exists>handle. expose_task_id sample_seal (Inr (replicate 24 (CHR ''n''))) ''db'' ''17'' = Inr handle \<and>
     decode_task_id sample_seal handle = Inr (''db'', ''17'') \<and> task_server sample_seal handle = Some ''db''"
proof -
  have "se_encrypt sample_seal k n p = Some c \<Longrightarrow> c \<noteq> [] \<and> se_decrypt sample_seal k n c = Some p" for k n p c
    by (auto simp: sample_seal_def)
  moreover have "se_decode sample_seal (se_encode sample_seal b) = Some b" for b by (simp add: sample_seal_def)
  moreover obtain handle where h: "expose_task_id sample_seal (Inr (replicate 24 (CHR ''n''))) ''db'' ''17'' = Inr handle"
    by (simp add: expose_task_id_def sample_seal_def)
  ultimately have "decode_task_id sample_seal handle = Inr (''db'', ''17'') \<and> task_server sample_seal handle = Some ''db''"
    by (intro task_handle_roundtrip [OF _ _ sample_seal_reads _ _ _ h]) (auto simp: task_handle_nonce_len_def)
  with h show ?thesis by blast
qed

text \<open>C12: A task request contacts at most one server, the one its handle was sealed for, and one the policy
  allows unless the request cancels the task. The server sees its own task id in place of the handle, and
  what comes back carries the handle or no task id, never the server's own.\<close>

theorem route_task_confined:
  assumes "route_task cv rt meth params meta nt = (res, nt')"
  shows "contacts cv (\<lambda>server req policy. policy = policy_for_task meth \<and> meth \<in> set task_methods \<and>
      (\<exists>handle native. jget_str ''taskId'' params = Some handle \<and> decode_task_id (cv_seal cv) handle = Inr (server, native) \<and>
         req = TaskRequest meth (set_key ''taskId'' (JStr native) params) \<and>
         (meth = ''tasks/cancel'' \<or> allows_server (rt_policy rt) server))) nt nt' \<and>
    (\<forall>v. res = Inr v \<longrightarrow> jget ''taskId'' v = None \<or> jget ''taskId'' v = jget ''taskId'' params)"
    (is "contacts cv ?ok nt nt' \<and> ?opaque")
proof (cases "\<exists>handle server native sc. meth \<in> set task_methods \<and> client_supports_tasks meta \<and> jget_str ''taskId'' params = Some handle \<and>
    decode_task_id (cv_seal cv) handle = Inr (server, native) \<and> task_slot rt meth server = Inr sc")
  case True
  then obtain handle server native sc where m: "meth \<in> set task_methods" "client_supports_tasks meta"
    and handle: "jget_str ''taskId'' params = Some handle" and dec: "decode_task_id (cv_seal cv) handle = Inr (server, native)"
    and slot: "task_slot rt meth server = Inr sc" by blast
  let ?req = "TaskRequest meth (set_key ''taskId'' (JStr native) params)"
  obtain out nt1 where d: "dispatch_text cv server (policy_for_task meth) Shared ?req nt = (out, nt1)" by fastforce
  have run: "nt' = nt1" "res = (case out of Inl e \<Rightarrow> Inl e | Inr v \<Rightarrow> finish_task meth handle v)"
    using assms m handle dec slot d by (auto simp: route_task_def split: sum.splits)
  have "?ok server ?req (policy_for_task meth)"
    using m(1) handle dec slot authorized_slot_ok by (auto simp: task_slot_def split: if_splits)
  moreover have "jget ''taskId'' v = None \<or> jget ''taskId'' v = Some (JStr handle)" if "finish_task meth handle r = Inr v" for r v
    using that by (cases r) (auto simp: finish_task_def map_of_obj_insert jget_str_def split: if_splits)
  ultimately show ?thesis
    using dispatch_text_contacts [OF d, of ?ok] run jget_str_name [OF handle] by (auto split: sum.splits)
next
  case False
  with assms have "nt' = nt" "\<exists>e. res = Inl e" by (auto simp: route_task_def split: if_splits sum.splits option.splits)
  then show ?thesis by (auto intro: contacts_none)
qed

text \<open>Every other request goes to the server that owns what it names, when the policy allows the server.
  A cancelled subscription is the exception: it reaches the owner whatever the policy says.\<close>

theorem requests_authorized:
  "contacts cv (\<lambda>server req policy. allows_server (rt_policy rt) server \<and> resource_server rt uri = Some server \<and>
     req = ReadResource uri \<and> policy = ReadOnly) nt (snd (read_resource cv rt uri nt)) \<and>
   contacts cv (\<lambda>server req policy. allows_server (rt_policy rt) server \<and> resource_server rt uri = Some server \<and>
     req = Subscribe uri \<and> policy = NoAmbiguousReplay) nt (snd (subscribe_resource cv rt uri nt)) \<and>
   contacts cv (\<lambda>server req policy. allows_server (rt_policy rt) server \<and> policy = ReadOnly \<and>
     (\<exists>name. map_of (rt_prompt_routes rt) exposed = Some (server, name) \<and> req = GetPrompt name arguments)) nt
     (snd (get_prompt cv rt exposed arguments nt)) \<and>
   contacts cv (\<lambda>server req policy. allows_server (rt_policy rt) server \<and> policy = ReadOnly \<and>
     (\<exists>forwarded. resolve_completion rt params = Inr (server, forwarded) \<and> req = Complete forwarded)) nt
     (snd (complete_request cv rt params nt))"
  unfolding read_resource_def subscribe_resource_def get_prompt_def complete_request_def
  by (auto split: option.split sum.split prod.split intro: contacts_none
      intro!: dispatch_authorized_contacts [OF prod.collapse [symmetric]])

text \<open>A server that answers every request.\<close>

definition sample_answers :: "json \<Rightarrow> (json \<times> bool) world" where
  "sample_answers v = \<lparr>w_id = ''beta'', w_supervised = False, w_has_factory = False, w_continuation = False,
     w_now = (\<lambda>t. t), w_cancelled = (\<lambda>_. False), w_others = (\<lambda>_ sl. sl), w_rounds = (\<lambda>_ _. 2), w_jit = id,
     w_spawned = (\<lambda>_. Inr ()), w_reset_reason = (\<lambda>_. None), w_inner_free = (\<lambda>_. True), w_closed = (\<lambda>_. None),
     w_suspended = (\<lambda>_. 0), w_response_count = (\<lambda>_. 0), w_call_handle = (\<lambda>_. True), w_permit = (\<lambda>_. None),
     w_factory = (\<lambda>_. None), w_call = (\<lambda>_. Inr (v, True)), w_show_json = (\<lambda>_. [])\<rparr>"

definition sample_calls :: "json \<Rightarrow> nat call_env" where
  "sample_calls v = \<lparr>cv_kick = sample_kick, cv_seal = sample_seal, cv_nonce = Inr (replicate 24 (CHR ''n'')),
     cv_restore = (\<lambda>_. Inr), cv_world = (\<lambda>_ _. sample_answers v)\<rparr>"

definition sample_net :: net where
  "sample_net = \<lparr>nt_runs = (\<lambda>_. sample_run), nt_fleet = \<lparr>fl_slots = [], fl_pending = []\<rparr>\<rparr>"

lemma sample_answered:
  "call_with_retry (sample_answers v) Shared policy sample_run = (Inr (v, True), r) \<Longrightarrow> rn_sent r = 1"
  "fst (call_with_retry (sample_answers v) Shared policy sample_run) = Inr (v, True)"
  by (simp_all add: call_with_retry_def wait_for_start_def admit_def open_remaining_def new_breaker_def
      breaker_failure_threshold_def http_max_retries_def sample_answers_def sample_run_def attempt_round_def
      attempt_def begin_attempt_def end_attempt_def send_def next_tick_def on_slot_def Let_def note_result_def
      responses_of_def new_slot_def numeral_2_eq_2) auto

theorem tool_call_confined_witness:
  "\<exists>v nt'. route_call (sample_calls (JStr ''rows'')) sample_open ''beta__list'' (JObj []) None sample_net = (v, nt') \<and>
     v = Inr (JStr ''rows'') \<and> rn_sent (nt_runs nt' ''beta'') = 1 \<and>
     (\<exists>res. sends_safely (sample_answers (JStr ''rows'')) NoAmbiguousReplay 4 sample_run res (nt_runs nt' ''beta''))"
proof -
  let ?cv = "sample_calls (JStr ''rows'')"
  obtain r where call: "call_with_retry (sample_answers (JStr ''rows'')) Shared NoAmbiguousReplay sample_run = (Inr (JStr ''rows'', True), r)"
    using sample_answered(2) by (metis prod.collapse)
  have route: "map_of (rt_routes sample_open) ''beta__list'' = Some (''beta'', ''list'')" by code_simp
  have "map_of (rt_blocked sample_open) ''beta__list'' = None" by code_simp
  moreover have "map_of (rt_arguments sample_open) ''beta__list'' = None" by code_simp
  moreover have "allows_server (rt_policy sample_open) ''beta''" by code_simp
  moreover have "slot_of sample_open ''beta'' \<noteq> None" by code_simp
  ultimately have run: "route_call ?cv sample_open ''beta__list'' (JObj []) None sample_net =
      (Inr (JStr ''rows''), sample_net\<lparr>nt_runs := (nt_runs sample_net)(''beta'' := r)\<rparr>)"
    using route call
    by (auto simp: route_call_def authorize_def authorize_server_def restore_arguments_def authorized_slot_def slot_for_def
        dispatch_def finish_call_def sample_calls_def sample_net_def jget_str_def)
  have sent: "rn_sent r = 1" "rn_sent sample_run = 0" using sample_answered(1) [OF call] by (simp_all add: sample_run_def)
  then have "nt_runs (sample_net\<lparr>nt_runs := (nt_runs sample_net)(''beta'' := r)\<rparr>) \<noteq> nt_runs sample_net"
    by (auto simp: sample_net_def fun_eq_iff)
  with tool_call_confined [OF sample_open_reachable run]
  have "\<exists>res. sends_safely (sample_answers (JStr ''rows'')) NoAmbiguousReplay 4 sample_run res r"
    by (auto simp: contacts_def route sample_calls_def sample_net_def)
  with run sent show ?thesis by auto
qed

definition sample_handle :: string where
  "sample_handle = task_handle_prefix @ replicate 24 (CHR ''n'') @ ''T'' @ [CHR 0x01, CHR 0x01, CHR 0x01, CHR 0x01, CHR 0x00] @ ''beta17''"

definition sample_meta :: json where
  "sample_meta = JObj [(''io.modelcontextprotocol/clientCapabilities'',
     JObj [(''extensions'', JObj [(''io.modelcontextprotocol/tasks'', JObj [])])])]"

theorem route_task_confined_witness:
  "\<exists>v nt'. route_task (sample_calls (JObj [(''taskId'', JStr ''17'')])) sample_open ''tasks/get''
       (JObj [(''taskId'', JStr sample_handle)]) (Some sample_meta) sample_net = (Inr v, nt') \<and>
     jget ''taskId'' v = Some (JStr sample_handle)"
proof -
  let ?v = "JObj [(''taskId'', JStr ''17'')]" and ?p = "JObj [(''taskId'', JStr sample_handle)]"
  obtain r where call: "call_with_retry (sample_answers ?v) Shared ReadOnly sample_run = (Inr (?v, True), r)"
    using sample_answered(2) by (metis prod.collapse)
  have "decode_task_id sample_seal sample_handle = Inr (''beta'', ''17'')" by code_simp
  moreover have "task_slot sample_open ''tasks/get'' ''beta'' = Inr (sample_server\<lparr>sc_id := ''beta''\<rparr>)" by code_simp
  moreover have "client_supports_tasks (Some sample_meta)" by code_simp
  ultimately obtain v nt' where run: "route_task (sample_calls ?v) sample_open ''tasks/get'' ?p (Some sample_meta) sample_net = (Inr v, nt')"
      and v: "jget ''taskId'' v \<noteq> None"
    using call
    by (auto simp: route_task_def task_methods_def dispatch_text_def dispatch_def finish_task_def policy_for_task_def
        sample_calls_def sample_net_def jget_str_def)
  from route_task_confined [OF run] v have "jget ''taskId'' v = Some (JStr sample_handle)" by auto
  with run show ?thesis by blast
qed

end
