(* ===== verification/SchemaKeys.thy ===== *)
theory SchemaKeys
  imports Json
begin

text \<open>
  Schemas for strict clients, the keys (\<open>schema_compat.rs\<close>): which positions of a JSON Schema hold
  schemas, which property keys a client accepts, and the aliases of those it does not. Aliases are
  assigned once for a whole schema. Objects are sorted association lists.
\<close>

section \<open>Schema positions\<close>

definition map_keywords :: "string list" where
  "map_keywords = [''properties'', ''patternProperties'', ''$defs'', ''definitions'', ''dependentSchemas'']"

definition array_keywords :: "string list" where
  "array_keywords = [''allOf'', ''anyOf'', ''oneOf'', ''prefixItems'']"

definition schema_keywords :: "string list" where
  "schema_keywords = [''items'', ''additionalItems'', ''additionalProperties'', ''unevaluatedProperties'', ''unevaluatedItems'',
     ''contentSchema'', ''contains'', ''propertyNames'', ''not'', ''if'', ''then'', ''else'']"

fun is_object :: "json \<Rightarrow> bool" where
  "is_object (JObj _) = True"
| "is_object _ = False"

text \<open>What \<open>children\<close> visits under one keyword.\<close>

definition child_schemas :: "string \<Rightarrow> json \<Rightarrow> json list" where
  "child_schemas k v =
     (if k \<in> set map_keywords then (case v of JObj c \<Rightarrow> map snd c | _ \<Rightarrow> [])
      else if k \<in> set array_keywords then (case v of JArr a \<Rightarrow> a | _ \<Rightarrow> [])
      else if k \<in> set schema_keywords then (case v of JArr a \<Rightarrow> a | _ \<Rightarrow> [v])
      else if k = ''dependencies'' then (case v of JObj c \<Rightarrow> filter is_object (map snd c) | _ \<Rightarrow> [])
      else [])"

definition children :: "jobj \<Rightarrow> json list" where
  "children m = concat (map (\<lambda>k. case map_of m k of Some v \<Rightarrow> child_schemas k v | None \<Rightarrow> [])
     (map_keywords @ array_keywords @ schema_keywords @ [''dependencies'']))"

lemma size_child_schemas: "c \<in> set (child_schemas k v) \<Longrightarrow> size c \<le> size v"
proof -
  have "set (child_schemas k v) \<subseteq> insert v (case v of JObj p \<Rightarrow> snd ` set p | JArr a \<Rightarrow> set a | _ \<Rightarrow> {})"
    by (cases v; simp only: child_schemas_def json.case list.set list.set_map set_filter split: if_split; blast)
  moreover have "size x \<le> size (JArr a)" if "x \<in> set a" for x a using that by (induction a) auto
  moreover have "size x \<le> size (JObj p)" if "x \<in> snd ` set p" for x p
    using that size_obj_value [of _ x p] by (auto simp: less_imp_le)
  ultimately show "c \<in> set (child_schemas k v) \<Longrightarrow> size c \<le> size v" by (cases v) (simp only: json.case; blast)+
qed

lemma size_children: "c \<in> set (children m) \<Longrightarrow> size c < size (JObj m)"
proof -
  assume "c \<in> set (children m)"
  then obtain k v where "map_of m k = Some v" "c \<in> set (child_schemas k v)"
    by (auto simp: children_def split: option.splits dest: sym)
  with size_obj_value [of k v m] size_child_schemas [of c k v] show ?thesis by (auto dest: map_of_SomeD)
qed

lemma size_children_simp [termination_simp]: "c \<in> set (children m) \<Longrightarrow> size c < Suc (size_list (\<lambda>x. Suc (size (snd x))) m)"
  using size_children [of c m] by (simp add: size_prod_simp)

text \<open>\<open>children\<close> with a visitor that changes what it visits.\<close>

definition map_child :: "(json \<Rightarrow> json) \<Rightarrow> string \<Rightarrow> json \<Rightarrow> json" where
  "map_child f k v =
     (if k \<in> set map_keywords then (case v of JObj c \<Rightarrow> JObj (map (\<lambda>(n, s). (n, f s)) c) | _ \<Rightarrow> v)
      else if k \<in> set array_keywords then (case v of JArr a \<Rightarrow> JArr (map f a) | _ \<Rightarrow> v)
      else if k \<in> set schema_keywords then (case v of JArr a \<Rightarrow> JArr (map f a) | _ \<Rightarrow> f v)
      else if k = ''dependencies'' then (case v of JObj c \<Rightarrow> JObj (map (\<lambda>(n, s). (n, if is_object s then f s else s)) c) | _ \<Rightarrow> v)
      else v)"

definition map_children :: "(json \<Rightarrow> json) \<Rightarrow> jobj \<Rightarrow> jobj" where
  "map_children f m = map (\<lambda>(k, v). (k, map_child f k v)) m"

lemma map_child_cong: "(\<And>s. size s \<le> size v \<Longrightarrow> f s = g s) \<Longrightarrow> map_child f k v = map_child g k v"
proof -
  assume eq: "\<And>s. size s \<le> size v \<Longrightarrow> f s = g s"
  have "f s = g s" if "v = JObj p" "(n, s) \<in> set p" for p n s
    using that size_obj_value [of n s p] by (intro eq) simp
  moreover have "f s = g s" if "v = JArr a" "s \<in> set a" for a s
  proof -
    have "size s \<le> size (JArr a)" using that(2) by (induction a) auto
    with that(1) show ?thesis by (intro eq) simp
  qed
  ultimately show "map_child f k v = map_child g k v"
    using eq [of v] by (cases v) (auto simp: map_child_def intro!: map_cong)
qed

lemma map_children_cong [fundef_cong]:
  "m = m' \<Longrightarrow> (\<And>s. size s < size (JObj m') \<Longrightarrow> f s = g s) \<Longrightarrow> map_children f m = map_children g m'"
  unfolding map_children_def by (auto intro!: map_child_cong dest: size_obj_value)

section \<open>Property keys\<close>

definition key_byte :: "char \<Rightarrow> bool" where
  "key_byte c \<longleftrightarrow> is_ascii_alnum c \<or> c \<in> set ''_.-''"

definition valid_key :: "string \<Rightarrow> bool" where
  "valid_key key \<longleftrightarrow> key \<noteq> [] \<and> length key \<le> 64 \<and> list_all key_byte key"

text \<open>The keys of every \<open>properties\<close> in a schema position. \<open>collect_keys\<close> sorts them into the valid and
  the invalid.\<close>

fun property_keys :: "json \<Rightarrow> string list" where
  "property_keys (JObj m) =
     (case map_of m ''properties'' of Some (JObj p) \<Rightarrow> map fst p | _ \<Rightarrow> []) @ concat (map property_keys (children m))"
| "property_keys _ = []"

definition collect_keys :: "json \<Rightarrow> string list \<times> string list" where
  "collect_keys schema = (let ks = property_keys schema in (filter valid_key ks, filter (\<lambda>k. \<not> valid_key k) ks))"

section \<open>Aliases\<close>

text \<open>\<open>trim_matches\<close> with an apostrophe.\<close>

definition trim_quotes_key :: "string \<Rightarrow> string" where
  "trim_quotes_key s = rev (dropWhile (\<lambda>c. c = CHR 0x27) (rev (dropWhile (\<lambda>c. c = CHR 0x27) s)))"

definition key_char :: "string \<Rightarrow> char" where
  "key_char c = (case c of [b] \<Rightarrow> if key_byte b then b else CHR ''_'' | _ \<Rightarrow> CHR ''_'')"

definition alias_base :: "string \<Rightarrow> string" where
  "alias_base original =
     (let base = take 64 (map key_char (utf8_chars (trim_quotes_key original)))
      in if base = [] then ''arg'' else base)"

definition suffixed :: "string \<Rightarrow> nat \<Rightarrow> string" where
  "suffixed base i = (let suffix = ''_'' @ show_nat i in take (64 - length suffix) base @ suffix)"

lemma rev_suffixed: "rev (suffixed base i) = rev (show_nat i) @ CHR ''_'' # rev (take (64 - length (''_'' @ show_nat i)) base)"
  by (simp add: suffixed_def Let_def)

lemma suffixed_inj: "inj (suffixed base)"
proof (rule injI)
  fix i j assume eq: "suffixed base i = suffixed base j"
  have digits: "takeWhile (\<lambda>c. c \<noteq> CHR ''_'') (rev (suffixed base n)) = rev (show_nat n)" for n
  proof -
    have "c \<noteq> CHR ''_''" if "c \<in> set (show_nat n)" for c
      using digits_of_digit [of c n] that by (auto simp: show_nat_def is_ascii_digit_def)
    then have "takeWhile (\<lambda>c. c \<noteq> CHR ''_'') (rev (show_nat n) @ CHR ''_'' # r) = rev (show_nat n)" for r
      by (subst takeWhile_append2) auto
    then show ?thesis by (simp add: rev_suffixed)
  qed
  from eq digits [of i] digits [of j] have "show_nat i = show_nat j" by (metis rev_rev_ident)
  then show "i = j" by (simp add: show_nat_inj)
qed

function fresh_key :: "string \<Rightarrow> string list \<Rightarrow> string \<Rightarrow> nat \<Rightarrow> string" where
  "fresh_key base taken name i = (if name \<in> set taken then fresh_key base taken (suffixed base i) (Suc i) else name)"
  by pat_completeness auto
termination
proof (relation "measure (\<lambda>(base, taken, name, i).
    card {k. i \<le> k \<and> suffixed base k \<in> set taken} + (if name \<in> set taken then 1 else 0))", goal_cases)
  case (2 base taken name i)
  have "card {k. Suc i \<le> k \<and> suffixed base k \<in> set taken} + (if suffixed base i \<in> set taken then 1 else 0)
      \<le> card {k. i \<le> k \<and> suffixed base k \<in> set taken}"
  proof (cases "suffixed base i \<in> set taken")
    case True
    from fresh_measure [of "set taken", OF _ suffixed_inj this] True show ?thesis by simp
  next
    case False
    then have "{k. Suc i \<le> k \<and> suffixed base k \<in> set taken} = {k. i \<le> k \<and> suffixed base k \<in> set taken}"
      by (auto simp: Suc_le_eq le_less)
    with False show ?thesis by simp
  qed
  with 2 show ?case by simp
qed simp

declare fresh_key.simps [simp del]

fun assign_aliases :: "string list \<Rightarrow> string list \<Rightarrow> (string \<times> string) list" where
  "assign_aliases reserved [] = []"
| "assign_aliases reserved (original # rest) =
     (let base = alias_base original; alias = fresh_key base reserved base 2
      in (original, alias) # assign_aliases (alias # reserved) rest)"

definition key_aliases :: "json \<Rightarrow> (string \<times> string) list" where
  "key_aliases schema = (let (valid, invalid) = collect_keys schema in assign_aliases valid (remdups (sort invalid)))"

lemma fresh_key_fresh: "fresh_key base taken name i \<notin> set taken"
proof (induction base taken name i rule: fresh_key.induct)
  case (1 base taken name i)
  then show ?case by (simp add: fresh_key.simps [of base taken name i])
qed

text \<open>The search ends at the latest after one suffix more than names are taken.\<close>

lemma fresh_key_form:
  "\<exists>k. fresh_key base taken name i \<in> {name, suffixed base k} \<and> k \<le> i + card {k. i \<le> k \<and> suffixed base k \<in> set taken}"
proof (induction base taken name i rule: fresh_key.induct)
  case (1 base taken name i)
  show ?case
  proof (cases "name \<in> set taken")
    case True
    from 1 [OF this] obtain k where k: "fresh_key base taken (suffixed base i) (Suc i) \<in> {suffixed base i, suffixed base k}"
      "k \<le> Suc i + card {k. Suc i \<le> k \<and> suffixed base k \<in> set taken}" by blast
    show ?thesis
    proof (cases "suffixed base i \<in> set taken")
      case taken: True
      then have "card {k. Suc i \<le> k \<and> suffixed base k \<in> set taken} < card {k. i \<le> k \<and> suffixed base k \<in> set taken}"
        by (intro fresh_measure suffixed_inj) simp_all
      with True k show ?thesis by (auto simp: fresh_key.simps [of base taken name i] intro: exI [of _ i] exI [of _ k])
    next
      case False
      with True show ?thesis
        by (auto simp: fresh_key.simps [of base taken name i] fresh_key.simps [of base taken "suffixed base i" "Suc i"] intro!: exI [of _ i])
    qed
  next
    case False
    then show ?thesis by (auto simp: fresh_key.simps [of base taken name i])
  qed
qed

lemma card_taken: "card {k. i \<le> k \<and> suffixed base k \<in> set taken} \<le> length taken"
proof -
  have "card {k. i \<le> k \<and> suffixed base k \<in> set taken} \<le> card (set taken)"
    using suffixed_inj by (intro card_inj_on_le [of "suffixed base"]) (auto simp: inj_on_def inj_def)
  then show ?thesis using card_length [of taken] by linarith
qed

lemma length_digits: "n < 10 ^ d \<Longrightarrow> 0 < d \<Longrightarrow> length (digits_of n) \<le> d"
proof (induction d arbitrary: n)
  case (Suc d)
  show ?case
  proof (cases "n < 10")
    case False
    then have "n div 10 < 10 ^ d" "0 < d" using Suc.prems by (auto simp: less_mult_imp_div_less mult.commute intro: gr0I)
    with False Suc.IH show ?thesis by (subst digits_of.simps) auto
  qed (subst digits_of.simps, simp)
qed simp

lemma key_char_ok: "key_byte (key_char c)"
  by (auto simp: key_char_def key_byte_def split: list.split)

lemma base_valid: "valid_key (alias_base original)"
proof -
  have "list_all key_byte (take 64 (map key_char cs))" for cs by (simp add: list_all_length key_char_ok)
  moreover have "list_all key_byte ''arg''" by (simp add: key_byte_def is_ascii_alnum_def is_ascii_lower_def)
  ultimately show ?thesis by (auto simp: valid_key_def alias_base_def Let_def)
qed

lemma suffixed_valid:
  assumes "valid_key base" and "k < 10 ^ 10"
  shows "valid_key (suffixed base k)"
proof -
  have "length (show_nat k) \<le> 10" using length_digits [of k 10] assms(2) by (simp add: show_nat_def)
  moreover have "list_all key_byte (take n base)" for n using assms(1) by (simp add: valid_key_def list_all_length)
  moreover have "list_all key_byte (show_nat k)"
    using digits_of_digit [of _ k] by (auto simp: list_all_iff show_nat_def key_byte_def is_ascii_alnum_def)
  ultimately show ?thesis by (auto simp: valid_key_def suffixed_def Let_def key_byte_def)
qed

lemma fresh_key_valid:
  assumes "valid_key base" and "length taken < 10 ^ 9"
  shows "valid_key (fresh_key base taken base 2)"
proof -
  obtain k where k: "fresh_key base taken base 2 \<in> {base, suffixed base k}"
    "k \<le> 2 + card {k. 2 \<le> k \<and> suffixed base k \<in> set taken}" using fresh_key_form by blast
  have "(10 :: nat) ^ 9 + 2 \<le> 10 ^ 10" by simp
  with k(2) card_taken [of 2 base taken] assms(2) have "k < 10 ^ 10" by linarith
  with suffixed_valid [OF assms(1)] have "valid_key (suffixed base k)" .
  with k(1) assms(1) show ?thesis by (elim insertE) (simp_all only: empty_iff)
qed

lemma assign_ok:
  "length reserved + length originals < 10 ^ 9 \<Longrightarrow>
   map fst (assign_aliases reserved originals) = originals \<and> distinct (map snd (assign_aliases reserved originals)) \<and>
   (\<forall>a \<in> set (map snd (assign_aliases reserved originals)). valid_key a \<and> a \<notin> set reserved)"
proof (induction reserved originals rule: assign_aliases.induct)
  case (2 reserved original rest)
  let ?a = "fresh_key (alias_base original) reserved (alias_base original) 2"
  have "?a \<notin> set reserved" by (rule fresh_key_fresh)
  moreover have "valid_key ?a" using "2.prems" by (intro fresh_key_valid base_valid) simp
  moreover have "length (?a # reserved) + length rest < 10 ^ 9" using "2.prems" by simp
  note "2.IH" [OF refl refl this]
  ultimately show ?case by (auto simp: Let_def)
qed simp

lemma key_aliases_ok:
  assumes "length (property_keys schema) < 10 ^ 9"
  shows "set (map fst (key_aliases schema)) = {k \<in> set (property_keys schema). \<not> valid_key k} \<and>
    distinct (map fst (key_aliases schema)) \<and> distinct (map snd (key_aliases schema)) \<and>
    (\<forall>a \<in> set (map snd (key_aliases schema)). valid_key a \<and> a \<notin> set (property_keys schema))"
proof -
  let ?ks = "property_keys schema"
  let ?valid = "filter valid_key ?ks" and ?invalid = "remdups (sort (filter (\<lambda>k. \<not> valid_key k) ?ks))"
  have "length ?invalid \<le> length (filter (\<lambda>k. \<not> valid_key k) ?ks)"
    using length_remdups_leq [of "sort (filter (\<lambda>k. \<not> valid_key k) ?ks)"] by simp
  then have "length ?valid + length ?invalid < 10 ^ 9"
    using sum_length_filter_compl [of valid_key ?ks] assms by linarith
  note ok = assign_ok [OF this]
  have al: "key_aliases schema = assign_aliases ?valid ?invalid" by (simp add: key_aliases_def collect_keys_def Let_def)
  have keys: "map fst (key_aliases schema) = ?invalid" and names: "distinct (map snd (key_aliases schema))"
    and new: "\<forall>a \<in> set (map snd (key_aliases schema)). valid_key a \<and> a \<notin> set ?valid"
    using ok unfolding al by blast+
  have "a \<notin> set ?ks" if "valid_key a" "a \<notin> set ?valid" for a using that by simp
  with new have "\<forall>a \<in> set (map snd (key_aliases schema)). valid_key a \<and> a \<notin> set ?ks" by blast
  moreover have "set ?invalid = {k \<in> set ?ks. \<not> valid_key k}" "distinct ?invalid" by simp_all
  ultimately show ?thesis unfolding keys using names by blast
qed

text \<open>C34: The keys a strict client would refuse get aliases it accepts: every property key of the schema that is
  invalid gets exactly one, every alias is a valid key, no two keys share one, and none is a key the
  schema already has. The bound on the number of keys is far beyond what a machine can hold; it
  keeps the counter of the suffix within the 64 bytes of a key.\<close>

theorem key_aliases_correct:
  assumes "length (property_keys schema) < 10 ^ 9"
  shows "set (map fst (key_aliases schema)) = {k \<in> set (property_keys schema). \<not> valid_key k} \<and>
    distinct (map fst (key_aliases schema)) \<and> distinct (map snd (key_aliases schema)) \<and>
    (\<forall>a \<in> set (map snd (key_aliases schema)). valid_key a \<and> a \<notin> set (property_keys schema))"
  using assms by (rule key_aliases_ok)

text \<open>The keys of the public schema that motivated this: quoted ones become what they quote, unless that is taken.\<close>

definition sample_keys_schema :: json where
  "sample_keys_schema = JObj [(''properties'', JObj [([CHR 0x27] @ ''x-Cwd'' @ [CHR 0x27], JObj []), (''a b'', JObj []), (''x-Cwd'', JObj [])])]"

theorem key_aliases_correct_witness:
  "map snd (key_aliases sample_keys_schema) = [''x-Cwd_2'', ''a_b''] \<and>
   valid_key ''x-Cwd_2'' \<and> ''x-Cwd_2'' \<notin> set (property_keys sample_keys_schema)"
proof -
  have "length (property_keys sample_keys_schema) = 3" by code_simp
  then have "length (property_keys sample_keys_schema) < 10 ^ 9" by simp
  from key_aliases_correct [OF this]
  have new: "\<forall>a \<in> set (map snd (key_aliases sample_keys_schema)). valid_key a \<and> a \<notin> set (property_keys sample_keys_schema)" by blast
  have names: "map snd (key_aliases sample_keys_schema) = [''x-Cwd_2'', ''a_b'']" by code_simp
  then have "''x-Cwd_2'' \<in> set (map snd (key_aliases sample_keys_schema))" by simp
  with new names show ?thesis by blast
qed

end
