(* ===== verification/SchemaCompat.thy ===== *)
theory SchemaCompat
  imports SchemaKeys SchemaRefs
begin

text \<open>
  Schemas for strict clients (\<open>schema_compat.rs\<close>): the published schema with renamed keys and repaired
  numbers, the plan that renames arguments back, and its application to the arguments of a call.

  \<open>normalize_node\<close> rewrites the schema and returns the plan in one pass; here \<open>publish\<close> is the first
  result and \<open>plan_of\<close> the second. Its steps touch different keywords, so each reads its keyword from
  the object it was given. Parameters: reading a number from text and the tests on its \<open>f64\<close> value, and
  regular expressions. The recursion of \<open>restore_node\<close> into the arguments carries a bound, the height
  of the arguments, which it never reaches.
\<close>

section \<open>Numbers\<close>

record number_env =
  ne_parse :: "string \<Rightarrow> jnum option"
  ne_zero :: "jnum \<Rightarrow> bool"
  ne_count :: "jnum \<Rightarrow> bool"
  ne_positive :: "jnum \<Rightarrow> bool"
  ne_finite :: "jnum \<Rightarrow> bool"

definition count_keywords :: "string list" where
  "count_keywords = [''minLength'', ''maxLength'', ''minItems'', ''maxItems'', ''minProperties'', ''maxProperties'',
     ''minContains'', ''maxContains'']"

definition number_keywords :: "string list" where
  "number_keywords = [''minimum'', ''maximum'', ''multipleOf''] @ count_keywords"

definition nonzero_mantissa :: "string \<Rightarrow> bool" where
  "nonzero_mantissa s =
     list_ex (\<lambda>c. is_ascii_digit c \<and> c \<noteq> CHR ''0'') (hd (split_on (\<lambda>c. c = CHR ''e'' \<or> c = CHR ''E'') s))"

definition number_ok :: "number_env \<Rightarrow> string \<Rightarrow> json \<Rightarrow> jnum \<Rightarrow> bool" where
  "number_ok ne key v n =
     (if ne_zero ne n \<and> (case v of JStr s \<Rightarrow> nonzero_mantissa s | _ \<Rightarrow> False) then False
      else if key \<in> set count_keywords then ne_count ne n
      else if key = ''multipleOf'' then ne_positive ne n
      else ne_finite ne n)"

definition normalize_number :: "number_env \<Rightarrow> string \<Rightarrow> jobj \<Rightarrow> jobj" where
  "normalize_number ne key m =
     (case map_of m key of
        None \<Rightarrow> m
      | Some v \<Rightarrow>
          (case (case v of JNum n \<Rightarrow> Some n | JStr s \<Rightarrow> ne_parse ne s | _ \<Rightarrow> None) of
             Some n \<Rightarrow>
               if \<not> number_ok ne key v n then obj_remove key m
               else if is_number v then m else obj_insert key (JNum n) m
           | None \<Rightarrow> obj_remove key m))"

definition normalize_bound :: "number_env \<Rightarrow> string \<times> string \<Rightarrow> jobj \<Rightarrow> jobj" where
  "normalize_bound ne = (\<lambda>(exclusive, inclusive) m.
     (case Option.bind (map_of m exclusive) as_bool of
        Some flag \<Rightarrow>
          (let m = obj_remove exclusive m
           in if flag then
                case map_of m inclusive of
                  Some bound \<Rightarrow> obj_insert exclusive bound (obj_remove inclusive m)
                | None \<Rightarrow> m
              else m)
      | None \<Rightarrow> normalize_number ne exclusive m))"

definition normalize_numbers :: "number_env \<Rightarrow> jobj \<Rightarrow> jobj" where
  "normalize_numbers ne m =
     fold (normalize_bound ne) [(''exclusiveMinimum'', ''minimum''), (''exclusiveMaximum'', ''maximum'')]
       (fold (normalize_number ne) number_keywords m)"

section \<open>Drafts\<close>

fun has_legacy_bounds :: "json \<Rightarrow> bool" where
  "has_legacy_bounds (JObj m) =
     (list_ex (\<lambda>k. Option.bind (map_of m k) as_bool \<noteq> None) [''exclusiveMinimum'', ''exclusiveMaximum''] \<or>
      list_ex has_legacy_bounds (children m))"
| "has_legacy_bounds _ = False"

fun strip_draft04 :: "json \<Rightarrow> json" where
  "strip_draft04 (JObj m) =
     JObj (case Option.bind (map_of m ''$schema'') as_str of
             Some uri \<Rightarrow> if find_str ''/draft-04/schema'' uri \<noteq> None then obj_remove ''$schema'' (map_children strip_draft04 m)
                         else map_children strip_draft04 m
           | None \<Rightarrow> map_children strip_draft04 m)"
| "strip_draft04 v = v"

section \<open>The published schema\<close>

type_synonym aliases = "(string \<times> string) list"

definition alias_of :: "aliases \<Rightarrow> string \<Rightarrow> string" where
  "alias_of al k = (case map_of al k of Some a \<Rightarrow> a | None \<Rightarrow> k)"

definition rename_list :: "aliases \<Rightarrow> json \<Rightarrow> json" where
  "rename_list al v =
     (case v of JArr a \<Rightarrow> JArr (map (\<lambda>x. case x of JStr k \<Rightarrow> JStr (alias_of al k) | _ \<Rightarrow> x) a) | _ \<Rightarrow> v)"

fun rename_segments :: "aliases \<Rightarrow> string \<Rightarrow> string list \<Rightarrow> string list" where
  "rename_segments al before [] = []"
| "rename_segments al before (s # ss) =
     (let s' = (if before \<in> {''properties'', ''dependentSchemas'', ''dependencies''} then
                  case map_of al (unescape_token s) of Some a \<Rightarrow> a | None \<Rightarrow> s
                else s)
      in s' # rename_segments al s' ss)"

definition rename_reference :: "aliases \<Rightarrow> json \<Rightarrow> json" where
  "rename_reference al v =
     (case v of
        JStr s \<Rightarrow>
          (case strip_prefix ''#/'' s of
             Some ptr \<Rightarrow>
               (case split_on (\<lambda>c. c = CHR ''/'') ptr of
                  [] \<Rightarrow> v
                | first # rest \<Rightarrow> JStr (''#/'' @ join ''/'' (first # rename_segments al first rest)))
           | None \<Rightarrow> v)
      | _ \<Rightarrow> v)"

definition rename_entries :: "aliases \<Rightarrow> (json \<Rightarrow> json) \<Rightarrow> jobj \<Rightarrow> jobj" where
  "rename_entries al f p = fold (\<lambda>(k, v). obj_insert (alias_of al k) (f v)) p []"

definition publish_at :: "aliases \<Rightarrow> (json \<Rightarrow> json) \<Rightarrow> string \<Rightarrow> json \<Rightarrow> json" where
  "publish_at al f k v =
     (if k = ''$ref'' then rename_reference al v
      else if k = ''properties'' then (case v of JObj p \<Rightarrow> JObj (rename_entries al f p) | _ \<Rightarrow> v)
      else if k = ''required'' then rename_list al v
      else if k \<in> {''dependentRequired'', ''dependencies'', ''dependentSchemas''} then
        (case v of JObj p \<Rightarrow> JObj (rename_entries al (\<lambda>c. case c of JArr _ \<Rightarrow> rename_list al c | _ \<Rightarrow> f c) p) | _ \<Rightarrow> v)
      else if k \<in> {''allOf'', ''anyOf'', ''oneOf'', ''prefixItems''} then (case v of JArr a \<Rightarrow> JArr (map f a) | _ \<Rightarrow> v)
      else if k = ''items'' then (case v of JArr a \<Rightarrow> JArr (map f a) | _ \<Rightarrow> f v)
      else if k \<in> {''patternProperties'', ''$defs'', ''definitions''} then
        (case v of JObj p \<Rightarrow> JObj (map (\<lambda>(n, c). (n, f c)) p) | _ \<Rightarrow> v)
      else if k \<in> {''if'', ''then'', ''else'', ''not'', ''additionalItems'', ''unevaluatedItems'', ''additionalProperties'',
                    ''unevaluatedProperties'', ''contains'', ''contentSchema'', ''propertyNames''} then f v
      else v)"

definition publish_entries :: "aliases \<Rightarrow> (json \<Rightarrow> json) \<Rightarrow> jobj \<Rightarrow> jobj" where
  "publish_entries al f m = map (\<lambda>(k, v). (k, publish_at al f k v)) m"

lemma rename_entries_cong: "(\<And>k v. (k, v) \<in> set p \<Longrightarrow> f v = g v) \<Longrightarrow> rename_entries al f p = rename_entries al g p"
  unfolding rename_entries_def by (rule fold_cong) auto

lemma size_in_object: "(k, v) \<in> set p \<Longrightarrow> size v \<le> size (JObj p)"
  using size_obj_value [of k v p] by (simp add: less_imp_le)

lemma size_in_array: "v \<in> set a \<Longrightarrow> size v \<le> size (JArr a)"
  by (induction a) auto

lemma publish_at_cong:
  assumes "\<And>s. size s \<le> size v \<Longrightarrow> f s = g s"
  shows "publish_at al f k v = publish_at al g k v"
proof (cases v)
  case (JObj p)
  have "f c = g c" if "(n, c) \<in> set p" for n c using that size_in_object JObj by (intro assms) blast
  then have eqs: "rename_entries al f p = rename_entries al g p" "map (\<lambda>(n, c). (n, f c)) p = map (\<lambda>(n, c). (n, g c)) p"
      "rename_entries al (\<lambda>c. case c of JArr _ \<Rightarrow> rename_list al c | _ \<Rightarrow> f c) p =
       rename_entries al (\<lambda>c. case c of JArr _ \<Rightarrow> rename_list al c | _ \<Rightarrow> g c) p"
    by (auto intro!: rename_entries_cong split: json.split)
  have "f (JObj p) = g (JObj p)" by (rule assms) (simp add: JObj)
  then show ?thesis by (simp only: publish_at_def JObj json.case eqs)
next
  case (JArr a)
  have "f c = g c" if "c \<in> set a" for c using that size_in_array JArr by (intro assms) blast
  then have eq: "map f a = map g a" by simp
  have "f (JArr a) = g (JArr a)" by (rule assms) (simp add: JArr)
  then show ?thesis by (simp only: publish_at_def JArr json.case eq)
qed (use assms [of v] in \<open>simp_all only: publish_at_def json.case order_refl\<close>)

lemma publish_entries_cong [fundef_cong]:
  "m = m' \<Longrightarrow> (\<And>s. size s < size (JObj m') \<Longrightarrow> f s = g s) \<Longrightarrow> publish_entries al f m = publish_entries al g m'"
  unfolding publish_entries_def by (auto intro!: publish_at_cong dest: size_obj_value)

text \<open>The numeric keywords are none of those that hold schemas, so the order of the two steps does not matter.\<close>

function publish :: "number_env \<Rightarrow> aliases \<Rightarrow> json \<Rightarrow> json" where
  "publish ne al (JObj m) = JObj (normalize_numbers ne (publish_entries al (publish ne al) m))"
| "publish ne al JNull = JNull"
| "publish ne al (JBool b) = JBool b"
| "publish ne al (JNum n) = JNum n"
| "publish ne al (JStr s) = JStr s"
| "publish ne al (JArr a) = JArr a"
  by pat_completeness auto
termination
  by (relation "measure (\<lambda>(ne, al, v). size v)") auto

section \<open>The plan of a schema\<close>

datatype 'r argument_map = ArgumentMap
  (am_reference: "string option")
  (am_fallback: "'r argument_map list")
  (am_fields: "(string \<times> string \<times> 'r argument_map) list")
  (am_items: "'r argument_map option")
  (am_tuple: "'r argument_map list")
  (am_branches: "'r argument_map list")
  (am_extra: "'r argument_map list")
  (am_patterns: "('r \<times> 'r argument_map) list")
  (am_contains: "'r argument_map option")
  (am_known: "string list")

definition empty_map :: "'r argument_map" where
  "empty_map = ArgumentMap None [] [] None [] [] [] [] None []"

definition is_empty_map :: "'r argument_map \<Rightarrow> bool" where
  "is_empty_map p \<longleftrightarrow> am_reference p = None \<and> am_fallback p = [] \<and> am_fields p = [] \<and> am_items p = None \<and> am_tuple p = [] \<and>
     am_branches p = [] \<and> am_extra p = [] \<and> am_patterns p = [] \<and> am_contains p = None"

fun is_array :: "json \<Rightarrow> bool" where
  "is_array (JArr _) = True"
| "is_array _ = False"

definition values_at :: "string \<Rightarrow> jobj \<Rightarrow> json list" where
  "values_at k m = (case map_of m k of Some (JObj p) \<Rightarrow> map snd p | _ \<Rightarrow> [])"

definition elements_at :: "string \<Rightarrow> jobj \<Rightarrow> json list" where
  "elements_at k m = (case map_of m k of Some (JArr a) \<Rightarrow> a | _ \<Rightarrow> [])"

definition schema_at :: "string \<Rightarrow> jobj \<Rightarrow> json list" where
  "schema_at k m = (case map_of m k of Some v \<Rightarrow> [v] | None \<Rightarrow> [])"

definition nonempty_plans :: "(json \<Rightarrow> 'r argument_map) \<Rightarrow> json list \<Rightarrow> 'r argument_map list" where
  "nonempty_plans f vs = filter (\<lambda>p. \<not> is_empty_map p) (map f vs)"

definition field_plans :: "aliases \<Rightarrow> (json \<Rightarrow> 'r argument_map) \<Rightarrow> jobj \<Rightarrow> (string \<times> string \<times> 'r argument_map) list" where
  "field_plans al f m =
     (case map_of m ''properties'' of
        Some (JObj p) \<Rightarrow>
          fold (\<lambda>(orig, c) acc. let a = alias_of al orig; child = f c
                in if a \<noteq> orig \<or> \<not> is_empty_map child then obj_insert a (orig, child) acc else acc) p []
      | _ \<Rightarrow> [])"

definition pattern_plans :: "(json \<Rightarrow> 'r argument_map) \<Rightarrow> jobj \<Rightarrow> (string \<times> 'r argument_map) list" where
  "pattern_plans f m =
     (case map_of m ''patternProperties'' of
        Some (JObj p) \<Rightarrow> filter (\<lambda>(_, c). \<not> is_empty_map c) (map (\<lambda>(pattern, c). (pattern, f c)) p)
      | _ \<Rightarrow> [])"

definition branch_schemas :: "jobj \<Rightarrow> json list" where
  "branch_schemas m =
     concat (map (\<lambda>k. filter (\<lambda>c. \<not> is_array c) (values_at k m)) [''dependentRequired'', ''dependencies'', ''dependentSchemas'']) @
     concat (map (\<lambda>k. elements_at k m) [''allOf'', ''anyOf'', ''oneOf'']) @
     concat (map (\<lambda>k. schema_at k m) [''if'', ''then'', ''else'', ''not'', ''contentSchema''])"

definition item_schemas :: "jobj \<Rightarrow> json list" where
  "item_schemas m =
     filter (\<lambda>v. \<not> is_array v) (schema_at ''items'' m) @ schema_at ''additionalItems'' m @ schema_at ''unevaluatedItems'' m"

definition tuple_schemas :: "jobj \<Rightarrow> json list" where
  "tuple_schemas m = (case map_of m ''items'' of Some (JArr a) \<Rightarrow> a | _ \<Rightarrow> elements_at ''prefixItems'' m)"

definition first_plan :: "'r argument_map list \<Rightarrow> 'r argument_map option" where
  "first_plan ps = (case ps of [] \<Rightarrow> None | p # _ \<Rightarrow> Some p)"

definition assemble :: "(string \<Rightarrow> 'r option) \<Rightarrow> aliases \<Rightarrow> (json \<Rightarrow> 'r argument_map) \<Rightarrow> jobj \<Rightarrow> 'r argument_map" where
  "assemble compile al f m =
     (let patterns = pattern_plans f m;
          fallback = map snd (filter (\<lambda>(pattern, _). compile pattern = None) patterns);
          compiled = List.map_filter (\<lambda>(pattern, c). map_option (\<lambda>r. (r, c)) (compile pattern)) patterns;
          items = first_plan (nonempty_plans f (item_schemas m));
          tuple = map f (tuple_schemas m);
          extra = nonempty_plans f (schema_at ''additionalProperties'' m @ schema_at ''unevaluatedProperties'' m)
      in ArgumentMap (Option.bind (map_of m ''$ref'') as_str) fallback (field_plans al f m) items
           (if list_all is_empty_map tuple \<and> items = None then [] else tuple)
           (nonempty_plans f (branch_schemas m)) extra compiled (first_plan (nonempty_plans f (schema_at ''contains'' m)))
           (if extra = [] \<and> fallback = [] then []
            else case map_of m ''properties'' of Some (JObj p) \<Rightarrow> map fst p | _ \<Rightarrow> []))"

text \<open>Every schema the plan is assembled from is part of the object.\<close>

lemma part_sizes:
  "c \<in> set (values_at k m) \<Longrightarrow> size c < size (JObj m)" "c \<in> set (elements_at k m) \<Longrightarrow> size c < size (JObj m)"
  "c \<in> set (schema_at k m) \<Longrightarrow> size c < size (JObj m)"
proof -
  have entry: "map_of m k = Some v \<Longrightarrow> size v < size (JObj m)" for v
    using size_obj_value [of k v m] by (auto dest: map_of_SomeD)
  show "size c < size (JObj m)" if c: "c \<in> set (values_at k m)"
  proof -
    obtain p n where p: "map_of m k = Some (JObj p)" "(n, c) \<in> set p"
      using c by (auto simp: values_at_def split: option.splits json.splits dest: sym)
    show ?thesis using size_in_object [OF p(2)] entry [OF p(1)] by linarith
  qed
  show "size c < size (JObj m)" if c: "c \<in> set (elements_at k m)"
  proof -
    obtain a where a: "map_of m k = Some (JArr a)" "c \<in> set a"
      using c by (auto simp: elements_at_def split: option.splits json.splits dest: sym)
    show ?thesis using size_in_array [OF a(2)] entry [OF a(1)] by linarith
  qed
  show "c \<in> set (schema_at k m) \<Longrightarrow> size c < size (JObj m)"
    using entry by (auto simp: schema_at_def split: option.splits)
qed

lemma plans_cong: "(\<And>s. s \<in> set vs \<Longrightarrow> f s = g s) \<Longrightarrow> nonempty_plans f vs = nonempty_plans g vs"
  unfolding nonempty_plans_def by (simp cong: map_cong)

lemma field_plans_cong: "(\<And>s. s \<in> set (values_at ''properties'' m) \<Longrightarrow> f s = g s) \<Longrightarrow> field_plans al f m = field_plans al g m"
  unfolding field_plans_def values_at_def by (force split: option.splits json.splits intro!: fold_cong)

lemma pattern_plans_cong:
  "(\<And>s. s \<in> set (values_at ''patternProperties'' m) \<Longrightarrow> f s = g s) \<Longrightarrow> pattern_plans f m = pattern_plans g m"
  unfolding pattern_plans_def values_at_def
  by (force split: option.splits json.splits intro!: arg_cong [where f = "filter _"])

lemma schemas_sizes:
  "c \<in> set (branch_schemas m) \<Longrightarrow> size c < size (JObj m)" "c \<in> set (item_schemas m) \<Longrightarrow> size c < size (JObj m)"
  "c \<in> set (tuple_schemas m) \<Longrightarrow> size c < size (JObj m)"
proof -
  have "set (tuple_schemas m) \<subseteq> set (elements_at ''items'' m) \<union> set (elements_at ''prefixItems'' m)"
    by (auto simp: tuple_schemas_def elements_at_def split: option.splits json.splits)
  with part_sizes(2) show "c \<in> set (tuple_schemas m) \<Longrightarrow> size c < size (JObj m)" by blast
qed (use part_sizes in \<open>auto simp: branch_schemas_def item_schemas_def\<close>)

lemma assemble_cong [fundef_cong]:
  assumes "m = m'" and "\<And>s. size s < size (JObj m') \<Longrightarrow> f s = g s"
  shows "assemble compile al f m = assemble compile al g m'"
proof -
  have eq: "pattern_plans f m' = pattern_plans g m'" "field_plans al f m' = field_plans al g m'"
      "nonempty_plans f (item_schemas m') = nonempty_plans g (item_schemas m')"
      "nonempty_plans f (branch_schemas m') = nonempty_plans g (branch_schemas m')"
      "map f (tuple_schemas m') = map g (tuple_schemas m')"
      "nonempty_plans f (schema_at k m') = nonempty_plans g (schema_at k m')"
      "nonempty_plans f (schema_at k m' @ schema_at l m') = nonempty_plans g (schema_at k m' @ schema_at l m')" for k l
    using part_sizes schemas_sizes
    by (auto intro!: pattern_plans_cong field_plans_cong plans_cong assms(2))
  show ?thesis unfolding assms(1) assemble_def Let_def eq by (rule refl)
qed

function plan_of :: "(string \<Rightarrow> 'r option) \<Rightarrow> aliases \<Rightarrow> json \<Rightarrow> 'r argument_map" where
  "plan_of compile al (JObj m) = assemble compile al (plan_of compile al) m"
| "plan_of compile al JNull = empty_map"
| "plan_of compile al (JBool b) = empty_map"
| "plan_of compile al (JNum n) = empty_map"
| "plan_of compile al (JStr s) = empty_map"
| "plan_of compile al (JArr a) = empty_map"
  by pat_completeness auto
termination
  by (relation "measure (\<lambda>(compile, al, v). size v)") auto

fun collect_refs :: "json \<Rightarrow> string list" where
  "collect_refs (JObj m) =
     (case Option.bind (map_of m ''$ref'') as_str of Some r \<Rightarrow> [r] | None \<Rightarrow> []) @ concat (map collect_refs (children m))"
| "collect_refs _ = []"

record 'r argument_plan =
  ap_definitions :: "(string \<times> 'r argument_map) list"
  ap_root :: "'r argument_map"

definition normalize :: "number_env \<Rightarrow> (string \<Rightarrow> 'r option) \<Rightarrow> json \<Rightarrow> json \<times> 'r argument_plan" where
  "normalize ne compile schema =
     (let schema = (if has_legacy_bounds schema then strip_draft04 schema else schema);
          al = key_aliases schema;
          definitions = List.map_filter (\<lambda>r. map_option (\<lambda>t. (r, plan_of compile al t)) (ref_target schema r))
            (remdups (sort (collect_refs schema)))
      in (publish ne al schema, \<lparr>ap_definitions = definitions, ap_root = plan_of compile al schema\<rparr>))"

end
