(* ===== verification/SchemaRestore.thy ===== *)
theory SchemaRestore
  imports SchemaCompat "HOL-Library.Multiset"
begin

text \<open>
  Renaming the arguments of a call back (\<open>ArgumentMap::restore\<close> in \<open>schema_compat.rs\<close>): aliases become the
  original keys along the plan of the schema. A reference of the plan is followed at most once before
  the next argument level, which the set \<open>active\<close> records.
\<close>

section \<open>Loops that may fail\<close>

fun each_step :: "('a \<Rightarrow> 's \<Rightarrow> 'e + 's) \<Rightarrow> 'a list \<Rightarrow> 's \<Rightarrow> 'e + 's" where
  "each_step f [] s = Inr s"
| "each_step f (x # xs) s = (case f x s of Inl e \<Rightarrow> Inl e | Inr s \<Rightarrow> each_step f xs s)"

lemma each_step_cong [fundef_cong]:
  "xs = ys \<Longrightarrow> s = t \<Longrightarrow> (\<And>x s. x \<in> set ys \<Longrightarrow> f x s = g x s) \<Longrightarrow> each_step f xs s = each_step g ys t"
  by (induction ys arbitrary: xs s t) (auto split: sum.split)

fun each_value :: "(string \<Rightarrow> json \<Rightarrow> 'e + json) \<Rightarrow> jobj \<Rightarrow> 'e + jobj" where
  "each_value f [] = Inr []"
| "each_value f ((k, v) # m) =
     (case f k v of
        Inl e \<Rightarrow> Inl e
      | Inr v \<Rightarrow> (case each_value f m of Inl e \<Rightarrow> Inl e | Inr m \<Rightarrow> Inr ((k, v) # m)))"

fun each_item :: "(nat \<Rightarrow> json \<Rightarrow> 'e + json) \<Rightarrow> nat \<Rightarrow> json list \<Rightarrow> 'e + json list" where
  "each_item f i [] = Inr []"
| "each_item f i (v # a) =
     (case f i v of
        Inl e \<Rightarrow> Inl e
      | Inr v \<Rightarrow> (case each_item f (Suc i) a of Inl e \<Rightarrow> Inl e | Inr a \<Rightarrow> Inr (v # a)))"

section \<open>One level of arguments\<close>

type_synonym 'r restorer = "'r argument_map \<Rightarrow> json \<Rightarrow> string + json"

definition both_supplied :: "string \<Rightarrow> string \<Rightarrow> string" where
  "both_supplied name original =
     ''both schema alias '' @ [CHR 0x27] @ name @ [CHR 0x27] @ '' and original key '' @ [CHR 0x27] @ original @ [CHR 0x27] @ '' were supplied''"

definition restore_field :: "'r restorer \<Rightarrow> string \<times> string \<times> 'r argument_map \<Rightarrow> jobj \<Rightarrow> string + jobj" where
  "restore_field down = (\<lambda>(name, original, child) m.
     if name \<noteq> original \<and> map_of m name \<noteq> None \<and> map_of m original \<noteq> None then Inl (both_supplied name original)
     else
       let m = (case map_of m name of
                  Some v \<Rightarrow> if name \<noteq> original then obj_insert original v (obj_remove name m) else m
                | None \<Rightarrow> m)
       in case map_of m original of
            None \<Rightarrow> Inr m
          | Some v \<Rightarrow> (case down child v of Inl e \<Rightarrow> Inl e | Inr v \<Rightarrow> Inr (AList.update original v m)))"

definition on_keys :: "(string \<Rightarrow> bool) \<Rightarrow> 'r restorer \<Rightarrow> 'r argument_map \<Rightarrow> jobj \<Rightarrow> string + jobj" where
  "on_keys wanted down child m = each_value (\<lambda>k v. if wanted k then down child v else Inr v) m"

definition restore_object :: "('r \<Rightarrow> string \<Rightarrow> bool) \<Rightarrow> 'r restorer \<Rightarrow> 'r argument_map \<Rightarrow> jobj \<Rightarrow> string + jobj" where
  "restore_object matches down p m =
     (case each_step (restore_field down) (am_fields p) m of
        Inl e \<Rightarrow> Inl e
      | Inr m \<Rightarrow>
          (case each_step (\<lambda>(pattern, child). on_keys (matches pattern) down child) (am_patterns p) m of
             Inl e \<Rightarrow> Inl e
           | Inr m \<Rightarrow>
               (case each_step (on_keys (\<lambda>k. k \<notin> set (am_known p)) down) (am_fallback p) m of
                  Inl e \<Rightarrow> Inl e
                | Inr m \<Rightarrow>
                    each_step (on_keys (\<lambda>k. k \<notin> set (am_known p) \<and> \<not> list_ex (\<lambda>(pattern, _). matches pattern k) (am_patterns p)) down)
                      (am_extra p) m)))"

definition item_plan :: "'r argument_map \<Rightarrow> nat \<Rightarrow> 'r argument_map option" where
  "item_plan p i = (if i < length (am_tuple p) then Some (am_tuple p ! i) else am_items p)"

definition restore_item :: "'r restorer \<Rightarrow> 'r argument_map \<Rightarrow> nat \<Rightarrow> json \<Rightarrow> string + json" where
  "restore_item down p i v =
     (case (case item_plan p i of Some c \<Rightarrow> down c v | None \<Rightarrow> Inr v) of
        Inl e \<Rightarrow> Inl e
      | Inr v \<Rightarrow> (case am_contains p of Some c \<Rightarrow> down c v | None \<Rightarrow> Inr v))"

definition restore_value :: "('r \<Rightarrow> string \<Rightarrow> bool) \<Rightarrow> 'r restorer \<Rightarrow> 'r argument_map \<Rightarrow> json \<Rightarrow> string + json" where
  "restore_value matches down p v =
     (case v of
        JObj m \<Rightarrow> map_sum id JObj (restore_object matches down p m)
      | JArr a \<Rightarrow> map_sum id JArr (each_item (restore_item down p) 0 a)
      | _ \<Rightarrow> Inr v)"

section \<open>The recursion\<close>

lemma size_branch: "b \<in> set (am_branches p) \<Longrightarrow> size b < size p"
proof (cases p)
  case (ArgumentMap x1 x2 x3 x4 x5 x6 x7 x8 x9 x10)
  have "b \<in> set ps \<Longrightarrow> size b < Suc (size_list size ps)" for ps by (induction ps) auto
  then show "b \<in> set (am_branches p) \<Longrightarrow> size b < size p" using ArgumentMap by fastforce
qed

lemma card_active:
  "r \<notin> active \<Longrightarrow> map_of defs r = Some t \<Longrightarrow> card (fst ` set defs - insert r active) < card (fst ` set defs - active)"
proof (rule psubset_card_mono)
  assume "r \<notin> active" "map_of defs r = Some t"
  then have "r \<in> fst ` set defs - active" by (force dest: map_of_SomeD)
  then show "fst ` set defs - insert r active \<subset> fst ` set defs - active" by blast
qed simp

function restore_node ::
  "('r \<Rightarrow> string \<Rightarrow> bool) \<Rightarrow> (string \<times> 'r argument_map) list \<Rightarrow> nat \<Rightarrow> string set \<Rightarrow> 'r argument_map \<Rightarrow> json \<Rightarrow> string + json" where
  "restore_node matches defs n active p v =
     (case am_reference p of
        Some r \<Rightarrow>
          if r \<in> active then Inr v
          else (case map_of defs r of Some target \<Rightarrow> restore_node matches defs n (insert r active) target v | None \<Rightarrow> Inr v)
      | None \<Rightarrow>
          (case restore_value matches (\<lambda>c w. case n of Suc n' \<Rightarrow> restore_node matches defs n' {} c w | 0 \<Rightarrow> Inr w) p v of
             Inl e \<Rightarrow> Inl e
           | Inr v \<Rightarrow> each_step (restore_node matches defs n active) (am_branches p) v))"
  by pat_completeness auto
termination
  by (relation "inv_image (less_than <*lex*> less_than <*lex*> less_than)
      (\<lambda>(matches, defs, n, active, p, v). (n, card (fst ` set defs - active), size p))")
    (auto simp: size_branch card_active)

declare restore_node.simps [simp del]

fun height :: "json \<Rightarrow> nat" where
  "height (JObj m) = Suc (Max (set (0 # map (\<lambda>(k, v). height v) m)))"
| "height (JArr a) = Suc (Max (set (0 # map height a)))"
| "height _ = 0"

definition restore :: "('r \<Rightarrow> string \<Rightarrow> bool) \<Rightarrow> 'r argument_plan \<Rightarrow> json \<Rightarrow> string + json" where
  "restore matches plan v = restore_node matches (ap_definitions plan) (height v) {} (ap_root plan) v"

section \<open>Nothing is lost\<close>

text \<open>Objects have distinct keys. A value is described by its scalars and containers, as a multiset, and its height;
  the keys are left out.\<close>

fun wf_json :: "json \<Rightarrow> bool" where
  "wf_json (JObj m) \<longleftrightarrow> distinct (map fst m) \<and> (\<forall>(k, v) \<in> set m. wf_json v)"
| "wf_json (JArr a) \<longleftrightarrow> (\<forall>v \<in> set a. wf_json v)"
| "wf_json _ \<longleftrightarrow> True"

fun nodes :: "json \<Rightarrow> json multiset" where
  "nodes (JObj m) = add_mset (JObj []) (sum_list (map (\<lambda>(k, v). nodes v) m))"
| "nodes (JArr a) = add_mset (JArr []) (sum_list (map nodes a))"
| "nodes v = {#v#}"

definition same_json :: "json \<Rightarrow> json \<Rightarrow> bool" where
  "same_json v v' \<longleftrightarrow> nodes v' = nodes v \<and> height v' = height v \<and> wf_json v'"

abbreviation content :: "json \<Rightarrow> json multiset \<times> nat" where
  "content v \<equiv> (nodes v, height v)"

definition good_object :: "jobj \<Rightarrow> bool" where
  "good_object m \<longleftrightarrow> distinct (map fst m) \<and> (\<forall>(k, v) \<in> set m. wf_json v)"

definition same_object :: "jobj \<Rightarrow> jobj \<Rightarrow> bool" where
  "same_object m m' \<longleftrightarrow> mset (map (\<lambda>(k, v). content v) m') = mset (map (\<lambda>(k, v). content v) m) \<and> good_object m'"

lemma nodes_object: "nodes (JObj m) = add_mset (JObj []) (\<Sum>\<^sub># (image_mset fst (mset (map (\<lambda>(k, v). content v) m))))"
  by (simp add: sum_mset_sum_list [symmetric] multiset.map_comp comp_def case_prod_unfold)

lemma height_object: "height (JObj m) = Suc (Max (insert 0 (snd ` set_mset (mset (map (\<lambda>(k, v). content v) m)))))"
  by (simp add: image_image case_prod_beta)

lemma same_objectD: "same_object m m' \<Longrightarrow> same_json (JObj m) (JObj m')"
  unfolding same_json_def nodes_object height_object same_object_def good_object_def by simp

lemma same_refl: "wf_json v \<Longrightarrow> same_json v v" "good_object m \<Longrightarrow> same_object m m"
  by (simp_all add: same_json_def same_object_def)

lemma same_trans: "same_json u v \<Longrightarrow> same_json v w \<Longrightarrow> same_json u w" "same_object a b \<Longrightarrow> same_object b c \<Longrightarrow> same_object a c"
  by (simp_all add: same_json_def same_object_def)

abbreviation keeps_json :: "('x \<Rightarrow> json \<Rightarrow> 'e + json) \<Rightarrow> bool" where
  "keeps_json f \<equiv> \<forall>x w w'. f x w = Inr w' \<longrightarrow> wf_json w \<longrightarrow> same_json w w'"

lemma each_step_same:
  assumes "each_step f xs m = Inr m'" and "good_object m"
    and "\<And>x m m'. x \<in> set xs \<Longrightarrow> f x m = Inr m' \<Longrightarrow> good_object m \<Longrightarrow> same_object m m'"
  shows "same_object m m'"
  using assms
proof (induction xs arbitrary: m)
  case (Cons x xs)
  then obtain m1 where one: "f x m = Inr m1" "each_step f xs m1 = Inr m'" by (auto split: sum.splits)
  have "same_object m m1" using Cons.prems(3) [OF _ one(1) Cons.prems(2)] by simp
  moreover have "same_object m1 m'"
  proof (rule Cons.IH [OF one(2)])
    show "good_object m1" using calculation by (simp add: same_object_def)
  qed (use Cons.prems(3) in auto)
  ultimately show ?case by (rule same_trans)
qed (simp add: same_refl)

lemma each_value_same:
  "each_value f m = Inr m' \<Longrightarrow> good_object m \<Longrightarrow> keeps_json f \<Longrightarrow>
   same_object m m' \<and> map fst m' = map fst m"
proof (induction f m arbitrary: m' rule: each_value.induct)
  case (2 f k v m)
  then obtain w m1 where one: "f k v = Inr w" "each_value f m = Inr m1" "m' = (k, w) # m1" by (auto split: sum.splits)
  moreover have "good_object m" "wf_json v" using "2.prems"(2) by (simp_all add: good_object_def)
  ultimately have "same_json v w" "same_object m m1 \<and> map fst m1 = map fst m" using 2 by auto
  moreover have "k \<notin> set (map fst m)" using "2.prems"(2) by (simp add: good_object_def)
  ultimately show ?case using one(3) by (auto simp: same_object_def same_json_def good_object_def)
qed (simp add: same_object_def good_object_def)

lemma each_item_same:
  "each_item f i a = Inr a' \<Longrightarrow> (\<forall>v \<in> set a. wf_json v) \<Longrightarrow> keeps_json f \<Longrightarrow>
   list_all2 same_json a a'"
proof (induction f i a arbitrary: a' rule: each_item.induct)
  case (2 f i v a)
  then obtain w a1 where "f i v = Inr w" "each_item f (Suc i) a = Inr a1" "a' = w # a1" by (auto split: sum.splits)
  with 2 show ?case by auto
qed simp

lemma same_array: "list_all2 same_json a a' \<Longrightarrow> same_json (JArr a) (JArr a')"
proof -
  assume same: "list_all2 same_json a a'"
  then have "map nodes a' = map nodes a" "map height a' = map height a" "\<forall>v \<in> set a'. wf_json v"
    by (induction rule: list_all2_induct) (auto simp: same_json_def)
  then show ?thesis by (simp add: same_json_def del: set_simps)
qed

lemma mset_obj_insert: "k \<notin> fst ` set m \<Longrightarrow> mset (obj_insert k v m) = add_mset (k, v) (mset m)"
  by (induction k v m rule: obj_insert.induct) auto

lemma mset_delete: "distinct (map fst m) \<Longrightarrow> map_of m k = Some v \<Longrightarrow> mset m = add_mset (k, v) (mset (AList.delete k m))"
proof (induction m)
  case (Cons e m)
  show ?case
  proof (cases "fst e = k")
    case True
    then have "AList.delete k m = m" using Cons.prems(1) by (intro delete_id) auto
    with True Cons.prems show ?thesis by (cases e) (auto simp: AList.delete_eq)
  next
    case False
    with Cons show ?thesis by (cases e) (auto simp: AList.delete_eq)
  qed
qed simp

lemma mset_update:
  "distinct (map fst m) \<Longrightarrow> map_of m k = Some v \<Longrightarrow> mset (AList.update k w m) = add_mset (k, w) (mset (AList.delete k m))"
proof (induction m)
  case (Cons e m)
  show ?case
  proof (cases "fst e = k")
    case True
    then have "AList.delete k m = m" using Cons.prems(1) by (intro delete_id) auto
    with True show ?thesis by (cases e) (auto simp: AList.delete_eq)
  next
    case False
    with Cons show ?thesis by (cases e) (auto simp: AList.delete_eq)
  qed
qed simp

lemma same_by_mset:
  assumes "good_object m" and "mset m = add_mset (k, v) (mset r)" and "mset m' = add_mset (k', v') (mset r)"
    and "k' \<notin> fst ` set r" and "same_json v v'"
  shows "same_object m m'"
proof -
  have sets: "set m = insert (k, v) (set r)" "set m' = insert (k', v') (set r)"
    using assms(2,3) by (metis set_mset_add_mset_insert set_mset_mset)+
  have "mset (map fst m) = mset (k # map fst r)" "mset (map fst m') = mset (k' # map fst r)"
    using assms(2,3) by (metis (no_types, lifting) fst_conv image_mset_add_mset mset.simps(2) mset_map)+
  moreover have "distinct (map fst m)" using assms(1) by (simp add: good_object_def)
  ultimately have "distinct (map fst m')"
    using assms(4) mset_eq_imp_distinct_iff by (metis distinct.simps(2) list.set_map)
  moreover have "\<forall>(k, v) \<in> set m'. wf_json v" using assms(1,5) sets by (auto simp: good_object_def same_json_def)
  moreover have "mset (map (\<lambda>(k, v). content v) m') = mset (map (\<lambda>(k, v). content v) m)"
    using assms(2,3,5) by (simp add: same_json_def)
  ultimately show ?thesis by (simp add: same_object_def good_object_def)
qed

lemma restore_field_same:
  assumes "restore_field down f m = Inr m'" and "good_object m" and "keeps_json down"
  shows "same_object m m'"
proof -
  obtain name orig child where f: "f = (name, orig, child)" by (cases f)
  let ?m = "case map_of m name of Some v \<Rightarrow> if name \<noteq> orig then obj_insert orig v (obj_remove name m) else m | None \<Rightarrow> m"
  have not_both: "name = orig \<or> map_of m name = None \<or> map_of m orig = None"
    using assms(1) by (auto simp: f restore_field_def split: if_splits)
  have distinct: "distinct (map fst m)" using assms(2) by (simp add: good_object_def)
  have one: "same_object m ?m"
  proof (cases "name \<noteq> orig \<and> map_of m name \<noteq> None")
    case True
    then obtain v where v: "map_of m name = Some v" "map_of m orig = None" "name \<noteq> orig" using not_both by auto
    have "orig \<notin> fst ` set (AList.delete name m)"
      using v(2) dom_delete_subset [of name m] by (auto simp: map_of_eq_None_iff)
    moreover have "wf_json v" using assms(2) v(1) by (auto simp: good_object_def dest: map_of_SomeD)
    ultimately have "same_object m (obj_insert orig v (obj_remove name m))"
      using mset_delete [OF distinct v(1)] same_refl(1) assms(2)
      by (intro same_by_mset [of m name v "AList.delete name m" _ orig v]) (simp_all add: obj_remove_def mset_obj_insert)
    with v show ?thesis by simp
  next
    case False
    with assms(2) show ?thesis by (auto simp: same_refl split: option.split)
  qed
  show ?thesis
  proof (cases "map_of ?m orig")
    case None
    with assms(1) not_both one show ?thesis by (auto simp: f restore_field_def Let_def)
  next
    case (Some v)
    then obtain w where w: "down child v = Inr w" "m' = AList.update orig w ?m"
      using assms(1) not_both by (auto simp: f restore_field_def Let_def split: sum.splits)
    have good: "good_object ?m" using one by (simp add: same_object_def)
    then have dist: "distinct (map fst ?m)" and "wf_json v"
      using Some by (auto simp: good_object_def dest: map_of_SomeD)
    then have "same_object ?m m'"
      unfolding w(2) using good mset_delete [OF dist Some] mset_update [OF dist Some, of w] assms(3) w(1)
      by (intro same_by_mset [of ?m orig v "AList.delete orig ?m" _ orig w]) (simp_all add: delete_notin_dom)
    with one show ?thesis by (rule same_trans)
  qed
qed

lemma on_keys_same:
  assumes "on_keys wanted down c m = Inr m'" and "good_object m" and "keeps_json down"
  shows "same_object m m'"
proof -
  have "keeps_json (\<lambda>k v. if wanted k then down c v else Inr v)" using assms(3) by (auto simp: same_refl split: if_splits)
  from each_value_same [OF assms(1) [unfolded on_keys_def] assms(2) this] show ?thesis by blast
qed

lemma restore_object_same:
  assumes "restore_object matches down p m = Inr m'" and "good_object m"
    and down: "keeps_json down"
  shows "same_object m m'"
proof -
  let ?f1 = "restore_field down" and ?f2 = "\<lambda>(pattern, child). on_keys (matches pattern) down child"
  let ?f3 = "on_keys (\<lambda>k. k \<notin> set (am_known p)) down"
  let ?f4 = "on_keys (\<lambda>k. k \<notin> set (am_known p) \<and> \<not> list_ex (\<lambda>(pattern, _). matches pattern k) (am_patterns p)) down"
  obtain m1 m2 m3 where s: "each_step ?f1 (am_fields p) m = Inr m1" "each_step ?f2 (am_patterns p) m1 = Inr m2"
      "each_step ?f3 (am_fallback p) m2 = Inr m3" "each_step ?f4 (am_extra p) m3 = Inr m'"
    using assms(1) unfolding restore_object_def by (auto split: sum.splits)
  have steps: "?f1 x a = Inr b \<Longrightarrow> good_object a \<Longrightarrow> same_object a b" "?f2 y a = Inr b \<Longrightarrow> good_object a \<Longrightarrow> same_object a b"
      "on_keys q down z a = Inr b \<Longrightarrow> good_object a \<Longrightarrow> same_object a b" for x y z q a b
    using restore_field_same [OF _ _ down] on_keys_same [OF _ _ down] by (auto split: prod.splits)
  have good: "same_object a b \<Longrightarrow> good_object b" for a b by (simp add: same_object_def)
  have one: "same_object m m1" using s(1) assms(2) by (rule each_step_same) (rule steps)
  have two: "same_object m1 m2" using s(2) good [OF one] by (rule each_step_same) (rule steps)
  have three: "same_object m2 m3" using s(3) good [OF two] by (rule each_step_same) (rule steps)
  have "same_object m3 m'" using s(4) good [OF three] by (rule each_step_same) (rule steps)
  with one two three show ?thesis using same_trans(2) by blast
qed

lemma restore_value_same:
  assumes "restore_value matches down p v = Inr v'" and "wf_json v"
    and down: "keeps_json down"
  shows "same_json v v'"
proof (cases v)
  case (JObj m)
  with assms(1) obtain m' where "restore_object matches down p m = Inr m'" "v' = JObj m'"
    by (cases "restore_object matches down p m") (auto simp: restore_value_def)
  moreover have "good_object m" using assms(2) JObj by (simp add: good_object_def)
  ultimately show ?thesis using restore_object_same [OF _ _ down] JObj same_objectD by blast
next
  case (JArr a)
  with assms(1) obtain a' where a': "each_item (restore_item down p) 0 a = Inr a'" "v' = JArr a'"
    by (cases "each_item (restore_item down p) 0 a") (auto simp: restore_value_def)
  have item: "keeps_json (restore_item down p)"
  proof (intro allI impI)
    fix i w w' assume run: "restore_item down p i w = Inr w'" and wf: "wf_json w"
    then obtain u where u: "(case item_plan p i of Some c \<Rightarrow> down c w | None \<Rightarrow> Inr w) = Inr u"
        "(case am_contains p of Some c \<Rightarrow> down c u | None \<Rightarrow> Inr u) = Inr w'"
      by (auto simp: restore_item_def split: sum.splits)
    have "same_json w u" using u(1) wf down by (auto simp: same_refl split: option.splits)
    moreover have "same_json u w'" using u(2) calculation down by (auto simp: same_json_def split: option.splits)
    ultimately show "same_json w w'" by (rule same_trans)
  qed
  show ?thesis
    unfolding JArr a'(2) using each_item_same [OF a'(1) _ item] assms(2) JArr by (intro same_array) auto
qed (use assms in \<open>simp_all add: restore_value_def same_refl\<close>)

lemma each_step_json:
  "each_step f xs v = Inr v' \<Longrightarrow> wf_json v \<Longrightarrow> (\<And>x w w'. x \<in> set xs \<Longrightarrow> f x w = Inr w' \<Longrightarrow> wf_json w \<Longrightarrow> same_json w w') \<Longrightarrow>
   same_json v v'"
proof (induction xs arbitrary: v)
  case (Cons x xs)
  then obtain w where one: "f x v = Inr w" "each_step f xs w = Inr v'" by (auto split: sum.splits)
  have "same_json v w" using Cons.prems(3) [OF _ one(1) Cons.prems(2)] by simp
  moreover have "same_json w v'"
    using calculation Cons.prems(3) by (intro Cons.IH [OF one(2)]) (auto simp: same_json_def)
  ultimately show ?case by (rule same_trans)
qed (simp add: same_refl)

lemma restore_node_same: "restore_node matches defs n active p v = Inr v' \<Longrightarrow> wf_json v \<Longrightarrow> same_json v v'"
proof (induction matches defs n active p v arbitrary: v' rule: restore_node.induct)
  case (1 matches defs n active p v)
  show ?case
  proof (cases "am_reference p")
    case (Some r)
    with 1 show ?thesis by (auto simp: restore_node.simps [of matches defs n active p v] same_refl split: if_splits option.splits)
  next
    case None
    let ?down = "\<lambda>c w. case n of Suc n' \<Rightarrow> restore_node matches defs n' {} c w | 0 \<Rightarrow> Inr w"
    from None "1.prems"(1) obtain w where w: "restore_value matches ?down p v = Inr w"
        "each_step (restore_node matches defs n active) (am_branches p) w = Inr v'"
      by (auto simp: restore_node.simps [of matches defs n active p v] split: sum.splits)
    have "keeps_json ?down" using "1.IH"(1) [OF None] by (auto simp: same_refl split: nat.splits)
    with w(1) "1.prems"(2) have one: "same_json v w" by (rule restore_value_same)
    then have "same_json w v'"
      using "1.IH"(2) [OF None w(1)] by (intro each_step_json [OF w(2)]) (auto simp: same_json_def)
    with one show ?thesis by (rule same_trans)
  qed
qed

section \<open>The bound is never reached\<close>

definition below :: "nat \<Rightarrow> jobj \<Rightarrow> bool" where
  "below h m \<longleftrightarrow> good_object m \<and> (\<forall>(k, v) \<in> set m. height v < h)"

lemma below_same: "below h m \<Longrightarrow> same_object m m' \<Longrightarrow> below h m'"
proof -
  assume m: "below h m" and same: "same_object m m'"
  have "set (map (\<lambda>(k, v). content v) m') = set (map (\<lambda>(k, v). content v) m)"
    using same unfolding same_object_def by (elim conjE) (rule mset_eq_setD)
  then have "snd ` set (map (\<lambda>(k, v). content v) m') = snd ` set (map (\<lambda>(k, v). content v) m)" by (rule arg_cong)
  then have "height ` snd ` set m' = height ` snd ` set m" by (simp add: image_image case_prod_beta)
  moreover have "\<forall>x \<in> height ` snd ` set m. x < h" using m by (auto simp: below_def)
  ultimately have "\<forall>x \<in> height ` snd ` set m'. x < h" by simp
  then show "below h m'" using same by (auto simp: below_def same_object_def)
qed

lemma each_step_agree:
  assumes "below h m" and "\<And>x m. x \<in> set xs \<Longrightarrow> below h m \<Longrightarrow> f x m = g x m"
    and "\<And>x m m'. x \<in> set xs \<Longrightarrow> f x m = Inr m' \<Longrightarrow> below h m \<Longrightarrow> below h m'"
  shows "each_step f xs m = each_step g xs m \<and> (\<forall>m'. each_step f xs m = Inr m' \<longrightarrow> below h m')"
  using assms
proof (induction xs arbitrary: m)
  case (Cons x xs)
  have eq: "g x m = f x m" using Cons.prems(1,2) by simp
  show ?case
  proof (cases "f x m")
    case (Inr m1)
    have "below h m1" using Cons.prems(3) [OF _ Inr Cons.prems(1)] by simp
    then have "each_step f xs m1 = each_step g xs m1 \<and> (\<forall>m'. each_step f xs m1 = Inr m' \<longrightarrow> below h m')"
      using Cons.prems(2,3) by (rule Cons.IH) auto
    then show ?thesis by (simp add: eq Inr)
  qed (simp add: eq)
qed simp

lemma each_value_cong: "(\<And>k v. (k, v) \<in> set m \<Longrightarrow> f k v = g k v) \<Longrightarrow> each_value f m = each_value g m"
  by (induction f m rule: each_value.induct) (auto split: sum.split)

lemma each_item_cong: "(\<And>i v. v \<in> set a \<Longrightarrow> f i v = g i v) \<Longrightarrow> each_item f i a = each_item g i a"
  by (induction f i a rule: each_item.induct) (auto split: sum.split)

abbreviation agree_below :: "nat \<Rightarrow> ('x \<Rightarrow> json \<Rightarrow> 'e + json) \<Rightarrow> ('x \<Rightarrow> json \<Rightarrow> 'e + json) \<Rightarrow> bool" where
  "agree_below h f g \<equiv> \<forall>c w. wf_json w \<longrightarrow> height w < h \<longrightarrow> f c w = g c w"

lemma below_value: "below h m \<Longrightarrow> map_of m k = Some v \<Longrightarrow> wf_json v \<and> height v < h"
  by (auto simp: below_def good_object_def dest!: map_of_SomeD)

lemma field_agree:
  assumes "agree_below h f g" and "below h m"
  shows "restore_field f x m = restore_field g x m"
proof -
  obtain name orig child where x: "x = (name, orig, child)" by (cases x)
  let ?m = "case map_of m name of Some v \<Rightarrow> if name \<noteq> orig then obj_insert orig v (obj_remove name m) else m | None \<Rightarrow> m"
  have "f child v = g child v" if v: "map_of ?m orig = Some v" for v
  proof -
    have "map_of m name = Some v \<or> map_of m orig = Some v"
      using v by (auto simp: map_of_obj_insert split: option.splits if_splits)
    with below_value [OF assms(2)] assms(1) show ?thesis by blast
  qed
  then show ?thesis unfolding restore_field_def x Let_def by (auto split: option.split)
qed

lemma below_member: "below h m \<Longrightarrow> (k, v) \<in> set m \<Longrightarrow> wf_json v \<and> height v < h"
  by (auto simp: below_def good_object_def)

lemma on_keys_agree: "agree_below h f g \<Longrightarrow> below h m \<Longrightarrow> on_keys wanted f c m = on_keys wanted g c m"
  unfolding on_keys_def by (rule each_value_cong) (simp add: below_member)

lemma below_good: "below h m \<Longrightarrow> good_object m"
  by (simp add: below_def)

lemma step_agree:
  assumes "below h a"
    and "\<And>x m. below h m \<Longrightarrow> F x m = G x m"
    and "\<And>x m m'. F x m = Inr m' \<Longrightarrow> good_object m \<Longrightarrow> same_object m m'"
  shows "each_step F xs a = each_step G xs a \<and> (\<forall>b. each_step F xs a = Inr b \<longrightarrow> below h b)"
  using assms(1)
proof (rule each_step_agree)
  show "below h m'" if "F x m = Inr m'" "below h m" for x m m'
    using below_same [OF that(2) assms(3) [OF that(1) below_good [OF that(2)]]] .
qed (rule assms(2))

lemma restore_object_agree:
  assumes agree: "agree_below h f g" and keeps: "keeps_json f" and m: "below h m"
  shows "restore_object matches f p m = restore_object matches g p m"
proof -
  let ?pf = "\<lambda>(pattern, c). on_keys (matches pattern) f c" and ?pg = "\<lambda>(pattern, c). on_keys (matches pattern) g c"
  have fields: "each_step (restore_field f) xs a = each_step (restore_field g) xs a \<and>
      (\<forall>b. each_step (restore_field f) xs a = Inr b \<longrightarrow> below h b)" if "below h a" for xs a
    using that by (rule step_agree) (rule field_agree [OF agree], assumption, rule restore_field_same [OF _ _ keeps])
  have patterns: "each_step ?pf xs a = each_step ?pg xs a \<and> (\<forall>b. each_step ?pf xs a = Inr b \<longrightarrow> below h b)"
    if "below h a" for xs a
    using that
  proof (rule step_agree)
    show "?pf x m = ?pg x m" if "below h m" for x m using on_keys_agree [OF agree that] by (cases x) simp
    show "same_object m m'" if "?pf x m = Inr m'" "good_object m" for x m m'
      using on_keys_same [OF _ that(2) keeps] that(1) by (cases x) simp
  qed
  have keys: "each_step (on_keys q f) xs a = each_step (on_keys q g) xs a \<and>
      (\<forall>b. each_step (on_keys q f) xs a = Inr b \<longrightarrow> below h b)" if "below h a" for q xs a
    using that by (rule step_agree) (rule on_keys_agree [OF agree], assumption, rule on_keys_same [OF _ _ keeps])
  show ?thesis
  proof (cases "each_step (restore_field f) (am_fields p) m")
    case (Inr m1)
    note one = this conjunct1 [OF fields [OF m, of "am_fields p"]]
    have m1: "below h m1" using fields [OF m, of "am_fields p"] Inr by blast
    show ?thesis
    proof (cases "each_step ?pf (am_patterns p) m1")
      case (Inr m2)
      note two = this conjunct1 [OF patterns [OF m1, of "am_patterns p"]]
      have m2: "below h m2" using patterns [OF m1, of "am_patterns p"] Inr by blast
      let ?q = "\<lambda>k. k \<notin> set (am_known p)"
      have "below h m3" if "each_step (on_keys ?q f) (am_fallback p) m2 = Inr m3" for m3
        using keys [OF m2, of ?q "am_fallback p"] that by blast
      then show ?thesis
        unfolding restore_object_def one(2) [symmetric] one(1) sum.case two(2) [symmetric] two(1)
          conjunct1 [OF keys [OF m2], symmetric]
        by (cases "each_step (on_keys ?q f) (am_fallback p) m2") (simp_all add: conjunct1 [OF keys])
    qed (simp add: restore_object_def one(2) [symmetric] one(1) conjunct1 [OF patterns [OF m1], symmetric])
  qed (simp add: restore_object_def conjunct1 [OF fields [OF m], symmetric])
qed

lemma restore_item_agree:
  assumes agree: "agree_below h f g" and keeps: "keeps_json f" and v: "wf_json v" "height v < h"
  shows "restore_item f p i v = restore_item g p i v"
proof -
  have first: "(case item_plan p i of Some c \<Rightarrow> f c v | None \<Rightarrow> Inr v) = (case item_plan p i of Some c \<Rightarrow> g c v | None \<Rightarrow> Inr v)"
    using agree v by (auto split: option.split)
  show ?thesis
  proof (cases "case item_plan p i of Some c \<Rightarrow> f c v | None \<Rightarrow> Inr v")
    case (Inr u)
    have "same_json v u" using Inr keeps v(1) by (auto simp: same_refl split: option.splits)
    then have "f c u = g c u" for c using agree v by (simp add: same_json_def)
    then show ?thesis unfolding restore_item_def first [symmetric] Inr by (simp split: option.split)
  qed (simp add: restore_item_def first [symmetric])
qed

lemma restore_value_agree:
  assumes agree: "agree_below (height v) f g" and keeps: "keeps_json f" and "wf_json v"
  shows "restore_value matches f p v = restore_value matches g p v"
proof (cases v)
  case (JObj m)
  have "height w < height (JObj m)" if "(k, w) \<in> set m" for k w
    using that by (force simp: less_Suc_eq_le intro: Max_ge)
  then have "below (height v) m" using assms(3) JObj by (auto simp: below_def good_object_def)
  from restore_object_agree [OF agree keeps this] JObj show ?thesis by (simp add: restore_value_def)
next
  case (JArr a)
  have "height w < height v" if "w \<in> set a" for w using that JArr by (simp add: less_Suc_eq_le)
  then have "each_item (restore_item f p) 0 a = each_item (restore_item g p) 0 a"
    using assms(3) JArr by (intro each_item_cong restore_item_agree [OF agree keeps]) auto
  with JArr show ?thesis by (simp add: restore_value_def)
qed (simp_all add: restore_value_def)

lemma restore_bound:
  "wf_json v \<Longrightarrow> height v \<le> n \<Longrightarrow> restore_node matches defs (Suc n) active p v = restore_node matches defs n active p v"
proof (induction matches defs n active p v rule: restore_node.induct)
  case (1 matches defs n active p v)
  show ?case
  proof (cases "am_reference p")
    case (Some r)
    with 1 show ?thesis
      by (auto simp: restore_node.simps [of matches defs n active p v] restore_node.simps [of matches defs "Suc n" active p v] split: option.split)
  next
    case None
    let ?f = "\<lambda>c w. restore_node matches defs n {} c w"
    let ?g = "\<lambda>c w. case n of Suc n' \<Rightarrow> restore_node matches defs n' {} c w | 0 \<Rightarrow> Inr w"
    have agree: "agree_below (height v) ?f ?g" using "1.IH"(1) [OF None] "1.prems"(2) by (auto split: nat.split)
    have "keeps_json ?f" using restore_node_same by blast
    from restore_value_agree [OF agree this "1.prems"(1)]
    have eqv: "restore_value matches ?f p v = restore_value matches ?g p v" .
    have branches: "each_step (restore_node matches defs (Suc n) active) bs w = each_step (restore_node matches defs n active) bs w"
      if "restore_value matches ?g p v = Inr u" "set bs \<subseteq> set (am_branches p)" "wf_json w" "height w \<le> n" for bs w u
      using that(2-)
    proof (induction bs arbitrary: w)
      case (Cons b bs)
      have eq: "restore_node matches defs (Suc n) active b w = restore_node matches defs n active b w"
        using "1.IH"(2) [OF None that(1)] Cons.prems by simp
      show ?case
      proof (cases "restore_node matches defs n active b w")
        case (Inr w')
        from restore_node_same [OF this] Cons.prems have "wf_json w' \<and> height w' \<le> n" by (simp add: same_json_def)
        with Cons show ?thesis by (simp add: eq Inr)
      qed (simp add: eq)
    qed simp
    have "wf_json u \<and> height u \<le> n" if "restore_value matches ?g p v = Inr u" for u
      using restore_value_same [OF that "1.prems"(1)] "1.prems"(2) restore_node_same
      by (fastforce simp: same_json_def same_refl split: nat.splits)
    with branches eqv None show ?thesis
      by (simp add: restore_node.simps [of matches defs n active p v] restore_node.simps [of matches defs "Suc n" active p v] split: sum.split)
  qed
qed

end
