(* ===== verification/SchemaRoundtrip.thy ===== *)
theory SchemaRoundtrip
  imports SchemaRestore
begin

text \<open>
  What the renaming of \<open>schema_compat.rs\<close> promises: a client that fills in the published keys reaches the
  server under the original keys, no argument value is lost or changed on the way, and the depth bound of
  the model of \<open>restore_node\<close> is never reached.
\<close>

section \<open>Restoring the fields of one object\<close>

abbreviation changed_names :: "(string \<times> string \<times> 'r argument_map) list \<Rightarrow> string set" where
  "changed_names fs \<equiv> {a. \<exists>o' c. (a, o', c) \<in> set fs \<and> a \<noteq> o'}"

definition clean_fields :: "(string \<times> string \<times> 'r argument_map) list \<Rightarrow> bool" where
  "clean_fields fs \<longleftrightarrow> distinct (map fst fs) \<and> distinct (map (fst \<circ> snd) fs) \<and>
     (\<forall>(a, orig, c) \<in> set fs. a \<noteq> orig \<longrightarrow> a \<notin> (fst \<circ> snd) ` set fs)"

abbreviation name_of :: "(string \<times> string \<times> 'r argument_map) list \<Rightarrow> string \<rightharpoonup> string" where
  "name_of fs \<equiv> map_of (map (\<lambda>(a, orig, c). (orig, a)) fs)"

lemma restore_leaf_field:
  assumes "\<And>v. down child v = Inr v" and "a \<noteq> orig \<Longrightarrow> map_of m orig = None"
  shows "\<exists>m1. restore_field down (a, orig, child) m = Inr m1 \<and> map_of m1 = (map_of m)(a := None, orig := map_of m a)"
proof (cases "a = orig \<or> map_of m a = None")
  case True
  with assms show ?thesis
    by (cases "map_of m orig") (auto simp: restore_field_def Let_def update_conv fun_eq_iff split: option.split)
next
  case False
  with assms show ?thesis
    by (auto simp: restore_field_def Let_def update_conv map_of_obj_insert map_of_obj_remove fun_eq_iff)
qed

lemma restore_fields:
  assumes "clean_fields fs" and "\<And>a orig c v. (a, orig, c) \<in> set fs \<Longrightarrow> down c v = Inr v"
    and "\<And>a orig c. (a, orig, c) \<in> set fs \<Longrightarrow> a \<noteq> orig \<Longrightarrow> map_of m orig = None"
  shows "\<exists>m'. each_step (restore_field down) fs m = Inr m' \<and>
    (\<forall>k. map_of m' k = (case name_of fs k of Some a \<Rightarrow> map_of m a | None \<Rightarrow> if k \<in> fst ` set fs then None else map_of m k))"
  using assms
proof (induction fs arbitrary: m)
  case (Cons f fs)
  obtain a orig c where f: "f = (a, orig, c)" by (cases f)
  have in_fs: "down c v = Inr v" "a \<noteq> orig \<Longrightarrow> map_of m orig = None" for v
    using Cons.prems(2,3) [of a orig c] by (simp_all add: f)
  obtain m1 where m1: "restore_field down f m = Inr m1" "map_of m1 = (map_of m)(a := None, orig := map_of m a)"
    unfolding f using restore_leaf_field [of down c a orig m, OF in_fs(1) in_fs(2)] by blast
  have clean: "clean_fields fs" and apart: "a \<notin> fst ` set fs" "orig \<notin> (fst \<circ> snd) ` set fs" "orig \<notin> fst ` set fs"
    using Cons.prems(1) by (auto simp: clean_fields_def f rev_image_eqI)
  have rest: "down c' v = Inr v" if "(a', o', c') \<in> set fs" for a' o' c' v using Cons.prems(2) [of a' o' c' v] that by simp
  have none: "map_of m1 o' = None" if "(a', o', c') \<in> set fs" "a' \<noteq> o'" for a' o' c'
    using Cons.prems(3) [of a' o' c'] that apart(2) m1(2) by (force split: if_splits)
  have "\<exists>m'. each_step (restore_field down) fs m1 = Inr m' \<and> (\<forall>k. map_of m' k =
      (case name_of fs k of Some a \<Rightarrow> map_of m1 a | None \<Rightarrow> if k \<in> fst ` set fs then None else map_of m1 k))"
    using clean rest none by (rule Cons.IH)
  then obtain m' where m': "each_step (restore_field down) fs m1 = Inr m'"
      "map_of m' k = (case name_of fs k of Some a \<Rightarrow> map_of m1 a | None \<Rightarrow> if k \<in> fst ` set fs then None else map_of m1 k)" for k
    by blast
  have "map_of m1 b = map_of m b" if "name_of fs k = Some b" for b k
    using that apart m1(2) by (force dest!: map_of_SomeD)
  moreover have "name_of fs orig = None" using apart(2) by (force simp: map_of_eq_None_iff)
  ultimately have "map_of m' k = (case name_of (f # fs) k of Some a \<Rightarrow> map_of m a | None \<Rightarrow> if k \<in> fst ` set (f # fs) then None else map_of m k)" for k
    using m'(2) [of k] apart m1(2) by (auto simp: f split: option.split)
  with m1(1) m'(1) show ?case by auto
qed auto

section \<open>The fields of a schema\<close>

lemma aliases_shape:
  assumes "length (property_keys s) < 10 ^ 9"
  shows "inj_on (alias_of (key_aliases s)) (set (property_keys s))"
    and "k \<in> set (property_keys s) \<Longrightarrow> alias_of (key_aliases s) k \<noteq> k \<Longrightarrow> alias_of (key_aliases s) k \<notin> set (property_keys s) \<and> \<not> valid_key k"
    and "k \<in> set (property_keys s) \<Longrightarrow> valid_key (alias_of (key_aliases s) k)"
proof -
  let ?al = "key_aliases s"
  note ok = key_aliases_ok [OF assms]
  have some: "map_of ?al k = Some a \<Longrightarrow> a \<in> set (map snd ?al) \<and> k \<in> set (map fst ?al)" for k a
    by (force dest: map_of_SomeD)
  have none: "map_of ?al k = None \<Longrightarrow> k \<in> set (property_keys s) \<Longrightarrow> valid_key k" for k
    using ok by (auto simp: map_of_eq_None_iff)
  have "inj_on snd (set ?al)" using ok by (simp add: distinct_map)
  then have one: "map_of ?al k = Some a \<Longrightarrow> map_of ?al l = Some a \<Longrightarrow> k = l" for k l a
    by (metis fst_conv inj_onD map_of_SomeD snd_conv)
  show "inj_on (alias_of ?al) (set (property_keys s))"
  proof (rule inj_onI)
    fix k l assume "k \<in> set (property_keys s)" "l \<in> set (property_keys s)" "alias_of ?al k = alias_of ?al l"
    with ok some one show "k = l" by (auto simp: alias_of_def split: option.splits)
  qed
  show "alias_of ?al k \<notin> set (property_keys s) \<and> \<not> valid_key k" if "k \<in> set (property_keys s)" "alias_of ?al k \<noteq> k"
    using that ok some by (fastforce simp: alias_of_def split: option.splits)
  show "valid_key (alias_of ?al k)" if "k \<in> set (property_keys s)"
    using that ok some none by (auto simp: alias_of_def split: option.splits)
qed

lemma set_obj_insert: "k \<notin> fst ` set m \<Longrightarrow> set (obj_insert k v m) = insert (k, v) (set m)"
  by (metis mset_obj_insert set_mset_add_mset_insert set_mset_mset)

lemma distinct_obj_insert: "k \<notin> fst ` set m \<Longrightarrow> distinct (map fst m) \<Longrightarrow> distinct (map fst (obj_insert k v m))"
  by (induction k v m rule: obj_insert.induct) (auto simp: set_obj_insert_keys)

abbreviation plan_step where
  "plan_step al f \<equiv> \<lambda>(orig, c) acc. let a = alias_of al orig; child = f c
     in if a \<noteq> orig \<or> \<not> is_empty_map child then obj_insert a (orig, child) acc else acc"

lemma disjoint_insert_mono: "A \<subseteq> insert x B \<Longrightarrow> B \<inter> C = {} \<Longrightarrow> x \<notin> C \<Longrightarrow> A \<inter> C = {}"
  by blast

lemma fold_plan_step:
  assumes "inj_on (alias_of al) (fst ` set p)" and "distinct (map fst p)" and "distinct (map fst acc)"
    and "fst ` set acc \<inter> alias_of al ` fst ` set p = {}"
  shows "distinct (map fst (fold (plan_step al f) p acc)) \<and>
    set (fold (plan_step al f) p acc) =
      set acc \<union> {(alias_of al orig, orig, f c) | orig c. (orig, c) \<in> set p \<and> (alias_of al orig \<noteq> orig \<or> \<not> is_empty_map (f c))}"
  using assms
proof (induction p arbitrary: acc)
  case (Cons e p)
  obtain orig c where e: "e = (orig, c)" by (cases e)
  let ?acc = "plan_step al f e acc"
  have new: "alias_of al orig \<notin> fst ` set acc" "alias_of al orig \<notin> alias_of al ` fst ` set p"
    using Cons.prems by (auto simp: e inj_on_def)
  have step: "distinct (map fst ?acc) \<and> fst ` set ?acc \<subseteq> insert (alias_of al orig) (fst ` set acc) \<and>
      set ?acc = set acc \<union> {(alias_of al orig, orig, f c) | x. alias_of al orig \<noteq> orig \<or> \<not> is_empty_map (f c)}"
    using Cons.prems(3) new by (auto simp: e Let_def set_obj_insert distinct_obj_insert)
  have "fst ` set ?acc \<inter> alias_of al ` fst ` set p = {}"
  proof -
    have old: "fst ` set acc \<inter> alias_of al ` fst ` set p = {}" using Cons.prems(4) by (auto simp: e)
    have "fst ` set ?acc \<subseteq> insert (alias_of al orig) (fst ` set acc)" using step by (rule conjunct1 [OF conjunct2])
    then show ?thesis using old new(2) by (rule disjoint_insert_mono)
  qed
  moreover have "inj_on (alias_of al) (fst ` set p)" "distinct (map fst p)" using Cons.prems(1,2) by (simp_all add: e)
  ultimately have "distinct (map fst (fold (plan_step al f) p ?acc)) \<and> set (fold (plan_step al f) p ?acc) =
      (set acc \<union> {(alias_of al orig, orig, f c) | x. alias_of al orig \<noteq> orig \<or> \<not> is_empty_map (f c)}) \<union>
      {(alias_of al orig, orig, f c) | orig c. (orig, c) \<in> set p \<and> (alias_of al orig \<noteq> orig \<or> \<not> is_empty_map (f c))}"
    using Cons.IH [of ?acc] step by presburger
  then show ?case unfolding e fold_simps by (auto simp: comp_def)
qed auto

lemma field_plans_clean:
  assumes "length (property_keys (JObj m)) < 10 ^ 9" and "map_of m ''properties'' = Some (JObj p)" and "distinct (map fst p)"
  defines "al \<equiv> key_aliases (JObj m)"
  shows "clean_fields (field_plans al f m) \<and>
    set (field_plans al f m) = {(alias_of al orig, orig, f c) | orig c. (orig, c) \<in> set p \<and> (alias_of al orig \<noteq> orig \<or> \<not> is_empty_map (f c))}"
proof -
  have keys: "fst ` set p \<subseteq> set (property_keys (JObj m))" using assms(2) by auto
  note shape = aliases_shape [OF assms(1), folded al_def]
  have inj: "inj_on (alias_of al) (fst ` set p)" using shape(1) keys by (rule inj_on_subset)
  let ?fs = "field_plans al f m"
  have fs: "?fs = fold (plan_step al f) p []" unfolding field_plans_def assms(2) by simp
  have result: "distinct (map fst ?fs) \<and>
      set ?fs = {(alias_of al orig, orig, f c) | orig c. (orig, c) \<in> set p \<and> (alias_of al orig \<noteq> orig \<or> \<not> is_empty_map (f c))}"
    unfolding fs using fold_plan_step [OF inj assms(3), of "[]" f] by simp
  then have member: "x \<in> set ?fs \<Longrightarrow> fst x = alias_of al (fst (snd x)) \<and> fst (snd x) \<in> fst ` set p" for x by force
  have "inj_on (fst \<circ> snd) (set ?fs)"
  proof (rule inj_onI)
    fix x y assume x: "x \<in> set ?fs" and y: "y \<in> set ?fs" and same: "(fst \<circ> snd) x = (fst \<circ> snd) y"
    have "fst x = fst y" using member [OF x] member [OF y] same by simp
    with result x y show "x = y" by (auto simp: distinct_map dest: inj_onD)
  qed
  moreover have "distinct ?fs" using result by (simp add: distinct_map)
  ultimately have "distinct (map (fst \<circ> snd) ?fs)" by (simp add: distinct_map)
  moreover have "a \<notin> (fst \<circ> snd) ` set ?fs" if "(a, orig, c) \<in> set ?fs" "a \<noteq> orig" for a orig c
  proof -
    have orig: "a = alias_of al orig" "orig \<in> set (property_keys (JObj m))"
      using member [OF that(1)] keys unfolding fst_conv snd_conv by blast+
    have "a \<notin> set (property_keys (JObj m))" using shape(2) [OF orig(2)] that(2) unfolding orig(1) by blast
    moreover have "(fst \<circ> snd) ` set ?fs \<subseteq> set (property_keys (JObj m))" 
    proof (rule image_subsetI)
      fix x assume "x \<in> set ?fs"
      from conjunct2 [OF member [OF this]] keys show "(fst \<circ> snd) x \<in> set (property_keys (JObj m))" unfolding comp_def by (rule subsetD [rotated])
    qed
    ultimately show ?thesis by blast
  qed
  ultimately have "clean_fields ?fs"
    unfolding clean_fields_def split_def using conjunct1 [OF result] by (metis prod.collapse)
  with result show ?thesis by blast
qed

section \<open>The properties\<close>

lemma restore_empty: "is_empty_map c \<Longrightarrow> restore_node matches defs n active c v = Inr v"
proof -
  assume c: "is_empty_map c"
  have item: "each_item (restore_item down c) i a = Inr a" for down :: "'a restorer" and i a
    using c by (induction a arbitrary: i) (simp_all add: restore_item_def item_plan_def is_empty_map_def)
  from c show ?thesis
    by (cases v) (simp_all add: restore_node.simps [of _ _ _ _ c] restore_value_def restore_object_def is_empty_map_def item)
qed

lemma restore_flat_plan:
  assumes "am_reference p = None" and "am_branches p = []" and "am_fallback p = []" and "am_extra p = []" and "am_patterns p = []"
  shows "restore_node matches defs n {} p (JObj m) =
    map_sum id JObj (each_step (restore_field (\<lambda>c w. case n of Suc n' \<Rightarrow> restore_node matches defs n' {} c w | 0 \<Rightarrow> Inr w)) (am_fields p) m)"
  using assms by (simp add: restore_node.simps [of _ _ _ _ p] restore_value_def restore_object_def split: sum.split)


definition flat_schema :: jobj where
  "flat_schema = [(''properties'', JObj [(''a b'', JObj []), (''path'', JObj [])])]"

definition flat_env :: number_env where
  "flat_env = \<lparr>ne_parse = (\<lambda>_. None), ne_zero = (\<lambda>_. False), ne_count = (\<lambda>_. True), ne_positive = (\<lambda>_. True), ne_finite = (\<lambda>_. True)\<rparr>"

definition flat_plan :: "unit argument_plan" where
  "flat_plan = snd (normalize flat_env (\<lambda>_. None) (JObj flat_schema))"


text \<open>Renaming the arguments back neither loses, duplicates nor changes a value: whatever the plan, when restoring
  succeeds the result has the same scalars and containers as the arguments, the same depth, and still
  no key twice in an object.\<close>

theorem restore_keeps_values:
  assumes "restore matches plan v = Inr v'" and "wf_json v"
  shows "nodes v' = nodes v \<and> height v' = height v \<and> wf_json v'"
  using restore_node_same [OF assms(1) [unfolded restore_def] assms(2)] by (simp add: same_json_def)

theorem restore_keeps_values_witness:
  "restore (\<lambda>_ _. False) flat_plan (JObj [(''a_b'', JNull)]) = Inr (JObj [(''a b'', JNull)]) \<and>
   nodes (JObj [(''a b'', JNull)]) = nodes (JObj [(''a_b'', JNull)])"
proof -
  have run: "restore (\<lambda>_ _. False) flat_plan (JObj [(''a_b'', JNull)]) = Inr (JObj [(''a b'', JNull)])" by code_simp
  from restore_keeps_values [OF run] run show ?thesis by simp
qed

text \<open>C38: Restoring terminates on every plan, recursive ones included, after one level of recursion for each level of the
  arguments: from the height of the arguments on, no larger depth changes the result, so the depth the
  definition allows is never what stops it.\<close>

theorem restore_depth_enough:
  assumes "wf_json v" and "height v \<le> n"
  shows "restore_node matches (ap_definitions plan) n {} (ap_root plan) v = restore matches plan v"
  using assms(2)
proof (induction n rule: dec_induct)
  case (step n)
  have "restore_node matches (ap_definitions plan) (Suc n) {} (ap_root plan) v = restore_node matches (ap_definitions plan) n {} (ap_root plan) v"
    using assms(1) step.hyps(1) by (rule restore_bound)
  also have "\<dots> = restore matches plan v" by (rule step.IH)
  finally show ?case .
qed (simp add: restore_def)

theorem restore_depth_enough_witness:
  "restore_node (\<lambda>_ _. False) (ap_definitions flat_plan) 7 {} (ap_root flat_plan) (JArr [JNull]) = restore (\<lambda>_ _. False) flat_plan (JArr [JNull])"
  by (rule restore_depth_enough) simp_all

end
