(* ===== verification/SchemaCalls.thy ===== *)
theory SchemaCalls
  imports RouterCalls SchemaRoundtrip
begin

text \<open>
  Schema compatibility inside the router (\<open>router.rs\<close> on top of \<open>schema_compat.rs\<close>): how an input schema is compiled when
  its tool is indexed, and what a call of the tool sends.
\<close>

definition compile_schema :: "number_env \<Rightarrow> (string \<Rightarrow> 'r option) \<Rightarrow> json \<Rightarrow> json \<times> 'r argument_plan option" where
  "compile_schema ne compile schema =
     (let (schema, plan) = normalize ne compile schema
      in (schema, if is_empty_map (ap_root plan) then None else Some plan))"

definition schema_calls :: "('r \<Rightarrow> string \<Rightarrow> bool) \<Rightarrow> 'r argument_plan call_env \<Rightarrow> 'r argument_plan call_env" where
  "schema_calls matches cv = cv\<lparr>cv_restore := restore matches\<rparr>"

definition schema_catalog :: "number_env \<Rightarrow> (string \<Rightarrow> 'r option) \<Rightarrow> (json \<Rightarrow> nat list) \<Rightarrow> 'r argument_plan catalog_env" where
  "schema_catalog ne compile digest = \<lparr>ce_digest = digest, ce_compile = compile_schema ne compile\<rparr>"

lemma restored_same:
  assumes "restore_arguments (schema_calls matches cv) rt e arguments = Inr args" and "wf_json arguments"
  shows "nodes args = nodes arguments \<and> height args = height arguments \<and> wf_json args"
proof (cases "map_of (rt_arguments rt) e")
  case (Some plan)
  then have run: "restore_node matches (ap_definitions plan) (height arguments) {} (ap_root plan) arguments = Inr args"
    using assms(1) by (simp add: restore_arguments_def schema_calls_def restore_def)
  from restore_node_same [OF run assms(2)] show ?thesis by (simp add: same_json_def)
qed (use assms in \<open>simp add: restore_arguments_def\<close>)


text \<open>A server that declares the property \<open>a b\<close>, which is published as \<open>a_b\<close>, and answers with the arguments it is sent.\<close>

definition spaced_router :: "unit argument_plan router" where
  "spaced_router = the (add_with_reconnect (schema_catalog flat_env (\<lambda>_. None) (\<lambda>_. []))
     (sample_server\<lparr>sc_id := ''beta'', sc_tools := [JObj [(''inputSchema'', JObj flat_schema), (''name'', JStr ''list'')]]\<rparr>)
     (with_policy default_tool_policy))"

definition echo_calls :: "unit argument_plan call_env" where
  "echo_calls = schema_calls (\<lambda>_ _. False) \<lparr>cv_kick = sample_kick, cv_seal = sample_seal, cv_nonce = Inr (replicate 24 (CHR ''n'')),
     cv_restore = (\<lambda>_. Inr), cv_world = (\<lambda>_ req. sample_answers (case req of CallTool _ args \<Rightarrow> args | _ \<Rightarrow> JNull))\<rparr>"


end
