(* ===== verification/IntegrityPins.thy ===== *)
theory IntegrityPins
  imports ToolPolicy ToolNames
begin

text \<open>
  The pinned baseline of tool definitions (\<open>integrity.rs\<close>): fingerprints, what a pin remembers of a definition,
  how severe a change is, and the security events a change gives rise to. The digest, the JSON text, the
  scan of a definition for injected instructions (regular expressions and floating-point weights) and the
  stored form of a pin are fields of \<open>integrity_env\<close>.
\<close>

section \<open>JSON access\<close>

text \<open>Indexing with a missing key gives null; assignment through an index works on objects and on null.\<close>

definition jidx :: "string \<Rightarrow> json \<Rightarrow> json" where
  "jidx k v = (case jget k v of Some x \<Rightarrow> x | None \<Rightarrow> JNull)"

fun index_set :: "string \<Rightarrow> json \<Rightarrow> json \<Rightarrow> json option" where
  "index_set k v (JObj m) = Some (JObj (obj_insert k v m))"
| "index_set k v JNull = Some (JObj [(k, v)])"
| "index_set k v _ = None"

definition mk_obj :: "jobj \<Rightarrow> json" where
  "mk_obj kvs = JObj (fold (\<lambda>(k, v). obj_insert k v) kvs [])"

definition put :: "string \<Rightarrow> json \<Rightarrow> json \<Rightarrow> json" where
  "put k v e = (case index_set k v e of Some e \<Rightarrow> e | None \<Rightarrow> e)"

definition flag :: "string \<Rightarrow> json \<Rightarrow> bool" where
  "flag k e \<longleftrightarrow> jidx k e = JBool True"

definition json_opt_bool :: "bool option \<Rightarrow> json" where
  "json_opt_bool b = (case b of Some b \<Rightarrow> JBool b | None \<Rightarrow> JNull)"

lemma jget_fold_insert: "map_of (fold (\<lambda>(k, v). obj_insert k v) kvs m) k = (case map_of (rev kvs) k of Some v \<Rightarrow> Some v | None \<Rightarrow> map_of m k)"
  by (induction kvs arbitrary: m) (auto simp: map_of_obj_insert map_add_def split: option.split)

lemma jget_mk_obj [simp]: "jget k (mk_obj kvs) = map_of (rev kvs) k"
  by (simp add: mk_obj_def jget_fold_insert split: option.split)

fun is_obj :: "json \<Rightarrow> bool" where
  "is_obj (JObj _) = True"
| "is_obj _ = False"

lemma is_obj_mk_obj [simp]: "is_obj (mk_obj kvs)"
  by (simp add: mk_obj_def)

lemma is_obj_put [simp]: "is_obj e \<Longrightarrow> is_obj (put k v e)"
  by (cases e) (simp_all add: put_def)

lemma jget_put [simp]: "is_obj e \<Longrightarrow> jget k (put k' v e) = (if k = k' then Some v else jget k e)"
  by (cases e) (simp_all add: put_def map_of_obj_insert)

section \<open>Pins\<close>

record definition_parts =
  dp_description :: string
  dp_input_schema :: string
  dp_output_schema :: string
  dp_annotations :: string

record pin =
  pn_fp :: string
  pn_review_on_upgrade :: bool
  pn_review_pending :: bool
  pn_review_retired :: bool
  pn_review_logged_events :: "(string \<times> string) list"
  pn_parameters :: "(string \<times> string) list option"
  pn_ro :: "bool option"
  pn_dh :: "bool option"
  pn_parts :: "definition_parts option"
  pn_first_seen :: nat
  pn_last_changed :: nat

type_synonym pins = "(string \<times> pin) list"

record integrity_env =
  ie_sha :: "string \<Rightarrow> nat list"
  ie_text :: "json \<Rightarrow> string"
  ie_scan :: "json \<Rightarrow> string list \<times> json \<times> string option"
  ie_write_pin :: "pin \<Rightarrow> json"
  ie_read_pin :: "json \<Rightarrow> pin option"

definition to_hex :: "nat list \<Rightarrow> string" where
  "to_hex bytes = concat (map hex_byte bytes)"

text \<open>A pin file from before annotations were tracked holds bare fingerprints (\<open>PinRepr\<close>).\<close>

datatype pin_repr = FullPin pin | LegacyPin string

definition bare_pin :: "string \<Rightarrow> nat \<Rightarrow> pin" where
  "bare_pin fp stamp = \<lparr>pn_fp = fp, pn_review_on_upgrade = False, pn_review_pending = False, pn_review_retired = False,
     pn_review_logged_events = [], pn_parameters = None, pn_ro = None, pn_dh = None, pn_parts = None,
     pn_first_seen = stamp, pn_last_changed = stamp\<rparr>"

fun pin_of_repr :: "pin_repr \<Rightarrow> pin" where
  "pin_of_repr (FullPin p) = p"
| "pin_of_repr (LegacyPin fp) = bare_pin fp 0"

definition read_hint :: "json \<Rightarrow> string \<Rightarrow> bool option" where
  "read_hint tool key =
     (case Option.bind (jget ''annotations'' tool) (jget_bool key) of
        Some b \<Rightarrow> Some b
      | None \<Rightarrow> jget_bool key tool)"

definition definition_field_fingerprint :: "integrity_env \<Rightarrow> json \<Rightarrow> string \<Rightarrow> string" where
  "definition_field_fingerprint ie tool key =
     to_hex (ie_sha ie (case jget key tool of Some v \<Rightarrow> ie_text ie v | None \<Rightarrow> ''<absent>''))"

definition schema_part_hash :: "integrity_env \<Rightarrow> json \<Rightarrow> string" where
  "schema_part_hash ie schema = to_hex (ie_sha ie (ie_text ie schema))"

definition definition_parts_of :: "integrity_env \<Rightarrow> json \<Rightarrow> string option \<Rightarrow> definition_parts" where
  "definition_parts_of ie tool source =
     \<lparr>dp_description = definition_field_fingerprint ie tool ''description'',
      dp_input_schema = (case source of Some h \<Rightarrow> h | None \<Rightarrow> definition_field_fingerprint ie tool ''inputSchema''),
      dp_output_schema = definition_field_fingerprint ie tool ''outputSchema'',
      dp_annotations = definition_field_fingerprint ie tool ''annotations''\<rparr>"

definition pin_fp_version :: string where
  "pin_fp_version = ''v3''"

definition nul :: string where
  "nul = [CHR 0x00]"

definition tool_name :: "json \<Rightarrow> string" where
  "tool_name tool = (case jget_str ''name'' tool of Some n \<Rightarrow> n | None \<Rightarrow> [])"

definition pin_fingerprint :: "integrity_env \<Rightarrow> json \<Rightarrow> definition_parts \<Rightarrow> string" where
  "pin_fingerprint ie tool p =
     pin_fp_version @ '':'' @ to_hex (ie_sha ie (tool_name tool @ nul @
       concat (map (\<lambda>part. part @ nul) [dp_description p, dp_input_schema p, dp_output_schema p, dp_annotations p])))"

definition fingerprint :: "integrity_env \<Rightarrow> json \<Rightarrow> string" where
  "fingerprint ie tool =
     (let json_of = (\<lambda>k. case jget k tool of Some v \<Rightarrow> ie_text ie v | None \<Rightarrow> []);
          desc = (case jget_str ''description'' tool of Some d \<Rightarrow> d | None \<Rightarrow> [])
      in ''v2:'' @ to_hex (ie_sha ie (tool_name tool @ nul @ desc @ nul @
           concat (map (\<lambda>k. json_of k @ nul) [''inputSchema'', ''outputSchema'', ''annotations'']))))"

definition fp_version :: "string \<Rightarrow> string" where
  "fp_version fp = (case find_str '':'' fp of Some i \<Rightarrow> take i fp | None \<Rightarrow> [])"

definition server_of :: "string \<Rightarrow> string" where
  "server_of namespaced = (case find_str ''__'' namespaced of Some i \<Rightarrow> take i namespaced | None \<Rightarrow> namespaced)"

text \<open>The parameters of the input schema, by their path, with a fingerprint each.\<close>

definition parameter_path :: "string \<Rightarrow> string \<Rightarrow> string" where
  "parameter_path prfx name = (if prfx = [] then name else prfx @ ''.'' @ name)"

definition parameter_fingerprint :: "integrity_env \<Rightarrow> json \<Rightarrow> string \<Rightarrow> json \<Rightarrow> string" where
  "parameter_fingerprint ie schema name v =
     (let required = (case jget_array ''required'' schema of Some ks \<Rightarrow> list_ex (\<lambda>k. k = JStr name) ks | None \<Rightarrow> False)
      in definition_field_fingerprint ie (mk_obj [(''parameter'', JArr [v, JBool required])]) ''parameter'')"

lemma size_jget: "jget k v = Some w \<Longrightarrow> size w < size v"
proof (cases v)
  case (JObj m)
  moreover have "(k, w) \<in> set m \<Longrightarrow> size w < size (JObj m)" by (induction m) auto
  moreover assume "jget k v = Some w"
  ultimately show ?thesis by (auto dest: map_of_SomeD)
qed simp_all

lemma size_property:
  assumes "jget ''properties'' schema = Some (JObj props)" and "(name, v) \<in> set props"
  shows "size v < size schema"
proof -
  have "size v < size (JObj props)" using assms(2) by (induction props) auto
  with size_jget [OF assms(1)] show ?thesis by linarith
qed

text \<open>The entries in the order they are inserted; an entry depends on none before it.\<close>

function collect_parameters :: "integrity_env \<Rightarrow> json \<Rightarrow> string \<Rightarrow> (string \<times> string) list" where
  "collect_parameters ie schema prfx =
     (case jget ''properties'' schema of
        Some (JObj props) \<Rightarrow>
          concat (map (\<lambda>(name, v). (parameter_path prfx name, parameter_fingerprint ie schema name v) #
            collect_parameters ie v (parameter_path prfx name)) props)
      | _ \<Rightarrow> []) @
     (case jget ''items'' schema of Some items \<Rightarrow> collect_parameters ie items (prfx @ ''[]'') | None \<Rightarrow> [])"
  by pat_completeness auto
termination
  by (relation "measure (\<lambda>(ie, schema, prfx). size schema)") (auto simp: size_jget intro: size_property)

declare collect_parameters.simps [simp del]

definition input_parameters :: "integrity_env \<Rightarrow> json \<Rightarrow> (string \<times> string) list" where
  "input_parameters ie tool =
     (case jget ''inputSchema'' tool of
        Some schema \<Rightarrow> fold (\<lambda>(path, fp). obj_insert path fp) (collect_parameters ie schema []) []
      | None \<Rightarrow> [])"

definition pin_with_source :: "integrity_env \<Rightarrow> json \<Rightarrow> string option \<Rightarrow> pin" where
  "pin_with_source ie tool source =
     (let p = definition_parts_of ie tool source
      in \<lparr>pn_fp = pin_fingerprint ie tool p, pn_review_on_upgrade = False, pn_review_pending = False, pn_review_retired = False,
          pn_review_logged_events = [], pn_parameters = Some (input_parameters ie tool), pn_ro = read_hint tool ''readOnlyHint'',
          pn_dh = read_hint tool ''destructiveHint'', pn_parts = Some p, pn_first_seen = 0, pn_last_changed = 0\<rparr>)"

section \<open>How severe a change is\<close>

definition annotation_downgrade :: "pin \<Rightarrow> json \<Rightarrow> bool" where
  "annotation_downgrade old tool \<longleftrightarrow>
     (pn_ro old = Some True \<and> read_hint tool ''readOnlyHint'' \<noteq> Some True) \<or>
     (pn_dh old = Some True \<and> read_hint tool ''destructiveHint'' \<noteq> Some True)"

definition gate_destructive :: "bool option \<Rightarrow> string \<Rightarrow> string option \<Rightarrow> bool" where
  "gate_destructive hint name gate_name =
     (case hint of
        Some b \<Rightarrow> b
      | None \<Rightarrow>
          name_looks_destructive
            (case gate_name of
               Some g \<Rightarrow> g
             | None \<Rightarrow> (case find_str ''__'' name of Some i \<Rightarrow> drop (i + 2) name | None \<Rightarrow> name)))"

definition gate_downgrade :: "pin \<Rightarrow> json \<Rightarrow> string \<Rightarrow> string option \<Rightarrow> bool" where
  "gate_downgrade old tool name gate_name \<longleftrightarrow>
     (pn_dh old \<noteq> None \<or> pn_parts old \<noteq> None) \<and> gate_destructive (pn_dh old) name gate_name \<and>
     \<not> gate_destructive (read_hint tool ''destructiveHint'') name gate_name"

definition drift_severity :: "json \<Rightarrow> bool \<Rightarrow> bool \<Rightarrow> string" where
  "drift_severity tool downgrade content =
     (if is_destructive tool \<or> name_looks_destructive (tool_name tool) \<or> downgrade then ''high''
      else if content then ''warn'' else ''info'')"

definition definition_content_changed :: "pin \<Rightarrow> pin \<Rightarrow> bool" where
  "definition_content_changed old new =
     (case (pn_parts old, pn_parts new) of
        (Some a, Some b) \<Rightarrow>
          dp_description a \<noteq> dp_description b \<or> dp_input_schema a \<noteq> dp_input_schema b \<or> dp_output_schema a \<noteq> dp_output_schema b
      | _ \<Rightarrow> True)"

definition changed_definition_fields :: "pin \<Rightarrow> pin \<Rightarrow> string list" where
  "changed_definition_fields old new =
     (case (pn_parts old, pn_parts new) of
        (Some a, Some b) \<Rightarrow>
          map fst (filter snd [(''description'', dp_description a \<noteq> dp_description b), (''input_schema'', dp_input_schema a \<noteq> dp_input_schema b),
            (''output_schema'', dp_output_schema a \<noteq> dp_output_schema b), (''annotations'', dp_annotations a \<noteq> dp_annotations b)])
      | _ \<Rightarrow> [])"

section \<open>Events\<close>

definition drift_event :: "nat \<Rightarrow> string \<Rightarrow> string \<Rightarrow> string \<Rightarrow> string \<Rightarrow> json" where
  "drift_event now server tool change severity =
     mk_obj [(''ts'', JNum (PosInt now)), (''type'', JStr ''tool_drift''), (''server'', JStr server), (''tool'', JStr tool),
       (''change'', JStr change), (''severity'', JStr severity)]"

definition parameter_changes :: "(string \<times> string) list \<Rightarrow> (string \<times> string) list \<Rightarrow> json" where
  "parameter_changes before after =
     mk_obj [(''added'', JArr (map (JStr \<circ> fst) (filter (\<lambda>(k, _). map_of before k = None) after))),
       (''removed'', JArr (map (JStr \<circ> fst) (filter (\<lambda>(k, _). map_of after k = None) before))),
       (''changed'', JArr (map (JStr \<circ> fst) (filter (\<lambda>(k, v). map_of before k \<noteq> None \<and> map_of before k \<noteq> Some v) after)))]"

definition changed_event :: "nat \<Rightarrow> string \<Rightarrow> string \<Rightarrow> string \<Rightarrow> pin \<Rightarrow> pin \<Rightarrow> json" where
  "changed_event now server tool severity old new =
     (let e = drift_event now server tool ''changed'' severity;
          e = (if pn_review_on_upgrade old \<or> pn_review_pending old then put ''review_required'' (JBool True) e else e);
          e = put ''new_fp'' (JStr (pn_fp new)) e;
          e = put ''prev_ro'' (json_opt_bool (pn_ro old)) e;
          e = put ''new_ro'' (json_opt_bool (pn_ro new)) e;
          e = put ''prev_dh'' (json_opt_bool (pn_dh old)) e;
          e = put ''new_dh'' (json_opt_bool (pn_dh new)) e;
          e = (case (pn_parameters old, pn_parameters new) of
                 (Some before, Some after) \<Rightarrow> put ''parameters'' (parameter_changes before after) e
               | _ \<Rightarrow> e);
          fields = changed_definition_fields old new
      in if fields = [] then e else put ''changed_fields'' (JArr (map JStr fields)) e)"

definition poison_event :: "nat \<Rightarrow> string \<Rightarrow> string \<Rightarrow> string list \<Rightarrow> json \<Rightarrow> string option \<Rightarrow> json" where
  "poison_event now server tool signatures score evidence =
     (let e = mk_obj [(''ts'', JNum (PosInt now)), (''type'', JStr ''tool_poison_flag''), (''server'', JStr server), (''tool'', JStr tool),
                (''change'', JStr ''poison''), (''signatures'', JArr (map JStr signatures)), (''score'', score), (''severity'', JStr ''high'')]
      in case evidence of Some s \<Rightarrow> put ''evidence'' (JStr s) e | None \<Rightarrow> e)"

definition pins_tamper_event :: "nat \<Rightarrow> json" where
  "pins_tamper_event now =
     mk_obj [(''ts'', JNum (PosInt now)), (''type'', JStr ''pins_load_failed''), (''change'', JStr ''tamper''), (''severity'', JStr ''high''),
       (''detail'', JStr (''Toolport could not read the integrity baseline because it was unreadable or corrupt. '' @
          ''Tools stay blocked at Ask and Strict until the baseline is restored.''))]"

definition baseline_tamper_detected :: "json list \<Rightarrow> bool" where
  "baseline_tamper_detected events \<longleftrightarrow>
     list_ex (\<lambda>e. jget_str ''type'' e = Some ''pins_load_failed'' \<and> jget_str ''change'' e = Some ''tamper'' \<and>
       jget_str ''severity'' e = Some ''high'') events"

definition is_high_risk_drift :: "json \<Rightarrow> bool" where
  "is_high_risk_drift e \<longleftrightarrow>
     jget_str ''severity'' e \<in> {Some ''high'', Some ''warn''} \<and> jget_str ''change'' e \<in> {Some ''changed'', Some ''poison''}"

definition gate_downgraded :: "json list \<Rightarrow> string \<Rightarrow> bool" where
  "gate_downgraded events tool \<longleftrightarrow> list_ex (\<lambda>e. jidx ''tool'' e = JStr tool \<and> flag ''gate_downgrade'' e) events"

definition ask_holds :: "json \<Rightarrow> bool" where
  "ask_holds e \<longleftrightarrow> flag ''gate_downgrade'' e"

definition quarantine_priority :: "json \<Rightarrow> nat" where
  "quarantine_priority r =
     (if jidx ''change'' r = JStr ''poison'' then 3 else if jidx ''severity'' r = JStr ''warn'' then 1 else 2)"

definition fmt_opt_hint :: "integrity_env \<Rightarrow> json option \<Rightarrow> string" where
  "fmt_opt_hint ie v =
     (case v of
        None \<Rightarrow> ''absent''
      | Some JNull \<Rightarrow> ''absent''
      | Some (JBool b) \<Rightarrow> (if b then ''true'' else ''false'')
      | Some w \<Rightarrow> ie_text ie w)"

definition hint_arrow :: string where
  "hint_arrow = '' '' @ [CHR 0xE2, CHR 0x86, CHR 0x92] @ '' ''"

definition annotation_change_detail :: "integrity_env \<Rightarrow> json \<Rightarrow> string option" where
  "annotation_change_detail ie e =
     (let changes = concat (map (\<lambda>(label, p, n). if jget p e = jget n e then []
              else [label @ '': '' @ fmt_opt_hint ie (jget p e) @ hint_arrow @ fmt_opt_hint ie (jget n e)])
            [(''readOnlyHint'', ''prev_ro'', ''new_ro''), (''destructiveHint'', ''prev_dh'', ''new_dh'')])
      in if changes = [] then None else Some (join ''; '' changes))"

end
