(* ===== verification/IntegrityStore.thy ===== *)
theory IntegrityStore
  imports IntegrityPins
begin

text \<open>
  The two durable stores of a profile (\<open>integrity.rs\<close>): the pinned baseline with its backup, and the
  quarantine, with the operations that read and write them. A file is what its reads give (absent, not
  readable, or its contents); \<open>faults\<close> says which locks and writes of an operation succeed, and a
  write that fails leaves the file as it was.
\<close>

section \<open>Files\<close>

datatype 'a stored = FileMissing | FileBroken | FileHolds 'a

type_synonym quarantine = "(string \<times> json) list"

record stores =
  st_pins :: "pins stored"
  st_backup :: "pins stored"
  st_quarantine :: "quarantine stored"
  st_unmigrated_pins :: bool
  st_unmigrated_quarantine :: bool

record faults =
  ok_lock_quarantine :: bool
  ok_lock_pins :: bool
  ok_write_quarantine :: bool
  ok_write_pins :: bool
  ok_write_backup :: bool
  ok_preserve :: bool
  ok_prune :: bool

datatype integrity_error =
    LockFailed
  | WriteFailed
  | NotMigrated
  | AbsentNotFresh
  | QuarantineUnreadable
  | PinsCorrupt
  | InvalidCapturedPin string
  | NotCaptured string
  | RecordChanged
  | NotReviewed
  | IndexPanic

type_synonym 'a outcome = "(integrity_error + 'a) \<times> stores"

datatype pins_load = PinsFresh | PinsLoaded pins | PinsUnusable

definition load_pins :: "stores \<Rightarrow> pins_load" where
  "load_pins st =
     (case st_pins st of
        FileHolds p \<Rightarrow> PinsLoaded p
      | FileMissing \<Rightarrow>
          (case st_backup st of
             FileHolds b \<Rightarrow> PinsLoaded b
           | FileBroken \<Rightarrow> PinsUnusable
           | FileMissing \<Rightarrow> if st_unmigrated_pins st then PinsUnusable else PinsFresh)
      | FileBroken \<Rightarrow> (case st_backup st of FileHolds b \<Rightarrow> PinsLoaded b | _ \<Rightarrow> PinsUnusable))"

definition save_pins :: "faults \<Rightarrow> pins \<Rightarrow> stores \<Rightarrow> unit outcome" where
  "save_pins f p st =
     (let st = (case st_pins st of
                  FileHolds previous \<Rightarrow> if ok_write_backup f then st\<lparr>st_backup := FileHolds previous\<rparr> else st
                | _ \<Rightarrow> st)
      in if ok_write_pins f then (Inr (), st\<lparr>st_pins := FileHolds p\<rparr>) else (Inl WriteFailed, st))"

definition is_legacy_added :: "json \<Rightarrow> bool" where
  "is_legacy_added r \<longleftrightarrow> jget_str ''change'' r = Some ''added''"

definition missing_quarantine_store :: "stores \<Rightarrow> integrity_error + quarantine" where
  "missing_quarantine_store st =
     (if st_unmigrated_quarantine st then Inl NotMigrated
      else case load_pins st of PinsFresh \<Rightarrow> Inr [] | _ \<Rightarrow> Inl AbsentNotFresh)"

definition load_quarantine :: "stores \<Rightarrow> integrity_error + quarantine" where
  "load_quarantine st =
     (case st_quarantine st of
        FileHolds q \<Rightarrow> Inr (filter (\<lambda>(_, r). \<not> is_legacy_added r) q)
      | FileMissing \<Rightarrow> missing_quarantine_store st
      | FileBroken \<Rightarrow> Inl QuarantineUnreadable)"

definition save_quarantine :: "faults \<Rightarrow> quarantine \<Rightarrow> stores \<Rightarrow> unit outcome" where
  "save_quarantine f q st =
     (if ok_write_quarantine f then (Inr (), st\<lparr>st_quarantine := FileHolds q\<rparr>) else (Inl WriteFailed, st))"

definition ensure_quarantine_store_for_existing_pins :: "faults \<Rightarrow> stores \<Rightarrow> stores" where
  "ensure_quarantine_store_for_existing_pins f st =
     (case (st_quarantine st, load_pins st) of
        (FileMissing, PinsLoaded _) \<Rightarrow> if ok_lock_quarantine f then snd (save_quarantine f [] st) else st
      | _ \<Rightarrow> st)"

definition ensure_quarantine_store_for_fresh_pins :: "faults \<Rightarrow> stores \<Rightarrow> unit outcome" where
  "ensure_quarantine_store_for_fresh_pins f st =
     (if \<not> ok_lock_quarantine f then (Inl LockFailed, st)
      else case (st_quarantine st, load_pins st) of
             (FileMissing, PinsFresh) \<Rightarrow> save_quarantine f [] st
           | _ \<Rightarrow> (Inr (), st))"

definition quarantined :: "stores \<Rightarrow> integrity_error + string list" where
  "quarantined st = map_sum id (map fst) (load_quarantine st)"

definition mandatory_quarantine_set :: "quarantine \<Rightarrow> string list" where
  "mandatory_quarantine_set q =
     map fst (filter (\<lambda>(_, r). jidx ''change'' r = JStr ''tamper'' \<or> flag ''review_required'' r \<or> flag ''gate_downgrade'' r) q)"

definition review_quarantine_set :: "quarantine \<Rightarrow> string list" where
  "review_quarantine_set q = map fst (filter (\<lambda>(_, r). flag ''review_required'' r) q)"

section \<open>The check against the baseline\<close>

text \<open>What \<open>ToolCatalog\<close> offers: the definitions with the hash of the schema the server sent, and the name the
  approval gate judges.\<close>

record tool_catalog =
  tc_values :: "(json \<times> string option) list"
  tc_gate_name :: "string \<Rightarrow> string option"

definition catalog_names :: "tool_catalog \<Rightarrow> string list" where
  "catalog_names cat = List.map_filter (\<lambda>(t, _). jget_str ''name'' t) (tc_values cat)"

definition quarantine_candidates :: "tool_catalog \<Rightarrow> json list \<Rightarrow> string list" where
  "quarantine_candidates cat events =
     (if baseline_tamper_detected events then catalog_names cat
      else List.map_filter (jget_str ''tool'') (filter is_high_risk_drift events))"

text \<open>A fingerprint of another version is the change of the format, not of the tool.\<close>

definition drifted :: "pin \<Rightarrow> pin \<Rightarrow> bool" where
  "drifted old new \<longleftrightarrow>
     pn_review_on_upgrade old \<or> pn_review_pending old \<or>
     (fp_version (pn_fp old) = fp_version (pn_fp new) \<and>
      (pn_fp old \<noteq> pn_fp new \<or> (pn_parts old \<noteq> None \<and> (pn_dh old \<noteq> pn_dh new \<or> pn_ro old \<noteq> pn_ro new))))"

definition change_of :: "nat \<Rightarrow> tool_catalog \<Rightarrow> json \<Rightarrow> string \<Rightarrow> pin \<Rightarrow> pin \<Rightarrow> json" where
  "change_of now cat t name old new =
     (let review = pn_review_on_upgrade old \<or> pn_review_pending old;
          severity = (if review then ''high'' else drift_severity t (annotation_downgrade old t) (definition_content_changed old new));
          e = changed_event now (server_of name) name severity old new
      in if \<not> review \<and> gate_downgrade old t name (tc_gate_name cat name) then put ''gate_downgrade'' (JBool True) e else e)"

definition scan_events :: "integrity_env \<Rightarrow> nat \<Rightarrow> json \<Rightarrow> string \<Rightarrow> pin \<Rightarrow> json list" where
  "scan_events ie now t name new =
     (case ie_scan ie t of
        (hits, score, evidence) \<Rightarrow>
          if hits = [] then [] else [put ''new_fp'' (JStr (pn_fp new)) (poison_event now (server_of name) name hits score evidence)])"

definition tool_events :: "integrity_env \<Rightarrow> nat \<Rightarrow> tool_catalog \<Rightarrow> pins \<Rightarrow> json \<times> string option \<Rightarrow> json list" where
  "tool_events ie now cat pins = (\<lambda>(t, source).
     case jget_str ''name'' t of
       None \<Rightarrow> []
     | Some name \<Rightarrow>
         (let new = pin_with_source ie t source
          in if server_of name \<in> server_of ` fst ` set pins
             then case map_of pins name of
                    Some old \<Rightarrow> if drifted old new then change_of now cat t name old new # scan_events ie now t name new else []
                  | None \<Rightarrow> drift_event now (server_of name) name ''added'' (drift_severity t False False) # scan_events ie now t name new
             else (if name_looks_destructive name \<and> read_hint t ''destructiveHint'' = Some False
                   then [drift_event now (server_of name) name ''added'' ''high''] else []) @ scan_events ie now t name new))"

definition current_pins :: "integrity_env \<Rightarrow> tool_catalog \<Rightarrow> pins" where
  "current_pins ie cat =
     fold (\<lambda>(t, source) now. case jget_str ''name'' t of None \<Rightarrow> now | Some name \<Rightarrow> obj_insert name (pin_with_source ie t source) now)
       (tc_values cat) []"

definition rebaseline :: "nat \<Rightarrow> pin option \<Rightarrow> pin \<Rightarrow> pin" where
  "rebaseline stamp previous fresh =
     (let backfill = (\<lambda>t. if t = 0 then stamp else t)
      in fresh\<lparr>pn_first_seen := (case previous of Some old \<Rightarrow> backfill (pn_first_seen old) | None \<Rightarrow> stamp),
               pn_last_changed := (case previous of
                  Some old \<Rightarrow> if pn_fp old = pn_fp fresh then backfill (pn_last_changed old) else stamp
                | None \<Rightarrow> stamp),
               pn_review_pending := (case previous of Some old \<Rightarrow> pn_review_pending old \<or> pn_review_on_upgrade old | None \<Rightarrow> False),
               pn_review_logged_events := (case previous of Some old \<Rightarrow> pn_review_logged_events old | None \<Rightarrow> [])\<rparr>)"

definition keep_deferred :: "pins \<Rightarrow> string \<Rightarrow> pins \<Rightarrow> pins" where
  "keep_deferred pins name updated =
     (case map_of pins name of Some old \<Rightarrow> obj_insert name old updated | None \<Rightarrow> obj_remove name updated)"

text \<open>The security log: \<open>record_event\<close> says whether an event was written; a review that was already logged for the same
  definition is marked instead.\<close>

definition note_logged :: "string \<Rightarrow> string \<Rightarrow> string \<Rightarrow> pins \<Rightarrow> pins" where
  "note_logged tool kind fp updated =
     (case map_of updated tool of
        Some p \<Rightarrow> obj_insert tool (p\<lparr>pn_review_logged_events := obj_insert kind fp (pn_review_logged_events p)\<rparr>) updated
      | None \<Rightarrow> updated)"

definition log_event ::
  "string \<Rightarrow> (json \<Rightarrow> bool) \<Rightarrow> string list \<Rightarrow> pins \<Rightarrow> json \<Rightarrow> json list \<times> pins \<Rightarrow> json list \<times> pins" where
  "log_event profile record_event review_tools pins e = (\<lambda>(acc, updated).
     let e = put ''profile'' (JStr profile) e;
         tool = (case jget_str ''tool'' e of Some t \<Rightarrow> t | None \<Rightarrow> []);
         fp = jget_str ''new_fp'' e;
         kind = (case jget_str ''type'' e of Some k \<Rightarrow> k | None \<Rightarrow> []);
         review = tool \<in> set review_tools
     in if review \<and> fp \<noteq> None \<and> Option.bind (map_of pins tool) (\<lambda>p. map_of (pn_review_logged_events p) kind) = fp
        then (acc @ [put ''log_suppressed'' (JBool True) e], updated)
        else (acc @ [e], case fp of Some f \<Rightarrow> if record_event e \<and> review then note_logged tool kind f updated else updated | None \<Rightarrow> updated))"

definition updated_pins :: "integrity_env \<Rightarrow> nat \<Rightarrow> tool_catalog \<Rightarrow> bool \<Rightarrow> pins \<Rightarrow> json list \<Rightarrow> pins" where
  "updated_pins ie stamp cat staged pins events =
     (let updated = fold (\<lambda>(name, fresh). obj_insert name (rebaseline stamp (map_of pins name) fresh)) (current_pins ie cat) pins
      in if staged then fold (keep_deferred pins) (quarantine_candidates cat events) updated else updated)"

definition check_inner ::
  "integrity_env \<Rightarrow> string \<Rightarrow> (json \<Rightarrow> bool) \<Rightarrow> nat \<Rightarrow> bool \<Rightarrow> faults \<Rightarrow> tool_catalog \<Rightarrow> stores \<Rightarrow> json list outcome" where
  "check_inner ie profile record_event now staged f cat st =
     (let checked = (\<lambda>pins.
        let events = concat (map (tool_events ie now cat pins) (tc_values cat));
            review_tools = List.map_filter (\<lambda>e. if flag ''review_required'' e then jget_str ''tool'' e else None) events;
            (events, updated) = fold (log_event profile record_event review_tools pins) events
              ([], updated_pins ie now cat staged pins events)
        in if updated \<noteq> pins
           then (case save_pins f updated st of (Inl e, st) \<Rightarrow> (Inl e, st) | (Inr _, st) \<Rightarrow> (Inr events, st))
           else (Inr events, st))
      in case load_pins st of
           PinsLoaded p \<Rightarrow> checked p
         | PinsFresh \<Rightarrow> checked []
         | PinsUnusable \<Rightarrow> (Inr [put ''profile'' (JStr profile) (pins_tamper_event now)], st))"

definition check_staged ::
  "integrity_env \<Rightarrow> string \<Rightarrow> (json \<Rightarrow> bool) \<Rightarrow> nat \<Rightarrow> faults \<Rightarrow> tool_catalog \<Rightarrow> stores \<Rightarrow> json list outcome" where
  "check_staged ie profile record_event now f cat st =
     (if ok_lock_pins f then check_inner ie profile record_event now True f cat st else (Inl LockFailed, st))"

section \<open>Advancing pins\<close>

definition merge_pending_pin :: "pin option \<Rightarrow> pin \<Rightarrow> nat \<Rightarrow> pin" where
  "merge_pending_pin previous fresh stamp =
     fresh\<lparr>pn_first_seen := (case previous of Some old \<Rightarrow> if pn_first_seen old = 0 then stamp else pn_first_seen old | None \<Rightarrow> stamp),
           pn_last_changed := (case previous of
              Some old \<Rightarrow> if pn_fp old = pn_fp fresh \<and> pn_last_changed old \<noteq> 0 then pn_last_changed old else stamp
            | None \<Rightarrow> stamp),
           pn_review_pending := pn_review_pending fresh \<or> (case previous of Some old \<Rightarrow> pn_review_pending old | None \<Rightarrow> False),
           pn_review_logged_events := fold (\<lambda>(k, v). obj_insert k v) (pn_review_logged_events fresh)
             (case previous of Some old \<Rightarrow> pn_review_logged_events old | None \<Rightarrow> [])\<rparr>"

definition usable_pins :: "bool \<Rightarrow> stores \<Rightarrow> integrity_error + pins" where
  "usable_pins rebuild st =
     (case load_pins st of
        PinsLoaded p \<Rightarrow> Inr p
      | PinsFresh \<Rightarrow> Inr []
      | PinsUnusable \<Rightarrow> if rebuild then Inr [] else Inl PinsCorrupt)"

text \<open>A locked load, change and save of the pins.\<close>

definition change_pins :: "faults \<Rightarrow> bool \<Rightarrow> (pins \<Rightarrow> pins) \<Rightarrow> stores \<Rightarrow> unit outcome" where
  "change_pins f rebuild change st =
     (if \<not> ok_lock_pins f then (Inl LockFailed, st)
      else case usable_pins rebuild st of
             Inl e \<Rightarrow> (Inl e, st)
           | Inr pins \<Rightarrow> if change pins \<noteq> pins then save_pins f (change pins) st else (Inr (), st))"

definition accept_staged_pins :: "integrity_env \<Rightarrow> nat \<Rightarrow> faults \<Rightarrow> tool_catalog \<Rightarrow> json list \<Rightarrow> stores \<Rightarrow> unit outcome" where
  "accept_staged_pins ie stamp f cat events st =
     (let names = quarantine_candidates cat events
      in if names = [] \<or> baseline_tamper_detected events then (Inr (), st)
         else change_pins f False
           (\<lambda>pins. fold (\<lambda>(t, source) updated. case jget_str ''name'' t of
                Some name \<Rightarrow> if name \<in> set names then obj_insert name (merge_pending_pin (map_of pins name) (pin_with_source ie t source) stamp) updated
                             else updated
              | None \<Rightarrow> updated) (tc_values cat) pins) st)"

text \<open>The pins the records of the quarantine captured.\<close>

fun captured_pins :: "integrity_env \<Rightarrow> quarantine \<Rightarrow> integrity_error + (string \<times> pin) list" where
  "captured_pins ie [] = Inr []"
| "captured_pins ie ((name, r) # q) =
     (if jget_str ''change'' r \<notin> {Some ''changed'', Some ''poison''} then captured_pins ie q
      else case jget ''pending_pin'' r of
             None \<Rightarrow> captured_pins ie q
           | Some v \<Rightarrow>
               (case ie_read_pin ie v of
                  None \<Rightarrow> Inl (InvalidCapturedPin name)
                | Some p \<Rightarrow>
                    (case captured_pins ie q of
                       Inl e \<Rightarrow> Inl e
                     | Inr rest \<Rightarrow> Inr ((name, p\<lparr>pn_review_pending := pn_review_pending p \<or> flag ''review_required'' r\<rparr>) # rest))))"

definition clear_marker :: "string \<times> pin \<Rightarrow> quarantine \<Rightarrow> quarantine" where
  "clear_marker = (\<lambda>(name, p) q.
     case map_of q name of
       Some (JObj m) \<Rightarrow> obj_insert name (JObj (obj_remove ''pending_pin'' (obj_insert ''definition_fp'' (JStr (pn_fp p)) m))) q
     | _ \<Rightarrow> q)"

definition accept_quarantined_pins :: "integrity_env \<Rightarrow> nat \<Rightarrow> faults \<Rightarrow> stores \<Rightarrow> unit outcome" where
  "accept_quarantined_pins ie stamp f st =
     (if \<not> ok_lock_quarantine f then (Inl LockFailed, st)
      else case load_quarantine st of
             Inl e \<Rightarrow> (Inl e, st)
           | Inr q \<Rightarrow>
               (case captured_pins ie q of
                  Inl e \<Rightarrow> (Inl e, st)
                | Inr pending \<Rightarrow>
                    if pending = [] then (Inr (), st)
                    else (case change_pins f False
                            (\<lambda>pins. fold (\<lambda>(name, fresh). obj_insert name (merge_pending_pin (map_of pins name) fresh stamp)) pending pins) st of
                            (Inl e, st) \<Rightarrow> (Inl e, st)
                          | (Inr _, st) \<Rightarrow> save_quarantine f (fold clear_marker pending q) st)))"

end
