(* ===== verification/IntegrityQuarantine.thy ===== *)
theory IntegrityQuarantine
  imports IntegrityStore
begin

text \<open>
  Blocking and releasing tools (\<open>integrity.rs\<close>): how drift becomes a quarantine record that captures the
  definition, and how an approval pins the captured definition before it lifts the block.
\<close>

section \<open>Blocking\<close>

definition tamper_reason :: string where
  "tamper_reason = ''the integrity baseline was corrupt or tampered with''"

fun upgrade_records :: "quarantine \<Rightarrow> (quarantine \<times> bool) option" where
  "upgrade_records [] = Some ([], False)"
| "upgrade_records ((name, r) # q) =
     (case upgrade_records q of
        None \<Rightarrow> None
      | Some (q', changed) \<Rightarrow>
          if jget_str ''change'' r = Some ''tamper'' then Some ((name, r) # q', changed)
          else (case Option.bind (index_set ''change'' (JStr ''tamper'') r) (index_set ''reason'' (JStr tamper_reason)) of
                  None \<Rightarrow> None
                | Some r' \<Rightarrow> Some ((name, r') # q', True)))"

definition tamper_record :: "integrity_env \<Rightarrow> nat \<Rightarrow> string \<Rightarrow> pin \<Rightarrow> json \<Rightarrow> json" where
  "tamper_record ie now name pending tool =
     mk_obj [(''ts'', JNum (PosInt now)), (''server'', JStr (server_of name)), (''tool'', JStr name), (''reason'', JStr tamper_reason),
       (''change'', JStr ''tamper''), (''pending_pin'', ie_write_pin ie pending), (''definition'', tool)]"

definition block_tampered :: "integrity_env \<Rightarrow> nat \<Rightarrow> json \<times> string option \<Rightarrow> quarantine \<times> bool \<Rightarrow> quarantine \<times> bool" where
  "block_tampered ie now = (\<lambda>(tool, source) (q, added).
     case jget_str ''name'' tool of
       None \<Rightarrow> (q, added)
     | Some name \<Rightarrow>
         (let pending = pin_with_source ie tool source;
              current = (case map_of q name of
                Some r \<Rightarrow> jget_str ''change'' r = Some ''tamper'' \<and> Option.bind (jget ''pending_pin'' r) (ie_read_pin ie) = Some pending
              | None \<Rightarrow> False)
          in if current then (q, added) else (obj_insert name (tamper_record ie now name pending tool) q, True)))"

text \<open>The strongest event of each tool; the first one of equal strength.\<close>

definition keep_strongest :: "json \<Rightarrow> (string \<times> json) list \<Rightarrow> (string \<times> json) list" where
  "keep_strongest e strongest =
     (case jget_str ''tool'' e of
        None \<Rightarrow> strongest
      | Some tool \<Rightarrow>
          (case map_of strongest tool of
             None \<Rightarrow> obj_insert tool e strongest
           | Some selected \<Rightarrow> if quarantine_priority e > quarantine_priority selected then obj_insert tool e strongest else strongest))"

definition is_destructive_named :: "tool_catalog \<Rightarrow> string \<Rightarrow> bool" where
  "is_destructive_named cat name \<longleftrightarrow> list_ex (\<lambda>(t, _). jget_str ''name'' t = Some name \<and> is_destructive t) (tc_values cat)"

definition block_reason :: "tool_catalog \<Rightarrow> json \<Rightarrow> string \<Rightarrow> string \<Rightarrow> string option" where
  "block_reason cat e tool change =
     (if change = ''changed'' \<and> flag ''review_required'' e
      then Some ''This older block had no saved definition. Review the captured current definition before approving.''
      else if change = ''poison'' then Some ''a poisoned definition was detected''
      else if change = ''changed'' then
        Some (if flag ''gate_downgrade'' e then ''a destructive tool stopped declaring itself destructive''
              else if is_destructive_named cat tool then ''a destructive tool's definition changed''
              else if name_looks_destructive tool then ''a write-named tool's definition changed''
              else if jget_str ''severity'' e = Some ''warn'' then ''a tool's description or schema changed''
              else ''a tool dropped a readOnly/destructive safety annotation'')
      else None)"

definition replaces_record :: "json list \<Rightarrow> json \<Rightarrow> string \<Rightarrow> json option \<Rightarrow> bool" where
  "replaces_record events e tool existing \<longleftrightarrow>
     (case existing of
        None \<Rightarrow> True
      | Some r \<Rightarrow>
          quarantine_priority e > quarantine_priority r \<or>
          (gate_downgraded events tool \<and> jidx ''change'' r \<noteq> JStr ''tamper'' \<and> \<not> flag ''review_required'' r \<and> \<not> flag ''gate_downgrade'' r))"

definition block_record ::
  "integrity_env \<Rightarrow> nat \<Rightarrow> json list \<Rightarrow> json \<Rightarrow> string \<Rightarrow> string \<Rightarrow> string \<Rightarrow> json option \<Rightarrow> json \<times> string option \<Rightarrow> json" where
  "block_record ie now events e tool change reason existing = (\<lambda>(defn, source).
     let rec = mk_obj [(''ts'', JNum (PosInt now)),
                (''server'', JStr (case jget_str ''server'' e of Some s \<Rightarrow> s | None \<Rightarrow> ''?'')), (''tool'', JStr tool),
                (''reason'', JStr reason), (''severity'', jidx ''severity'' e), (''change'', JStr change),
                (''pending_pin'', ie_write_pin ie (pin_with_source ie defn source)), (''definition'', defn)];
         rec = (if list_ex (\<lambda>o'. jidx ''tool'' o' = jidx ''tool'' e \<and> flag ''review_required'' o') events
                then put ''review_required'' (JBool True) rec else rec);
         rec = (if gate_downgraded events tool \<or> (case existing of Some r \<Rightarrow> flag ''gate_downgrade'' r | None \<Rightarrow> False)
                then put ''gate_downgrade'' (JBool True) rec else rec);
         rec = fold (\<lambda>k rec. case jget k e of Some v \<Rightarrow> put k v rec | None \<Rightarrow> rec) [''prev_ro'', ''new_ro'', ''prev_dh'', ''new_dh''] rec
     in case annotation_change_detail ie e of
          Some detail \<Rightarrow> if flag ''review_required'' e then rec else put ''detail'' (JStr detail) rec
        | None \<Rightarrow> rec)"

definition block_drifted ::
  "integrity_env \<Rightarrow> nat \<Rightarrow> tool_catalog \<Rightarrow> json list \<Rightarrow> string \<times> json \<Rightarrow> quarantine \<times> bool \<Rightarrow> integrity_error + quarantine \<times> bool" where
  "block_drifted ie now cat events = (\<lambda>(_, e) (q, added).
     case (jget_str ''tool'' e, jget_str ''change'' e) of
       (Some tool, Some change) \<Rightarrow>
         if \<not> is_high_risk_drift e then Inr (q, added)
         else (case block_reason cat e tool change of
                 None \<Rightarrow> Inr (q, added)
               | Some reason \<Rightarrow>
                   if replaces_record events e tool (map_of q tool)
                   then (case find (\<lambda>(t, _). jget_str ''name'' t = Some tool) (tc_values cat) of
                           None \<Rightarrow> Inl (NotCaptured tool)
                         | Some d \<Rightarrow> Inr (obj_insert tool (block_record ie now events e tool change reason (map_of q tool) d) q, True))
                   else Inr (q, added))
     | _ \<Rightarrow> Inr (q, added))"

fun block_all :: "('a \<Rightarrow> 's \<Rightarrow> 'e + 's) \<Rightarrow> 'a list \<Rightarrow> 's \<Rightarrow> 'e + 's" where
  "block_all f [] s = Inr s"
| "block_all f (x # xs) s = (case f x s of Inl e \<Rightarrow> Inl e | Inr s \<Rightarrow> block_all f xs s)"

definition finish_block :: "faults \<Rightarrow> quarantine \<times> bool \<Rightarrow> stores \<Rightarrow> bool outcome" where
  "finish_block f = (\<lambda>(q, added) st.
     if added then (case save_quarantine f q st of (Inl e, st) \<Rightarrow> (Inl e, st) | (Inr _, st) \<Rightarrow> (Inr True, st)) else (Inr False, st))"

definition writable_quarantine :: "stores \<Rightarrow> integrity_error + quarantine" where
  "writable_quarantine st =
     (case load_quarantine st of
        Inr q \<Rightarrow> Inr q
      | Inl e \<Rightarrow> if e = AbsentNotFresh then Inr [] else Inl e)"

definition apply_quarantine :: "integrity_env \<Rightarrow> nat \<Rightarrow> faults \<Rightarrow> tool_catalog \<Rightarrow> json list \<Rightarrow> stores \<Rightarrow> bool outcome" where
  "apply_quarantine ie now f cat events st =
     (if \<not> ok_lock_quarantine f then (Inl LockFailed, st)
      else case writable_quarantine st of
             Inl e \<Rightarrow> (Inl e, st)
           | Inr q \<Rightarrow>
               if baseline_tamper_detected events
               then (case upgrade_records q of
                       None \<Rightarrow> (Inl IndexPanic, st)
                     | Some s \<Rightarrow> finish_block f (fold (block_tampered ie now) (tc_values cat) s) st)
               else (case block_all (block_drifted ie now cat events)
                             (fold keep_strongest (filter is_high_risk_drift events) []) (q, False) of
                       Inl e \<Rightarrow> (Inl e, st)
                     | Inr s \<Rightarrow> finish_block f s st))"

section \<open>Releasing\<close>

definition release_pending_pin :: "integrity_env \<Rightarrow> string \<Rightarrow> json \<Rightarrow> integrity_error + pin option" where
  "release_pending_pin ie tool r =
     (case jget ''pending_pin'' r of
        Some v \<Rightarrow> (case ie_read_pin ie v of Some p \<Rightarrow> Inr (Some p) | None \<Rightarrow> Inl (InvalidCapturedPin tool))
      | None \<Rightarrow> if jidx ''change'' r = JStr ''tamper'' then Inl (InvalidCapturedPin tool) else Inr None)"

definition apply_release_pin :: "string \<Rightarrow> pin option \<Rightarrow> bool \<Rightarrow> nat \<Rightarrow> pins \<Rightarrow> pins" where
  "apply_release_pin tool pending reviewed stamp pins =
     (let p = (case pending of
                 Some p \<Rightarrow> merge_pending_pin (map_of pins tool) p stamp
               | None \<Rightarrow>
                   (case map_of pins tool of
                      Some p \<Rightarrow> p
                    | None \<Rightarrow> (bare_pin ''released-without-baseline'' stamp)\<lparr>pn_review_on_upgrade := True, pn_review_pending := True\<rparr>))
      in obj_insert tool
           (p\<lparr>pn_review_on_upgrade := (\<not> reviewed \<or> fp_version (pn_fp p) \<noteq> pin_fp_version), pn_review_pending := (\<not> reviewed),
              pn_review_retired := False, pn_review_logged_events := []\<rparr>) pins)"

definition release_inner :: "integrity_env \<Rightarrow> nat \<Rightarrow> faults \<Rightarrow> string \<Rightarrow> stores \<Rightarrow> bool outcome" where
  "release_inner ie stamp f tool st =
     (case load_quarantine st of
        Inl e \<Rightarrow> (Inl e, st)
      | Inr q \<Rightarrow>
          (case map_of q tool of
             None \<Rightarrow> (Inr False, st)
           | Some r \<Rightarrow>
               (case release_pending_pin ie tool r of
                  Inl e \<Rightarrow> (Inl e, st)
                | Inr pending \<Rightarrow>
                    (case change_pins f (jget_str ''change'' r = Some ''tamper'')
                            (apply_release_pin tool pending (is_obj (jidx ''definition'' r)) stamp) st of
                       (Inl e, st) \<Rightarrow> (Inl e, st)
                     | (Inr _, st) \<Rightarrow>
                         (case save_quarantine f (obj_remove tool q) st of (Inl e, st) \<Rightarrow> (Inl e, st) | (Inr _, st) \<Rightarrow> (Inr True, st))))))"

definition release :: "integrity_env \<Rightarrow> nat \<Rightarrow> faults \<Rightarrow> string \<Rightarrow> stores \<Rightarrow> bool outcome" where
  "release ie stamp f tool st =
     (if ok_lock_quarantine f then release_inner ie stamp f tool st else (Inl LockFailed, st))"

definition quarantine_record_id :: "integrity_env \<Rightarrow> json \<Rightarrow> string" where
  "quarantine_record_id ie r =
     to_hex (ie_sha ie (ie_text ie
       (case r of JObj m \<Rightarrow> JObj (filter (\<lambda>(k, _). k \<notin> {''profile'', ''record_id''}) m) | _ \<Rightarrow> r)))"

definition release_record :: "integrity_env \<Rightarrow> nat \<Rightarrow> faults \<Rightarrow> string \<Rightarrow> string \<Rightarrow> stores \<Rightarrow> bool outcome" where
  "release_record ie stamp f tool expected st =
     (if \<not> ok_lock_quarantine f then (Inl LockFailed, st)
      else case load_quarantine st of
             Inl e \<Rightarrow> (Inl e, st)
           | Inr q \<Rightarrow>
               (case map_of q tool of
                  Some r \<Rightarrow> if quarantine_record_id ie r \<noteq> expected then (Inl RecordChanged, st) else release_inner ie stamp f tool st
                | None \<Rightarrow> release_inner ie stamp f tool st))"

definition release_definition :: "integrity_env \<Rightarrow> nat \<Rightarrow> faults \<Rightarrow> string \<Rightarrow> string \<Rightarrow> stores \<Rightarrow> bool outcome" where
  "release_definition ie stamp f tool expected st =
     (if \<not> ok_lock_quarantine f then (Inl LockFailed, st)
      else case load_quarantine st of
             Inl e \<Rightarrow> (Inl e, st)
           | Inr q \<Rightarrow>
               (case map_of q tool of
                  None \<Rightarrow> release_inner ie stamp f tool st
                | Some r \<Rightarrow>
                    if flag ''review_required'' r then (Inl NotReviewed, st)
                    else (let captured = (case as_str (jidx ''fp'' (jidx ''pending_pin'' r)) of
                                            Some x \<Rightarrow> Some x
                                          | None \<Rightarrow> as_str (jidx ''definition_fp'' r))
                          in if captured = None then (Inl (NotCaptured tool), st)
                             else if captured \<noteq> Some expected then (Inl RecordChanged, st)
                             else release_inner ie stamp f tool st)))"

record release_all_outcome =
  ra_released :: nat
  ra_skipped :: "string list"
  ra_changed :: "string list"

text \<open>The fate of each record: accepted with the pin it captured, skipped, or changed since it was shown.\<close>

datatype release_fate = Accepted "pin option" | Skipped | Changed

definition fate_of :: "integrity_env \<Rightarrow> (string \<times> string) list option \<Rightarrow> string \<times> json \<Rightarrow> release_fate" where
  "fate_of ie expected = (\<lambda>(tool, r).
     if (case expected of Some ids \<Rightarrow> map_of ids tool \<noteq> Some (quarantine_record_id ie r) | None \<Rightarrow> False) then Changed
     else case release_pending_pin ie tool r of Inr p \<Rightarrow> Accepted p | Inl _ \<Rightarrow> Skipped)"

definition accept_released :: "integrity_env \<Rightarrow> (string \<times> string) list option \<Rightarrow> nat \<Rightarrow> quarantine \<Rightarrow> pins \<Rightarrow> pins" where
  "accept_released ie expected stamp q pins =
     fold (\<lambda>(tool, r) pins. case fate_of ie expected (tool, r) of
        Accepted p \<Rightarrow> apply_release_pin tool p (is_obj (jidx ''definition'' r)) stamp pins
      | _ \<Rightarrow> pins) q pins"

definition release_all :: "integrity_env \<Rightarrow> nat \<Rightarrow> faults \<Rightarrow> (string \<times> string) list option \<Rightarrow> stores \<Rightarrow> release_all_outcome outcome" where
  "release_all ie stamp f expected st =
     (if \<not> ok_lock_quarantine f then (Inl LockFailed, st)
      else case load_quarantine st of
             Inl e \<Rightarrow> (Inl e, st)
           | Inr q \<Rightarrow>
               (let accepted = filter (\<lambda>e. fate_of ie expected e \<notin> {Skipped, Changed}) q;
                    remaining = filter (\<lambda>e. fate_of ie expected e \<in> {Skipped, Changed}) q;
                    tamper = list_ex (\<lambda>(_, r). jget_str ''change'' r = Some ''tamper'') accepted;
                    outcome = \<lparr>ra_released = length q - length remaining,
                               ra_skipped = map fst (filter (\<lambda>e. fate_of ie expected e = Skipped) q),
                               ra_changed = map fst (filter (\<lambda>e. fate_of ie expected e = Changed) q)\<rparr>
                in case (if accepted = [] then (Inr (), st) else change_pins f tamper (accept_released ie expected stamp q) st) of
                     (Inl e, st) \<Rightarrow> (Inl e, st)
                   | (Inr _, st) \<Rightarrow>
                       if 0 < ra_released outcome
                       then (case save_quarantine f remaining st of (Inl e, st) \<Rightarrow> (Inl e, st) | (Inr _, st) \<Rightarrow> (Inr outcome, st))
                       else (Inr outcome, st)))"

end
