(* ===== verification/IntegrityGate.thy ===== *)
theory IntegrityGate
  imports IntegrityQuarantine
begin

text \<open>
  The integrity gate a catalog passes before it is published (\<open>maybe_check_integrity\<close> of the gateway with the
  review state of \<open>integrity.rs\<close>): drift is found, recorded in the quarantine, and only then accepted
  as the new baseline. Every lock and every write may fail. The code reads the pins through a cache keyed by
  the stamps of the file and retries a read that fails; here a file is what its reads give, and what
  is remembered of the reviews while the pins cannot be read is an argument. An event that requires review
  always names its tool.
\<close>

section \<open>Definition reviews\<close>

record review_pins =
  rp_reviews :: pins
  rp_names :: "string list"
  rp_active :: "string list"
  rp_ordinary :: "string list"
  rp_unreadable :: bool

definition no_reviews :: review_pins where
  "no_reviews = \<lparr>rp_reviews = [], rp_names = [], rp_active = [], rp_ordinary = [], rp_unreadable = False\<rparr>"

definition reviews_from_pins :: "pins \<Rightarrow> review_pins" where
  "reviews_from_pins pins =
     (let reviews = filter (\<lambda>(_, p). pn_review_on_upgrade p \<or> pn_review_pending p) pins
      in \<lparr>rp_reviews = reviews, rp_names = map fst reviews, rp_active = map fst (filter (\<lambda>(_, p). \<not> pn_review_retired p) reviews),
          rp_ordinary = map fst (filter (\<lambda>(_, p). \<not> (pn_review_on_upgrade p \<or> pn_review_pending p)) pins), rp_unreadable = False\<rparr>)"

text \<open>What was remembered stays when the pins cannot be read.\<close>

definition cached_review_pins :: "review_pins \<Rightarrow> stores \<Rightarrow> review_pins" where
  "cached_review_pins remembered st =
     (case load_pins st of
        PinsLoaded p \<Rightarrow> reviews_from_pins p
      | PinsFresh \<Rightarrow> no_reviews
      | PinsUnusable \<Rightarrow> remembered\<lparr>rp_unreadable := True\<rparr>)"

definition definition_review_names :: "review_pins \<Rightarrow> stores \<Rightarrow> string list" where
  "definition_review_names remembered st = rp_names (cached_review_pins remembered st)"

text \<open>The names under review in a catalog; \<open>Inl\<close> when the review state cannot be read.\<close>

definition definition_review_names_for_catalog :: "review_pins \<Rightarrow> string list \<Rightarrow> string list + string list" where
  "definition_review_names_for_catalog rv present =
     (let names = filter (\<lambda>n. n \<in> set present) (rp_names rv)
      in if rp_unreadable rv then Inl (names @ filter (\<lambda>n. n \<notin> set (rp_ordinary rv)) present) else Inr names)"

definition preserve_unreadable_pins :: "faults \<Rightarrow> stores \<Rightarrow> unit outcome" where
  "preserve_unreadable_pins f st =
     (if st_pins st = FileMissing then (Inr (), st)
      else if \<not> ok_preserve f then (Inl WriteFailed, st)
      else (if ok_prune f then Inr () else Inl WriteFailed, st\<lparr>st_pins := FileMissing\<rparr>))"

definition recover_unreadable_baseline_at_off :: "integrity_env \<Rightarrow> faults \<Rightarrow> review_pins \<Rightarrow> tool_catalog \<Rightarrow> stores \<Rightarrow> unit outcome" where
  "recover_unreadable_baseline_at_off ie f remembered cat st =
     (let reviews = rp_reviews (cached_review_pins remembered st)
      in if \<not> ok_lock_pins f then (Inl LockFailed, st)
         else if load_pins st \<noteq> PinsUnusable then (Inr (), st)
         else case preserve_unreadable_pins f st of
                (Inl e, st) \<Rightarrow> (Inl e, st)
              | (Inr _, st) \<Rightarrow> save_pins f (fold (\<lambda>(n, p). obj_insert n p) reviews (current_pins ie cat)) st)"

section \<open>The gate\<close>

record gate_env =
  ge_integrity :: integrity_env
  ge_profile :: string
  ge_record_event :: "json \<Rightarrow> bool"
  ge_now :: nat
  ge_blocking :: bool
  ge_quarantine_on :: bool
  ge_remembered :: review_pins

type_synonym gate_result = "(integrity_error \<times> string list) + string list option"

definition enforce_drift :: "gate_env \<Rightarrow> json list \<Rightarrow> bool" where
  "enforce_drift ge events \<longleftrightarrow> ge_quarantine_on ge \<or> (ge_blocking ge \<and> baseline_tamper_detected events)"

definition held :: "gate_env \<Rightarrow> json \<Rightarrow> bool" where
  "held ge e \<longleftrightarrow> flag ''review_required'' e \<or> (ge_blocking ge \<and> ask_holds e)"

definition required_events :: "gate_env \<Rightarrow> json list \<Rightarrow> json list" where
  "required_events ge events = filter (\<lambda>e. enforce_drift ge events \<or> held ge e) events"

text \<open>What follows the detection: quarantine first, then the pins.\<close>

definition enforce_events ::
  "gate_env \<Rightarrow> (nat \<Rightarrow> faults) \<Rightarrow> tool_catalog \<Rightarrow> bool \<Rightarrow> json list \<Rightarrow> stores \<Rightarrow> gate_result \<times> stores" where
  "enforce_events ge fs cat review_required events st =
     (let ie = ge_integrity ge; enforce = enforce_drift ge events; required = required_events ge events;
          pending = quarantine_candidates cat required
      in if enforce \<or> review_required \<or> (ge_blocking ge \<and> list_ex ask_holds events)
         then (case apply_quarantine ie (ge_now ge) (fs 4) cat required st of
                 (Inl e, st) \<Rightarrow> (Inl (e, pending), st)
               | (Inr _, st) \<Rightarrow>
                   (case accept_quarantined_pins ie (ge_now ge) (fs 5) st of
                      (Inl e, st) \<Rightarrow> (Inl (e, pending), st)
                    | (Inr _, st) \<Rightarrow>
                        (case (if enforce then (Inr (), st)
                               else accept_staged_pins ie (ge_now ge) (fs 6) cat (filter (\<lambda>e. \<not> held ge e) events) st) of
                           (Inl e, st) \<Rightarrow> (Inl (e, pending), st)
                         | (Inr _, st) \<Rightarrow> (Inr (if pending = [] then None else Some pending), st))))
         else (case accept_staged_pins ie (ge_now ge) (fs 6) cat events st of
                 (Inl e, st) \<Rightarrow> (Inl (e, []), st)
               | (Inr _, st) \<Rightarrow> (Inr None, st)))"

definition review_tools_of :: "json list \<Rightarrow> string list" where
  "review_tools_of events = List.map_filter (\<lambda>e. if flag ''review_required'' e then jget_str ''tool'' e else None) events"

text \<open>The events of the check and what is recovered from an interrupted earlier run, then \<open>enforce_events\<close>. The names under
  review are returned beside the result.\<close>

definition check_and_enforce ::
  "gate_env \<Rightarrow> (nat \<Rightarrow> faults) \<Rightarrow> tool_catalog \<Rightarrow> string list \<Rightarrow> stores \<Rightarrow> (gate_result \<times> string list) \<times> stores" where
  "check_and_enforce ge fs cat names st =
     (case ensure_quarantine_store_for_fresh_pins (fs 1) st of
        (Inl e, st) \<Rightarrow> ((Inl (e, catalog_names cat), names), st)
      | (Inr _, st) \<Rightarrow>
          (case check_staged (ge_integrity ge) (ge_profile ge) (ge_record_event ge) (ge_now ge) (fs 2) cat st of
             (Inl e, st) \<Rightarrow> ((Inl (e, catalog_names cat), names), st)
           | (Inr events, st) \<Rightarrow>
               (let recapture = list_ex (flag ''review_required'') events;
                    review_required = (names \<noteq> [] \<or> recapture);
                    names = names @ review_tools_of events
                in case (if \<not> baseline_tamper_detected events \<and> \<not> recapture
                         then accept_quarantined_pins (ge_integrity ge) (ge_now ge) (fs 3) st else (Inr (), st)) of
                     (Inl e, st) \<Rightarrow> ((Inl (e, quarantine_candidates cat events), names), st)
                   | (Inr _, st) \<Rightarrow>
                       (let (res, st) = enforce_events ge fs cat review_required events st in ((res, names), st)))))"

definition maybe_check_integrity :: "gate_env \<Rightarrow> (nat \<Rightarrow> faults) \<Rightarrow> tool_catalog \<Rightarrow> stores \<Rightarrow> gate_result \<times> stores" where
  "maybe_check_integrity ge fs cat st =
     (let off = (\<not> ge_blocking ge \<and> \<not> ge_quarantine_on ge);
          all = catalog_names cat;
          rv = cached_review_pins (ge_remembered ge) st;
          ((res, names), st) =
            (case definition_review_names_for_catalog rv all of
               Inr names \<Rightarrow> check_and_enforce ge fs cat names st
             | Inl names \<Rightarrow>
                 if off
                 then (let names = filter (\<lambda>n. n \<in> set all) (rp_names rv)
                       in case recover_unreadable_baseline_at_off (ge_integrity ge) (fs 0) (ge_remembered ge) cat st of
                            (Inl e, st) \<Rightarrow> ((Inl (e, names), names), st)
                          | (Inr _, st) \<Rightarrow> check_and_enforce ge fs cat names st)
                 else check_and_enforce ge fs cat names st)
      in (case res of
            Inl (e, pending) \<Rightarrow> if off then if names = [] then Inr None else Inl (e, names) else Inl (e, pending)
          | Inr r \<Rightarrow> Inr r, st))"

end
