(* ===== verification/IntegritySafety.thy ===== *)
theory IntegritySafety
  imports IntegrityGate
begin

text \<open>
  Why drift cannot slip through: the events of the check name every tool whose definition changed in a way that
  matters, a successful quarantine write covers every tool they name, and no step accepts a changed
  definition before its block is durable, whichever lock or write fails.
\<close>

section \<open>Events\<close>

definition same_event :: "json \<Rightarrow> json \<Rightarrow> bool" where
  "same_event raw e \<longleftrightarrow> is_obj raw \<and> (\<forall>k. k \<noteq> ''profile'' \<longrightarrow> k \<noteq> ''log_suppressed'' \<longrightarrow> jget k e = jget k raw)"

lemma log_event_result:
  assumes "is_obj e" and "log_event profile rec review pins e (acc, updated) = (acc', updated')"
  shows "\<exists>e'. acc' = acc @ [e'] \<and> same_event e e'" and "n \<notin> set review \<Longrightarrow> map_of updated' n = map_of updated n"
  using assms
  by (auto simp: log_event_def Let_def same_event_def note_logged_def map_of_obj_insert split: if_splits option.splits)

lemma log_events_result:
  assumes "\<forall>e \<in> set raws. is_obj e" and "fold (log_event profile rec review pins) raws (acc, updated) = (acc', updated')"
  shows "(\<exists>es. acc' = acc @ es \<and> list_all2 same_event raws es) \<and> (n \<notin> set review \<longrightarrow> map_of updated' n = map_of updated n)"
  using assms
proof (induction raws arbitrary: acc updated)
  case (Cons e raws)
  obtain d1 u1 where one: "log_event profile rec review pins e (acc, updated) = (d1, u1)" by fastforce
  with Cons.prems obtain e' where e': "d1 = acc @ [e']" "same_event e e'" "n \<notin> set review \<longrightarrow> map_of u1 n = map_of updated n"
    using log_event_result [OF _ one] by auto
  from Cons.IH [of d1 u1] Cons.prems one
  obtain es where "acc' = d1 @ es" "list_all2 same_event raws es" "n \<notin> set review \<longrightarrow> map_of updated' n = map_of u1 n" by auto
  with e' show ?case by (intro conjI exI [of _ "e' # es"]) auto
qed simp

lemma same_event_views:
  assumes "same_event raw e"
  shows "jget_str ''type'' e = jget_str ''type'' raw" "jget_str ''change'' e = jget_str ''change'' raw"
    "jget_str ''severity'' e = jget_str ''severity'' raw" "jget_str ''tool'' e = jget_str ''tool'' raw"
    "flag ''review_required'' e = flag ''review_required'' raw" "flag ''gate_downgrade'' e = flag ''gate_downgrade'' raw" "is_high_risk_drift e = is_high_risk_drift raw"
  using assms by (simp_all add: same_event_def jget_str_def flag_def jidx_def is_high_risk_drift_def)

lemma same_events_candidates:
  assumes "list_all2 same_event raws es"
  shows "baseline_tamper_detected es = baseline_tamper_detected raws"
    and "List.map_filter (jget_str ''tool'') (filter is_high_risk_drift es) = List.map_filter (jget_str ''tool'') (filter is_high_risk_drift raws)"
    and "list_ex (flag ''review_required'') es = list_ex (flag ''review_required'') raws"
    and "quarantine_candidates cat es = quarantine_candidates cat raws"
proof -
  show tamper: "baseline_tamper_detected es = baseline_tamper_detected raws"
    using assms by (induction rule: list_all2_induct) (simp_all add: baseline_tamper_detected_def same_event_views)
  show names: "List.map_filter (jget_str ''tool'') (filter is_high_risk_drift es) =
      List.map_filter (jget_str ''tool'') (filter is_high_risk_drift raws)"
    using assms by (induction rule: list_all2_induct) (simp_all add: same_event_views List.map_filter_simps split: option.split)
  show "list_ex (flag ''review_required'') es = list_ex (flag ''review_required'') raws"
    using assms by (induction rule: list_all2_induct) (simp_all add: same_event_views)
  show "quarantine_candidates cat es = quarantine_candidates cat raws" by (simp add: quarantine_candidates_def tamper names)
qed

lemma drift_event_fields [simp]:
  "is_obj (drift_event now server tool change severity)"
  "jget k (drift_event now server tool change severity) =
     map_of [(''ts'', JNum (PosInt now)), (''type'', JStr ''tool_drift''), (''server'', JStr server), (''tool'', JStr tool),
       (''change'', JStr change), (''severity'', JStr severity)] k"
  by (simp_all add: drift_event_def)

lemma changed_event_fields:
  "is_obj (changed_event now server tool severity old new)"
  "jget_str ''type'' (changed_event now server tool severity old new) = Some ''tool_drift''"
  "jget_str ''tool'' (changed_event now server tool severity old new) = Some tool"
  "jget_str ''change'' (changed_event now server tool severity old new) = Some ''changed''"
  "jget_str ''severity'' (changed_event now server tool severity old new) = Some severity"
  "flag ''review_required'' (changed_event now server tool severity old new) \<longleftrightarrow> pn_review_on_upgrade old \<or> pn_review_pending old"
  by (simp_all add: changed_event_def Let_def jget_str_def flag_def jidx_def split: option.split)

lemma poison_event_fields:
  "is_obj (poison_event now server tool hits score evidence)"
  "jget_str ''type'' (poison_event now server tool hits score evidence) = Some ''tool_poison_flag''"
  "jget_str ''tool'' (poison_event now server tool hits score evidence) = Some tool"
  "jget_str ''severity'' (poison_event now server tool hits score evidence) = Some ''high''"
  "jget_str ''change'' (poison_event now server tool hits score evidence) = Some ''poison''"
  "\<not> flag ''review_required'' (poison_event now server tool hits score evidence)"
  by (simp_all add: poison_event_def Let_def jget_str_def flag_def jidx_def split: option.split)

lemma put_str: "is_obj e \<Longrightarrow> jget_str k (put k' v e) = (if k = k' then as_str v else jget_str k e)"
  by (simp add: jget_str_def)

lemma put_flag: "is_obj e \<Longrightarrow> flag k (put k' v e) = (if k = k' then v = JBool True else flag k e)"
  by (simp add: flag_def jidx_def)

lemma change_of_fields:
  "is_obj (change_of now cat t name old new)"
  "jget_str ''type'' (change_of now cat t name old new) = Some ''tool_drift''"
  "jget_str ''tool'' (change_of now cat t name old new) = Some name"
  "jget_str ''change'' (change_of now cat t name old new) = Some ''changed''"
  "jget_str ''severity'' (change_of now cat t name old new) =
     Some (if pn_review_on_upgrade old \<or> pn_review_pending old then ''high''
           else drift_severity t (annotation_downgrade old t) (definition_content_changed old new))"
  "flag ''review_required'' (change_of now cat t name old new) \<longleftrightarrow> pn_review_on_upgrade old \<or> pn_review_pending old"
  "\<not> (pn_review_on_upgrade old \<or> pn_review_pending old) \<Longrightarrow> gate_downgrade old t name (tc_gate_name cat name) \<Longrightarrow>
     flag ''gate_downgrade'' (change_of now cat t name old new)"
  by (simp_all add: change_of_def Let_def put_str put_flag changed_event_fields)

lemma scan_event_fields:
  "e \<in> set (scan_events ie now t name new) \<Longrightarrow>
     is_obj e \<and> jget_str ''type'' e = Some ''tool_poison_flag'' \<and> jget_str ''tool'' e = Some name \<and> \<not> flag ''review_required'' e"
  by (auto simp: scan_events_def put_str put_flag poison_event_fields split: prod.splits if_splits)

lemma drift_event_strs:
  "jget_str ''type'' (drift_event now server tool change severity) = Some ''tool_drift''"
  "jget_str ''tool'' (drift_event now server tool change severity) = Some tool"
  "\<not> flag ''review_required'' (drift_event now server tool change severity)"
  by (simp_all add: jget_str_def flag_def jidx_def)

lemma tool_events_cases:
  assumes "e \<in> set (tool_events ie now cat pins (t, source))"
  obtains name where "jget_str ''name'' t = Some name" and "e \<in> set (scan_events ie now t name (pin_with_source ie t source))"
    | name old where "jget_str ''name'' t = Some name" and "map_of pins name = Some old" and "drifted old (pin_with_source ie t source)"
        and "e = change_of now cat t name old (pin_with_source ie t source)"
    | name severity where "jget_str ''name'' t = Some name" and "e = drift_event now (server_of name) name ''added'' severity"
proof (cases "jget_str ''name'' t")
  case None
  with assms show thesis by (simp add: tool_events_def)
next
  case (Some name)
  with assms that show thesis by (auto simp: tool_events_def Let_def split: if_splits option.splits)
qed

lemma tool_event_fields:
  assumes "e \<in> set (tool_events ie now cat pins (t, source))"
  shows "\<exists>name. jget_str ''name'' t = Some name \<and> is_obj e \<and> jget_str ''type'' e \<noteq> Some ''pins_load_failed'' \<and> jget_str ''tool'' e = Some name \<and>
    (flag ''review_required'' e \<longrightarrow> (\<exists>old. map_of pins name = Some old \<and> (pn_review_on_upgrade old \<or> pn_review_pending old)))"
  using assms
proof (cases rule: tool_events_cases)
  case (1 name)
  with scan_event_fields [OF 1(2)] show ?thesis by simp
qed (auto simp: change_of_fields drift_event_strs)

section \<open>What the check reports\<close>

text \<open>A change that matters: a definition under review, or one whose fingerprint moved within its version (or whose saved
  hints did) on a destructive or write-named tool, with a hint dropped, or with its description or a
  schema rewritten.\<close>

definition risky_change :: "integrity_env \<Rightarrow> pin \<Rightarrow> string \<Rightarrow> json \<times> string option \<Rightarrow> bool" where
  "risky_change ie old n = (\<lambda>(t, source).
     drifted old (pin_with_source ie t source) \<and>
     (pn_review_on_upgrade old \<or> pn_review_pending old \<or> is_destructive t \<or> name_looks_destructive n \<or> annotation_downgrade old t \<or>
      definition_content_changed old (pin_with_source ie t source)))"

definition raw_events :: "integrity_env \<Rightarrow> nat \<Rightarrow> tool_catalog \<Rightarrow> pins \<Rightarrow> json list" where
  "raw_events ie now cat pins = concat (map (tool_events ie now cat pins) (tc_values cat))"

lemma raw_event_fields:
  assumes "e \<in> set (raw_events ie now cat pins)"
  shows "is_obj e" and "jget_str ''type'' e \<noteq> Some ''pins_load_failed''"
    and "flag ''review_required'' e \<Longrightarrow> jget_str ''tool'' e = Some n \<Longrightarrow>
      \<exists>old. map_of pins n = Some old \<and> (pn_review_on_upgrade old \<or> pn_review_pending old)"
  using assms by (auto simp: raw_events_def dest!: tool_event_fields)

lemma raw_not_tamper: "\<not> baseline_tamper_detected (raw_events ie now cat pins)"
  using raw_event_fields(2) by (auto simp: baseline_tamper_detected_def list_ex_iff)

lemma risky_event:
  assumes "(t, source) \<in> set (tc_values cat)" and "jget_str ''name'' t = Some n" and "map_of pins n = Some old"
    and "risky_change ie old n (t, source)"
  shows "change_of now cat t n old (pin_with_source ie t source) \<in> set (raw_events ie now cat pins)"
    and "is_high_risk_drift (change_of now cat t n old (pin_with_source ie t source))"
proof -
  let ?e = "change_of now cat t n old (pin_with_source ie t source)"
  have "server_of n \<in> server_of ` fst ` set pins" using assms(3) by (force dest: map_of_SomeD)
  then have "?e \<in> set (tool_events ie now cat pins (t, source))" using assms by (simp add: tool_events_def Let_def risky_change_def)
  then show "?e \<in> set (raw_events ie now cat pins)" using assms(1) by (auto simp: raw_events_def)
  show "is_high_risk_drift ?e"
    using assms(2,4) by (auto simp: is_high_risk_drift_def change_of_fields drift_severity_def tool_name_def risky_change_def)
qed

lemma risky_is_candidate:
  assumes "e \<in> set es" and "is_high_risk_drift e" and "jget_str ''tool'' e = Some n" and "\<not> baseline_tamper_detected es"
  shows "n \<in> set (quarantine_candidates cat es)"
  using assms by (force simp: quarantine_candidates_def List.map_filter_def)

section \<open>What the check saves\<close>

lemma fold_keep_deferred:
  "map_of (fold (keep_deferred pins) names updated) n = (if n \<in> set names then map_of pins n else map_of updated n)"
  by (induction names arbitrary: updated)
    (auto simp: keep_deferred_def map_of_obj_insert map_of_obj_remove split: option.split)

lemma staged_keeps:
  "n \<in> set (quarantine_candidates cat events) \<Longrightarrow> map_of (updated_pins ie now cat True pins events) n = map_of pins n"
  by (simp add: updated_pins_def Let_def fold_keep_deferred)

lemma save_pins_result:
  assumes "save_pins f p st = (r, st')"
  shows "st_quarantine st' = st_quarantine st" "r = Inr () \<Longrightarrow> st_pins st' = FileHolds p" "r \<noteq> Inr () \<Longrightarrow> st_pins st' = st_pins st"
    "st_unmigrated_pins st' = st_unmigrated_pins st" "st_unmigrated_quarantine st' = st_unmigrated_quarantine st"
    "st_pins st' \<noteq> FileHolds p \<Longrightarrow> load_pins st' = load_pins st"
  using assms by (auto simp: save_pins_def Let_def load_pins_def split: stored.splits if_splits)

text \<open>The pins a store gives, the empty baseline when there is none yet.\<close>

definition pins_of :: "stores \<Rightarrow> pins option" where
  "pins_of st = (case load_pins st of PinsLoaded p \<Rightarrow> Some p | PinsFresh \<Rightarrow> Some [] | PinsUnusable \<Rightarrow> None)"

lemma pins_of_holds [simp]: "st_pins st = FileHolds p \<Longrightarrow> pins_of st = Some p"
  by (simp add: pins_of_def load_pins_def)

lemma save_pins_pins_of: "save_pins f p st = (r, st') \<Longrightarrow> pins_of st' = Some p \<or> pins_of st' = pins_of st"
  using save_pins_result(6) [of f p st r st'] by (cases "st_pins st' = FileHolds p") (simp, simp add: pins_of_def)

lemma check_inner_result:
  assumes run: "check_inner ie profile rec now True f cat st = (r, st')" and pins: "pins_of st = Some pins"
  shows "r = Inr es \<Longrightarrow> list_all2 same_event (raw_events ie now cat pins) es"
    and "st_quarantine st' = st_quarantine st"
    and "n \<in> set (quarantine_candidates cat (raw_events ie now cat pins)) \<Longrightarrow> map_of pins n = Some old \<Longrightarrow>
      \<not> pn_review_on_upgrade old \<Longrightarrow> \<not> pn_review_pending old \<Longrightarrow> \<exists>p. pins_of st' = Some p \<and> map_of p n = Some old"
proof -
  let ?raws = "raw_events ie now cat pins"
  let ?review = "List.map_filter (\<lambda>e. if flag ''review_required'' e then jget_str ''tool'' e else None) ?raws"
  obtain evs upd where logged: "fold (log_event profile rec ?review pins) ?raws ([], updated_pins ie now cat True pins ?raws) = (evs, upd)"
    by fastforce
  have objs: "\<forall>e \<in> set ?raws. is_obj e" using raw_event_fields(1) by blast
  note result = log_events_result [OF objs logged]
  have run': "(if upd \<noteq> pins then (case save_pins f upd st of (Inl e, st) \<Rightarrow> (Inl e, st) | (Inr _, st) \<Rightarrow> (Inr evs, st)) else (Inr evs, st)) = (r, st')"
    using run pins logged unfolding check_inner_def Let_def raw_events_def pins_of_def by (cases "load_pins st") simp_all
  then show "r = Inr es \<Longrightarrow> list_all2 same_event ?raws es" using result by (auto split: if_splits prod.splits sum.splits)
  show "st_quarantine st' = st_quarantine st"
    using run' save_pins_result(1) by (auto split: if_splits prod.splits sum.splits)
  show "\<exists>p. pins_of st' = Some p \<and> map_of p n = Some old"
    if n: "n \<in> set (quarantine_candidates cat ?raws)" and old: "map_of pins n = Some old"
      and plain: "\<not> pn_review_on_upgrade old" "\<not> pn_review_pending old"
  proof -
    have "n \<notin> set ?review"
      using old plain raw_event_fields(3) [of _ ie now cat pins n] by (force simp: List.map_filter_def split: if_splits)
    with result staged_keeps [OF n] old have "map_of upd n = Some old" by simp
    moreover have "pins_of st' = Some upd \<or> pins_of st' = Some pins"
      using run' save_pins_pins_of [of f upd st] pins by (auto split: if_splits prod.splits sum.splits)
    ultimately show ?thesis using old by blast
  qed
qed

lemma check_inner_unusable:
  "pins_of st = None \<Longrightarrow> check_inner ie profile rec now staged f cat st = (Inr [put ''profile'' (JStr profile) (pins_tamper_event now)], st)"
  by (auto simp: check_inner_def pins_of_def Let_def split: pins_load.splits)

lemma tamper_event_detected: "baseline_tamper_detected [put ''profile'' (JStr profile) (pins_tamper_event now)]"
  by (simp add: baseline_tamper_detected_def pins_tamper_event_def put_str) (simp add: jget_str_def)

section \<open>What is blocked\<close>

definition blocked_in :: "stores \<Rightarrow> string \<Rightarrow> bool" where
  "blocked_in st n \<longleftrightarrow> (\<exists>q. load_quarantine st = Inr q \<and> n \<in> fst ` set q)"

lemma blocked_holds: "blocked_in st n \<longleftrightarrow> (\<exists>q r. st_quarantine st = FileHolds q \<and> (n, r) \<in> set q \<and> \<not> is_legacy_added r)"
  by (auto simp: blocked_in_def load_quarantine_def missing_quarantine_store_def image_iff split: stored.splits if_splits pins_load.splits)

lemma blocked_same_file: "st_quarantine st' = st_quarantine st \<Longrightarrow> blocked_in st' n = blocked_in st n"
  by (simp add: blocked_holds)

definition plain_quarantine :: "quarantine \<Rightarrow> bool" where
  "plain_quarantine q \<longleftrightarrow> (\<forall>(n, r) \<in> set q. \<not> is_legacy_added r)"

lemma load_quarantine_plain: "load_quarantine st = Inr q \<Longrightarrow> plain_quarantine q"
  by (auto simp: load_quarantine_def missing_quarantine_store_def plain_quarantine_def split: stored.splits if_splits pins_load.splits)

lemma saved_blocks: "save_quarantine f q st = (Inr (), st') \<Longrightarrow> plain_quarantine q \<Longrightarrow> blocked_in st' n \<longleftrightarrow> n \<in> fst ` set q"
proof -
  assume "save_quarantine f q st = (Inr (), st')" and plain: "plain_quarantine q"
  then have "st_quarantine st' = FileHolds q" by (auto simp: save_quarantine_def split: if_splits)
  then have "blocked_in st' n \<longleftrightarrow> (\<exists>r. (n, r) \<in> set q \<and> \<not> is_legacy_added r)" by (simp add: blocked_holds)
  also have "\<dots> \<longleftrightarrow> n \<in> fst ` set q" using plain by (force simp: plain_quarantine_def)
  finally show ?thesis .
qed

lemma load_pins_quarantine [simp]: "load_pins (st\<lparr>st_quarantine := x\<rparr>) = load_pins st"
  by (cases "st_pins st"; cases "st_backup st") (simp_all add: load_pins_def)

lemma save_quarantine_pins: "save_quarantine f q st = (r, st') \<Longrightarrow> pins_of st' = pins_of st"
  by (auto simp: save_quarantine_def pins_of_def split: if_splits)

lemma save_quarantine_failed: "save_quarantine f q st = (Inl e, st') \<Longrightarrow> st' = st"
  by (auto simp: save_quarantine_def split: if_splits)

lemma plain_insert: "plain_quarantine q \<Longrightarrow> \<not> is_legacy_added r \<Longrightarrow> plain_quarantine (obj_insert n r q)"
  unfolding plain_quarantine_def by (induction n r q rule: obj_insert.induct) auto

lemma plain_empty [simp]: "plain_quarantine []"
  by (simp add: plain_quarantine_def)

lemma jget_str_mk: "jget_str k (mk_obj kvs) = Option.bind (map_of (rev kvs) k) as_str"
  by (simp add: jget_str_def)

lemma block_record_change:
  "jget_str ''change'' (block_record ie now events e tool change reason existing d) = Some change"
proof -
  let ?ok = "\<lambda>r. is_obj r \<and> jget_str ''change'' r = Some change"
  have keep: "?ok r \<Longrightarrow> k \<noteq> ''change'' \<Longrightarrow> ?ok (put k v r)" for r k v by (simp add: put_str)
  have hints: "?ok r \<Longrightarrow> ''change'' \<notin> set ks \<Longrightarrow> ?ok (fold (\<lambda>k rec. case jget k e of Some v \<Rightarrow> put k v rec | None \<Rightarrow> rec) ks r)" for r ks
    by (induction ks arbitrary: r) (auto simp: keep split: option.split)
  have flags: "?ok r \<Longrightarrow> k \<noteq> ''change'' \<Longrightarrow> ?ok (if b then put k v r else r)" for b r k v using keep by simp
  have detail: "?ok r \<Longrightarrow> jget_str ''change'' (case d of Some x \<Rightarrow> if b then r else put ''detail'' (JStr x) r | None \<Rightarrow> r) = Some change" for r d b
    by (simp add: put_str split: option.split)
  obtain t s where d: "d = (t, s)" by (cases d)
  show ?thesis unfolding block_record_def Let_def d prod.case
    by (rule detail, rule hints, rule flags, rule flags) (simp_all add: jget_str_mk)
qed

lemma block_drifted_result:
  assumes "block_drifted ie now cat events (k, e) (q, added) = Inr (q', added')"
  shows "plain_quarantine q \<Longrightarrow> plain_quarantine q'" and "fst ` set q \<subseteq> fst ` set q'"
    and "jget_str ''tool'' e = Some n \<Longrightarrow> is_high_risk_drift e \<Longrightarrow> n \<in> fst ` set q'"
    and "added' \<or> (q' = q \<and> \<not> added)"
proof -
  have keys: "map_of q n = Some r \<Longrightarrow> n \<in> fst ` set q" for n r by (force dest: map_of_SomeD)
  have not_added: "c \<in> {''changed'', ''poison''} \<Longrightarrow> \<not> is_legacy_added (block_record ie now events e tool c reason existing d)" for c tool reason existing d
    by (auto simp: is_legacy_added_def block_record_change)
  show "plain_quarantine q \<Longrightarrow> plain_quarantine q'"
    using assms not_added
    by (auto simp: block_drifted_def is_high_risk_drift_def intro!: plain_insert split: option.splits if_splits)
  show "fst ` set q \<subseteq> fst ` set q'"
  proof -
    have "q' = q \<or> (\<exists>m r. q' = obj_insert m r q)" using assms by (auto simp: block_drifted_def split: option.splits if_splits)
    then show ?thesis by (elim disjE exE) (simp_all add: set_obj_insert_keys subset_insertI)
  qed
  show "n \<in> fst ` set q'" if tool: "jget_str ''tool'' e = Some n" and risk: "is_high_risk_drift e"
  proof -
    obtain c where c: "jget_str ''change'' e = Some c" "c = ''changed'' \<or> c = ''poison''" using risk by (auto simp: is_high_risk_drift_def)
    have "replaces_record events e n (map_of q n) \<or> map_of q n \<noteq> None" by (simp add: replaces_record_def split: option.split)
    with assms tool risk c keys show ?thesis
      by (auto simp: block_drifted_def block_reason_def set_obj_insert_keys split: option.splits if_splits)
  qed
  show "added' \<or> (q' = q \<and> \<not> added)" using assms by (auto simp: block_drifted_def split: option.splits if_splits)
qed

lemma block_all_result:
  assumes "block_all (block_drifted ie now cat events) es (q, added) = Inr (q', added')"
  shows "(plain_quarantine q \<longrightarrow> plain_quarantine q') \<and> fst ` set q \<subseteq> fst ` set q' \<and> (added' \<or> (q' = q \<and> \<not> added)) \<and>
    (\<forall>(k, e) \<in> set es. \<forall>n. jget_str ''tool'' e = Some n \<longrightarrow> is_high_risk_drift e \<longrightarrow> n \<in> fst ` set q')"
  using assms
proof (induction es arbitrary: q added)
  case (Cons x es)
  obtain k e where x: "x = (k, e)" by (cases x)
  from Cons.prems obtain q1 a1 where one: "block_drifted ie now cat events (k, e) (q, added) = Inr (q1, a1)"
      and rest: "block_all (block_drifted ie now cat events) es (q1, a1) = Inr (q', added')"
    by (auto simp: x split: sum.splits)
  note step = block_drifted_result [OF one]
  note IH = conjunct1 [OF Cons.IH [OF rest]] and tail = conjunct2 [OF Cons.IH [OF rest]]
  note keys = conjunct1 [OF tail] and done_or_same = conjunct1 [OF conjunct2 [OF tail]] and covered = conjunct2 [OF conjunct2 [OF tail]]
  have "added' \<or> (q' = q \<and> \<not> added)" using step(4) done_or_same by blast
  moreover have "n \<in> fst ` set q'" if "jget_str ''tool'' e = Some n" "is_high_risk_drift e" for n
    using subsetD [OF keys step(3) [OF that]] .
  moreover have "fst ` set q \<subseteq> fst ` set q'" using step(2) keys by (rule order.trans)
  moreover have "plain_quarantine q \<longrightarrow> plain_quarantine q'" using step(1) IH by blast
  ultimately show ?case using covered unfolding x by simp
qed auto

lemma strongest_result:
  "fold keep_strongest es acc = out \<Longrightarrow> (\<forall>(k, e) \<in> set acc. jget_str ''tool'' e = Some k \<and> is_high_risk_drift e) \<Longrightarrow>
   \<forall>e \<in> set es. is_high_risk_drift e \<Longrightarrow>
   (\<forall>(k, e) \<in> set out. jget_str ''tool'' e = Some k \<and> is_high_risk_drift e) \<and> fst ` set acc \<subseteq> fst ` set out \<and>
   (\<forall>e \<in> set es. \<forall>n. jget_str ''tool'' e = Some n \<longrightarrow> n \<in> fst ` set out)"
proof (induction es arbitrary: acc)
  case (Cons e es)
  let ?P = "\<lambda>acc. \<forall>(k, e) \<in> set acc. jget_str ''tool'' e = Some k \<and> is_high_risk_drift e"
  have insert: "?P acc \<Longrightarrow> jget_str ''tool'' e = Some k \<Longrightarrow> ?P (obj_insert k e acc)" for acc k
    using Cons.prems(3) by (induction k e acc rule: obj_insert.induct) auto
  have "?P (keep_strongest e acc)" using Cons.prems(2) insert by (auto simp: keep_strongest_def split: option.split)
  moreover have "fold keep_strongest es (keep_strongest e acc) = out" using Cons.prems(1) by simp
  moreover have "\<forall>e \<in> set es. is_high_risk_drift e" using Cons.prems(3) by simp
  ultimately have IH: "?P out" "fst ` set (keep_strongest e acc) \<subseteq> fst ` set out"
      "\<forall>e \<in> set es. \<forall>n. jget_str ''tool'' e = Some n \<longrightarrow> n \<in> fst ` set out"
    using Cons.IH [of "keep_strongest e acc"] by simp_all
  have known: "map_of acc k = Some r \<Longrightarrow> k \<in> fst ` set acc" for k r by (force dest: map_of_SomeD)
  have grows: "fst ` set acc \<subseteq> fst ` set (keep_strongest e acc)"
    by (cases "jget_str ''tool'' e") (simp_all add: keep_strongest_def set_obj_insert_keys subset_insertI split: option.split)
  have own: "jget_str ''tool'' e = Some n \<Longrightarrow> n \<in> fst ` set (keep_strongest e acc)" for n
    using known by (auto simp: keep_strongest_def set_obj_insert_keys split: option.split)
  have "fst ` set acc \<subseteq> fst ` set out" using grows IH(2) by (rule order.trans)
  moreover have "jget_str ''tool'' e = Some n \<Longrightarrow> n \<in> fst ` set out" for n using subsetD [OF IH(2) own] .
  ultimately show ?case using IH(1,3) by simp
qed simp

lemma upgrade_records_result:
  "upgrade_records q = Some (q', added) \<Longrightarrow> plain_quarantine q \<Longrightarrow> plain_quarantine q' \<and> map fst q' = map fst q \<and> (added \<or> q' = q)"
proof (induction q arbitrary: q' added)
  case (Cons x q)
  obtain n r where x: "x = (n, r)" by (cases x)
  from Cons.prems obtain q1 a1 where one: "upgrade_records q = Some (q1, a1)" by (auto simp: x split: option.splits)
  have IH: "plain_quarantine q1 \<and> map fst q1 = map fst q \<and> (a1 \<or> q1 = q)"
    using Cons.IH [OF one] Cons.prems(2) by (simp add: plain_quarantine_def)
  have tamper: "\<not> is_legacy_added r'" if "index_set ''change'' (JStr ''tamper'') r = Some r1" "index_set ''reason'' (JStr tamper_reason) r1 = Some r'" for r1 r'
  proof -
    have "jget_str ''change'' r' = Some ''tamper''" using that by (cases r) (auto simp: jget_str_def map_of_obj_insert)
    then show ?thesis by (simp add: is_legacy_added_def)
  qed
  show ?case
  proof (cases "jget_str ''change'' r = Some ''tamper''")
    case True
    with Cons.prems one IH show ?thesis by (auto simp: x plain_quarantine_def)
  next
    case False
    with Cons.prems(1) one obtain r1 r' where "index_set ''change'' (JStr ''tamper'') r = Some r1"
        "index_set ''reason'' (JStr tamper_reason) r1 = Some r'" "q' = (n, r') # q1" "added"
      by (auto simp: x split: option.splits bind_splits)
    with tamper IH show ?thesis by (auto simp: x plain_quarantine_def)
  qed
qed simp

lemma block_tampered_result:
  assumes "fold (block_tampered ie now) ts (q, added) = (q', added')" and "plain_quarantine q"
  shows "plain_quarantine q' \<and> fst ` set q \<subseteq> fst ` set q' \<and> (added' \<or> (q' = q \<and> \<not> added)) \<and>
    (\<forall>(t, s) \<in> set ts. \<forall>n. jget_str ''name'' t = Some n \<longrightarrow> n \<in> fst ` set q')"
  using assms
proof (induction ts arbitrary: q added)
  case (Cons x ts)
  obtain t s where x: "x = (t, s)" by (cases x)
  obtain q1 a1 where one: "block_tampered ie now (t, s) (q, added) = (q1, a1)" by fastforce
  have new: "\<not> is_legacy_added (tamper_record ie now n p t)" for n p by (simp add: is_legacy_added_def tamper_record_def jget_str_mk)
  have known: "map_of q n = Some r \<Longrightarrow> n \<in> fst ` set q" for n r by (force dest: map_of_SomeD)
  have "q1 = q \<or> (\<exists>m r. q1 = obj_insert m r q)"
    using one by (auto simp: block_tampered_def Let_def split: option.splits if_splits)
  then have grows: "fst ` set q \<subseteq> fst ` set q1" by (elim disjE exE) (simp_all add: set_obj_insert_keys subset_insertI)
  have step: "plain_quarantine q1" "a1 \<or> (q1 = q \<and> \<not> added)"
      "jget_str ''name'' t = Some n \<Longrightarrow> n \<in> fst ` set q1" for n
    using one Cons.prems(2) new known
    by (auto simp: block_tampered_def Let_def set_obj_insert_keys plain_insert split: option.splits if_splits)
  have "fold (block_tampered ie now) ts (q1, a1) = (q', added')" using Cons.prems(1) one by (simp add: x)
  note IH = conjunct1 [OF Cons.IH [OF this step(1)]] and tail = conjunct2 [OF Cons.IH [OF this step(1)]]
  note keys = conjunct1 [OF tail] and done_or_same = conjunct1 [OF conjunct2 [OF tail]] and covered = conjunct2 [OF conjunct2 [OF tail]]
  have "fst ` set q \<subseteq> fst ` set q'" using grows keys by (rule order.trans)
  moreover have "n \<in> fst ` set q'" if "jget_str ''name'' t = Some n" for n using subsetD [OF keys step(3) [OF that]] .
  moreover have "added' \<or> (q' = q \<and> \<not> added)" using step(2) done_or_same by blast
  ultimately show ?case using IH covered unfolding x by simp
qed auto

lemma finish_block_result:
  assumes run: "finish_block f (q', added) st = (r, st')" and q: "writable_quarantine st = Inr q"
    and plain: "plain_quarantine q'" and keys: "fst ` set q \<subseteq> fst ` set q'" and added: "added \<or> q' = q"
  shows "pins_of st' = pins_of st" and "blocked_in st n \<Longrightarrow> blocked_in st' n" and "r = Inr b \<Longrightarrow> n \<in> fst ` set q' \<Longrightarrow> blocked_in st' n"
proof -
  have old: "blocked_in st n \<longleftrightarrow> n \<in> fst ` set q"
    using q by (auto simp: writable_quarantine_def blocked_in_def split: sum.splits if_splits)
  have outcome: "(\<exists>e. r = Inl e \<and> st' = st) \<or> (\<not> added \<and> st' = st) \<or> (added \<and> save_quarantine f q' st = (Inr (), st'))"
    using run save_quarantine_failed by (auto simp: finish_block_def split: if_splits sum.splits prod.splits)
  then show "pins_of st' = pins_of st" using save_quarantine_pins by blast
  have new: "save_quarantine f q' st = (Inr (), st') \<Longrightarrow> blocked_in st' n = (n \<in> fst ` set q')" using saved_blocks plain by blast
  show "blocked_in st' n" if "blocked_in st n"
    using outcome subsetD [OF keys] that unfolding old by (elim disjE) (simp_all add: new old)
  show "r = Inr b \<Longrightarrow> n \<in> fst ` set q' \<Longrightarrow> blocked_in st' n"
    using outcome added by (elim disjE) (simp_all add: new old)
qed

lemma writable_plain: "writable_quarantine st = Inr q \<Longrightarrow> plain_quarantine q"
  using load_quarantine_plain by (auto simp: writable_quarantine_def split: sum.splits if_splits)

lemma apply_quarantine_result:
  assumes run: "apply_quarantine ie now f cat events st = (r, st')"
  shows "pins_of st' = pins_of st" and "blocked_in st n \<Longrightarrow> blocked_in st' n"
    and "r = Inr b \<Longrightarrow> n \<in> set (quarantine_candidates cat events) \<Longrightarrow> blocked_in st' n"
proof -
  have "pins_of st' = pins_of st \<and> (blocked_in st n \<longrightarrow> blocked_in st' n) \<and>
    (r = Inr b \<longrightarrow> n \<in> set (quarantine_candidates cat events) \<longrightarrow> blocked_in st' n)"
  proof (cases "(\<exists>e. r = Inl e) \<and> st' = st")
    case False
    then obtain q where lock: "ok_lock_quarantine f" and q: "writable_quarantine st = Inr q"
      using run by (auto simp: apply_quarantine_def split: if_splits sum.splits)
    show ?thesis
    proof (cases "baseline_tamper_detected events")
      case True
      with False run lock q obtain q1 a1 where up: "upgrade_records q = Some (q1, a1)"
        by (auto simp: apply_quarantine_def split: option.splits)
      obtain q' added where all: "fold (block_tampered ie now) (tc_values cat) (q1, a1) = (q', added)" by fastforce
      note up' = upgrade_records_result [OF up writable_plain [OF q]]
      note block = block_tampered_result [OF all conjunct1 [OF up']]
      have fin: "finish_block f (q', added) st = (r, st')" using run lock q True up all by (simp add: apply_quarantine_def)
      have "fst ` set q1 = fst ` set q" using up' by (metis list.set_map)
      then have keys: "fst ` set q \<subseteq> fst ` set q'" using block by simp
      have "added \<or> q' = q" using block up' by blast
      note fb = finish_block_result [OF fin q conjunct1 [OF block] keys this]
      have "n \<in> fst ` set q'" if "n \<in> set (quarantine_candidates cat events)"
        using that block True by (fastforce simp: quarantine_candidates_def catalog_names_def List.map_filter_def)
      with fb show ?thesis by blast
    next
      case no_tamper: False
      let ?es = "filter is_high_risk_drift events"
      obtain strongest where S: "fold keep_strongest ?es [] = strongest" by blast
      from no_tamper False run lock q obtain q' added where all: "block_all (block_drifted ie now cat events) strongest (q, False) = Inr (q', added)"
        by (auto simp: apply_quarantine_def S split: sum.splits)
      have none: "\<forall>(k, e) \<in> set ([] :: (string \<times> json) list). jget_str ''tool'' e = Some k \<and> is_high_risk_drift e" by simp
      have risky: "\<forall>e \<in> set ?es. is_high_risk_drift e" by simp
      note strong = conjunct1 [OF strongest_result [OF S none risky]] conjunct2 [OF conjunct2 [OF strongest_result [OF S none risky]]]
      note block = block_all_result [OF all]
      have fin: "finish_block f (q', added) st = (r, st')" using run lock q no_tamper all by (simp add: apply_quarantine_def S)
      have plain: "plain_quarantine q'" using block writable_plain [OF q] by simp
      have keys: "fst ` set q \<subseteq> fst ` set q'" using block by simp
      have "added \<or> q' = q" using block by blast
      note fb = finish_block_result [OF fin q plain keys this]
      have "n \<in> fst ` set q'" if cand: "n \<in> set (quarantine_candidates cat events)"
      proof -
        obtain e where "e \<in> set ?es" "jget_str ''tool'' e = Some n"
          using cand no_tamper by (auto simp: quarantine_candidates_def List.map_filter_def)
        then have "n \<in> fst ` set strongest" using bspec [OF strong(2)] by blast
        then obtain e' where e': "(n, e') \<in> set strongest" by force
        then have "jget_str ''tool'' e' = Some n \<and> is_high_risk_drift e'" using strong(1) by auto
        moreover have "\<forall>n. jget_str ''tool'' e' = Some n \<longrightarrow> is_high_risk_drift e' \<longrightarrow> n \<in> fst ` set q'"
          using bspec [OF conjunct2 [OF conjunct2 [OF conjunct2 [OF block]]] e'] by simp
        ultimately show ?thesis by blast
      qed
      with fb show ?thesis by blast
    qed
  qed auto
  then show "pins_of st' = pins_of st" "blocked_in st n \<Longrightarrow> blocked_in st' n"
    "r = Inr b \<Longrightarrow> n \<in> set (quarantine_candidates cat events) \<Longrightarrow> blocked_in st' n" by blast+
qed

section \<open>What is accepted\<close>

lemma change_pins_result:
  assumes "change_pins f rebuild change st = (r, st')" and "pins_of st = Some pins"
  shows "st_quarantine st' = st_quarantine st" "pins_of st' = Some pins \<or> pins_of st' = Some (change pins)"
    "r = Inr u \<Longrightarrow> pins_of st' = Some (change pins)"
proof -
  have usable: "usable_pins rebuild st = Inr pins" using assms(2) by (simp add: pins_of_def usable_pins_def split: pins_load.splits)
  obtain r1 st1 where save: "save_pins f (change pins) st = (r1, st1)" by fastforce
  show "st_quarantine st' = st_quarantine st"
    using assms(1) usable save save_pins_result(1) [OF save] by (auto simp: change_pins_def split: if_splits)
  show "pins_of st' = Some pins \<or> pins_of st' = Some (change pins)"
    using assms usable save save_pins_pins_of [OF save] by (auto simp: change_pins_def split: if_splits)
  show "r = Inr u \<Longrightarrow> pins_of st' = Some (change pins)"
    using assms usable save save_pins_result(2) [OF save] by (auto simp: change_pins_def split: if_splits)
qed

lemma change_pins_quarantine: "change_pins f rebuild change st = (r, st') \<Longrightarrow> st_quarantine st' = st_quarantine st"
  by (auto simp: change_pins_def split: if_splits sum.splits dest: save_pins_result(1))

lemma captured_keys: "captured_pins ie q = Inr pending \<Longrightarrow> fst ` set pending \<subseteq> fst ` set q"
proof (induction ie q arbitrary: pending rule: captured_pins.induct)
  case (2 ie name r q)
  show ?case
  proof (cases "captured_pins ie q")
    case (Inr rest)
    with "2.prems" have "pending = rest \<or> (\<exists>p. pending = (name, p) # rest)" by (auto split: if_splits option.splits)
    moreover have "fst ` set rest \<subseteq> fst ` set q"
      using 2 Inr by (cases "jget_str ''change'' r \<in> {Some ''changed'', Some ''poison''}"; cases "jget ''pending_pin'' r")
        (auto split: option.splits)
    ultimately show ?thesis by (elim disjE exE) (simp_all add: insert_mono subset_insertI2)
  qed (use "2.prems" in \<open>auto split: if_splits option.splits\<close>)
qed simp

lemma clear_marker_result:
  assumes "plain_quarantine q"
  shows "plain_quarantine (clear_marker x q) \<and> fst ` set (clear_marker x q) = fst ` set q"
proof -
  obtain n p where x: "x = (n, p)" by (cases x)
  show ?thesis
  proof (cases "map_of q n")
    case (Some r)
    show ?thesis
    proof (cases r)
      case (JObj m)
      let ?r = "JObj (obj_remove ''pending_pin'' (obj_insert ''definition_fp'' (JStr (pn_fp p)) m))"
      have "\<not> is_legacy_added r" using assms Some by (auto simp: plain_quarantine_def dest: map_of_SomeD)
      then have "\<not> is_legacy_added ?r" by (simp add: JObj is_legacy_added_def jget_str_def map_of_obj_remove map_of_obj_insert)
      moreover have "n \<in> fst ` set q" using Some by (force dest: map_of_SomeD)
      ultimately show ?thesis using Some JObj assms by (simp add: clear_marker_def x plain_insert set_obj_insert_keys insert_absorb)
    qed (use Some assms in \<open>simp_all add: clear_marker_def x\<close>)
  qed (simp add: clear_marker_def x assms)
qed

lemma clear_markers_result:
  "plain_quarantine q \<Longrightarrow> plain_quarantine (fold clear_marker xs q) \<and> fst ` set (fold clear_marker xs q) = fst ` set q"
proof (induction xs arbitrary: q)
  case (Cons x xs)
  from clear_marker_result [OF Cons.prems, of x] Cons.IH [of "clear_marker x q"] show ?case by simp
qed simp

lemma fold_insert_other:
  "n \<notin> fst ` set xs \<Longrightarrow> map_of (fold (\<lambda>(k, v). obj_insert k (g k v)) xs m) n = map_of m n"
  by (induction xs arbitrary: m) (auto simp: map_of_obj_insert)

text \<open>Accepting what the quarantine captured keeps every block, and changes the pin of no tool that is not blocked.\<close>

lemma accept_quarantined_result:
  assumes run: "accept_quarantined_pins ie now f st = (r, st')"
  shows "blocked_in st' n = blocked_in st n"
    and "\<not> blocked_in st n \<Longrightarrow> pins_of st = Some p \<Longrightarrow> \<exists>p'. pins_of st' = Some p' \<and> map_of p' n = map_of p n"
proof -
  have "blocked_in st' n = blocked_in st n \<and>
    (\<not> blocked_in st n \<longrightarrow> pins_of st = Some p \<longrightarrow> (\<exists>p'. pins_of st' = Some p' \<and> map_of p' n = map_of p n))"
  proof (cases "st' = st")
    case False
    then obtain q pending where q: "load_quarantine st = Inr q" "captured_pins ie q = Inr pending" "pending \<noteq> []" "ok_lock_quarantine f"
      using run by (auto simp: accept_quarantined_pins_def split: if_splits sum.splits)
    let ?change = "\<lambda>pins. fold (\<lambda>(name, fresh). obj_insert name (merge_pending_pin (map_of pins name) fresh now)) pending pins"
    obtain r1 st1 where change: "change_pins f False ?change st = (r1, st1)" by fastforce
    have same_file: "st_quarantine st1 = st_quarantine st" using change by (rule change_pins_quarantine)
    have old: "blocked_in st n \<longleftrightarrow> n \<in> fst ` set q" using q(1) by (auto simp: blocked_in_def)
    have rest: "(st' = st1) \<or> save_quarantine f (fold clear_marker pending q) st1 = (Inr (), st')"
      using run q change save_quarantine_failed by (cases r) (auto simp: accept_quarantined_pins_def split: sum.splits)
    note clear = clear_markers_result [OF load_quarantine_plain [OF q(1)], of pending]
    have blocked: "blocked_in st' n = blocked_in st n"
      using rest
    proof
      assume "st' = st1"
      with blocked_same_file [OF same_file] show ?thesis by simp
    next
      assume saved: "save_quarantine f (fold clear_marker pending q) st1 = (Inr (), st')"
      from saved_blocks [OF saved conjunct1 [OF clear], of n] clear show ?thesis by (simp add: old)
    qed
    moreover have "\<exists>p'. pins_of st' = Some p' \<and> map_of p' n = map_of p n" if n: "\<not> blocked_in st n" and p: "pins_of st = Some p"
    proof -
      have "n \<notin> fst ` set pending" using n unfolding old by (rule contra_subsetD [OF captured_keys [OF q(2)]])
      then have "map_of (?change p) n = map_of p n" by (rule fold_insert_other)
      moreover have "pins_of st1 = Some p \<or> pins_of st1 = Some (?change p)" using change p by (rule change_pins_result(2))
      moreover have "pins_of st' = pins_of st1" using rest save_quarantine_pins by blast
      ultimately show ?thesis by force
    qed
    ultimately show ?thesis by blast
  qed simp
  then show "blocked_in st' n = blocked_in st n"
    "\<not> blocked_in st n \<Longrightarrow> pins_of st = Some p \<Longrightarrow> \<exists>p'. pins_of st' = Some p' \<and> map_of p' n = map_of p n" by blast+
qed

section \<open>The gate\<close>

lemma ensure_fresh_result:
  assumes "ensure_quarantine_store_for_fresh_pins f st = (r, st')"
  shows "pins_of st' = pins_of st" and "blocked_in st' n = blocked_in st n"
  using assms save_quarantine_pins
  by (auto simp: ensure_quarantine_store_for_fresh_pins_def save_quarantine_def blocked_holds split: if_splits stored.splits pins_load.splits)

lemma list_all2_member: "list_all2 R xs ys \<Longrightarrow> x \<in> set xs \<Longrightarrow> \<exists>y \<in> set ys. R x y"
  by (induction rule: list_all2_induct) auto

lemma check_staged_result:
  assumes run: "check_staged ie profile rec now f cat st = (r, st')" and pins: "pins_of st = Some pins"
    and t: "(t, source) \<in> set (tc_values cat)" "jget_str ''name'' t = Some n" "map_of pins n = Some old" "risky_change ie old n (t, source)"
  shows "r = Inr es \<Longrightarrow> \<exists>e \<in> set es. same_event (change_of now cat t n old (pin_with_source ie t source)) e"
    and "r = Inr es \<Longrightarrow> \<not> baseline_tamper_detected es"
    and "blocked_in st' m = blocked_in st m"
    and "\<not> pn_review_on_upgrade old \<Longrightarrow> \<not> pn_review_pending old \<Longrightarrow> \<exists>p. pins_of st' = Some p \<and> map_of p n = Some old"
proof -
  have inner: "check_inner ie profile rec now True f cat st = (r, st') \<or> ((\<exists>e. r = Inl e) \<and> st' = st)"
    using run by (auto simp: check_staged_def split: if_splits)
  have events: "list_all2 same_event (raw_events ie now cat pins) es" if "r = Inr es" for es
    using inner that check_inner_result(1) [OF _ pins] by blast
  show "\<exists>e \<in> set es. same_event (change_of now cat t n old (pin_with_source ie t source)) e" if "r = Inr es"
    using list_all2_member [OF events [OF that] risky_event(1) [OF t]] .
  show "\<not> baseline_tamper_detected es" if "r = Inr es" using same_events_candidates(1) [OF events [OF that]] raw_not_tamper by simp
  show "blocked_in st' m = blocked_in st m" using inner check_inner_result(2) [OF _ pins] blocked_same_file by blast
  have cand: "n \<in> set (quarantine_candidates cat (raw_events ie now cat pins))"
    using risky_event [OF t] change_of_fields(3) raw_not_tamper by (rule risky_is_candidate)
  show "\<exists>p. pins_of st' = Some p \<and> map_of p n = Some old" if "\<not> pn_review_on_upgrade old" "\<not> pn_review_pending old"
    using inner check_inner_result(3) [OF _ pins cand t(3) that] pins t(3) by blast
qed

text \<open>The block of a tool is durable, or its old pin still stands so that the next check finds the change again.\<close>

definition change_kept :: "pin \<Rightarrow> string \<Rightarrow> stores \<Rightarrow> bool" where
  "change_kept old n st \<longleftrightarrow> blocked_in st n \<or> (\<exists>p. pins_of st = Some p \<and> map_of p n = Some old)"

lemma accept_keeps_change: "accept_quarantined_pins ie now f st = (r, st') \<Longrightarrow> change_kept old n st \<Longrightarrow> change_kept old n st'"
  using accept_quarantined_result [of ie now f st r st'] by (fastforce simp: change_kept_def)

lemma apply_keeps_change: "apply_quarantine ie now f cat events st = (r, st') \<Longrightarrow> change_kept old n st \<Longrightarrow> change_kept old n st'"
  using apply_quarantine_result(1,2) [of ie now f cat events st r st'] by (auto simp: change_kept_def)

text \<open>What the gate owes for a tool: it failed and names the tool among those to hide, or it succeeded, names it as newly
  blocked and its block is durable.\<close>

definition gate_holds :: "gate_result \<Rightarrow> stores \<Rightarrow> string \<Rightarrow> bool" where
  "gate_holds res st n \<longleftrightarrow>
     (case res of Inl (_, pending) \<Rightarrow> n \<in> set pending | Inr (Some pending) \<Rightarrow> n \<in> set pending \<and> blocked_in st n | Inr None \<Rightarrow> False)"

lemma accept_staged_blocks: "accept_staged_pins ie now f cat es st = (r, st') \<Longrightarrow> blocked_in st' n = blocked_in st n"
proof -
  assume "accept_staged_pins ie now f cat es st = (r, st')"
  then have "st_quarantine st' = st_quarantine st"
    by (auto simp: accept_staged_pins_def Let_def split: if_splits dest: change_pins_quarantine)
  then show ?thesis by (rule blocked_same_file)
qed

text \<open>The gate acts on the tool: the level blocks drift, the change is a review, or the approval gate was being shed.\<close>

definition acts :: "gate_env \<Rightarrow> bool \<Rightarrow> json list \<Rightarrow> bool" where
  "acts ge review events \<longleftrightarrow> enforce_drift ge events \<or> review \<or> (ge_blocking ge \<and> list_ex ask_holds events)"

lemma enforce_events_result:
  assumes run: "enforce_events ge fs cat review events st = (res, st')" and acts: "acts ge review events"
    and n: "n \<in> set (quarantine_candidates cat (required_events ge events))"
  shows "gate_holds res st' n" and "change_kept old n st \<Longrightarrow> change_kept old n st'"
proof -
  let ?ie = "ge_integrity ge" and ?now = "ge_now ge" and ?required = "required_events ge events"
  let ?pending = "quarantine_candidates cat ?required"
  obtain r1 st1 where applied: "apply_quarantine ?ie ?now (fs 4) cat ?required st = (r1, st1)" by fastforce
  obtain r2 st2 where accept: "accept_quarantined_pins ?ie ?now (fs 5) st1 = (r2, st2)" by fastforce
  obtain r3 st3 where staged: "(if enforce_drift ge events then (Inr (), st2)
      else accept_staged_pins ?ie ?now (fs 6) cat (filter (\<lambda>e. \<not> held ge e) events) st2) = (r3, st3)" by fastforce
  have blocked3: "blocked_in st3 m = blocked_in st2 m" for m using staged accept_staged_blocks by (auto split: if_splits)
  have pending: "?pending \<noteq> []" using n by auto
  have outcome: "(res, st') = (case r1 of Inl e \<Rightarrow> (Inl (e, ?pending), st1) | Inr _ \<Rightarrow>
      (case r2 of Inl e \<Rightarrow> (Inl (e, ?pending), st2) | Inr _ \<Rightarrow>
        (case r3 of Inl e \<Rightarrow> (Inl (e, ?pending), st3) | Inr _ \<Rightarrow> (Inr (Some ?pending), st3))))"
    using run acts applied accept staged pending
    by (cases r1; cases r2; cases r3) (auto simp: enforce_events_def Let_def acts_def)
  have blocked: "blocked_in st2 n" "blocked_in st1 n" if "r1 = Inr b" for b
    using apply_quarantine_result(3) [OF applied that n] accept_quarantined_result(1) [OF accept, of n] by simp_all
  show "gate_holds res st' n"
    using outcome n blocked by (auto simp: gate_holds_def blocked3 split: sum.splits)
  show "change_kept old n st'" if "change_kept old n st"
    using outcome apply_keeps_change [OF applied that] blocked by (auto simp: change_kept_def blocked3 split: sum.splits)
qed

section \<open>The whole gate\<close>

definition under_review :: "pin \<Rightarrow> bool" where
  "under_review old \<longleftrightarrow> pn_review_on_upgrade old \<or> pn_review_pending old"

text \<open>The levels at which a change is held: every one for a review, those that quarantine drift for any risky change, and those
  that block at all for a tool that sheds its approval.\<close>

definition gate_acts_on :: "gate_env \<Rightarrow> tool_catalog \<Rightarrow> pin \<Rightarrow> string \<Rightarrow> json \<Rightarrow> bool" where
  "gate_acts_on ge cat old n t \<longleftrightarrow>
     ge_quarantine_on ge \<or> under_review old \<or> (ge_blocking ge \<and> gate_downgrade old t n (tc_gate_name cat n))"

lemma member_required:
  assumes "e \<in> set es" and "is_high_risk_drift e" and "jget_str ''tool'' e = Some n" and "\<not> baseline_tamper_detected es"
    and "enforce_drift ge es \<or> held ge e"
  shows "n \<in> set (quarantine_candidates cat (required_events ge es))"
proof (rule risky_is_candidate)
  show "e \<in> set (required_events ge es)" using assms(1,5) by (simp add: required_events_def)
  show "\<not> baseline_tamper_detected (required_events ge es)" using assms(4) by (auto simp: baseline_tamper_detected_def required_events_def list_ex_iff)
qed (rule assms)+

lemma check_and_enforce_result:
  assumes run: "check_and_enforce ge fs cat names st = ((res, names'), st')" and pins: "pins_of st = Some pins"
    and t: "(t, source) \<in> set (tc_values cat)" "jget_str ''name'' t = Some n" "map_of pins n = Some old"
    and risk: "risky_change (ge_integrity ge) old n (t, source)" and acts: "gate_acts_on ge cat old n t"
  shows "gate_holds res st' n"
    and "\<not> under_review old \<Longrightarrow> change_kept old n st'"
    and "set names \<subseteq> set names'"
proof -
  let ?ie = "ge_integrity ge" and ?now = "ge_now ge"
  have all: "n \<in> set (catalog_names cat)" using t(1,2) by (force simp: catalog_names_def List.map_filter_def)
  obtain r1 st1 where ensure: "ensure_quarantine_store_for_fresh_pins (fs 1) st = (r1, st1)" by fastforce
  have pins1: "pins_of st1 = Some pins" using ensure_fresh_result(1) [OF ensure] pins by simp
  obtain r2 st2 where check: "check_staged ?ie (ge_profile ge) (ge_record_event ge) ?now (fs 2) cat st1 = (r2, st2)" by fastforce
  note checked = check_staged_result [OF check pins1 t risk]
  have kept: "change_kept old n st1" "\<not> under_review old \<Longrightarrow> change_kept old n st2"
    using pins1 t(3) checked(4) by (auto simp: change_kept_def under_review_def)
  have "gate_holds res st' n \<and> (\<not> under_review old \<longrightarrow> change_kept old n st') \<and> set names \<subseteq> set names'"
  proof (cases "r1 = Inr () \<and> (\<exists>es. r2 = Inr es)")
    case False
    with run ensure check kept all show ?thesis by (cases r1; cases r2) (auto simp: check_and_enforce_def gate_holds_def)
  next
    case True
    then obtain es where ok: "r1 = Inr ()" "r2 = Inr es" by blast
    obtain e where e: "e \<in> set es" and same: "same_event (change_of ?now cat t n old (pin_with_source ?ie t source)) e"
      using checked(1) [OF ok(2)] by blast
    note views = same_event_views [OF same]
    have high: "is_high_risk_drift e" and tool: "jget_str ''tool'' e = Some n"
      using views risky_event(2) [OF t risk] change_of_fields(3) by simp_all
    have review: "flag ''review_required'' e \<longleftrightarrow> under_review old" by (simp add: views change_of_fields under_review_def)
    have shed: "\<not> under_review old \<Longrightarrow> gate_downgrade old t n (tc_gate_name cat n) \<Longrightarrow> ask_holds e"
      by (simp add: ask_holds_def views change_of_fields under_review_def)
    have hold: "ge_quarantine_on ge \<or> held ge e" using acts review shed by (auto simp: gate_acts_on_def held_def)
    note no_tamper = checked(2) [OF ok(2)]
    have required: "n \<in> set (quarantine_candidates cat (required_events ge es))"
      using hold by (intro member_required [OF e high tool no_tamper]) (auto simp: enforce_drift_def)
    let ?recapture = "list_ex (flag ''review_required'') es"
    have acts': "acts ge (names \<noteq> [] \<or> ?recapture) es"
      using hold e by (auto simp: acts_def enforce_drift_def held_def list_ex_iff)
    obtain r3 st3 where recover: "(if \<not> baseline_tamper_detected es \<and> \<not> ?recapture then accept_quarantined_pins ?ie ?now (fs 3) st2
        else (Inr (), st2)) = (r3, st3)" by fastforce
    have kept3: "\<not> under_review old \<Longrightarrow> change_kept old n st3"
      using recover kept(2) accept_keeps_change by (auto split: if_splits)
    obtain r4 st4 where enf: "enforce_events ge fs cat (names \<noteq> [] \<or> ?recapture) es st3 = (r4, st4)" by fastforce
    have outcome: "((res, names'), st') = (case r3 of
        Inl x \<Rightarrow> ((Inl (x, quarantine_candidates cat es), names @ review_tools_of es), st3)
      | Inr _ \<Rightarrow> ((r4, names @ review_tools_of es), st4))"
      using run ensure check ok recover enf by (cases r3) (auto simp: check_and_enforce_def Let_def split: if_splits)
    note result = enforce_events_result [OF enf acts' required]
    have "n \<in> set (quarantine_candidates cat es)" using e high tool no_tamper by (rule risky_is_candidate)
    with outcome result kept3 show ?thesis by (cases r3) (auto simp: gate_holds_def)
  qed
  then show "gate_holds res st' n" "\<not> under_review old \<Longrightarrow> change_kept old n st'" "set names \<subseteq> set names'" by blast+
qed

lemma gate_readable:
  assumes "maybe_check_integrity ge fs cat st = (res, st')" and "pins_of st = Some pins"
  obtains names res0 names' where "check_and_enforce ge fs cat names st = ((res0, names'), st')"
    and "n \<in> set (catalog_names cat) \<and> map_of pins n = Some old \<and> under_review old \<longrightarrow> n \<in> set names"
    and "res = (case res0 of
            Inl (e, pending) \<Rightarrow> if \<not> ge_blocking ge \<and> \<not> ge_quarantine_on ge then if names' = [] then Inr None else Inl (e, names') else Inl (e, pending)
          | Inr r \<Rightarrow> Inr r)"
proof -
  let ?rv = "cached_review_pins (ge_remembered ge) st"
  let ?names = "filter (\<lambda>n. n \<in> set (catalog_names cat)) (rp_names ?rv)"
  have readable: "\<not> rp_unreadable ?rv" and rv: "rp_names ?rv = rp_names (reviews_from_pins pins)"
    using assms(2) by (auto simp: cached_review_pins_def pins_of_def no_reviews_def reviews_from_pins_def Let_def split: pins_load.splits)
  obtain res0 names' st1 where run: "check_and_enforce ge fs cat ?names st = ((res0, names'), st1)" by (metis prod.exhaust)
  have "n \<in> set ?names" if "n \<in> set (catalog_names cat)" "map_of pins n = Some old" "under_review old"
    using that by (force simp: rv reviews_from_pins_def under_review_def Let_def dest: map_of_SomeD)
  moreover have "st1 = st'" "res = (case res0 of
            Inl (e, pending) \<Rightarrow> if \<not> ge_blocking ge \<and> \<not> ge_quarantine_on ge then if names' = [] then Inr None else Inl (e, names') else Inl (e, pending)
          | Inr r \<Rightarrow> Inr r)"
    using assms(1) run by (simp_all add: maybe_check_integrity_def definition_review_names_for_catalog_def readable Let_def)
  ultimately show thesis using that run by blast
qed

lemma gate_on_change:
  assumes run: "maybe_check_integrity ge fs cat st = (res, st')" and pins: "pins_of st = Some pins"
    and t: "(t, source) \<in> set (tc_values cat)" "jget_str ''name'' t = Some n" "map_of pins n = Some old"
    and risk: "risky_change (ge_integrity ge) old n (t, source)" and acts: "gate_acts_on ge cat old n t"
  shows "gate_holds res st' n" and "\<not> under_review old \<Longrightarrow> change_kept old n st'"
proof -
  have all: "n \<in> set (catalog_names cat)" using t(1,2) by (force simp: catalog_names_def List.map_filter_def)
  obtain names res0 names' where inner: "check_and_enforce ge fs cat names st = ((res0, names'), st')"
    and review: "n \<in> set (catalog_names cat) \<and> map_of pins n = Some old \<and> under_review old \<longrightarrow> n \<in> set names"
    and res: "res = (case res0 of
            Inl (e, pending) \<Rightarrow> if \<not> ge_blocking ge \<and> \<not> ge_quarantine_on ge then if names' = [] then Inr None else Inl (e, names') else Inl (e, pending)
          | Inr r \<Rightarrow> Inr r)"
    by (rule gate_readable [OF run pins, of n old])
  note result = check_and_enforce_result [OF inner pins t risk acts]
  have off: "n \<in> set names'" if "\<not> ge_blocking ge" "\<not> ge_quarantine_on ge"
    using subsetD [OF result(3)] review all t(3) acts that by (simp add: gate_acts_on_def)
  show "gate_holds res st' n" using result(1) off unfolding res by (fastforce simp: gate_holds_def split: sum.splits)
  show "\<not> under_review old \<Longrightarrow> change_kept old n st'" by (rule result(2))
qed

text \<open>A lost baseline.\<close>

lemma gate_on_lost_baseline:
  assumes run: "maybe_check_integrity ge fs cat st = (res, st')" and pins: "pins_of st = None"
    and level: "ge_blocking ge \<or> ge_quarantine_on ge" and n: "n \<in> set (catalog_names cat)"
  shows "gate_holds res st' n"
proof -
  obtain names names' where inner: "check_and_enforce ge fs cat names st = ((res, names'), st')"
  proof -
    obtain res0 names0 where "definition_review_names_for_catalog (cached_review_pins (ge_remembered ge) st) (catalog_names cat) = Inl names0 \<or>
        definition_review_names_for_catalog (cached_review_pins (ge_remembered ge) st) (catalog_names cat) = Inr names0" by (metis sum.exhaust)
    moreover obtain res1 names1 st1 where "check_and_enforce ge fs cat names0 st = ((res1, names1), st1)" by (metis prod.exhaust)
    ultimately show thesis using run level that
      by (auto simp: maybe_check_integrity_def Let_def split: sum.splits prod.splits)
  qed
  let ?ie = "ge_integrity ge" and ?now = "ge_now ge"
  let ?es = "[put ''profile'' (JStr (ge_profile ge)) (pins_tamper_event ?now)]"
  obtain r1 st1 where ensure: "ensure_quarantine_store_for_fresh_pins (fs 1) st = (r1, st1)" by fastforce
  have pins1: "pins_of st1 = None" using ensure_fresh_result(1) [OF ensure] pins by simp
  have check: "check_staged ?ie (ge_profile ge) (ge_record_event ge) ?now (fs 2) cat st1 = (if ok_lock_pins (fs 2) then (Inr ?es, st1) else (Inl LockFailed, st1))"
    by (simp add: check_staged_def check_inner_unusable [OF pins1])
  note tamper = tamper_event_detected [of "ge_profile ge" ?now]
  have enforce: "enforce_drift ge ?es" using level tamper by (auto simp: enforce_drift_def)
  have required: "n \<in> set (quarantine_candidates cat (required_events ge ?es))"
    using n tamper enforce by (simp add: quarantine_candidates_def required_events_def)
  obtain r4 st4 where enf: "enforce_events ge fs cat (names \<noteq> [] \<or> list_ex (flag ''review_required'') ?es) ?es st1 = (r4, st4)" by fastforce
  have "gate_holds r4 st4 n" using enforce by (intro enforce_events_result(1) [OF enf _ required]) (simp add: acts_def)
  with inner ensure check tamper enf n show ?thesis
    by (cases r1) (auto simp: check_and_enforce_def gate_holds_def Let_def split: if_splits)
qed

end
