(* ===== verification/IntegrityProps.thy ===== *)
theory IntegrityProps
  imports IntegritySafety
begin

text \<open>
  What tool integrity promises: a change that matters is held by the gate whatever fails, it is never accepted
  unseen, a lost baseline blocks the catalog, and a release pins exactly what was captured.
\<close>

section \<open>Release\<close>

lemma change_pins_usable:
  assumes "change_pins f rebuild change st = (r, st')" and "usable_pins rebuild st = Inr pins" and "change pins \<noteq> pins"
  shows "r = Inr u \<Longrightarrow> pins_of st' = Some (change pins)" and "r = Inl e \<Longrightarrow> pins_of st' = pins_of st \<or> pins_of st' = Some (change pins)"
proof -
  obtain r1 st1 where save: "save_pins f (change pins) st = (r1, st1)" by fastforce
  show "r = Inr u \<Longrightarrow> pins_of st' = Some (change pins)"
    using assms save save_pins_result(2) [OF save] by (auto simp: change_pins_def split: if_splits)
  show "r = Inl e \<Longrightarrow> pins_of st' = pins_of st \<or> pins_of st' = Some (change pins)"
    using assms save save_pins_pins_of [OF save] by (auto simp: change_pins_def split: if_splits)
qed

lemma change_pins_error: "change_pins f rebuild change st = (Inl e, st') \<Longrightarrow> pins_of st' = pins_of st"
proof -
  assume run: "change_pins f rebuild change st = (Inl e, st')"
  then consider "st' = st" | pins where "save_pins f (change pins) st = (Inl e, st')"
    by (auto simp: change_pins_def split: if_splits sum.splits)
  then show ?thesis
  proof cases
    case (2 pins)
    then show ?thesis by (auto simp: save_pins_def Let_def pins_of_def load_pins_def split: if_splits stored.splits)
  qed simp
qed

lemma released_pin:
  "map_of (apply_release_pin tool pending reviewed stamp pins) n =
     (if n = tool then
        Some (let p = (case pending of Some p \<Rightarrow> merge_pending_pin (map_of pins tool) p stamp
              | None \<Rightarrow> (case map_of pins tool of Some p \<Rightarrow> p
                  | None \<Rightarrow> (bare_pin ''released-without-baseline'' stamp)\<lparr>pn_review_on_upgrade := True, pn_review_pending := True\<rparr>))
          in p\<lparr>pn_review_on_upgrade := (\<not> reviewed \<or> fp_version (pn_fp p) \<noteq> pin_fp_version), pn_review_pending := (\<not> reviewed),
              pn_review_retired := False, pn_review_logged_events := []\<rparr>)
      else map_of pins n)"
  by (simp add: apply_release_pin_def Let_def map_of_obj_insert)

lemma keys_obj_remove: "fst ` set (obj_remove k q) = fst ` set q - {k}"
proof -
  have "set (map fst (AList.delete k q)) = set (map fst q) - {k}" unfolding delete_keys by simp
  then show ?thesis by (simp add: obj_remove_def)
qed

lemma blocked_removed:
  assumes "save_quarantine f (obj_remove tool q) st = (Inr (), st')" and "plain_quarantine q"
  shows "blocked_in st' n \<longleftrightarrow> n \<noteq> tool \<and> n \<in> fst ` set q"
proof -
  have "plain_quarantine (obj_remove tool q)" using assms(2) by (auto simp: plain_quarantine_def obj_remove_def AList.delete_eq)
  from saved_blocks [OF assms(1) this, of n] show ?thesis unfolding keys_obj_remove by blast
qed

lemma apply_release_changes: "map_of pins tool = None \<Longrightarrow> apply_release_pin tool pending reviewed stamp pins \<noteq> pins"
  by (metis option.distinct(1) released_pin)

lemma usable_pins_of: "pins_of st = Some pins \<Longrightarrow> usable_pins rebuild st = Inr pins"
  by (auto simp: pins_of_def usable_pins_def split: pins_load.splits)

lemma change_pins_saved:
  assumes "change_pins f rebuild (apply_release_pin tool pending reviewed stamp) st = (Inr (), st')"
  obtains pins where "usable_pins rebuild st = Inr pins" and "pins_of st' = Some (apply_release_pin tool pending reviewed stamp pins)"
proof -
  obtain pins where usable: "usable_pins rebuild st = Inr pins" using assms by (auto simp: change_pins_def split: if_splits sum.splits)
  let ?change = "apply_release_pin tool pending reviewed stamp"
  show thesis
  proof (cases "?change pins = pins")
    case True
    then have "pins \<noteq> []" using apply_release_changes [of pins tool] by force
    then have "pins_of st = Some pins" using usable by (auto simp: usable_pins_def pins_of_def split: pins_load.splits if_splits)
    with True usable assms that show thesis by (auto simp: change_pins_def split: if_splits)
  next
    case False
    with change_pins_usable(1) [OF assms usable False] usable that show thesis by blast
  qed
qed

text \<open>The pins of the other tools stay.\<close>

definition pins_change :: "string \<Rightarrow> stores \<Rightarrow> stores \<Rightarrow> bool" where
  "pins_change tool st st' \<longleftrightarrow>
     (\<forall>pins n. pins_of st = Some pins \<longrightarrow> n \<noteq> tool \<longrightarrow> (\<exists>pins'. pins_of st' = Some pins' \<and> map_of pins' n = map_of pins n))"

lemma release_pins_change:
  assumes "change_pins f rebuild (apply_release_pin tool pending reviewed stamp) st = (r, st')"
  shows "pins_change tool st st'"
  unfolding pins_change_def
proof (intro allI impI)
  fix pins n assume "pins_of st = Some pins" and n: "n \<noteq> tool"
  with change_pins_result(2) [OF assms] have "pins_of st' = Some pins \<or> pins_of st' = Some (apply_release_pin tool pending reviewed stamp pins)" by blast
  with n show "\<exists>pins'. pins_of st' = Some pins' \<and> map_of pins' n = map_of pins n" by (auto simp: released_pin)
qed

lemma release_inner_cases:
  assumes "release_inner ie stamp f tool st = (r, st')"
  obtains (failed) e where "r = Inl e" and "st_quarantine st' = st_quarantine st" and "pins_change tool st st'"
    | (absent) "r = Inr False" and "st' = st" and "\<not> blocked_in st tool"
    | (released) q rec pending st1 where "r = Inr True" and "load_quarantine st = Inr q" and "map_of q tool = Some rec"
        and "release_pending_pin ie tool rec = Inr pending"
        and "change_pins f (jget_str ''change'' rec = Some ''tamper'') (apply_release_pin tool pending (is_obj (jidx ''definition'' rec)) stamp) st = (Inr (), st1)"
        and "save_quarantine f (obj_remove tool q) st1 = (Inr (), st')"
proof (cases "load_quarantine st")
  case (Inl e)
  with assms failed show thesis by (auto simp: release_inner_def pins_change_def)
next
  case (Inr q)
  show thesis
  proof (cases "map_of q tool")
    case None
    then have "\<not> blocked_in st tool" using Inr by (simp add: blocked_in_def map_of_eq_None_iff)
    with assms Inr None absent show thesis by (auto simp: release_inner_def)
  next
    case (Some rec)
    show thesis
    proof (cases "release_pending_pin ie tool rec")
      case (Inl e)
      with assms Inr Some failed show thesis by (auto simp: release_inner_def pins_change_def)
    next
      case pending: (Inr pending)
      obtain r1 st1 where change: "change_pins f (jget_str ''change'' rec = Some ''tamper'')
          (apply_release_pin tool pending (is_obj (jidx ''definition'' rec)) stamp) st = (r1, st1)" by fastforce
      obtain r2 st2 where save: "save_quarantine f (obj_remove tool q) st1 = (r2, st2)" by fastforce
      note same = change_pins_quarantine [OF change]
      show thesis
      proof (cases "\<exists>e. r1 = Inl e \<or> r2 = Inl e")
        case True
        then have "(\<exists>e. r = Inl e) \<and> st' = st1"
          using assms Inr Some pending change save save_quarantine_failed [of f _ st1 _ st2]
          by (auto simp: release_inner_def split: sum.splits)
        moreover have "pins_change tool st st1" using change by (rule release_pins_change)
        moreover note same
        ultimately show thesis using failed by blast
      next
        case False
        then have "r1 = Inr ()" "r2 = Inr ()" by (cases r1; auto; cases r2; auto)+
        with assms Inr Some pending change save show thesis by (intro released) (auto simp: release_inner_def)
      qed
    qed
  qed
qed

lemma release_others:
  assumes run: "release_inner ie stamp f tool st = (r, st')"
  shows "pins_change tool st st'" and "n \<noteq> tool \<Longrightarrow> blocked_in st' n = blocked_in st n"
proof -
  have "pins_change tool st st' \<and> (n \<noteq> tool \<longrightarrow> blocked_in st' n = blocked_in st n)"
    using run
  proof (cases rule: release_inner_cases)
    case (failed e)
    then show ?thesis using blocked_same_file by blast
  next
    case absent
    then show ?thesis by (simp add: pins_change_def)
  next
    case (released q rec pending st1)
    have "pins_change tool st st1" using released(5) by (rule release_pins_change)
    moreover have "pins_of st' = pins_of st1" using released(6) by (rule save_quarantine_pins)
    moreover have "blocked_in st n \<longleftrightarrow> n \<in> fst ` set q" using released(2) by (simp add: blocked_in_def)
    ultimately show ?thesis
      using blocked_removed [OF released(6) load_quarantine_plain [OF released(2)], of n] by (simp add: pins_change_def)
  qed
  then show "pins_change tool st st'" "n \<noteq> tool \<Longrightarrow> blocked_in st' n = blocked_in st n" by blast+
qed

lemma merge_pending_fields [simp]:
  "pn_fp (merge_pending_pin previous fresh stamp) = pn_fp fresh" "pn_dh (merge_pending_pin previous fresh stamp) = pn_dh fresh"
  "pn_ro (merge_pending_pin previous fresh stamp) = pn_ro fresh" "pn_parts (merge_pending_pin previous fresh stamp) = pn_parts fresh"
  by (simp_all add: merge_pending_pin_def)

text \<open>C9: A release pins before it unblocks. When it succeeds the tool is unblocked and the baseline holds the definition that
  was captured with the block; a record that saved no definition leaves the pin under review, so the
  tool is blocked again at the next check. When it fails every block stands. Other tools keep their
  block and their pin either way.\<close>

theorem release_pins_first:
  assumes "release ie stamp f tool st = (r, st')"
  shows "(\<forall>e. r = Inl e \<longrightarrow> (\<forall>n. blocked_in st' n = blocked_in st n)) \<and>
    (r = Inr False \<longrightarrow> st' = st \<and> \<not> blocked_in st tool) \<and>
    (r = Inr True \<longrightarrow> \<not> blocked_in st' tool \<and>
       (\<exists>q rec p pins. load_quarantine st = Inr q \<and> map_of q tool = Some rec \<and> pins_of st' = Some pins \<and> map_of pins tool = Some p \<and>
           (\<forall>v. jget ''pending_pin'' rec = Some v \<longrightarrow> (\<exists>c. ie_read_pin ie v = Some c \<and> pn_fp p = pn_fp c \<and> pn_dh p = pn_dh c \<and> pn_ro p = pn_ro c)) \<and>
           (under_review p \<longleftrightarrow> \<not> is_obj (jidx ''definition'' rec) \<or> fp_version (pn_fp p) \<noteq> pin_fp_version))) \<and>
    pins_change tool st st' \<and> (\<forall>n. n \<noteq> tool \<longrightarrow> blocked_in st' n = blocked_in st n)"
proof (cases "ok_lock_quarantine f")
  case False
  with assms show ?thesis by (auto simp: release_def pins_change_def)
next
  case True
  with assms have run: "release_inner ie stamp f tool st = (r, st')" by (simp add: release_def)
  note others = release_others [OF run]
  from run show ?thesis
  proof (cases rule: release_inner_cases)
    case (failed e)
    then have "\<forall>n. blocked_in st' n = blocked_in st n" using blocked_same_file by blast
    with failed others show ?thesis by simp
  next
    case absent
    with others show ?thesis by simp
  next
    case (released q rec pending st1)
    obtain pins where "pins_of st1 = Some (apply_release_pin tool pending (is_obj (jidx ''definition'' rec)) stamp pins)"
      using released(5) by (rule change_pins_saved)
    then have "pins_of st' = Some (apply_release_pin tool pending (is_obj (jidx ''definition'' rec)) stamp pins)" (is "_ = Some ?pins")
      using save_quarantine_pins [OF released(6)] by simp
    moreover obtain p where p: "map_of ?pins tool = Some p" by (simp add: released_pin)
    have "\<exists>c. ie_read_pin ie v = Some c \<and> pn_fp p = pn_fp c \<and> pn_dh p = pn_dh c \<and> pn_ro p = pn_ro c" if v: "jget ''pending_pin'' rec = Some v" for v
    proof -
      obtain c where "ie_read_pin ie v = Some c" "pending = Some c"
        using released(4) v by (cases "ie_read_pin ie v") (auto simp: release_pending_pin_def)
      with p show ?thesis by (auto simp: released_pin Let_def)
    qed
    moreover have "under_review p \<longleftrightarrow> \<not> is_obj (jidx ''definition'' rec) \<or> fp_version (pn_fp p) \<noteq> pin_fp_version"
      using p by (auto simp: released_pin under_review_def Let_def)
    moreover have "\<not> blocked_in st' tool" using blocked_removed [OF released(6) load_quarantine_plain [OF released(2)]] by simp
    ultimately show ?thesis using released(1-3) p others by auto
  qed
qed

section \<open>The gate\<close>

text \<open>Drift fails closed. When the definition of a pinned tool changes in a way that matters and the level acts on it (any such
  change where drift is quarantined, a pending review at every level, a destructive tool that stops
  saying so wherever approval is asked), the gate either succeeds with the tool's block durable in the
  quarantine, or it fails and names the tool among those the router must hide. It does so whichever
  locks and writes fail.\<close>

theorem drift_gate_fails_closed:
  assumes "maybe_check_integrity ge fs cat st = (res, st')" and "pins_of st = Some pins"
    and "(t, source) \<in> set (tc_values cat)" and "jget_str ''name'' t = Some n" and "map_of pins n = Some old"
    and "risky_change (ge_integrity ge) old n (t, source)" and "gate_acts_on ge cat old n t"
  shows "gate_holds res st' n"
  using assms by (rule gate_on_change(1))

text \<open>A toolbox whose tool was reworded, under a digest that keeps every byte.\<close>

fun sample_text :: "json \<Rightarrow> string" where
  "sample_text (JStr s) = s"
| "sample_text (JBool b) = (if b then ''t'' else ''f'')"
| "sample_text (JObj m) = concat (map (\<lambda>(k, v). k @ sample_text v) m)"
| "sample_text _ = ''?''"

definition sample_integrity :: integrity_env where
  "sample_integrity = \<lparr>ie_sha = map (\<lambda>c. of_char c), ie_text = sample_text, ie_scan = (\<lambda>_. ([], JNull, None)),
     ie_write_pin = (\<lambda>p. JStr (pn_fp p)), ie_read_pin = (\<lambda>v. map_option (\<lambda>s. bare_pin s 0) (as_str v))\<rparr>"

definition sample_tool :: "string \<Rightarrow> json" where
  "sample_tool d = JObj [(''description'', JStr d), (''name'', JStr ''kit__show'')]"

definition sample_stores :: stores where
  "sample_stores = \<lparr>st_pins = FileHolds [(''kit__show'', pin_with_source sample_integrity (sample_tool ''old'') None)], st_backup = FileMissing,
     st_quarantine = FileHolds [], st_unmigrated_pins = False, st_unmigrated_quarantine = False\<rparr>"

definition sample_catalog :: tool_catalog where
  "sample_catalog = \<lparr>tc_values = [(sample_tool ''new'', None)], tc_gate_name = (\<lambda>_. None)\<rparr>"

definition sample_gate :: gate_env where
  "sample_gate = \<lparr>ge_integrity = sample_integrity, ge_profile = [], ge_record_event = (\<lambda>_. True), ge_now = 7, ge_blocking = True,
     ge_quarantine_on = True, ge_remembered = no_reviews\<rparr>"

definition sample_faults :: "bool \<Rightarrow> nat \<Rightarrow> faults" where
  "sample_faults ok _ = \<lparr>ok_lock_quarantine = True, ok_lock_pins = True, ok_write_quarantine = ok, ok_write_pins = True,
     ok_write_backup = True, ok_preserve = True, ok_prune = True\<rparr>"

definition sample_old :: pin where
  "sample_old = pin_with_source sample_integrity (sample_tool ''old'') None"

lemma sample_change:
  "pins_of sample_stores = Some [(''kit__show'', sample_old)]" "(sample_tool ''new'', None) \<in> set (tc_values sample_catalog)"
  "jget_str ''name'' (sample_tool ''new'') = Some ''kit__show''" "map_of [(''kit__show'', sample_old)] ''kit__show'' = Some sample_old"
  "risky_change (ge_integrity sample_gate) sample_old ''kit__show'' (sample_tool ''new'', None)"
  "gate_acts_on sample_gate sample_catalog sample_old ''kit__show'' (sample_tool ''new'')" "\<not> under_review sample_old"
  by code_simp+

theorem drift_gate_fails_closed_witness:
  "(\<exists>st'. maybe_check_integrity sample_gate (sample_faults True) sample_catalog sample_stores = (Inr (Some [''kit__show'']), st') \<and>
     gate_holds (Inr (Some [''kit__show''])) st' ''kit__show'') \<and>
   (\<exists>st'. maybe_check_integrity sample_gate (sample_faults False) sample_catalog sample_stores = (Inl (WriteFailed, [''kit__show'']), st') \<and>
     gate_holds (Inl (WriteFailed, [''kit__show''])) st' ''kit__show'')"
proof -
  have "fst (maybe_check_integrity sample_gate (sample_faults True) sample_catalog sample_stores) = Inr (Some [''kit__show''])" by code_simp
  then obtain st1 where one: "maybe_check_integrity sample_gate (sample_faults True) sample_catalog sample_stores = (Inr (Some [''kit__show'']), st1)"
    by (metis prod.collapse)
  have "fst (maybe_check_integrity sample_gate (sample_faults False) sample_catalog sample_stores) = Inl (WriteFailed, [''kit__show''])" by code_simp
  then obtain st2 where two: "maybe_check_integrity sample_gate (sample_faults False) sample_catalog sample_stores = (Inl (WriteFailed, [''kit__show'']), st2)"
    by (metis prod.collapse)
  from drift_gate_fails_closed [OF one sample_change(1-6)] drift_gate_fails_closed [OF two sample_change(1-6)] one two
  show ?thesis by blast
qed



text \<open>A lost baseline blocks the catalog. When the pins cannot be read and no backup can, the gate at any level that blocks
  holds every tool of the catalog, as it would a changed one.\<close>

theorem lost_baseline_blocks:
  assumes "maybe_check_integrity ge fs cat st = (res, st')" and "load_pins st = PinsUnusable"
    and "ge_blocking ge \<or> ge_quarantine_on ge" and "n \<in> set (catalog_names cat)"
  shows "gate_holds res st' n"
proof (rule gate_on_lost_baseline [OF assms(1) _ assms(3,4)])
  show "pins_of st = None" using assms(2) by (simp add: pins_of_def)
qed

theorem lost_baseline_blocks_witness:
  "\<exists>st'. maybe_check_integrity sample_gate (sample_faults True) sample_catalog (sample_stores\<lparr>st_pins := FileBroken\<rparr>) =
      (Inr (Some [''kit__show'']), st') \<and> blocked_in st' ''kit__show''"
proof -
  have res: "fst (maybe_check_integrity sample_gate (sample_faults True) sample_catalog (sample_stores\<lparr>st_pins := FileBroken\<rparr>)) = Inr (Some [''kit__show''])"
    by code_simp
  then obtain st' where run: "maybe_check_integrity sample_gate (sample_faults True) sample_catalog (sample_stores\<lparr>st_pins := FileBroken\<rparr>) =
      (Inr (Some [''kit__show'']), st')" by (metis prod.collapse)
  have "gate_holds (Inr (Some [''kit__show''])) st' ''kit__show''"
    by (rule lost_baseline_blocks [OF run]) code_simp+
  with run show ?thesis by (simp add: gate_holds_def)
qed

lemma fp_version_v3: "fp_version (pin_fingerprint ie t p) = pin_fp_version"
  by (simp add: fp_version_def pin_fingerprint_def pin_fp_version_def starts_with_def)


text \<open>A stored form of pins that keeps the whole definition of the reworded tool.\<close>

definition sample_reader :: integrity_env where
  "sample_reader = sample_integrity\<lparr>ie_read_pin := (\<lambda>_. Some (pin_with_source sample_integrity (sample_tool ''new'') None))\<rparr>"

definition sample_record :: json where
  "sample_record = JObj [(''change'', JStr ''changed''), (''definition'', sample_tool ''new''), (''pending_pin'', JStr ''new'')]"

definition sample_blocked :: stores where
  "sample_blocked = sample_stores\<lparr>st_quarantine := FileHolds [(''kit__show'', sample_record)]\<rparr>"

lemma sample_released:
  obtains st' where "release sample_reader 9 (sample_faults True 0) ''kit__show'' sample_blocked = (Inr True, st')"
proof -
  have "fst (release sample_reader 9 (sample_faults True 0) ''kit__show'' sample_blocked) = Inr True" by code_simp
  then show thesis using that by (metis prod.collapse)
qed


theorem release_pins_first_witness:
  "\<exists>st'. release sample_reader 9 (sample_faults False 0) ''kit__show'' sample_blocked = (Inl WriteFailed, st') \<and>
     blocked_in st' ''kit__show'' \<and> pins_change ''kit__show'' sample_blocked st'"
proof -
  have "fst (release sample_reader 9 (sample_faults False 0) ''kit__show'' sample_blocked) = Inl WriteFailed" by code_simp
  then obtain st' where run: "release sample_reader 9 (sample_faults False 0) ''kit__show'' sample_blocked = (Inl WriteFailed, st')"
    by (metis prod.collapse)
  have "load_quarantine sample_blocked = Inr [(''kit__show'', sample_record)]" by code_simp
  then have "blocked_in sample_blocked ''kit__show''" by (simp add: blocked_in_def)
  with release_pins_first [OF run] run show ?thesis by blast
qed

section \<open>A hold the gate does not make\<close>

text \<open>Where the approval gate is shed by a tool the user renamed, the change is flagged but of the quiet tier, since the tier is
  judged by the shown name: a catalog shows \<open>kit__tidy\<close> for the server's \<open>delete_rows\<close>, and the server adds
  \<open>destructiveHint: false\<close>. At Ask the gate succeeds and blocks nothing, and the baseline accepts the change.\<close>

definition renamed_tool :: "(string \<times> json) list \<Rightarrow> json" where
  "renamed_tool annotations = JObj (annotations @ [(''name'', JStr ''kit__tidy'')])"

definition quiet_hint :: "(string \<times> json) list" where
  "quiet_hint = [(''annotations'', JObj [(''destructiveHint'', JBool False)])]"

definition renamed_catalog :: tool_catalog where
  "renamed_catalog = \<lparr>tc_values = [(renamed_tool quiet_hint, None)], tc_gate_name = (\<lambda>_. Some ''delete_rows'')\<rparr>"

definition renamed_stores :: stores where
  "renamed_stores = sample_stores\<lparr>st_pins := FileHolds [(''kit__tidy'', pin_with_source sample_integrity (renamed_tool []) None)]\<rparr>"

definition ask_gate :: gate_env where
  "ask_gate = \<lparr>ge_integrity = sample_integrity, ge_profile = [], ge_record_event = (\<lambda>_. True), ge_now = 7, ge_blocking = True,
     ge_quarantine_on = False, ge_remembered = no_reviews\<rparr>"

lemma renamed_shed:
  "gate_downgrade (pin_with_source sample_integrity (renamed_tool []) None) (renamed_tool quiet_hint) ''kit__tidy'' (Some ''delete_rows'')"
  by code_simp

lemma renamed_passes: "fst (maybe_check_integrity ask_gate (sample_faults True) renamed_catalog renamed_stores) = Inr None"
  by code_simp

lemma renamed_unblocked:
   "load_quarantine (snd (maybe_check_integrity ask_gate (sample_faults True) renamed_catalog renamed_stores)) = Inr []"
  by code_simp

lemma renamed_downgrade_not_held:
  "gate_downgrade (pin_with_source sample_integrity (renamed_tool []) None) (renamed_tool quiet_hint) ''kit__tidy'' (Some ''delete_rows'') \<and>
   fst (maybe_check_integrity ask_gate (sample_faults True) renamed_catalog renamed_stores) = Inr None \<and>
   load_quarantine (snd (maybe_check_integrity ask_gate (sample_faults True) renamed_catalog renamed_stores)) = Inr []"
  by (intro conjI renamed_shed renamed_passes renamed_unblocked)

end
