(* ===== verification/IntegrityRouter.thy ===== *)
theory IntegrityRouter
  imports IntegrityProps CatalogSafety RegistrySafety
begin

text \<open>
  The integrity gate on a router that is about to be published (\<open>requarantine_if_needed\<close> of the gateway): the
  definitions under their policy names, the cleanup of reviews whose tool left the registry, the set
  of blocked tools each safety level enforces, and what is hidden when a store cannot be read or
  written. The registry is read several times and may change in between: \<open>reg k\<close> is its \<open>k\<close>-th
  reading, and \<open>meanwhile\<close> is what other processes do to the stores between the gate and the reads
  after it. The hash the catalog keeps of a schema as the server sent it is an argument.
\<close>

section \<open>The definitions the gate judges\<close>

definition gate_name_of :: "'a router \<Rightarrow> json \<Rightarrow> string option" where
  "gate_name_of rt t =
     (let policy = (case jget_str ''name'' (policy_definition rt t) of Some n \<Rightarrow> n | None \<Rightarrow> []);
          shown = (case split_once_str ''__'' policy of Some (_, tool) \<Rightarrow> tool | None \<Rightarrow> policy)
      in case Option.bind (jget_str ''name'' t) (route_of rt) of
           Some (_, orig) \<Rightarrow> if orig \<noteq> shown \<and> sanitize_segment orig \<noteq> shown then Some orig else None
         | None \<Rightarrow> None)"

definition policy_catalog :: "'a router \<Rightarrow> (json \<Rightarrow> string option) \<Rightarrow> json list \<Rightarrow> tool_catalog" where
  "policy_catalog rt sources tools =
     \<lparr>tc_values = map (\<lambda>t. (policy_definition rt t, sources t)) tools,
      tc_gate_name = (\<lambda>name.
        case find (\<lambda>t. gate_name_of rt t \<noteq> None \<and> jget_str ''name'' (policy_definition rt t) = Some name) tools of
          Some t \<Rightarrow> gate_name_of rt t
        | None \<Rightarrow> None)\<rparr>"

section \<open>Reviews whose tool is gone\<close>

definition has_override_name :: "string \<Rightarrow> tool_override \<Rightarrow> bool" where
  "has_override_name name ov =
     (case to_name ov of
        None \<Rightarrow> False
      | Some shown \<Rightarrow>
          (let shown = sanitize_segment shown
           in name = shown \<or>
              (case Option.bind (strip_prefix shown name) (strip_prefix ''_'') of
                 Some digits \<Rightarrow> parse_unsigned u64_max digits \<noteq> None
               | None \<Rightarrow> False)))"

definition registry_has_tool_identity :: "registry \<Rightarrow> string \<Rightarrow> bool" where
  "registry_has_tool_identity reg name =
     list_ex (\<lambda>s. starts_with (sanitize_segment (s_id s) @ ''__'') name \<or>
       (case map_of (r_tool_overrides reg) (s_id s) of
          Some tools \<Rightarrow> list_ex (\<lambda>(_, ov). has_override_name name ov) tools
        | None \<Rightarrow> False)) (r_servers reg)"

definition valid_root_scope :: "string \<Rightarrow> bool" where
  "valid_root_scope scope =
     (case strip_prefix ''root:'' scope of Some hash \<Rightarrow> length hash = 64 \<and> list_all is_ascii_hexdigit hash | None \<Rightarrow> False)"

definition removed_profile :: "registry \<Rightarrow> string option \<Rightarrow> bool" where
  "removed_profile reg profile =
     (case profile of
        None \<Rightarrow> False
      | Some p \<Rightarrow>
          (let i = access_integrity_id p
           in \<not> valid_root_scope i \<and> (case r_default_access_context_id reg of Some d \<Rightarrow> d | None \<Rightarrow> []) \<noteq> i \<and>
              \<not> list_ex (\<lambda>q. p_id q = i) (r_profiles reg)))"

definition retire_pin :: "string \<Rightarrow> pins \<Rightarrow> pins" where
  "retire_pin name pins =
     (case map_of pins name of
        Some p \<Rightarrow> obj_insert name (p\<lparr>pn_review_retired := True, pn_review_logged_events := []\<rparr>) pins
      | None \<Rightarrow> pins)"

definition return_pin :: "string \<Rightarrow> pins \<Rightarrow> pins" where
  "return_pin name pins =
     (case map_of pins name of Some p \<Rightarrow> obj_insert name (p\<lparr>pn_review_retired := False\<rparr>) pins | None \<Rightarrow> pins)"

definition reconcile_pins ::
  "faults \<Rightarrow> registry \<Rightarrow> string option \<Rightarrow> string set \<Rightarrow> pins \<Rightarrow> stores \<Rightarrow> unit outcome" where
  "reconcile_pins f reg profile present pins st =
     (let absent = map fst (filter (\<lambda>(name, p). \<not> pn_review_retired p \<and> (pn_review_pending p \<or> pn_review_on_upgrade p) \<and>
            name \<notin> present \<and> (removed_profile reg profile \<or> \<not> registry_has_tool_identity reg name)) pins);
          returned = map fst (filter (\<lambda>(name, p). pn_review_retired p \<and> name \<in> present) pins);
          retired = fold retire_pin absent pins
      in if absent = [] \<and> returned = [] then (Inr (), st)
         else case (if absent = [] then (Inr (), st)
                    else case writable_quarantine st of
                           Inl e \<Rightarrow> (Inl e, st)
                         | Inr q \<Rightarrow> save_quarantine f (fold obj_remove absent q) st) of
                (Inl e, st) \<Rightarrow> (Inl e, st)
              | (Inr _, st) \<Rightarrow> save_pins f (fold return_pin returned retired) st)"

definition reconcile_definition_reviews ::
  "faults \<Rightarrow> registry \<Rightarrow> string option \<Rightarrow> review_pins \<Rightarrow> string set \<Rightarrow> stores \<Rightarrow> unit outcome" where
  "reconcile_definition_reviews f reg profile rv present st =
     (if rp_active rv = [] \<and> set (rp_names rv) \<inter> present = {} then (Inr (), st)
      else if \<not> ok_lock_quarantine f \<or> \<not> ok_lock_pins f then (Inl LockFailed, st)
      else case load_pins st of
             PinsLoaded pins \<Rightarrow> reconcile_pins f reg profile present pins st
           | _ \<Rightarrow> (Inr (), st))"

section \<open>What each level enforces\<close>

definition unmigrated_quarantine :: "stores \<Rightarrow> bool" where
  "unmigrated_quarantine st \<longleftrightarrow> st_quarantine st = FileMissing \<and> st_unmigrated_quarantine st"

definition quarantined_checked :: "stores \<Rightarrow> integrity_error + string list" where
  "quarantined_checked st = (if unmigrated_quarantine st then Inl NotMigrated else quarantined st)"

definition mandatory_quarantined_checked :: "review_pins \<Rightarrow> stores \<Rightarrow> integrity_error + string list" where
  "mandatory_quarantined_checked rv st =
     (if rp_unreadable rv then Inl PinsCorrupt
      else if unmigrated_quarantine st then Inl NotMigrated
      else map_sum id mandatory_quarantine_set (load_quarantine st))"

definition active_definition_review_names :: "review_pins \<Rightarrow> string list" where
  "active_definition_review_names rv = (if rp_unreadable rv then rp_names rv else rp_active rv)"

definition off_review_read :: "review_pins \<Rightarrow> integrity_error + string list \<Rightarrow> integrity_error + string list" where
  "off_review_read rv read = (case read of Inl _ \<Rightarrow> Inr (active_definition_review_names rv) | Inr names \<Rightarrow> Inr names)"

definition review_quarantined_checked :: "review_pins \<Rightarrow> stores \<Rightarrow> integrity_error + string list" where
  "review_quarantined_checked rv st =
     (if unmigrated_quarantine st then Inr (rp_names rv)
      else map_sum id (\<lambda>names. names @ rp_names rv) (off_review_read rv (map_sum id review_quarantine_set (load_quarantine st))))"

definition effective_quarantine :: "registry \<Rightarrow> review_pins \<Rightarrow> stores \<Rightarrow> string set option" where
  "effective_quarantine reg rv st =
     (case (if quarantine_on_drift_effective reg then quarantined_checked st
            else if safety_level_effective reg = Ask then mandatory_quarantined_checked rv st
            else review_quarantined_checked rv st) of
        Inr names \<Rightarrow> Some (set names \<union> set (rp_names rv))
      | Inl _ \<Rightarrow> None)"

section \<open>Publishing\<close>

definition requarantine_after_integrity_change ::
  "'a catalog_env \<Rightarrow> review_pins \<Rightarrow> string set \<Rightarrow> string set option \<Rightarrow> 'a router \<Rightarrow> 'a router option" where
  "requarantine_after_integrity_change env rv pending persisted rt =
     (case persisted of
        Some names \<Rightarrow> requarantine_from_store env (names \<union> pending) rt
      | None \<Rightarrow> requarantine env (tp_quarantined (rt_policy rt) \<union> set (rp_names rv) \<union> pending) rt)"

definition fail_closed_integrity_catalog ::
  "'a catalog_env \<Rightarrow> registry \<Rightarrow> review_pins \<Rightarrow> stores \<Rightarrow> string set \<Rightarrow> 'a router \<Rightarrow> 'a router option" where
  "fail_closed_integrity_catalog env reg rv st pending rt =
     (let off = (safety_level_effective reg = Off \<and> \<not> quarantine_on_drift_effective reg);
          hidden = (if off then {} else tp_quarantined (rt_policy rt)) \<union> pending \<union> set (rp_names rv);
          install = (\<lambda>names rt. if off then requarantine_from_store env names rt else requarantine env names rt)
      in case (if off then review_quarantined_checked rv st else quarantined st) of
           Inr persisted \<Rightarrow> install (hidden \<union> set persisted) rt
         | Inl _ \<Rightarrow> Option.bind (fail_closed_catalog env rt) (install hidden))"

text \<open>The router is private until the gate is done: reviews are lifted from it so that the gate sees their tools.\<close>

definition lift_reviews :: "'a catalog_env \<Rightarrow> review_pins \<Rightarrow> 'a router \<Rightarrow> json list \<Rightarrow> ('a router \<times> json list) option" where
  "lift_reviews env rv rt tools =
     (let checking = tp_quarantined (rt_policy rt) - set (rp_names rv)
      in if checking \<noteq> tp_quarantined (rt_policy rt)
         then map_option (\<lambda>rt. (rt, shared_tools rt)) (requarantine_from_store env checking rt)
         else Some (rt, tools))"

definition gate_for :: "registry \<Rightarrow> review_pins \<Rightarrow> gate_env \<Rightarrow> gate_env" where
  "gate_for reg rv ge = ge\<lparr>ge_blocking := (safety_level_effective reg \<noteq> Off), ge_quarantine_on := quarantine_on_drift_effective reg,
     ge_remembered := rv\<rparr>"

text \<open>What the gate's verdict makes of the router and the catalog.\<close>

definition settle ::
  "'a catalog_env \<Rightarrow> registry \<Rightarrow> review_pins \<Rightarrow> stores \<Rightarrow> gate_result \<Rightarrow> 'a router \<times> json list \<Rightarrow> ('a router \<times> json list) option" where
  "settle env reg rv st verdict = (\<lambda>(rt, tools).
     let live = tp_quarantined (rt_policy rt); rv = cached_review_pins rv st; listed = map_option (\<lambda>rt. (rt, shared_tools rt))
     in case verdict of
          Inr (Some pending) \<Rightarrow>
            listed (requarantine_after_integrity_change env rv (set pending \<union> live) (effective_quarantine reg rv st) rt)
        | Inr None \<Rightarrow>
            (case effective_quarantine reg rv st of
               None \<Rightarrow> listed (fail_closed_catalog env rt)
             | Some stored \<Rightarrow>
                 if stored \<union> live \<noteq> live then listed (requarantine env (stored \<union> live) rt)
                 else Some (rt, if tp_fail_closed_catalog (rt_policy rt) then shared_tools rt else tools))
        | Inl (_, pending) \<Rightarrow> listed (fail_closed_integrity_catalog env reg rv st (set pending) rt))"

definition requarantine_if_needed ::
  "'a catalog_env \<Rightarrow> (json \<Rightarrow> string option) \<Rightarrow> (nat \<Rightarrow> registry) \<Rightarrow> string option \<Rightarrow> gate_env \<Rightarrow> (nat \<Rightarrow> faults) \<Rightarrow>
   (stores \<Rightarrow> stores) \<Rightarrow> 'a router \<Rightarrow> json list \<Rightarrow> stores \<Rightarrow> ('a router \<times> json list) option \<times> stores" where
  "requarantine_if_needed env sources reg profile ge fs meanwhile rt tools st =
     (let rv = cached_review_pins (ge_remembered ge) st
      in case lift_reviews env rv rt tools of
           None \<Rightarrow> (None, st)
         | Some (rt, tools) \<Rightarrow>
             (let st = snd (reconcile_definition_reviews (fs 7) (reg 0) profile rv (indexed_policy_names_for (\<lambda>_. True) rt) st);
                  (verdict, st) = maybe_check_integrity (gate_for (reg 1) rv ge) fs (policy_catalog rt sources tools) st;
                  rv = cached_review_pins rv st; st = meanwhile st
              in (settle env (reg 2) rv st verdict (rt, tools), st)))"


section \<open>What is hidden\<close>

lemma requarantine_policy:
  "requarantine env q rt = Some rt' \<Longrightarrow> tp_quarantined (rt_policy rt') = q"
  "requarantine_from_store env q rt = Some rt' \<Longrightarrow> tp_quarantined (rt_policy rt') = q"
  by (auto simp: requarantine_def requarantine_from_store_def dest!: rebuild_policy)

text \<open>A blocked policy name has no route and no listed definition.\<close>

lemma quarantined_hidden:
  assumes ok: "router_ok rt" and n: "n \<in> tp_quarantined (rt_policy rt)"
  shows "map_of (rt_routes rt) e = Some p \<Longrightarrow> policy_name rt e \<noteq> n"
    and "d \<in> set (shared_tools rt) \<Longrightarrow> jget_str ''name'' (policy_definition rt d) \<noteq> Some n"
proof -
  have cat: "catalog_ok rt" using ok by (simp add: router_ok_def)
  have listed: "\<exists>e. jget_str ''name'' d = Some e \<and> policy_name rt e \<noteq> n" if d: "d \<in> set (rt_tools rt)" for d
  proof -
    obtain e s orig where e: "jget_str ''name'' d = Some e"
      and pass: "policy_blocked_reason rt e s orig (metadata_of (set_key ''name'' (JStr orig) d)) = None"
      using catalog_butD(1) [OF cat d] unfolding listed_ok_def by blast
    from passed_reason [OF pass] n have "policy_name rt e \<noteq> n"
      by (auto simp: blocked_reason_def blocked_reason_unscoped_def split: if_splits)
    with e show ?thesis by blast
  qed
  show "policy_name rt e \<noteq> n" if "map_of (rt_routes rt) e = Some p"
    using catalog_butD(3) [OF cat that] listed by fastforce
  show "jget_str ''name'' (policy_definition rt d) \<noteq> Some n" if "d \<in> set (shared_tools rt)"
  proof -
    have "d \<in> set (rt_tools rt)" using that by (simp add: shared_tools_def)
    from listed [OF this] obtain e where e: "jget_str ''name'' d = Some e" "policy_name rt e \<noteq> n" by blast
    then show ?thesis by (cases "policy_name rt e = e") (simp_all add: policy_definition_def Let_def set_name [OF e(1)])
  qed
qed

definition names_held :: "gate_result \<Rightarrow> string set" where
  "names_held verdict = (case verdict of Inl (_, pending) \<Rightarrow> set pending | Inr (Some pending) \<Rightarrow> set pending | Inr None \<Rightarrow> {})"

lemma settled:
  assumes "settle env reg rv st verdict (rt, tools) = Some (rt', tools')" and "router_ok rt" and "n \<in> names_held verdict"
  shows "router_ok rt' \<and> n \<in> tp_quarantined (rt_policy rt') \<and> tools' = shared_tools rt'"
proof -
  let ?rv = "cached_review_pins rv st"
  consider (change) pending where "verdict = Inr (Some pending)" "n \<in> set pending"
    | (failed) e pending where "verdict = Inl (e, pending)" "n \<in> set pending"
    using assms(3) by (auto simp: names_held_def split: sum.splits option.splits)
  then show ?thesis
  proof cases
    case change
    then show ?thesis using assms(1,2)
      by (auto simp: settle_def Let_def requarantine_after_integrity_change_def split: option.splits
          dest: rebuilt_ok(2,3) requarantine_policy)
  next
    case failed
    then show ?thesis using assms(1,2)
      by (auto simp: settle_def Let_def fail_closed_integrity_catalog_def bind_eq_Some_conv split: sum.splits if_splits
          dest: rebuilt_ok requarantine_policy)
  qed
qed

lemma lifted_ok: "lift_reviews env rv rt tools = Some (rt', tools') \<Longrightarrow> router_ok rt \<Longrightarrow> router_ok rt'"
  by (auto simp: lift_reviews_def Let_def split: if_splits dest: rebuilt_ok(3))

section \<open>The cleanup keeps what the gate compares\<close>

definition same_baseline :: "pin \<Rightarrow> pin \<Rightarrow> bool" where
  "same_baseline old new \<longleftrightarrow> (\<exists>r l. new = old\<lparr>pn_review_retired := r, pn_review_logged_events := l\<rparr>)"

lemma same_baseline_refl [simp]: "same_baseline p p"
  unfolding same_baseline_def by (rule exI [of _ "pn_review_retired p"], rule exI [of _ "pn_review_logged_events p"]) simp

lemma same_baseline_trans: "same_baseline a b \<Longrightarrow> same_baseline b c \<Longrightarrow> same_baseline a c"
  unfolding same_baseline_def by fastforce

lemma baseline_judged:
  assumes "same_baseline old new"
  shows "risky_change ie new n ts = risky_change ie old n ts" and "under_review new = under_review old"
    and "gate_acts_on ge cat new n t = gate_acts_on ge cat old n t"
proof -
  obtain r l where new: "new = old\<lparr>pn_review_retired := r, pn_review_logged_events := l\<rparr>" using assms unfolding same_baseline_def by blast
  show "risky_change ie new n ts = risky_change ie old n ts" "under_review new = under_review old"
      "gate_acts_on ge cat new n t = gate_acts_on ge cat old n t"
    by (simp_all add: new risky_change_def drifted_def annotation_downgrade_def definition_content_changed_def under_review_def
      gate_acts_on_def gate_downgrade_def)
qed

text \<open>Whether it succeeds or fails, every pin is as it was up to the marks of the cleanup.\<close>

definition baseline_kept :: "pins \<Rightarrow> pins \<Rightarrow> bool" where
  "baseline_kept pins pins' \<longleftrightarrow> (\<forall>n old. map_of pins n = Some old \<longrightarrow> (\<exists>new. map_of pins' n = Some new \<and> same_baseline old new))"

lemma baseline_kept_refl [simp]: "baseline_kept pins pins"
  by (simp add: baseline_kept_def)

lemma baseline_kept_trans: "baseline_kept a b \<Longrightarrow> baseline_kept b c \<Longrightarrow> baseline_kept a c"
  unfolding baseline_kept_def by (meson same_baseline_trans)

lemma marks_kept: "baseline_kept pins (retire_pin n pins)" "baseline_kept pins (return_pin n pins)"
proof -
  have "same_baseline p (p\<lparr>pn_review_retired := r\<rparr>)" for p r
    unfolding same_baseline_def by (rule exI [of _ r], rule exI [of _ "pn_review_logged_events p"]) simp
  moreover have "same_baseline p (p\<lparr>pn_review_retired := r, pn_review_logged_events := l\<rparr>)" for p r l
    unfolding same_baseline_def by blast
  ultimately show "baseline_kept pins (retire_pin n pins)" "baseline_kept pins (return_pin n pins)"
    by (auto simp: baseline_kept_def retire_pin_def return_pin_def map_of_obj_insert split: option.splits)
qed

lemma fold_kept: "(\<And>n ps. baseline_kept ps (f n ps)) \<Longrightarrow> baseline_kept pins (fold f ns pins)"
  by (induction ns arbitrary: pins) (auto intro: baseline_kept_trans)

lemma reconcile_keeps_baseline:
  assumes "reconcile_definition_reviews f reg profile rv present st = (r, st')" and "pins_of st = Some pins"
  shows "\<exists>pins'. pins_of st' = Some pins' \<and> baseline_kept pins pins'"
proof (cases "\<exists>p. load_pins st = PinsLoaded p \<and> reconcile_pins f reg profile present p st = (r, st')")
  case True
  then obtain p where load: "load_pins st = PinsLoaded p" and run: "reconcile_pins f reg profile present p st = (r, st')" by blast
  have p: "p = pins" using load assms(2) by (simp add: pins_of_def)
  have kept: "baseline_kept pins (fold return_pin bs (fold retire_pin as pins))" for as bs
    by (rule baseline_kept_trans [OF fold_kept fold_kept]) (rule marks_kept)+
  have saved: "\<exists>pins'. pins_of st' = Some pins' \<and> baseline_kept pins pins'"
    if "save_pins f (fold return_pin bs (fold retire_pin as pins)) st1 = (r, st')" "pins_of st1 = Some pins" for as bs st1
    using save_pins_pins_of [OF that(1)] kept that(2) by auto
  show ?thesis using run assms(2) unfolding p reconcile_pins_def Let_def
    by (auto split: if_splits sum.splits prod.splits intro: saved saved [of _ "[]", simplified] simp: save_quarantine_pins)
next
  case False
  with assms show ?thesis by (auto simp: reconcile_definition_reviews_def split: if_splits pins_load.splits)
qed


section \<open>A published router\<close>

text \<open>What publishing relies on: a gate that names every tool it must hold, whether it succeeds or fails.\<close>

locale integrity_gate =
  fixes check :: "tool_catalog \<Rightarrow> stores \<Rightarrow> gate_result \<times> stores" and demands :: "tool_catalog \<Rightarrow> stores \<Rightarrow> string \<Rightarrow> bool"
  assumes names_demanded: "demands cat st n \<Longrightarrow> check cat st = (verdict, st') \<Longrightarrow> n \<in> names_held verdict"
begin

lemma settled_hides:
  assumes "check cat st = (verdict, st1)" and "demands cat st n" and "router_ok rt"
    and "settle env reg rv st2 verdict (rt, tools) = Some (rt', tools')"
  shows "(\<forall>e p. map_of (rt_routes rt') e = Some p \<longrightarrow> policy_name rt' e \<noteq> n) \<and>
    (\<forall>d \<in> set tools'. jget_str ''name'' (policy_definition rt' d) \<noteq> Some n)"
  using settled [OF assms(4,3) names_demanded [OF assms(2,1)]] quarantined_hidden [of rt' n] by blast

end

text \<open>What this gate holds: a change the level acts on, and the whole catalog when the baseline is lost.\<close>

definition gate_demands :: "gate_env \<Rightarrow> tool_catalog \<Rightarrow> stores \<Rightarrow> string \<Rightarrow> bool" where
  "gate_demands ge cat st n \<longleftrightarrow>
     (\<exists>t source pins old. (t, source) \<in> set (tc_values cat) \<and> jget_str ''name'' t = Some n \<and> pins_of st = Some pins \<and> map_of pins n = Some old \<and>
        risky_change (ge_integrity ge) old n (t, source) \<and> gate_acts_on ge cat old n t) \<or>
     (load_pins st = PinsUnusable \<and> (ge_blocking ge \<or> ge_quarantine_on ge) \<and> n \<in> set (catalog_names cat))"

interpretation drift_gate: integrity_gate "maybe_check_integrity ge fs" "gate_demands ge" for ge fs
proof
  fix cat st n and verdict :: gate_result and st'
  assume demand: "gate_demands ge cat st n" and run: "maybe_check_integrity ge fs cat st = (verdict, st')"
  have "gate_holds verdict st' n"
    using demand [unfolded gate_demands_def]
  proof
    assume "load_pins st = PinsUnusable \<and> (ge_blocking ge \<or> ge_quarantine_on ge) \<and> n \<in> set (catalog_names cat)"
    then show ?thesis by (intro gate_on_lost_baseline [OF run]) (simp_all add: pins_of_def)
  qed (elim exE conjE, rule gate_on_change(1) [OF run])
  then show "n \<in> names_held verdict"
    by (auto simp: gate_holds_def names_held_def split: sum.splits option.splits)
qed

lemma published_hides:
  assumes run: "requarantine_if_needed env sources reg profile ge fs meanwhile rt tools st = (Some (rt', tools'), st')" and ok: "router_ok rt"
    and lift: "lift_reviews env (cached_review_pins (ge_remembered ge) st) rt tools = Some (rt1, tools1)"
    and demand: "\<And>st1 r. reconcile_definition_reviews (fs 7) (reg 0) profile (cached_review_pins (ge_remembered ge) st)
        (indexed_policy_names_for (\<lambda>_. True) rt1) st = (r, st1) \<Longrightarrow>
      gate_demands (gate_for (reg 1) (cached_review_pins (ge_remembered ge) st) ge) (policy_catalog rt1 sources tools1) st1 n"
  shows "(\<forall>e p. map_of (rt_routes rt') e = Some p \<longrightarrow> policy_name rt' e \<noteq> n) \<and>
    (\<forall>d \<in> set tools'. jget_str ''name'' (policy_definition rt' d) \<noteq> Some n)"
proof -
  let ?rv = "cached_review_pins (ge_remembered ge) st"
  obtain r st1 where rec: "reconcile_definition_reviews (fs 7) (reg 0) profile ?rv (indexed_policy_names_for (\<lambda>_. True) rt1) st = (r, st1)"
    by (metis prod.exhaust)
  obtain verdict st2 where gate: "maybe_check_integrity (gate_for (reg 1) ?rv ge) fs (policy_catalog rt1 sources tools1) st1 = (verdict, st2)"
    by (metis prod.exhaust)
  have "settle env (reg 2) (cached_review_pins ?rv st2) (meanwhile st2) verdict (rt1, tools1) = Some (rt', tools')"
    using run by (auto simp add: requarantine_if_needed_def lift rec gate Let_def simp del: One_nat_def)
  then show ?thesis by (rule drift_gate.settled_hides [OF gate demand [OF rec] lifted_ok [OF lift ok]])
qed

text \<open>C2: What a client sees after the gate. When a pinned tool changes in a way the safety level acts on, the router that is
  published neither routes nor lists it: no exposed name has its policy name. This holds whichever
  locks and writes fail, whatever other processes write to the stores before the gate's last reads, and
  even if the registry changes meanwhile.\<close>

theorem changed_tool_not_published:
  assumes "requarantine_if_needed env sources reg profile ge fs meanwhile rt tools st = (Some (rt', tools'), st')"
    and "reachable (\<lambda>rt. \<exists>p. rt = with_policy p) (catalog_step env) rt"
    and "lift_reviews env (cached_review_pins (ge_remembered ge) st) rt tools = Some (rt1, tools1)"
    and "t \<in> set tools1" and "jget_str ''name'' (policy_definition rt1 t) = Some n"
    and "pins_of st = Some pins" and "map_of pins n = Some old"
    and "risky_change (ge_integrity ge) old n (policy_definition rt1 t, sources t)"
    and "gate_acts_on (gate_for (reg 1) (cached_review_pins (ge_remembered ge) st) ge) (policy_catalog rt1 sources tools1) old n (policy_definition rt1 t)"
  shows "(\<forall>e p. map_of (rt_routes rt') e = Some p \<longrightarrow> policy_name rt' e \<noteq> n) \<and>
    (\<forall>d \<in> set tools'. jget_str ''name'' (policy_definition rt' d) \<noteq> Some n)"
proof (rule published_hides [OF assms(1) catalog_sys.reachable_inv [OF assms(2)] assms(3)])
  let ?rv = "cached_review_pins (ge_remembered ge) st" and ?cat = "policy_catalog rt1 sources tools1"
  fix st1 r
  assume rec: "reconcile_definition_reviews (fs 7) (reg 0) profile ?rv (indexed_policy_names_for (\<lambda>_. True) rt1) st = (r, st1)"
  obtain pins1 new where pins1: "pins_of st1 = Some pins1" "map_of pins1 n = Some new" "same_baseline old new"
    using reconcile_keeps_baseline [OF rec assms(6)] assms(7) unfolding baseline_kept_def by blast
  have "(policy_definition rt1 t, sources t) \<in> set (tc_values ?cat)" using assms(4) by (simp add: policy_catalog_def)
  moreover have "risky_change (ge_integrity (gate_for (reg 1) ?rv ge)) new n (policy_definition rt1 t, sources t)"
      "gate_acts_on (gate_for (reg 1) ?rv ge) ?cat new n (policy_definition rt1 t)"
    using assms(8,9) by (simp_all add: baseline_judged [OF pins1(3)] gate_for_def)
  ultimately show "gate_demands (gate_for (reg 1) ?rv ge) ?cat st1 n"
    using assms(5) pins1(1,2) unfolding gate_demands_def by blast
qed

text \<open>A router with the reworded tool of the sample stores, under Strict.\<close>

definition kit_router :: "nat router" where
  "kit_router = the (add_with_reconnect sample_env
     (sample_server\<lparr>sc_id := ''kit'', sc_tools := [JObj [(''description'', JStr ''new''), (''name'', JStr ''show'')]]\<rparr>)
     (with_policy default_tool_policy))"

definition strict_readings :: "nat \<Rightarrow> registry" where
  "strict_readings _ = sample_registry\<lparr>r_safety_level := Some Strict\<rparr>"

definition publish_kit :: "bool \<Rightarrow> stores \<Rightarrow> (nat router \<times> json list) option \<times> stores" where
  "publish_kit ok = requarantine_if_needed sample_env (\<lambda>_. None) strict_readings None sample_gate (sample_faults ok) id kit_router [sample_tool ''new'']"

lemma kit_reachable: "reachable (\<lambda>rt. \<exists>p. rt = with_policy p) (catalog_step sample_env) kit_router"
proof -
  let ?sc = "sample_server\<lparr>sc_id := ''kit'', sc_tools := [JObj [(''description'', JStr ''new''), (''name'', JStr ''show'')]]\<rparr>"
  have "add_with_reconnect sample_env ?sc (with_policy default_tool_policy) \<noteq> None" by code_simp
  then have "catalog_step sample_env (with_policy default_tool_policy) kit_router"
    by (auto simp: kit_router_def intro: catalog_step.intros)
  then show ?thesis by (rule reach_step [OF reach_init, rotated]) blast
qed

lemma publish_kit_runs:
  "fst (publish_kit ok st) \<noteq> None \<Longrightarrow> \<exists>rt tools st'. publish_kit ok st = (Some (rt, tools), st') \<and> fst (publish_kit ok st) = Some (rt, tools)"
  by (metis option.exhaust prod.collapse)

lemma kit_routed: "map_of (rt_routes kit_router) ''kit__show'' = Some (''kit'', ''show'')"
  by code_simp

theorem changed_tool_not_published_witness:
  "map_of (rt_routes kit_router) ''kit__show'' = Some (''kit'', ''show'') \<and>
   (\<exists>rt tools. fst (publish_kit False sample_stores) = Some (rt, tools) \<and>
      (\<forall>e p. map_of (rt_routes rt) e = Some p \<longrightarrow> policy_name rt e \<noteq> ''kit__show''))"
proof -
  have "fst (publish_kit False sample_stores) \<noteq> None" by code_simp
  then obtain rt tools st' where run: "publish_kit False sample_stores = (Some (rt, tools), st')"
    and fst: "fst (publish_kit False sample_stores) = Some (rt, tools)" using publish_kit_runs by metis
  have lift: "lift_reviews sample_env (cached_review_pins (ge_remembered sample_gate) sample_stores) kit_router [sample_tool ''new''] =
      Some (kit_router, [sample_tool ''new''])" by code_simp
  have name: "jget_str ''name'' (policy_definition kit_router (sample_tool ''new'')) = Some ''kit__show''" by code_simp
  have risk: "risky_change (ge_integrity sample_gate) sample_old ''kit__show'' (policy_definition kit_router (sample_tool ''new''), None)"
    by code_simp
  have acts: "gate_acts_on (gate_for (strict_readings 1) (cached_review_pins (ge_remembered sample_gate) sample_stores) sample_gate)
      (policy_catalog kit_router (\<lambda>_. None) [sample_tool ''new'']) sample_old ''kit__show'' (policy_definition kit_router (sample_tool ''new''))"
    by code_simp
  show ?thesis
    using changed_tool_not_published [OF run [unfolded publish_kit_def] kit_reachable lift _ name sample_change(1,4) risk acts] fst kit_routed by auto
qed

lemma reconcile_unusable:
  "load_pins st = PinsUnusable \<Longrightarrow> reconcile_definition_reviews f reg profile rv present st = (r, st') \<Longrightarrow> st' = st"
  by (auto simp: reconcile_definition_reviews_def split: if_splits)

text \<open>C8: After the baseline is lost the published router offers none of the tools it was built with: where the level blocks at
  all, no route and no listed tool has the policy name of one of them.\<close>

theorem lost_baseline_not_published:
  assumes "requarantine_if_needed env sources reg profile ge fs meanwhile rt tools st = (Some (rt', tools'), st')"
    and "reachable (\<lambda>rt. \<exists>p. rt = with_policy p) (catalog_step env) rt"
    and "lift_reviews env (cached_review_pins (ge_remembered ge) st) rt tools = Some (rt1, tools1)"
    and "t \<in> set tools1" and "jget_str ''name'' (policy_definition rt1 t) = Some n"
    and "load_pins st = PinsUnusable" and "safety_level_effective (reg 1) \<noteq> Off"
  shows "(\<forall>e p. map_of (rt_routes rt') e = Some p \<longrightarrow> policy_name rt' e \<noteq> n) \<and>
    (\<forall>d \<in> set tools'. jget_str ''name'' (policy_definition rt' d) \<noteq> Some n)"
proof (rule published_hides [OF assms(1) catalog_sys.reachable_inv [OF assms(2)] assms(3)])
  let ?rv = "cached_review_pins (ge_remembered ge) st" and ?cat = "policy_catalog rt1 sources tools1"
  fix st1 r
  assume rec: "reconcile_definition_reviews (fs 7) (reg 0) profile ?rv (indexed_policy_names_for (\<lambda>_. True) rt1) st = (r, st1)"
  have "n \<in> set (catalog_names ?cat)"
    using assms(4,5) by (force simp: catalog_names_def policy_catalog_def List.map_filter_def)
  then show "gate_demands (gate_for (reg 1) ?rv ge) ?cat st1 n"
    using assms(6,7) reconcile_unusable [OF assms(6) rec] by (simp add: gate_demands_def gate_for_def)
qed

theorem lost_baseline_not_published_witness:
  "\<exists>rt tools. fst (publish_kit True (sample_stores\<lparr>st_pins := FileBroken\<rparr>)) = Some (rt, tools) \<and>
      (\<forall>e p. map_of (rt_routes rt) e = Some p \<longrightarrow> policy_name rt e \<noteq> ''kit__show'')"
proof -
  let ?st = "sample_stores\<lparr>st_pins := FileBroken\<rparr>"
  have "fst (publish_kit True ?st) \<noteq> None" by code_simp
  then obtain rt tools st' where run: "publish_kit True ?st = (Some (rt, tools), st')"
    and fst: "fst (publish_kit True ?st) = Some (rt, tools)" using publish_kit_runs by metis
  have lift: "lift_reviews sample_env (cached_review_pins (ge_remembered sample_gate) ?st) kit_router [sample_tool ''new''] =
      Some (kit_router, [sample_tool ''new''])" by code_simp
  have name: "jget_str ''name'' (policy_definition kit_router (sample_tool ''new'')) = Some ''kit__show''" by code_simp
  have lost: "load_pins ?st = PinsUnusable" "safety_level_effective (strict_readings 1) \<noteq> Off" by code_simp+
  show ?thesis
    using lost_baseline_not_published [OF run [unfolded publish_kit_def] kit_reachable lift _ name lost] fst by auto
qed

end
