(* ===== verification/Spec2Isabelle.thy ===== *)
theory Spec2Isabelle
  imports Shaping RateLimits DownstreamBackoff ApprovalBroker CancelRegistry SchemaCalls IntegrityRouter
begin

text \<open>
  A verification development for Toolport (\<open>src-tauri/src\<close>), a desktop application and a gateway process that
  stand between MCP clients and the MCP servers a user connects. The gateway connects the servers of
  a registry, offers their tools, resources and prompts to clients under its own names, and decides
  for each call whether it may pass. The root theory holds no definitions; each part of the program
  has its own theories, and each opens with a text on what it models.

  \<^bold>\<open>The program's parts and how they interact.\<close> The registry says which servers, profiles, clients and
  tools are on and how strict the gateway is. From it the gateway derives a tool policy and builds a
  router: it indexes what each server advertises under exposed names, hides what the policy blocks,
  and rewrites schemas for strict clients. Before a router is published it passes the integrity gate,
  which compares each definition with the pinned one and quarantines what changed. A call is
  authorized by the router, its arguments get back the names the server knows, and it is dispatched
  to the server's slot through a circuit breaker with retries; the supervisor of the slot connects and
  reconnects the server. Destructive calls ask the user through the approval broker of the desktop
  application. The result is shaped to a byte budget, with the rest kept for paging in an expiring
  store, and labelled with where it came from.

  \<^bold>\<open>Shared vocabulary.\<close> \<open>Prelude\<close>: Rust strings as lists of bytes, string operations and saturating
  numbers, reachability, and two locales, \<open>invariant_system\<close> (an invariant kept by every step
  holds in every reachable state) and \<open>refinement\<close> (related machines give the same answers), which the
  components interpret. \<open>Json\<close>: \<open>serde_json::Value\<close> with objects as sorted association lists, and the accessors the
  code uses. \<open>CounterFile\<close>: the small JSON counter files several processes merge into, with the locale
  \<open>merge_op\<close> that \<open>RateLimits\<close> and \<open>DownstreamBackoff\<close> interpret.

  \<^bold>\<open>Registry.\<close>
  \<^item> \<open>SecretRefs\<close> (\<open>secret_refs.rs\<close>): references into password managers, as a closed table of providers.
  \<^item> \<open>NetGuard\<close> (\<open>oauth.rs\<close>): the guard against requests into the private network, on 32- and 128-bit addresses;
    it refuses whenever a host cannot be resolved and for every private, local or mapped address.
  \<^item> \<open>ServerEntry\<close> (\<open>registry.rs\<close>, \<open>launch_inputs.rs\<close>): a server and its launch inputs, with an exact
    characterisation of the launches that validate.
  \<^item> \<open>RegistryIds\<close>, \<open>Registry\<close>, \<open>RegistrySafety\<close>, \<open>RegistryProps\<close> (\<open>registry.rs\<close> with parts of
    \<open>local_auth.rs\<close>): the registry as a record, every operation on servers, profiles, scopes, tools and
    the safety level. The invariant holds in every reachable registry; scopes never widen by an
    ambiguous or deleted name; removing a server removes every trace of it; a team can only tighten.
  \<^item> \<open>ToolPolicy\<close> (\<open>router.rs\<close>, \<open>tool_definitions.rs\<close>, the gateway binary): which tools look destructive and
    how a policy is derived from a registry; it grants exactly what the registry grants.

  \<^bold>\<open>Router.\<close>
  \<^item> \<open>ToolNames\<close>, \<open>NameAllocation\<close> (\<open>router.rs\<close>): sanitised and bounded names, and the allocation of distinct
    ones independently of the order in which servers list their tools.
  \<^item> \<open>UriTemplate\<close>: matching an expanded URI against a template, equal to a reference definition of matching.
  \<^item> \<open>SchemaRefs\<close>: inlining of local references, with its bounds.
  \<^item> \<open>RouterCatalog\<close>, \<open>CatalogProps\<close>, \<open>CatalogSafety\<close>, \<open>RouterAuth\<close>: the catalog with every operation that changes
    it, the invariant of its reachable states, the enforcement of a registry policy on the catalog and at
    the recheck of a call, failing closed, and the message for an unknown name, which does not depend
    on anything outside the scope of the caller.
  \<^item> \<open>SchemaKeys\<close>, \<open>SchemaCompat\<close>, \<open>SchemaRestore\<close>, \<open>SchemaRoundtrip\<close> (\<open>schema_compat.rs\<close>) and
    \<open>SchemaCalls\<close> (\<open>router.rs\<close>): keys renamed for strict clients, repaired numbers, the plan that renames
    arguments back, and that a call sends the values it was given.
  \<^item> \<open>RouterCalls\<close>: tool calls, tasks with sealed handles, resources, subscriptions, prompts and completions;
    a call contacts at most the one server it is routed to.

  \<^bold>\<open>Connections.\<close>
  \<^item> \<open>CallFailure\<close>, \<open>ClientErrors\<close>: the categories of a failure and what a client may see of it.
  \<^item> \<open>CircuitBreaker\<close>, \<open>Supervisor\<close>, \<open>Dispatch\<close>: the breaker as a refinement of the log of failures, connecting
    in the background as a step relation, and one dispatch with its retries, which never repeats a call
    that may have taken effect.
  \<^item> \<open>DownstreamBackoff\<close>, \<open>CancelRegistry\<close>: the windows processes share after an answer of 429, and the
    cancellation of requests in flight, which is not lost in any interleaving.

  \<^bold>\<open>Integrity.\<close>
  \<^item> \<open>IntegrityPins\<close>, \<open>IntegrityStore\<close>, \<open>IntegrityQuarantine\<close> (\<open>integrity.rs\<close>): pins and fingerprints, how
    a change is classified, the pin store with its backup, the quarantine store, the check of a catalog,
    blocking, and every form of release.
  \<^item> \<open>IntegrityGate\<close> (\<open>maybe_check_integrity\<close> in \<open>bin/toolport-gateway.rs\<close>), with its proofs in
    \<open>IntegritySafety\<close> and \<open>IntegrityProps\<close>: a change the level acts on is held whatever lock or write fails,
    it is never accepted unseen, and a release pins what was captured before it lifts a block.
  \<^item> \<open>IntegrityRouter\<close> (\<open>requarantine_if_needed\<close> in \<open>bin/toolport-gateway.rs\<close>): the gate on a router about to be published, through
    the locale \<open>integrity_gate\<close>; a changed tool is neither routed nor listed by the published router. One lemma of
    \<open>IntegrityProps\<close> shows a case the gate lets pass, a renamed tool that sheds its approval.

  \<^bold>\<open>Approval, limits and results.\<close>
  \<^item> \<open>Approval\<close>, \<open>ApprovalBroker\<close> (\<open>approval.rs\<close>, \<open>approval_broker.rs\<close>): the contract and wire protocol, which
    fails closed, and the broker's queue as a step relation whose approvals come from the user, an
    allowlist or a session grant.
  \<^item> \<open>RateLimits\<close> (\<open>rate_limits.rs\<close>), \<open>UsageReport\<close> (\<open>usage_report.rs\<close>): caps by UTC day, and the calendar and rollup
    they share.
  \<^item> \<open>SessionStore\<close>, \<open>Integrity\<close>, \<open>Shaping\<close> (\<open>session_store.rs\<close>, \<open>integrity.rs\<close>, \<open>shaping.rs\<close>): the bounded
    expiring store (locale \<open>ttl_store\<close>), labels on untrusted results, and shaping with paging: within the
    budget, readable only by its owner, and complete when read page by page.

  \<^bold>\<open>Conventions.\<close> State is a record, errors are values of sum or option types, and each step of a state
  machine is a constructor of an inductive relation or a function on the record. Hash maps and B-tree maps are
  association lists; where the code's order matters they are kept sorted. Strings are byte lists, so
  lengths and slices count bytes, and a slice that would panic in the code is \<open>None\<close>. Times are natural
  numbers in the unit of the code. What an environment may do (locks that fail, writes that fail,
  answers of servers, random bytes, other processes) is an argument, and the theorems hold for every value of it.

  \<^bold>\<open>Bounds and fuel.\<close> Recursions are structural or have a measure. Three loops carry a bound.
  Inlining references has the depth and node limits of the code. Restoring arguments descends at most the
  height of the arguments, and \<open>restore_depth_enough\<close> shows that a larger bound changes nothing. A
  dispatch makes at most four calls, by its retry limit, which is shown and not assumed.
  The search for a free name is shown to end after at most as many steps as there are names in use.

  \<^bold>\<open>Parameters.\<close> Code of packages is an argument of the definitions that use it: JSON text and reading it,
  SHA-256 and HMAC, regular expressions, the cipher and Base64 of task handles, URL parsing, the DNS
  resolver, Unicode tables, floating-point tests on numbers, key stores and the clock.
  A theorem that needs one of them to behave says so in a hypothesis, and its witness instantiates it.

  \<^bold>\<open>Not modelled.\<close> The user interfaces (the desktop shell, the native Linux interface, the web front end);
  child processes, pipes, sockets and HTTP streams of the transports and the MCP front end over them;
  OAuth flows, key stores and file encryption; client configuration files, skills and
  the migration of registry files, which are file-system work on text formats of packages; code mode, which
  is an embedded JavaScript engine; semantic search and the scoring of injected text, which are floating
  point; the filter for personal data and the injection patterns, which are regular expressions of a
  package; team sync, publishing to clients, logs, metrics and telemetry. Concurrency is modelled where the code
  orders it (the broker, cancellation, supervisors, shared counter files, the integrity gate against other processes);
  elsewhere an operation is one step under its lock.
\<close>

end
